(* ===== verification/Prelude.thy ===== *)
theory Prelude
  imports Main "HOL-Library.Char_ord" "HOL-Library.List_Lexorder"
    "HOL-Library.Product_Lexorder" "HOL-Library.Word"
begin

section \<open>Shared vocabulary: results, strings, formatted messages, ordered maps\<close>

text \<open>
  What the components share: the short-circuiting loops of Rust's \<open>?\<close> operator, the
  string functions of its standard library that the code calls (a Rust \<open>String\<close> is its
  list of UTF-8 bytes, one \<^typ>\<open>char\<close> per byte), the arguments of a \<open>format!\<close> call, the
  \<open>BTreeMap\<close> of the standard library as an ordered association list behind the locale
  \<open>ordered_map\<close>, and the locale \<open>transition_invariant\<close> which every state machine of
  the development instantiates.
\<close>

type_synonym u32 = "32 word"
type_synonym u64 = "64 word"

named_theorems outcome_simps \<open>unfolding rules of the result combinators\<close>
named_theorems btree_simps \<open>equations of the ordered map operations\<close>

subsection \<open>Results and the question mark\<close>

text \<open>A fallible operation returns \<open>Inl error\<close> or \<open>Inr value\<close>; \<open>try_bind r f\<close> is \<open>f(r?)\<close>.\<close>

definition try_bind :: "'e + 'a \<Rightarrow> ('a \<Rightarrow> 'e + 'b) \<Rightarrow> 'e + 'b" where
  "try_bind r f = (case r of Inl e \<Rightarrow> Inl e | Inr x \<Rightarrow> f x)"

lemma try_bind_Inl [simp, outcome_simps]: "try_bind (Inl e) f = Inl e"
  by (simp add: try_bind_def)

lemma try_bind_Inr [simp, outcome_simps]: "try_bind (Inr x) f = f x"
  by (simp add: try_bind_def)

lemma try_bind_eq_Inr:
  "try_bind r f = Inr y \<longleftrightarrow> (\<exists>x. r = Inr x \<and> f x = Inr y)"
  by (cases r) simp_all

lemma try_bind_eq_Inl:
  "try_bind r f = Inl e \<longleftrightarrow> r = Inl e \<or> (\<exists>x. r = Inr x \<and> f x = Inl e)"
  by (cases r) auto

lemma try_bind_cong [fundef_cong]:
  "r = r' \<Longrightarrow> (\<And>x. r' = Inr x \<Longrightarrow> f x = g x) \<Longrightarrow> try_bind r f = try_bind r' g"
  by (cases r') simp_all

text \<open>\<open>iter().map(f).collect::<Result<Vec<_>, _>>()\<close>: the first failure stops the loop.\<close>

fun try_map :: "('a \<Rightarrow> 'e + 'b) \<Rightarrow> 'a list \<Rightarrow> 'e + 'b list" where
  "try_map f [] = Inr []"
| "try_map f (x # xs) = try_bind (f x) (\<lambda>y. try_bind (try_map f xs) (\<lambda>ys. Inr (y # ys)))"

text \<open>\<open>for x in xs { f(x)?; }\<close>.\<close>

fun try_each :: "('a \<Rightarrow> 'e + unit) \<Rightarrow> 'a list \<Rightarrow> 'e + unit" where
  "try_each f [] = Inr ()"
| "try_each f (x # xs) = try_bind (f x) (\<lambda>_. try_each f xs)"

lemma try_map_cong [fundef_cong]:
  "xs = ys \<Longrightarrow> (\<And>x. x \<in> set ys \<Longrightarrow> f x = g x) \<Longrightarrow> try_map f xs = try_map g ys"
  by (induction ys arbitrary: xs) auto

lemma try_each_cong [fundef_cong]:
  "xs = ys \<Longrightarrow> (\<And>x. x \<in> set ys \<Longrightarrow> f x = g x) \<Longrightarrow> try_each f xs = try_each g ys"
  by (induction ys arbitrary: xs) auto

lemma try_each_ok: "try_each f xs = Inr () \<longleftrightarrow> (\<forall>x\<in>set xs. f x = Inr ())"
  by (induction xs) (auto simp: try_bind_eq_Inr)

lemma try_each_err:
  "try_each f xs = Inl e \<longleftrightarrow>
    (\<exists>us x vs. xs = us @ x # vs \<and> (\<forall>u\<in>set us. f u = Inr ()) \<and> f x = Inl e)"
proof (induction xs)
  case Nil
  then show ?case by simp
next
  case (Cons y ys)
  show ?case
  proof (cases "f y")
    case (Inl d)
    then show ?thesis
      by (fastforce simp: Cons_eq_append_conv)
  next
    case (Inr z)
    then show ?thesis using Cons.IH
      by (auto simp: Cons_eq_append_conv) (metis list.set_intros(2) set_ConsD)+
  qed
qed

lemma try_map_ok:
  "try_map f xs = Inr ys \<longleftrightarrow> list_all2 (\<lambda>x y. f x = Inr y) xs ys"
  by (induction xs arbitrary: ys) (auto simp: try_bind_eq_Inr list_all2_Cons1)

lemma try_map_id: "(\<And>x. x \<in> set xs \<Longrightarrow> f x = Inr x) \<Longrightarrow> try_map f xs = Inr xs"
  by (induction xs) auto

subsection \<open>Strings\<close>

text \<open>\<open>str::strip_prefix\<close>, \<open>str::strip_suffix\<close>, \<open>str::starts_with\<close>, \<open>str::contains\<close>, \<open>str::split\<close>.\<close>

definition strip_prefix :: "string \<Rightarrow> string \<Rightarrow> string option" where
  "strip_prefix p s = (if take (length p) s = p then Some (drop (length p) s) else None)"

definition strip_suffix :: "string \<Rightarrow> string \<Rightarrow> string option" where
  "strip_suffix p s = map_option rev (strip_prefix (rev p) (rev s))"

definition starts_with :: "string \<Rightarrow> string \<Rightarrow> bool" where
  "starts_with p s \<longleftrightarrow> take (length p) s = p"

fun contains_str :: "string \<Rightarrow> string \<Rightarrow> bool" where
  "contains_str p [] = (p = [])"
| "contains_str p (c # s) = (starts_with p (c # s) \<or> contains_str p s)"

fun split_on :: "char \<Rightarrow> string \<Rightarrow> string list" where
  "split_on d [] = [[]]"
| "split_on d (c # s) =
    (if c = d then [] # split_on d s
     else (case split_on d s of [] \<Rightarrow> [[c]] | p # ps \<Rightarrow> (c # p) # ps))"

text \<open>\<open>[String]::join\<close> with a one-byte separator, the inverse of \<open>split\<close>.\<close>

fun join_with :: "char \<Rightarrow> string list \<Rightarrow> string" where
  "join_with d [] = []"
| "join_with d [p] = p"
| "join_with d (p # q # ps) = p @ d # join_with d (q # ps)"

lemma split_on_nonempty [simp]: "split_on d s \<noteq> []"
  by (induction s) (auto split: list.splits)

lemma split_on_plain: "d \<notin> set s \<Longrightarrow> split_on d s = [s]"
  by (induction s) auto

lemma split_on_append: "d \<notin> set p \<Longrightarrow> split_on d (p @ d # s) = p # split_on d s"
  by (induction p) auto

lemma split_on_parts: "p \<in> set (split_on d s) \<Longrightarrow> d \<notin> set p"
proof (induction s arbitrary: p)
  case Nil
  then show ?case by simp
next
  case (Cons c s)
  then show ?case
    by (cases "split_on d s") (auto split: if_splits)
qed

lemma split_join:
  "ps \<noteq> [] \<Longrightarrow> \<forall>p\<in>set ps. d \<notin> set p \<Longrightarrow> split_on d (join_with d ps) = ps"
  by (induction d ps rule: join_with.induct) (auto simp: split_on_plain split_on_append)

lemma join_split: "join_with d (split_on d s) = s"
proof (induction s)
  case Nil
  then show ?case by simp
next
  case (Cons c s)
  obtain p ps where "split_on d s = p # ps"
    by (cases "split_on d s") auto
  with Cons show ?case by (cases ps) auto
qed

text \<open>
  \<open>str::trim\<close> and Unicode white space: \<open>strip_ws\<close> drops leading encodings of the
  characters with the White\_Space property (U+0009..U+000D, U+0020, U+0085, U+00A0, U+1680,
  U+2000..U+200A, U+2028, U+2029, U+202F, U+205F, U+3000); \<open>blank s\<close> is
  \<open>s.trim().is_empty()\<close>.
\<close>

abbreviation byte_of :: "char \<Rightarrow> nat" where
  "byte_of c \<equiv> of_char c"

definition ws1 :: "char \<Rightarrow> bool" where
  "ws1 c \<longleftrightarrow> (9 \<le> byte_of c \<and> byte_of c \<le> 13) \<or> byte_of c = 32"

definition ws2 :: "char \<Rightarrow> char \<Rightarrow> bool" where
  "ws2 a b \<longleftrightarrow> byte_of a = 0xC2 \<and> (byte_of b = 0x85 \<or> byte_of b = 0xA0)"

definition ws3 :: "char \<Rightarrow> char \<Rightarrow> char \<Rightarrow> bool" where
  "ws3 a b c \<longleftrightarrow>
    (byte_of a = 0xE1 \<and> byte_of b = 0x9A \<and> byte_of c = 0x80)
    \<or> (byte_of a = 0xE2 \<and> byte_of b = 0x80 \<and>
        ((0x80 \<le> byte_of c \<and> byte_of c \<le> 0x8A) \<or> byte_of c \<in> {0xA8, 0xA9, 0xAF}))
    \<or> (byte_of a = 0xE2 \<and> byte_of b = 0x81 \<and> byte_of c = 0x9F)
    \<or> (byte_of a = 0xE3 \<and> byte_of b = 0x80 \<and> byte_of c = 0x80)"

fun blank :: "string \<Rightarrow> bool" where
  "blank [] = True"
| "blank (a # s) =
    (if ws1 a then blank s
     else (case s of
        [] \<Rightarrow> False
      | b # s' \<Rightarrow>
          if ws2 a b then blank s'
          else (case s' of [] \<Rightarrow> False | c # s'' \<Rightarrow> ws3 a b c \<and> blank s'')))"

lemma blank_spaces: "(\<forall>c\<in>set s. ws1 c) \<Longrightarrow> blank s"
  by (induction s) auto

lemma not_blank_graphic: "32 < byte_of a \<Longrightarrow> byte_of a < 0xC2 \<Longrightarrow> \<not> blank (a # s)"
  by (auto simp: ws1_def ws2_def ws3_def split: list.splits)

text \<open>Byte classes: \<open>u8::is_ascii_digit\<close>, \<open>is_ascii_lowercase\<close>, \<open>is_ascii_alphabetic\<close>, \<open>is_ascii_alphanumeric\<close>.\<close>

definition is_digit :: "char \<Rightarrow> bool" where
  "is_digit c \<longleftrightarrow> 48 \<le> byte_of c \<and> byte_of c \<le> 57"

definition is_lower :: "char \<Rightarrow> bool" where
  "is_lower c \<longleftrightarrow> 97 \<le> byte_of c \<and> byte_of c \<le> 122"

definition is_alpha :: "char \<Rightarrow> bool" where
  "is_alpha c \<longleftrightarrow> is_lower c \<or> (65 \<le> byte_of c \<and> byte_of c \<le> 90)"

definition is_alnum :: "char \<Rightarrow> bool" where
  "is_alnum c \<longleftrightarrow> is_alpha c \<or> is_digit c"

lemmas char_class_defs = is_alnum_def is_alpha_def is_lower_def is_digit_def

subsection \<open>Decimal rendering\<close>

text \<open>\<open>Display\<close> of an unsigned integer.\<close>

fun dec :: "nat \<Rightarrow> string" where
  "dec n = (if n < 10 then [char_of (48 + n)] else dec (n div 10) @ [char_of (48 + n mod 10)])"

declare dec.simps [simp del]

fun undec :: "nat \<Rightarrow> string \<Rightarrow> nat" where
  "undec acc [] = acc"
| "undec acc (c # s) = undec (10 * acc + (byte_of c - 48)) s"

lemma undec_append: "undec acc (s @ t) = undec (undec acc s) t"
  by (induction s arbitrary: acc) auto

lemma undec_dec: "undec 0 (dec n) = n"
proof (induction n rule: dec.induct)
  case (1 n)
  show ?case
  proof (cases "n < 10")
    case True
    then show ?thesis by (simp add: dec.simps [of n])
  next
    case False
    with 1 have "undec 0 (dec (n div 10)) = n div 10" by simp
    moreover have "byte_of (char_of (48 + n mod 10)) = 48 + n mod 10" by simp
    ultimately show ?thesis using False
      by (simp add: dec.simps [of n] undec_append)
  qed
qed

lemma dec_inj: "dec m = dec n \<longleftrightarrow> m = n"
  by (metis undec_dec)

lemma dec_digits: "c \<in> set (dec n) \<Longrightarrow> is_digit c"
proof (induction n rule: dec.induct)
  case (1 n)
  then show ?case
    by (cases "n < 10") (auto simp: dec.simps [of n] is_digit_def)
qed

lemma dec_nonempty [simp]: "dec n \<noteq> []"
  by (subst dec.simps) simp

subsection \<open>Formatted messages\<close>

text \<open>
  A message is the list of arguments of the \<open>format!\<close> call that builds it: \<open>Text\<close> for
  literal text and \<open>Display\<close> arguments, \<open>Dbg\<close> for a string printed with \<open>{:?}\<close>, whose
  escaping stays symbolic.
\<close>

datatype frag = Text string | Dbg string

type_synonym message = "frag list"

abbreviation msg :: "string \<Rightarrow> message" where
  "msg s \<equiv> [Text s]"

subsection \<open>Ordered maps: the standard library's BTreeMap\<close>

text \<open>
  A \<open>BTreeMap<K, V>\<close> is the association list of its entries in key order, which is the
  order its iterators use. The code relies on the laws of the locale \<open>ordered_map\<close>; the
  interpretation \<open>bt\<close> proves them for the list operations below.
\<close>

type_synonym ('k, 'v) btree = "('k \<times> 'v) list"

fun bt_insert :: "'k::linorder \<Rightarrow> 'v \<Rightarrow> ('k, 'v) btree \<Rightarrow> ('k, 'v) btree" where
  "bt_insert k v [] = [(k, v)]"
| "bt_insert k v (e # m) =
    (if fst e < k then e # bt_insert k v m
     else if fst e = k then (k, v) # m
     else (k, v) # e # m)"

definition bt_remove :: "'k \<Rightarrow> ('k, 'v) btree \<Rightarrow> ('k, 'v) btree" where
  "bt_remove k m = filter (\<lambda>e. fst e \<noteq> k) m"

definition bt_get :: "('k, 'v) btree \<Rightarrow> 'k \<Rightarrow> 'v option" where
  "bt_get m k = map_of m k"

definition bt_contains :: "('k, 'v) btree \<Rightarrow> 'k \<Rightarrow> bool" where
  "bt_contains m k \<longleftrightarrow> bt_get m k \<noteq> None"

definition bt_keys :: "('k, 'v) btree \<Rightarrow> 'k list" where
  "bt_keys m = map fst m"

definition bt_wf :: "('k::linorder, 'v) btree \<Rightarrow> bool" where
  "bt_wf m \<longleftrightarrow> sorted_wrt (<) (map fst m)"

text \<open>\<open>map.entry(k).or_default()\<close> followed by an update of the slot.\<close>

definition bt_adjust :: "'k::linorder \<Rightarrow> 'v \<Rightarrow> ('v \<Rightarrow> 'v) \<Rightarrow> ('k, 'v) btree \<Rightarrow> ('k, 'v) btree" where
  "bt_adjust k d f m = bt_insert k (f (case bt_get m k of None \<Rightarrow> d | Some v \<Rightarrow> v)) m"

lemma bt_get_empty [simp, btree_simps]: "bt_get [] k = None"
  by (simp add: bt_get_def)

lemma bt_get_insert [simp, btree_simps]:
  "bt_get (bt_insert k v m) = (bt_get m)(k \<mapsto> v)"
  by (rule ext, induction m) (auto simp: bt_get_def)

lemma bt_get_remove [simp, btree_simps]:
  "bt_get (bt_remove k m) = (bt_get m)(k := None)"
  by (rule ext, induction m) (auto simp: bt_get_def bt_remove_def)

lemma bt_keys_set [simp, btree_simps]: "set (bt_keys m) = {k. bt_get m k \<noteq> None}"
  by (auto simp: bt_keys_def bt_get_def map_of_eq_None_iff)

lemma bt_keys_sorted: "bt_wf m \<Longrightarrow> sorted_wrt (<) (bt_keys m)"
  by (simp add: bt_wf_def bt_keys_def)

lemma bt_insert_keys: "set (map fst (bt_insert k v m)) = insert k (set (map fst m))"
  by (induction m) auto

lemma bt_wf_empty [simp]: "bt_wf []"
  by (simp add: bt_wf_def)

lemma bt_wf_insert [simp]: "bt_wf m \<Longrightarrow> bt_wf (bt_insert k v m)"
proof (induction m)
  case Nil
  then show ?case by (simp add: bt_wf_def)
next
  case (Cons e m)
  then have "bt_wf (bt_insert k v m)" and "\<forall>x\<in>set (map fst m). fst e < x"
    by (auto simp: bt_wf_def)
  moreover have "set (map fst (bt_insert k v m)) = insert k (set (map fst m))"
    by (rule bt_insert_keys)
  ultimately show ?case
    using Cons.prems by (auto simp: bt_wf_def simp del: set_map)
qed

lemma bt_wf_remove [simp]: "bt_wf m \<Longrightarrow> bt_wf (bt_remove k m)"
  by (induction m) (auto simp: bt_wf_def bt_remove_def)

lemma bt_sorted_ext:
  "bt_wf m \<Longrightarrow> bt_wf n \<Longrightarrow> map_of m = map_of n \<Longrightarrow> m = n"
proof (induction m arbitrary: n)
  case Nil
  then show ?case
    by (cases n) (auto simp: fun_eq_iff split: if_splits)
next
  case (Cons e m)
  obtain k v where e: "e = (k, v)" by (cases e)
  obtain e' n' where n: "n = e' # n'"
    using Cons.prems(3) e by (cases n) (auto simp: fun_eq_iff split: if_splits)
  obtain k' v' where e': "e' = (k', v')" by (cases e')
  have dom: "insert k (set (map fst m)) = insert k' (set (map fst n'))"
    using arg_cong [OF Cons.prems(3), of dom] e e' n
    by (simp only: dom_map_of_conv_image_fst) simp
  have lt: "\<forall>x\<in>set (map fst m). k < x" "\<forall>x\<in>set (map fst n'). k' < x"
    using Cons.prems(1,2) e e' n by (auto simp: bt_wf_def)
  have "k = k'"
    using dom lt by (metis insert_iff order_less_asym)
  moreover have "v = v'"
    using Cons.prems(3) e e' n \<open>k = k'\<close> by (auto simp: fun_eq_iff split: if_splits)
  moreover have "map_of m = map_of n'"
  proof
    fix x
    have "map_of m k = None" and "map_of n' k = None"
      using lt \<open>k = k'\<close> by (auto simp: map_of_eq_None_iff)
    moreover have "map_of (e # m) x = map_of n x" by (rule fun_cong [OF Cons.prems(3)])
    ultimately show "map_of m x = map_of n' x"
      using e e' n \<open>k = k'\<close> by (cases "x = k") simp_all
  qed
  moreover have "bt_wf m" "bt_wf n'"
    using Cons.prems(1,2) n by (auto simp: bt_wf_def)
  ultimately have "m = n'" by (intro Cons.IH)
  then show ?case using e e' n \<open>k = k'\<close> \<open>v = v'\<close> by simp
qed

locale ordered_map =
  fixes empty :: "'m"
    and insert :: "'k::linorder \<Rightarrow> 'v \<Rightarrow> 'm \<Rightarrow> 'm"
    and remove :: "'k \<Rightarrow> 'm \<Rightarrow> 'm"
    and get :: "'m \<Rightarrow> 'k \<Rightarrow> 'v option"
    and keys :: "'m \<Rightarrow> 'k list"
    and wf :: "'m \<Rightarrow> bool"
  assumes get_empty: "get empty k = None"
    and get_insert: "get (insert k v m) = (get m)(k \<mapsto> v)"
    and get_remove: "get (remove k m) = (get m)(k := None)"
    and keys_dom: "set (keys m) = {k. get m k \<noteq> None}"
    and keys_sorted: "wf m \<Longrightarrow> sorted_wrt (<) (keys m)"
    and wf_empty: "wf empty"
    and wf_insert: "wf m \<Longrightarrow> wf (insert k v m)"
    and wf_remove: "wf m \<Longrightarrow> wf (remove k m)"
    and extensional: "wf m \<Longrightarrow> wf n \<Longrightarrow> get m = get n \<Longrightarrow> m = n"
begin

lemma insert_overwrites: "wf m \<Longrightarrow> insert k v (insert k u m) = insert k v m"
  by (rule extensional) (simp_all add: wf_insert get_insert)

lemma insert_commute: "wf m \<Longrightarrow> k \<noteq> l \<Longrightarrow> insert k v (insert l u m) = insert l u (insert k v m)"
  by (rule extensional) (simp_all add: wf_insert get_insert fun_upd_twist)

lemma remove_insert: "wf m \<Longrightarrow> get m k = None \<Longrightarrow> remove k (insert k v m) = m"
  by (rule extensional) (auto simp: wf_insert wf_remove get_insert get_remove fun_upd_idem)

lemma remove_absent: "wf m \<Longrightarrow> get m k = None \<Longrightarrow> remove k m = m"
  by (rule extensional) (auto simp: wf_remove get_remove fun_upd_idem)

lemma keys_distinct: "wf m \<Longrightarrow> distinct (keys m)"
  using keys_sorted strict_sorted_iff by blast

end

interpretation bt: ordered_map "[]" bt_insert bt_remove bt_get bt_keys bt_wf
proof unfold_locales
  show "bt_wf m \<Longrightarrow> bt_wf n \<Longrightarrow> bt_get m = bt_get n \<Longrightarrow> m = n" for m n :: "('a, 'b) btree"
    by (rule bt_sorted_ext) (auto simp: bt_get_def fun_eq_iff)
qed (simp_all add: bt_keys_sorted)

lemma bt_adjust_get [simp, btree_simps]:
  "bt_get (bt_adjust k d f m) =
    (bt_get m)(k \<mapsto> f (case bt_get m k of None \<Rightarrow> d | Some v \<Rightarrow> v))"
  by (simp add: bt_adjust_def)

lemma bt_wf_adjust [simp]: "bt_wf m \<Longrightarrow> bt_wf (bt_adjust k d f m)"
  by (simp add: bt_adjust_def)

lemma bt_insert_nonempty [simp]: "bt_insert k v m \<noteq> []"
  by (cases m) auto

lemma bt_get_set: "bt_wf m \<Longrightarrow> (k, v) \<in> set m \<longleftrightarrow> bt_get m k = Some v"
  by (simp add: bt_get_def bt_wf_def strict_sorted_iff)

subsection \<open>State machines\<close>

text \<open>
  A component with interleaved operations is a labelled step relation. \<open>reach\<close> holds of the
  states that its steps lead to from a start state; a machine whose invariant satisfies the
  locale's assumptions keeps it in every reachable state and along every run.
\<close>

inductive reach :: "('s \<Rightarrow> bool) \<Rightarrow> ('s \<Rightarrow> 'l \<Rightarrow> 's \<Rightarrow> bool) \<Rightarrow> 's \<Rightarrow> bool"
  for init step where
  reach_init: "init s \<Longrightarrow> reach init step s"
| reach_step: "reach init step s \<Longrightarrow> step s l t \<Longrightarrow> reach init step t"

inductive run :: "('s \<Rightarrow> 'l \<Rightarrow> 's \<Rightarrow> bool) \<Rightarrow> 's \<Rightarrow> 'l list \<Rightarrow> 's \<Rightarrow> bool"
  for step where
  run_nil: "run step s [] s"
| run_cons: "step s l t \<Longrightarrow> run step t ls u \<Longrightarrow> run step s (l # ls) u"

lemma run_reach: "run step s ls t \<Longrightarrow> reach init step s \<Longrightarrow> reach init step t"
  by (induction rule: run.induct) (auto intro: reach_step)

text \<open>
  A machine given by an executable step function, and the runs of a list of labels: what it
  computes is reachable in the relation it defines.
\<close>

definition exec_rel :: "('l \<Rightarrow> 's \<Rightarrow> 's option) \<Rightarrow> 's \<Rightarrow> 'l \<Rightarrow> 's \<Rightarrow> bool" where
  "exec_rel exec s l t \<longleftrightarrow> exec l s = Some t"

fun exec_run :: "('l \<Rightarrow> 's \<Rightarrow> 's option) \<Rightarrow> 'l list \<Rightarrow> 's \<Rightarrow> 's option" where
  "exec_run exec [] s = Some s"
| "exec_run exec (l # ls) s = (case exec l s of None \<Rightarrow> None | Some t \<Rightarrow> exec_run exec ls t)"

lemma exec_run_run: "exec_run exec ls s = Some t \<Longrightarrow> run (exec_rel exec) s ls t"
  by (induction ls arbitrary: s) (auto simp: exec_rel_def split: option.splits intro: run.intros)

lemma exec_run_reach:
  "exec_run exec ls s = Some t \<Longrightarrow> init s \<Longrightarrow> reach init (exec_rel exec) t"
  by (rule run_reach [OF exec_run_run reach_init])

lemma exec_run_append:
  "exec_run exec (ks @ ls) s = Option.bind (exec_run exec ks s) (exec_run exec ls)"
  by (induction ks arbitrary: s) (auto split: option.splits)

locale transition_invariant =
  fixes init :: "'s \<Rightarrow> bool"
    and step :: "'s \<Rightarrow> 'l \<Rightarrow> 's \<Rightarrow> bool"
    and inv :: "'s \<Rightarrow> bool"
  assumes inv_init: "init s \<Longrightarrow> inv s"
    and inv_step: "inv s \<Longrightarrow> step s l t \<Longrightarrow> inv t"
begin

lemma inv_reach: "reach init step s \<Longrightarrow> inv s"
  by (induction rule: reach.induct) (auto intro: inv_init inv_step)

lemma inv_run: "run step s ls t \<Longrightarrow> inv s \<Longrightarrow> inv t"
  by (induction rule: run.induct) (auto intro: inv_step)

lemma run_guarded: "run step s ls t \<Longrightarrow> inv s \<Longrightarrow> run (\<lambda>s l t. inv s \<and> step s l t) s ls t"
  by (induction rule: run.induct) (auto intro: run.intros inv_step)

end

text \<open>A quantity that never decreases along the steps (a counter, a log, a set of flags).\<close>

locale transition_monotone =
  fixes step :: "'s \<Rightarrow> 'l \<Rightarrow> 's \<Rightarrow> bool"
    and le :: "'s \<Rightarrow> 's \<Rightarrow> bool"
  assumes le_refl: "le s s"
    and le_trans: "le s t \<Longrightarrow> le t u \<Longrightarrow> le s u"
    and le_step: "step s l t \<Longrightarrow> le s t"
begin

lemma le_run: "run step s ls t \<Longrightarrow> le s t"
  by (induction rule: run.induct) (auto intro: le_refl le_trans le_step)

end

end
