(* ===== verification/Json.thy ===== *)
theory Json
  imports Prelude
begin

section \<open>JSON values\<close>

text \<open>
  The values of \<open>serde_json\<close> as the code uses them: a number is an unsigned or a negative
  64-bit integer or a finite double (its IEEE-754 bits); an object is a \<open>BTreeMap\<close> of its
  fields. \<open>json_eq\<close> is the crate's \<open>PartialEq\<close>, which differs from equality of the
  representation only on the two zeros.
\<close>

datatype jnum = PosInt u64 | NegInt u64 | Float u64

datatype json =
    JNull
  | JBool bool
  | JNum jnum
  | JStr string
  | JArr "json list"
  | JObj "(string \<times> json) list"

definition float_eq :: "u64 \<Rightarrow> u64 \<Rightarrow> bool" where
  "float_eq a b \<longleftrightarrow> a = b \<or> (push_bit 1 a = 0 \<and> push_bit 1 b = 0)"

fun num_eq :: "jnum \<Rightarrow> jnum \<Rightarrow> bool" where
  "num_eq (PosInt a) (PosInt b) = (a = b)"
| "num_eq (NegInt a) (NegInt b) = (a = b)"
| "num_eq (Float a) (Float b) = float_eq a b"
| "num_eq _ _ = False"

fun json_eq :: "json \<Rightarrow> json \<Rightarrow> bool"
  and json_list_eq :: "json list \<Rightarrow> json list \<Rightarrow> bool"
  and json_fields_eq :: "(string \<times> json) list \<Rightarrow> (string \<times> json) list \<Rightarrow> bool" where
  "json_eq JNull JNull = True"
| "json_eq (JBool a) (JBool b) = (a = b)"
| "json_eq (JNum a) (JNum b) = num_eq a b"
| "json_eq (JStr a) (JStr b) = (a = b)"
| "json_eq (JArr a) (JArr b) = json_list_eq a b"
| "json_eq (JObj a) (JObj b) = json_fields_eq a b"
| "json_eq _ _ = False"
| "json_list_eq [] [] = True"
| "json_list_eq (a # as) (b # bs) = (json_eq a b \<and> json_list_eq as bs)"
| "json_list_eq _ _ = False"
| "json_fields_eq [] [] = True"
| "json_fields_eq ((k, a) # as) ((l, b) # bs) = (k = l \<and> json_eq a b \<and> json_fields_eq as bs)"
| "json_fields_eq _ _ = False"

fun as_str :: "json \<Rightarrow> string option" where
  "as_str (JStr s) = Some s"
| "as_str _ = None"

fun as_bool :: "json \<Rightarrow> bool option" where
  "as_bool (JBool b) = Some b"
| "as_bool _ = None"

fun as_array :: "json \<Rightarrow> json list option" where
  "as_array (JArr vs) = Some vs"
| "as_array _ = None"

fun as_object :: "json \<Rightarrow> (string, json) btree option" where
  "as_object (JObj m) = Some m"
| "as_object _ = None"

definition i64_max :: u64 where
  "i64_max = 0x7FFFFFFFFFFFFFFF"

fun is_i64 :: "json \<Rightarrow> bool" where
  "is_i64 (JNum (PosInt n)) = (n \<le> i64_max)"
| "is_i64 (JNum (NegInt n)) = True"
| "is_i64 _ = False"

fun is_u64 :: "json \<Rightarrow> bool" where
  "is_u64 (JNum (PosInt n)) = True"
| "is_u64 _ = False"

fun is_number :: "json \<Rightarrow> bool" where
  "is_number (JNum n) = True"
| "is_number _ = False"

text \<open>Every object of a value a parser or a builder made has its fields in key order, once each.\<close>

fun json_wf :: "json \<Rightarrow> bool" where
  "json_wf (JArr vs) = (\<forall>v\<in>set vs. json_wf v)"
| "json_wf (JObj m) = (bt_wf m \<and> (\<forall>e\<in>set m. json_wf (snd e)))"
| "json_wf _ = True"

lemma float_eq_equivp: "equivp float_eq"
  by (rule equivpI) (auto simp: reflp_def symp_def transp_def float_eq_def)

lemma num_eq_refl [simp]: "num_eq a a"
  by (cases a) (auto simp: float_eq_def)

lemma json_list_eq_refl: "(\<And>v. v \<in> set vs \<Longrightarrow> json_eq v v) \<Longrightarrow> json_list_eq vs vs"
  by (induction vs) auto

lemma json_fields_eq_refl: "(\<And>e. e \<in> set fs \<Longrightarrow> json_eq (snd e) (snd e)) \<Longrightarrow> json_fields_eq fs fs"
  by (induction fs) fastforce+

lemma json_eq_refl [simp]: "json_eq v v"
proof (induction v)
  case (JArr vs)
  then show ?case by (simp add: json_list_eq_refl)
next
  case (JObj fs)
  then have "json_fields_eq fs fs"
    by (intro json_fields_eq_refl) (metis snds.intros surjective_pairing)
  then show ?case by simp
qed simp_all

end
