(* ===== verification/Ids.thy ===== *)
theory Ids
  imports Prelude
begin

section \<open>Identifiers (ids.rs)\<close>

text \<open>
  The numeric identifiers are transparent wrappers of \<open>u64\<close>, handed out by process-wide
  counters; service keys, realms and resolved services carry the derived \<open>Ord\<close> of the code,
  which orders the registry's maps.
\<close>

type_synonym scope_id = u64
type_synonym fiber_id = u64
type_synonym resource_id = u64
type_synonym generation = u64
type_synonym realm_label = string

datatype service_key = ServiceKey (sk_name: string) (contract_version: string)

datatype realm = RealmRoot | RealmShared realm_label | RealmPrivate generation

datatype resolved_service = ResolvedService (rs_key: service_key) (rs_realm: realm)

text \<open>\<open>fetch_update\<close> with \<open>checked_add(1)\<close>: \<open>None\<close> is the panic of the exhausted counter.\<close>

definition u64_max :: u64 where
  "u64_max = 0xFFFFFFFFFFFFFFFF"

definition next_id :: "u64 \<Rightarrow> (u64 \<times> u64) option" where
  "next_id c = (if c = u64_max then None else Some (c, c + 1))"

definition id_display :: "string \<Rightarrow> u64 \<Rightarrow> string" where
  "id_display kind i = kind @ '':'' @ dec (unat i)"

definition diagnostic_key :: "service_key \<Rightarrow> string" where
  "diagnostic_key k = sk_name k @ ''@'' @ contract_version k"

fun realm_diagnostic_key :: "realm \<Rightarrow> string" where
  "realm_diagnostic_key RealmRoot = ''root''"
| "realm_diagnostic_key (RealmShared label) = label"
| "realm_diagnostic_key (RealmPrivate g) = ''private-'' @ dec (unat g)"

subsection \<open>The derived orders\<close>

instantiation service_key :: linorder
begin

definition less_eq_service_key :: "service_key \<Rightarrow> service_key \<Rightarrow> bool" where
  "a \<le> b \<longleftrightarrow> (sk_name a, contract_version a) \<le> (sk_name b, contract_version b)"

definition less_service_key :: "service_key \<Rightarrow> service_key \<Rightarrow> bool" where
  "a < b \<longleftrightarrow> (sk_name a, contract_version a) < (sk_name b, contract_version b)"

instance
  by standard (auto simp: less_eq_service_key_def less_service_key_def
      intro: service_key.expand)

end

fun realm_rank :: "realm \<Rightarrow> nat \<times> string \<times> u64" where
  "realm_rank RealmRoot = (0, [], 0)"
| "realm_rank (RealmShared label) = (1, label, 0)"
| "realm_rank (RealmPrivate g) = (2, [], g)"

lemma realm_rank_inj: "realm_rank a = realm_rank b \<longleftrightarrow> a = b"
  by (cases a; cases b) auto

instantiation realm :: linorder
begin

definition less_eq_realm :: "realm \<Rightarrow> realm \<Rightarrow> bool" where
  "a \<le> b \<longleftrightarrow> realm_rank a \<le> realm_rank b"

definition less_realm :: "realm \<Rightarrow> realm \<Rightarrow> bool" where
  "a < b \<longleftrightarrow> realm_rank a < realm_rank b"

instance
proof
  fix a b c :: realm
  show "a < b \<longleftrightarrow> a \<le> b \<and> \<not> b \<le> a"
    by (simp add: less_eq_realm_def less_realm_def less_le_not_le)
  show "a \<le> a"
    by (simp add: less_eq_realm_def)
  show "a \<le> b \<Longrightarrow> b \<le> c \<Longrightarrow> a \<le> c"
    unfolding less_eq_realm_def by (rule order_trans)
  show "a \<le> b \<Longrightarrow> b \<le> a \<Longrightarrow> a = b"
    unfolding less_eq_realm_def by (metis order_antisym realm_rank_inj)
  show "a \<le> b \<or> b \<le> a"
    unfolding less_eq_realm_def by (rule linear)
qed

end

instantiation resolved_service :: linorder
begin

definition less_eq_resolved_service :: "resolved_service \<Rightarrow> resolved_service \<Rightarrow> bool" where
  "a \<le> b \<longleftrightarrow> (rs_key a, rs_realm a) \<le> (rs_key b, rs_realm b)"

definition less_resolved_service :: "resolved_service \<Rightarrow> resolved_service \<Rightarrow> bool" where
  "a < b \<longleftrightarrow> (rs_key a, rs_realm a) < (rs_key b, rs_realm b)"

instance
  by standard (auto simp: less_eq_resolved_service_def less_resolved_service_def
      intro: resolved_service.expand)

end

subsection \<open>Fresh identifiers\<close>

text \<open>
  A source of identifiers hands out values in strictly increasing order until it is
  exhausted; \<open>take_ids\<close> draws several in a row. Distinctness is proved once for every
  source and holds of the counters by interpretation.
\<close>

fun take_ids :: "('c \<Rightarrow> ('i \<times> 'c) option) \<Rightarrow> nat \<Rightarrow> 'c \<Rightarrow> ('i list \<times> 'c) option" where
  "take_ids fresh 0 c = Some ([], c)"
| "take_ids fresh (Suc n) c =
    (case fresh c of
       None \<Rightarrow> None
     | Some (i, c') \<Rightarrow>
         (case take_ids fresh n c' of None \<Rightarrow> None | Some (ids, c'') \<Rightarrow> Some (i # ids, c'')))"

locale id_source =
  fixes fresh :: "'c::linorder \<Rightarrow> ('c \<times> 'c) option"
  assumes next_current: "fresh c = Some (i, c') \<Longrightarrow> i = c"
    and next_increases: "fresh c = Some (i, c') \<Longrightarrow> c < c'"
begin

lemma take_ids_ge:
  "take_ids fresh n c = Some (ids, c') \<Longrightarrow> c \<le> c' \<and> (\<forall>i\<in>set ids. c \<le> i \<and> i < c')"
proof (induction n arbitrary: c ids)
  case 0
  then show ?case by simp
next
  case (Suc n)
  then obtain i d js where fr: "fresh c = Some (i, d)" and js: "take_ids fresh n d = Some (js, c')"
    and "ids = i # js"
    by (auto split: option.splits)
  moreover have "i = c" using fr by (rule next_current)
  ultimately have d: "fresh c = Some (c, d)" and ids: "ids = c # js" by simp_all
  have "c < d" using d by (rule next_increases)
  moreover have "d \<le> c' \<and> (\<forall>i\<in>set js. d \<le> i \<and> i < c')" using js by (rule Suc.IH)
  ultimately show ?case using ids by auto
qed

lemma take_ids_sorted: "take_ids fresh n c = Some (ids, c') \<Longrightarrow> sorted_wrt (<) ids"
proof (induction n arbitrary: c ids)
  case 0
  then show ?case by simp
next
  case (Suc n)
  then obtain i d js where fr: "fresh c = Some (i, d)" and js: "take_ids fresh n d = Some (js, c')"
    and "ids = i # js"
    by (auto split: option.splits)
  moreover have "i = c" using fr by (rule next_current)
  ultimately have d: "fresh c = Some (c, d)" and ids: "ids = c # js" by simp_all
  have "c < d" using d by (rule next_increases)
  then show ?case using Suc.IH [OF js] take_ids_ge [OF js] ids by auto
qed

end

lemma next_id_Some: "next_id c = Some (i, c') \<longleftrightarrow> i = c \<and> c \<noteq> u64_max \<and> c' = c + 1"
  by (auto simp: next_id_def)

lemma next_id_less: "c \<noteq> u64_max \<Longrightarrow> c < c + 1"
  unfolding u64_max_def by unat_arith auto

interpretation id_counter: id_source next_id
  by unfold_locales (auto simp: next_id_Some next_id_less)

text \<open>The counter serves all but the last value: from 1 on, \<open>2 ^ 64 - 2\<close> identifiers.\<close>

lemma next_id_total: "c < u64_max \<Longrightarrow> \<exists>c'. next_id c = Some (c, c')"
  by (auto simp: next_id_def)

text \<open>
  The diagnostic key of a service is unambiguous as long as no version contains the
  separator (or no name does); in general two services can share it.
\<close>

lemma append_sep_inj:
  fixes d :: char
  assumes "d \<notin> set v" and "d \<notin> set v'" and "n @ d # v = n' @ d # v'"
  shows "n = n' \<and> v = v'"
proof -
  have "rev v @ d # rev n = rev v' @ d # rev n'"
    using arg_cong [OF assms(3), of rev] by simp
  then have "split_on d (rev v @ d # rev n) = split_on d (rev v' @ d # rev n')" by simp
  then have "rev v = rev v'"
    using assms(1,2) by (simp add: split_on_append)
  then show ?thesis using assms(3) by simp
qed

lemma diagnostic_key_inj:
  "CHR ''@'' \<notin> set (contract_version a) \<Longrightarrow> CHR ''@'' \<notin> set (contract_version b) \<Longrightarrow>
    diagnostic_key a = diagnostic_key b \<Longrightarrow> a = b"
  using append_sep_inj [of "CHR ''@''" "contract_version a" "contract_version b" "sk_name a" "sk_name b"]
  by (auto simp: diagnostic_key_def intro: service_key.expand)

end
