(* ===== verification/Errors.thy ===== *)
theory Errors
  imports Json Ids
begin

section \<open>Error values (error.rs, and the lifecycle state they mention)\<close>

text \<open>
  \<open>core_error\<close>, \<open>plugin_error\<close> and \<open>loader_error\<close> have the constructors of \<open>CoreError\<close>,
  \<open>PluginError\<close> and \<open>LoaderError\<close>; the builders and the \<open>Display\<close> texts follow. The leaves
  of an error, in order, are what aggregation and rollback collection must not lose.
\<close>

datatype fiber_state = Pending | Loading | Active | Failed | Disposed | Unloading

text \<open>\<open>FiberState::from_raw\<close>; \<open>None\<close> is the unreachable branch's panic. \<open>raw_state\<close> is \<open>as u8\<close>.\<close>

definition fiber_state_from_raw :: "8 word \<Rightarrow> fiber_state option" where
  "fiber_state_from_raw v =
    (if v = 0 then Some Pending else if v = 1 then Some Loading else if v = 2 then Some Active
     else if v = 3 then Some Failed else if v = 4 then Some Disposed
     else if v = 5 then Some Unloading else None)"

fun raw_state :: "fiber_state \<Rightarrow> 8 word" where
  "raw_state Pending = 0"
| "raw_state Loading = 1"
| "raw_state Active = 2"
| "raw_state Failed = 3"
| "raw_state Disposed = 4"
| "raw_state Unloading = 5"

fun debug_fiber_state :: "fiber_state \<Rightarrow> string" where
  "debug_fiber_state Pending = ''Pending''"
| "debug_fiber_state Loading = ''Loading''"
| "debug_fiber_state Active = ''Active''"
| "debug_fiber_state Failed = ''Failed''"
| "debug_fiber_state Disposed = ''Disposed''"
| "debug_fiber_state Unloading = ''Unloading''"

lemma fiber_state_raw [simp]: "fiber_state_from_raw (raw_state s) = Some s"
  by (cases s) (simp_all add: fiber_state_from_raw_def)

subsection \<open>Core errors\<close>

datatype core_error =
    InvalidState string fiber_state
  | Cancelled
  | SetupFailed message
  | Cleanup "core_error list"
  | ServiceAlreadyProvided string
  | ServiceNotProvided string
  | ServiceChanged string
  | ServiceTypeMismatch string
  | StaleServiceHandle string generation
  | EventTypeMismatch string string
  | AsyncEventListener string string
  | WaterfallContinuationUsed
  | PluginFailure string message

fun cleanup_errors :: "core_error \<Rightarrow> core_error list option" where
  "cleanup_errors (Cleanup es) = Some es"
| "cleanup_errors _ = None"

fun core_error_display :: "core_error \<Rightarrow> message" where
  "core_error_display (InvalidState op st) =
    [Text ''cannot '', Text op, Text '' while '', Text (debug_fiber_state st)]"
| "core_error_display Cancelled = msg ''operation cancelled''"
| "core_error_display (SetupFailed m) = m"
| "core_error_display (ServiceAlreadyProvided key) =
    [Text ''service '', Text key, Text '' is already provided'']"
| "core_error_display (ServiceNotProvided key) =
    [Text ''service '', Text key, Text '' is not provided'']"
| "core_error_display (ServiceChanged key) =
    [Text ''service '', Text key, Text '' changed before commit'']"
| "core_error_display (ServiceTypeMismatch key) =
    [Text ''service '', Text key, Text '' has a different Rust type'']"
| "core_error_display (StaleServiceHandle key g) =
    [Text ''service handle for '', Text key, Text '' at '', Text (id_display ''generation'' g),
     Text '' is stale'']"
| "core_error_display (Cleanup es) = [Text (dec (length es)), Text '' cleanup error(s)'']"
| "core_error_display (EventTypeMismatch ev expected) =
    [Text ''event '', Text ev, Text '' expected payload type '', Text expected]"
| "core_error_display (AsyncEventListener op ev) =
    [Text ''cannot '', Text op, Text '' event '', Text ev, Text '' synchronously'']"
| "core_error_display WaterfallContinuationUsed = msg ''waterfall continuation already used''"
| "core_error_display (PluginFailure phase m) =
    [Text ''native plugin '', Text phase, Text '' failed: ''] @ m"

text \<open>\<open>Error::source\<close>.\<close>

fun core_error_source :: "core_error \<Rightarrow> core_error option" where
  "core_error_source (Cleanup (e # es)) = Some e"
| "core_error_source _ = None"

text \<open>\<open>collect_cleanup_error\<close> of lifecycle.rs: a nested cleanup error is spliced in.\<close>

fun collect_cleanup_error :: "core_error list \<Rightarrow> core_error \<Rightarrow> core_error list" where
  "collect_cleanup_error errors (Cleanup nested) = errors @ nested"
| "collect_cleanup_error errors e = errors @ [e]"

text \<open>The single failures inside an error, in order.\<close>

fun core_leaves :: "core_error \<Rightarrow> core_error list" where
  "core_leaves (Cleanup es) = concat (map core_leaves es)"
| "core_leaves e = [e]"

definition is_leaf :: "core_error \<Rightarrow> bool" where
  "is_leaf e \<longleftrightarrow> cleanup_errors e = None"

lemma is_leaf_Cleanup [simp]: "\<not> is_leaf (Cleanup es)"
  by (simp add: is_leaf_def)

lemma not_leaf: "\<not> is_leaf e \<longleftrightarrow> (\<exists>es. e = Cleanup es)"
  by (cases e) (simp_all add: is_leaf_def)

lemma core_leaves_leaf: "is_leaf e \<Longrightarrow> core_leaves e = [e]"
  by (cases e) auto

lemma collect_cleanup_error_leaves:
  "concat (map core_leaves (collect_cleanup_error es e)) = concat (map core_leaves es) @ core_leaves e"
  by (cases e) auto

text \<open>Cleanup errors that collection builds are flat when what it collects is flat.\<close>

definition flat_error :: "core_error \<Rightarrow> bool" where
  "flat_error e \<longleftrightarrow> (\<forall>es. e = Cleanup es \<longrightarrow> es \<noteq> [] \<and> (\<forall>x\<in>set es. is_leaf x))"

lemma flat_error_leaf [simp]: "is_leaf e \<Longrightarrow> flat_error e"
  by (auto simp: flat_error_def)

lemma collect_cleanup_error_flat:
  "flat_error e \<Longrightarrow> \<forall>x\<in>set es. is_leaf x \<Longrightarrow>
    collect_cleanup_error es e \<noteq> [] \<and> (\<forall>x\<in>set (collect_cleanup_error es e). is_leaf x)"
  by (cases e) (auto simp: flat_error_def is_leaf_def)

subsection \<open>Plugin errors\<close>

record plugin_error =
  pe_code :: string
  pe_message :: message
  pe_phase :: string
  pe_details :: "json option"

definition plugin_error_new :: "string \<Rightarrow> message \<Rightarrow> string \<Rightarrow> plugin_error" where
  "plugin_error_new code message phase =
    \<lparr>pe_code = code, pe_message = message, pe_phase = phase, pe_details = None\<rparr>"

definition with_details :: "plugin_error \<Rightarrow> json \<Rightarrow> plugin_error" where
  "with_details e d = e\<lparr>pe_details := Some d\<rparr>"

definition plugin_error_display :: "plugin_error \<Rightarrow> message" where
  "plugin_error_display e =
    [Text (pe_code e), Text '' during '', Text (pe_phase e), Text '': ''] @ pe_message e"

subsection \<open>Loader errors\<close>

text \<open>An \<open>EntryId\<close> is a transparent wrapper of its string.\<close>

type_synonym entry_id = string

datatype loader_error =
    ParseError message
  | ValidationError message
  | ExpressionError message
  | PatchError message
  | MissingEntry entry_id
  | PersistenceError message
  | RuntimeError string entry_id "string option" message
  | Aggregate "loader_error list"
  | Transaction loader_error "loader_error list"

definition le_aggregate :: "loader_error list \<Rightarrow> loader_error" where
  "le_aggregate es = (case es of [e] \<Rightarrow> e | _ \<Rightarrow> Aggregate es)"

definition le_transaction :: "loader_error \<Rightarrow> loader_error list \<Rightarrow> loader_error" where
  "le_transaction failure rollback =
    (if rollback = [] then failure else Transaction failure rollback)"

fun rollback_errors :: "loader_error \<Rightarrow> loader_error list" where
  "rollback_errors (Transaction failure rollback) = rollback"
| "rollback_errors _ = []"

fun loader_error_display :: "loader_error \<Rightarrow> message" where
  "loader_error_display (ParseError m) = Text ''invalid loader document: '' # m"
| "loader_error_display (ValidationError m) = Text ''invalid loader configuration: '' # m"
| "loader_error_display (ExpressionError m) = Text ''invalid safe expression: '' # m"
| "loader_error_display (PatchError m) = Text ''invalid loader patch: '' # m"
| "loader_error_display (MissingEntry i) =
    [Text ''loader entry '', Text i, Text '' does not exist'']"
| "loader_error_display (PersistenceError m) = Text ''cannot persist loader configuration: '' # m"
| "loader_error_display (RuntimeError stage entry name m) =
    [Text ''failed to '', Text stage, Text '' loader entry '', Text entry]
    @ (case name of None \<Rightarrow> [] | Some n \<Rightarrow> [Text '' ('', Text n, Text '')''])
    @ [Text '': ''] @ m"
| "loader_error_display (Aggregate es) = [Text (dec (length es)), Text '' loader error(s)'']"
| "loader_error_display (Transaction failure rollback) =
    Text ''loader transaction failed: '' # loader_error_display failure
    @ [Text ''; '', Text (dec (length rollback)), Text '' rollback error(s)'']"

text \<open>\<open>LoaderError::in_entry\<close>, over the identity and the name of the entry.\<close>

definition le_in_entry :: "loader_error \<Rightarrow> string \<Rightarrow> entry_id \<Rightarrow> string option \<Rightarrow> loader_error" where
  "le_in_entry e stage i name = RuntimeError stage i name (loader_error_display e)"

text \<open>\<open>collect_rollback_errors\<close> of loader.rs, returning the extended vector.\<close>

fun collect_rollback_errors :: "loader_error \<Rightarrow> loader_error list \<Rightarrow> loader_error list"
  and collect_rollback_all :: "loader_error list \<Rightarrow> loader_error list \<Rightarrow> loader_error list" where
  "collect_rollback_errors (Aggregate es) acc = collect_rollback_all es acc"
| "collect_rollback_errors (Transaction failure rollback) acc =
    collect_rollback_all rollback (collect_rollback_errors failure acc)"
| "collect_rollback_errors e acc = acc @ [e]"
| "collect_rollback_all [] acc = acc"
| "collect_rollback_all (e # es) acc = collect_rollback_all es (collect_rollback_errors e acc)"

fun loader_leaves :: "loader_error \<Rightarrow> loader_error list" where
  "loader_leaves (Aggregate es) = concat (map loader_leaves es)"
| "loader_leaves (Transaction failure rollback) =
    loader_leaves failure @ concat (map loader_leaves rollback)"
| "loader_leaves e = [e]"

lemma loader_leaves_aggregate: "loader_leaves (le_aggregate es) = concat (map loader_leaves es)"
  by (auto simp: le_aggregate_def split: list.splits)

lemma loader_leaves_transaction:
  "loader_leaves (le_transaction f rs) = loader_leaves f @ concat (map loader_leaves rs)"
  by (simp add: le_transaction_def)

lemma collect_rollback_leaves:
  "collect_rollback_errors e acc = acc @ loader_leaves e"
  "collect_rollback_all es acc = acc @ concat (map loader_leaves es)"
  by (induction e acc and es acc rule: collect_rollback_errors_collect_rollback_all.induct) auto

lemma rollback_errors_transaction:
  "rollback_errors f = [] \<Longrightarrow> rollback_errors (le_transaction f rs) = rs"
  by (simp add: le_transaction_def)

end
