(* ===== verification/Config.thy ===== *)
theory Config
  imports Errors
begin

section \<open>Configuration expressions (config.rs)\<close>

text \<open>
  The declared inputs \<open>config_scope\<close>, the expression language with its parser and its
  evaluator, and \<open>evaluate_config\<close>, which resolves the embedded \<open>$expr\<close> leaves of a JSON
  value. \<open>validate_config\<close> of loader.rs, the check made before a tree is accepted, is here
  too because the two are related: a value that validates can only fail to evaluate on an
  input that is not declared.
\<close>

record config_scope =
  environment :: "(string, string) btree"
  platform :: string
  architecture :: string
  profiles :: "(string, json) btree"
  services :: "(string, json) btree"

text \<open>
  \<open>ConfigScope::from_allowed_environment\<close>: of the process environment (\<open>os_var\<close>) only the
  allowed names are captured; \<open>os\<close> and \<open>arch\<close> are the platform constants.
\<close>

definition from_allowed_environment ::
  "(string \<Rightarrow> string option) \<Rightarrow> string \<Rightarrow> string \<Rightarrow> string list \<Rightarrow> config_scope" where
  "from_allowed_environment os_var os arch allowed =
    \<lparr>environment = fold (\<lambda>name m. case os_var name of None \<Rightarrow> m | Some v \<Rightarrow> bt_insert name v m)
        allowed [],
     platform = os, architecture = arch, profiles = [], services = []\<rparr>"

definition default_config_scope :: "string \<Rightarrow> string \<Rightarrow> config_scope" where
  "default_config_scope os arch =
    \<lparr>environment = [], platform = os, architecture = arch, profiles = [], services = []\<rparr>"

lemma allowed_environment_get:
  "bt_get (fold (\<lambda>name m. case os_var name of None \<Rightarrow> m | Some v \<Rightarrow> bt_insert name v m) allowed m) n =
    (if n \<in> set allowed \<and> os_var n \<noteq> None then os_var n else bt_get m n)"
  by (induction allowed arbitrary: m) (auto split: option.splits)

datatype config_expr =
    Literal json
  | Env string
  | Platform
  | Architecture
  | Profile string
  | Service string "string list"
  | Concat "config_expr list"
  | Equals config_expr config_expr
  | NotExpr config_expr
  | AndExpr "config_expr list"
  | OrExpr "config_expr list"
  | Coalesce "config_expr list"

abbreviation expr_error :: "message \<Rightarrow> loader_error + 'a" where
  "expr_error m \<equiv> Inl (ExpressionError m)"

subsection \<open>Parsing\<close>

definition is_name :: "string \<Rightarrow> bool" where
  "is_name s \<longleftrightarrow> s \<noteq> [] \<and> (\<forall>c\<in>set s. is_alnum c \<or> c = CHR ''_'' \<or> c = CHR ''-'')"

text \<open>\<open>strip_prefix("${")\<close> and \<open>strip_suffix('}')\<close>, or the source as it is.\<close>

definition unwrap_source :: "string \<Rightarrow> string" where
  "unwrap_source s =
    (case Option.bind (strip_prefix ''${'' s) (strip_suffix ''}'') of None \<Rightarrow> s | Some t \<Rightarrow> t)"

definition parse_parts :: "string \<Rightarrow> string \<Rightarrow> string list \<Rightarrow> loader_error + config_expr" where
  "parse_parts source kind parts =
    (case parts of
       [name] \<Rightarrow>
         if kind = ''env'' then Inr (Env name)
         else if kind = ''profile'' then Inr (Profile name)
         else if kind = ''service'' then Inr (Service name [])
         else expr_error [Text ''unsupported expression '', Dbg source]
     | name # path \<Rightarrow>
         if kind = ''service'' then Inr (Service name path)
         else expr_error [Text ''unsupported expression '', Dbg source]
     | [] \<Rightarrow> expr_error [Text ''unsupported expression '', Dbg source])"

definition parse_expr :: "string \<Rightarrow> loader_error + config_expr" where
  "parse_expr s =
    (let source = unwrap_source s in
     if source = ''platform'' then Inr Platform
     else if source = ''architecture'' then Inr Architecture
     else
       (case split_on (CHR ''.'') source of
          [] \<Rightarrow> expr_error (msg ''empty expression'')
        | kind # parts \<Rightarrow>
            if \<exists>p\<in>set parts. \<not> is_name p
            then expr_error [Text ''invalid expression '', Dbg source]
            else parse_parts source kind parts))"

subsection \<open>Evaluation\<close>

fun ensure_scalar :: "json \<Rightarrow> loader_error + unit" where
  "ensure_scalar (JStr s) = Inr ()"
| "ensure_scalar (JBool b) = Inr ()"
| "ensure_scalar JNull = Inr ()"
| "ensure_scalar _ = expr_error (msg ''expression literals must be strings, booleans, or null'')"

definition expect_bool :: "json \<Rightarrow> loader_error + bool" where
  "expect_bool v =
    (case as_bool v of Some b \<Rightarrow> Inr b | None \<Rightarrow> expr_error (msg ''boolean expression expected''))"

fun project_path :: "string \<Rightarrow> json \<Rightarrow> string list \<Rightarrow> loader_error + json" where
  "project_path name v [] = Inr v"
| "project_path name v (segment # path) =
    (case Option.bind (as_object v) (\<lambda>m. bt_get m segment) of
       None \<Rightarrow> expr_error [Text ''service projection '', Dbg name, Text ''.'', Text segment,
                           Text '' is unavailable'']
     | Some w \<Rightarrow> project_path name w path)"

fun evaluate :: "config_expr \<Rightarrow> config_scope \<Rightarrow> loader_error + json"
  and eval_concat :: "config_expr list \<Rightarrow> config_scope \<Rightarrow> string \<Rightarrow> loader_error + string"
  and eval_and :: "config_expr list \<Rightarrow> config_scope \<Rightarrow> loader_error + bool"
  and eval_or :: "config_expr list \<Rightarrow> config_scope \<Rightarrow> loader_error + bool"
  and eval_coalesce :: "config_expr list \<Rightarrow> config_scope \<Rightarrow> loader_error + json" where
  "evaluate (Literal v) sc = try_bind (ensure_scalar v) (\<lambda>_. Inr v)"
| "evaluate (Env name) sc =
    (case bt_get (environment sc) name of
       Some v \<Rightarrow> Inr (JStr v)
     | None \<Rightarrow> expr_error [Text ''environment variable '', Dbg name, Text '' is not allowed''])"
| "evaluate Platform sc = Inr (JStr (platform sc))"
| "evaluate Architecture sc = Inr (JStr (architecture sc))"
| "evaluate (Profile name) sc =
    (case bt_get (profiles sc) name of
       Some v \<Rightarrow> Inr v
     | None \<Rightarrow> expr_error [Text ''profile '', Dbg name, Text '' is not declared''])"
| "evaluate (Service name path) sc =
    (case bt_get (services sc) name of
       None \<Rightarrow> expr_error [Text ''service '', Dbg name, Text '' is not declared'']
     | Some v \<Rightarrow> project_path name v path)"
| "evaluate (Concat vs) sc = try_bind (eval_concat vs sc []) (\<lambda>s. Inr (JStr s))"
| "evaluate (Equals l r) sc =
    try_bind (evaluate l sc) (\<lambda>a. try_bind (evaluate r sc) (\<lambda>b. Inr (JBool (json_eq a b))))"
| "evaluate (NotExpr v) sc =
    try_bind (evaluate v sc) (\<lambda>a. try_bind (expect_bool a) (\<lambda>b. Inr (JBool (\<not> b))))"
| "evaluate (AndExpr vs) sc = try_bind (eval_and vs sc) (\<lambda>b. Inr (JBool b))"
| "evaluate (OrExpr vs) sc = try_bind (eval_or vs sc) (\<lambda>b. Inr (JBool b))"
| "evaluate (Coalesce vs) sc = eval_coalesce vs sc"
| "eval_concat [] sc acc = Inr acc"
| "eval_concat (v # vs) sc acc =
    try_bind (evaluate v sc) (\<lambda>a.
      case as_str a of
        None \<Rightarrow> expr_error (msg ''concat accepts only strings'')
      | Some s \<Rightarrow> eval_concat vs sc (acc @ s))"
| "eval_and [] sc = Inr True"
| "eval_and (v # vs) sc =
    try_bind (evaluate v sc) (\<lambda>a. try_bind (expect_bool a) (\<lambda>b.
      if b then eval_and vs sc else Inr False))"
| "eval_or [] sc = Inr False"
| "eval_or (v # vs) sc =
    try_bind (evaluate v sc) (\<lambda>a. try_bind (expect_bool a) (\<lambda>b.
      if b then Inr True else eval_or vs sc))"
| "eval_coalesce [] sc = Inr JNull"
| "eval_coalesce (v # vs) sc =
    try_bind (evaluate v sc) (\<lambda>a. if a = JNull then eval_coalesce vs sc else Inr a)"

subsection \<open>Configuration values\<close>

definition js_error :: "loader_error" where
  "js_error = ExpressionError (msg ''arbitrary JavaScript expressions are not supported'')"

definition has_js :: "(string, json) btree \<Rightarrow> bool" where
  "has_js fs \<longleftrightarrow> (\<exists>k\<in>set (map fst fs). k = ''$js'' \<or> k = ''!!js'')"

text \<open>What the code does with the \<open>$expr\<close> field of an object: one field, a string, parsed.\<close>

definition expr_field :: "(string, json) btree \<Rightarrow> json \<Rightarrow> loader_error + config_expr" where
  "expr_field fs e =
    (if length fs \<noteq> 1 then expr_error (msg ''an expression object may contain only $expr'')
     else (case as_str e of
             None \<Rightarrow> expr_error (msg ''$expr must be a string'')
           | Some s \<Rightarrow> parse_expr s))"

fun evaluate_config :: "json \<Rightarrow> config_scope \<Rightarrow> loader_error + json"
  and evaluate_list :: "json list \<Rightarrow> config_scope \<Rightarrow> loader_error + json list"
  and evaluate_fields ::
    "(string \<times> json) list \<Rightarrow> config_scope \<Rightarrow> loader_error + (string \<times> json) list" where
  "evaluate_config (JArr vs) sc = try_bind (evaluate_list vs sc) (\<lambda>ws. Inr (JArr ws))"
| "evaluate_config (JObj fs) sc =
    (case bt_get fs ''$expr'' of
       Some e \<Rightarrow> try_bind (expr_field fs e) (\<lambda>x. evaluate x sc)
     | None \<Rightarrow>
         if has_js fs then Inl js_error
         else try_bind (evaluate_fields fs sc) (\<lambda>gs. Inr (JObj gs)))"
| "evaluate_config v sc = Inr v"
| "evaluate_list [] sc = Inr []"
| "evaluate_list (v # vs) sc =
    try_bind (evaluate_config v sc) (\<lambda>w. try_bind (evaluate_list vs sc) (\<lambda>ws. Inr (w # ws)))"
| "evaluate_fields [] sc = Inr []"
| "evaluate_fields ((k, v) # fs) sc =
    try_bind (evaluate_config v sc) (\<lambda>w.
      try_bind (evaluate_fields fs sc) (\<lambda>gs. Inr ((k, w) # gs)))"

fun validate_config :: "json \<Rightarrow> loader_error + unit"
  and validate_list :: "json list \<Rightarrow> loader_error + unit"
  and validate_fields :: "(string \<times> json) list \<Rightarrow> loader_error + unit" where
  "validate_config (JArr vs) = validate_list vs"
| "validate_config (JObj fs) =
    (if has_js fs then Inl js_error
     else (case bt_get fs ''$expr'' of
             Some e \<Rightarrow> try_bind (expr_field fs e) (\<lambda>_. Inr ())
           | None \<Rightarrow> validate_fields fs))"
| "validate_config v = Inr ()"
| "validate_list [] = Inr ()"
| "validate_list (v # vs) = try_bind (validate_config v) (\<lambda>_. validate_list vs)"
| "validate_fields [] = Inr ()"
| "validate_fields ((k, v) # fs) = try_bind (validate_config v) (\<lambda>_. validate_fields fs)"

subsection \<open>The reference grammar\<close>

text \<open>The forms the parser can produce, and how each is written.\<close>

fun reference :: "config_expr \<Rightarrow> bool" where
  "reference Platform = True"
| "reference Architecture = True"
| "reference (Env n) = is_name n"
| "reference (Profile n) = is_name n"
| "reference (Service n path) = (is_name n \<and> (\<forall>p\<in>set path. is_name p))"
| "reference _ = False"

fun render :: "config_expr \<Rightarrow> string" where
  "render Platform = ''platform''"
| "render Architecture = ''architecture''"
| "render (Env n) = ''env.'' @ n"
| "render (Profile n) = ''profile.'' @ n"
| "render (Service n path) = join_with (CHR ''.'') (''service'' # n # path)"
| "render _ = []"

lemma is_name_no_dot: "is_name n \<Longrightarrow> CHR ''.'' \<notin> set n"
  by (auto simp: is_name_def char_class_defs)

lemma split_service:
  "is_name n \<Longrightarrow> \<forall>p\<in>set path. is_name p \<Longrightarrow>
    split_on (CHR ''.'') (join_with (CHR ''.'') (''service'' # n # path)) = ''service'' # n # path"
  by (rule split_join) (auto dest: is_name_no_dot)

lemma split_two: "is_name n \<Longrightarrow> CHR ''.'' \<notin> set k \<Longrightarrow>
    split_on (CHR ''.'') (k @ CHR ''.'' # n) = [k, n]"
  by (simp add: split_on_append split_on_plain is_name_no_dot)

lemma parse_parts_service: "parse_parts src ''service'' (n # path) = Inr (Service n path)"
  by (cases path) (simp_all add: parse_parts_def)

lemma parse_expr_unwrapped:
  assumes "reference e" and "unwrap_source s = render e"
  shows "parse_expr s = Inr e"
proof (cases e)
  case (Env n)
  then have "split_on (CHR ''.'') (render e) = [''env'', n]"
    using assms(1) split_two [of n "''env''"] by simp
  with Env assms show ?thesis by (auto simp: parse_expr_def parse_parts_def)
next
  case (Profile n)
  then have "split_on (CHR ''.'') (render e) = [''profile'', n]"
    using assms(1) split_two [of n "''profile''"] by simp
  with Profile assms show ?thesis by (auto simp: parse_expr_def parse_parts_def)
next
  case (Service n path)
  then have split: "split_on (CHR ''.'') (render e) = ''service'' # n # path"
    using assms(1) split_service [of n path] by simp
  have "render e \<noteq> ''platform''" and "render e \<noteq> ''architecture''"
    using split by auto
  then show ?thesis using Service assms split
    by (auto simp: parse_expr_def parse_parts_service simp del: render.simps)
qed (use assms in \<open>auto simp: parse_expr_def\<close>)

lemma parse_parts_ok:
  "parse_parts src kind parts = Inr e \<Longrightarrow> \<forall>p\<in>set parts. is_name p \<Longrightarrow>
    reference e \<and> render e = join_with (CHR ''.'') (kind # parts)"
  by (auto simp: parse_parts_def split: list.splits if_splits)

lemma parse_expr_ok:
  assumes "parse_expr s = Inr e"
  shows "reference e \<and> unwrap_source s = render e"
proof -
  obtain kind parts where sp: "split_on (CHR ''.'') (unwrap_source s) = kind # parts"
    by (cases "split_on (CHR ''.'') (unwrap_source s)") auto
  have join: "join_with (CHR ''.'') (kind # parts) = unwrap_source s"
    using join_split [of "CHR ''.''" "unwrap_source s"] sp by simp
  show ?thesis
  proof (cases "unwrap_source s = ''platform'' \<or> unwrap_source s = ''architecture''")
    case True
    then show ?thesis using assms by (auto simp: parse_expr_def)
  next
    case False
    then have names: "\<forall>p\<in>set parts. is_name p" and "parse_parts (unwrap_source s) kind parts = Inr e"
      using assms sp by (auto simp: parse_expr_def Let_def split: if_splits)
    then show ?thesis using parse_parts_ok join by metis
  qed
qed

lemma unwrap_plain: "starts_with ''${'' s = False \<Longrightarrow> unwrap_source s = s"
  by (simp add: unwrap_source_def strip_prefix_def starts_with_def)

lemma unwrap_wrapped: "unwrap_source (''${'' @ s @ ''}'') = s"
  by (simp add: unwrap_source_def strip_prefix_def strip_suffix_def)

lemma render_plain: "reference e \<Longrightarrow> unwrap_source (render e) = render e"
  by (cases e) (auto simp: starts_with_def intro!: unwrap_plain)

subsection \<open>What an evaluation reads\<close>

text \<open>
  The inputs an expression names, and those named by the \<open>$expr\<close> leaves of a value. Two
  scopes that agree on them give the same result: nothing else of the scope is read.
\<close>

datatype config_ref = EnvRef string | PlatformRef | ArchitectureRef | ProfileRef string | ServiceRef string

fun lookup_ref :: "config_ref \<Rightarrow> config_scope \<Rightarrow> json option" where
  "lookup_ref (EnvRef n) sc = map_option JStr (bt_get (environment sc) n)"
| "lookup_ref PlatformRef sc = Some (JStr (platform sc))"
| "lookup_ref ArchitectureRef sc = Some (JStr (architecture sc))"
| "lookup_ref (ProfileRef n) sc = bt_get (profiles sc) n"
| "lookup_ref (ServiceRef n) sc = bt_get (services sc) n"

fun expr_refs :: "config_expr \<Rightarrow> config_ref list" where
  "expr_refs (Literal v) = []"
| "expr_refs (Env n) = [EnvRef n]"
| "expr_refs Platform = [PlatformRef]"
| "expr_refs Architecture = [ArchitectureRef]"
| "expr_refs (Profile n) = [ProfileRef n]"
| "expr_refs (Service n path) = [ServiceRef n]"
| "expr_refs (Concat vs) = concat (map expr_refs vs)"
| "expr_refs (Equals l r) = expr_refs l @ expr_refs r"
| "expr_refs (NotExpr v) = expr_refs v"
| "expr_refs (AndExpr vs) = concat (map expr_refs vs)"
| "expr_refs (OrExpr vs) = concat (map expr_refs vs)"
| "expr_refs (Coalesce vs) = concat (map expr_refs vs)"

definition agree_on :: "config_ref list \<Rightarrow> config_scope \<Rightarrow> config_scope \<Rightarrow> bool" where
  "agree_on rs sc sc' \<longleftrightarrow> (\<forall>r\<in>set rs. lookup_ref r sc = lookup_ref r sc')"

lemma agree_on_append [simp]: "agree_on (rs @ ss) sc sc' \<longleftrightarrow> agree_on rs sc sc' \<and> agree_on ss sc sc'"
  by (auto simp: agree_on_def)

lemma agree_on_Cons: "agree_on (r # rs) sc sc' \<longleftrightarrow> lookup_ref r sc = lookup_ref r sc' \<and> agree_on rs sc sc'"
  by (auto simp: agree_on_def)

lemma map_JStr_eq: "map_option JStr a = map_option JStr b \<longleftrightarrow> a = b"
  by (cases a; cases b) auto

lemma evaluate_agree:
  "agree_on (expr_refs e) sc sc' \<Longrightarrow> evaluate e sc = evaluate e sc'"
  "agree_on (concat (map expr_refs vs)) sc sc' \<Longrightarrow> eval_concat vs sc acc = eval_concat vs sc' acc"
  "agree_on (concat (map expr_refs vs)) sc sc' \<Longrightarrow> eval_and vs sc = eval_and vs sc'"
  "agree_on (concat (map expr_refs vs)) sc sc' \<Longrightarrow> eval_or vs sc = eval_or vs sc'"
  "agree_on (concat (map expr_refs vs)) sc sc' \<Longrightarrow> eval_coalesce vs sc = eval_coalesce vs sc'"
proof (induction e sc and vs sc acc and vs sc and vs sc and vs sc
    rule: evaluate_eval_concat_eval_and_eval_or_eval_coalesce.induct)
qed (auto simp: agree_on_Cons map_JStr_eq intro!: try_bind_cong split: option.splits)

text \<open>The expressions a configuration value holds, as the parser reads them.\<close>

fun config_exprs :: "json \<Rightarrow> config_expr list"
  and list_exprs :: "json list \<Rightarrow> config_expr list"
  and field_exprs :: "(string \<times> json) list \<Rightarrow> config_expr list" where
  "config_exprs (JArr vs) = list_exprs vs"
| "config_exprs (JObj fs) =
    (case bt_get fs ''$expr'' of
       Some e \<Rightarrow> (case expr_field fs e of Inr x \<Rightarrow> [x] | Inl _ \<Rightarrow> [])
     | None \<Rightarrow> field_exprs fs)"
| "config_exprs v = []"
| "list_exprs [] = []"
| "list_exprs (v # vs) = config_exprs v @ list_exprs vs"
| "field_exprs [] = []"
| "field_exprs ((k, v) # fs) = config_exprs v @ field_exprs fs"

lemma evaluate_config_agree:
  "agree_on (concat (map expr_refs (config_exprs v))) sc sc' \<Longrightarrow>
    evaluate_config v sc = evaluate_config v sc'"
  "agree_on (concat (map expr_refs (list_exprs vs))) sc sc' \<Longrightarrow>
    evaluate_list vs sc = evaluate_list vs sc'"
  "agree_on (concat (map expr_refs (field_exprs fs))) sc sc' \<Longrightarrow>
    evaluate_fields fs sc = evaluate_fields fs sc'"
proof (induction v and vs and fs rule: config_exprs_list_exprs_field_exprs.induct)
  case (2 fs)
  show ?case
  proof (cases "bt_get fs ''$expr''")
    case None
    with 2 show ?thesis by simp
  next
    case (Some e)
    show ?thesis
    proof (cases "expr_field fs e")
      case (Inr x)
      with Some 2 have "agree_on (expr_refs x) sc sc'" by simp
      then show ?thesis using Some Inr by (simp add: evaluate_agree(1))
    qed (use Some in simp)
  qed
qed (auto intro!: try_bind_cong)

subsection \<open>Validation and evaluation\<close>

text \<open>A reference is available when its input is declared and, for a service, the path exists.\<close>

fun path_exists :: "json \<Rightarrow> string list \<Rightarrow> bool" where
  "path_exists v [] = True"
| "path_exists v (s # path) =
    (case Option.bind (as_object v) (\<lambda>m. bt_get m s) of None \<Rightarrow> False | Some w \<Rightarrow> path_exists w path)"

fun available :: "config_scope \<Rightarrow> config_expr \<Rightarrow> bool" where
  "available sc (Env n) = bt_contains (environment sc) n"
| "available sc (Profile n) = bt_contains (profiles sc) n"
| "available sc (Service n path) =
    (case bt_get (services sc) n of None \<Rightarrow> False | Some v \<Rightarrow> path_exists v path)"
| "available sc _ = True"

lemma project_path_ok: "(\<exists>w. project_path n v path = Inr w) \<longleftrightarrow> path_exists v path"
  by (induction v path rule: path_exists.induct) (auto split: option.splits)

lemma reference_available:
  "reference e \<Longrightarrow> (\<exists>w. evaluate e sc = Inr w) \<longleftrightarrow> available sc e"
  by (cases e) (auto simp: bt_contains_def project_path_ok split: option.splits)

lemma validate_config_evaluates:
  "validate_config v = Inr () \<Longrightarrow>
    (\<exists>w. evaluate_config v sc = Inr w) \<longleftrightarrow> (\<forall>e\<in>set (config_exprs v). available sc e)"
  "validate_list vs = Inr () \<Longrightarrow>
    (\<exists>ws. evaluate_list vs sc = Inr ws) \<longleftrightarrow> (\<forall>e\<in>set (list_exprs vs). available sc e)"
  "validate_fields fs = Inr () \<Longrightarrow>
    (\<exists>gs. evaluate_fields fs sc = Inr gs) \<longleftrightarrow> (\<forall>e\<in>set (field_exprs fs). available sc e)"
proof (induction v and vs and fs rule: config_exprs_list_exprs_field_exprs.induct)
  case (2 fs)
  show ?case
  proof (cases "bt_get fs ''$expr''")
    case None
    with 2 show ?thesis by (auto simp: try_bind_eq_Inr split: if_splits)
  next
    case (Some e)
    with 2 obtain x where x: "expr_field fs e = Inr x"
      by (auto simp: try_bind_eq_Inr split: if_splits)
    then have "reference x"
      by (auto simp: expr_field_def split: if_splits option.splits dest: parse_expr_ok)
    then show ?thesis using Some x by (simp add: reference_available)
  qed
qed (auto simp: try_bind_eq_Inr)

subsection \<open>Short circuits and shapes\<close>

lemma eval_and_prefix:
  "eval_and vs sc = Inr False \<longleftrightarrow>
    (\<exists>us x ws. vs = us @ x # ws \<and> (\<forall>u\<in>set us. evaluate u sc = Inr (JBool True))
      \<and> evaluate x sc = Inr (JBool False))"
proof (induction vs)
  case Nil
  then show ?case by simp
next
  case (Cons v vs)
  have "expect_bool a = Inr b \<longleftrightarrow> a = JBool b" for a b
    by (cases a) (simp_all add: expect_bool_def)
  then have "(\<exists>a. evaluate v sc = Inr a \<and> expect_bool a = Inr b) \<longleftrightarrow> evaluate v sc = Inr (JBool b)" for b
    by simp
  then have step: "eval_and (v # vs) sc = Inr False \<longleftrightarrow>
      evaluate v sc = Inr (JBool False)
      \<or> evaluate v sc = Inr (JBool True) \<and> eval_and vs sc = Inr False"
    by (auto simp: try_bind_eq_Inr split: if_splits)
  have split: "v # vs = us @ x # ws \<longleftrightarrow>
      us = [] \<and> x = v \<and> ws = vs \<or> (\<exists>us'. us = v # us' \<and> vs = us' @ x # ws)" for us x ws
    by (cases us) auto
  let ?stop = "\<lambda>us x. (\<forall>u\<in>set us. evaluate u sc = Inr (JBool True)) \<and> evaluate x sc = Inr (JBool False)"
  have "(\<exists>us x ws. v # vs = us @ x # ws \<and> ?stop us x) \<longleftrightarrow>
      ?stop [] v \<or> (\<exists>us x ws. vs = us @ x # ws \<and> ?stop (v # us) x)"
    unfolding split by blast
  then have "(\<exists>us x ws. v # vs = us @ x # ws \<and> ?stop us x) \<longleftrightarrow>
      evaluate v sc = Inr (JBool False) \<or> evaluate v sc = Inr (JBool True) \<and>
        (\<exists>us x ws. vs = us @ x # ws \<and> ?stop us x)"
    by (simp only: list.set ball_simps) blast
  then show ?case unfolding step Cons.IH by blast
qed

lemma evaluate_fields_keys: "evaluate_fields fs sc = Inr gs \<Longrightarrow> map fst gs = map fst fs"
  by (induction fs arbitrary: gs) (auto simp: try_bind_eq_Inr)

definition scope_wf :: "config_scope \<Rightarrow> bool" where
  "scope_wf sc \<longleftrightarrow>
    (\<forall>n v. bt_get (profiles sc) n = Some v \<or> bt_get (services sc) n = Some v \<longrightarrow> json_wf v)"

lemma bt_get_json_wf: "json_wf (JObj m) \<Longrightarrow> bt_get m k = Some v \<Longrightarrow> json_wf v"
  by (force simp: bt_get_def dest: map_of_SomeD)

lemma project_path_wf: "project_path n v path = Inr w \<Longrightarrow> json_wf v \<Longrightarrow> json_wf w"
proof (induction n v path rule: project_path.induct)
  case (2 n v s path)
  then obtain m u where m: "v = JObj m" and u: "bt_get m s = Some u" and w: "project_path n u path = Inr w"
    by (cases v) (auto split: option.splits)
  have "json_wf u" using 2(3) m u by (intro bt_get_json_wf [of m s u]) simp_all
  then show ?case using 2(1) m u w by simp
qed simp

lemma reference_wf: "reference e \<Longrightarrow> evaluate e sc = Inr w \<Longrightarrow> scope_wf sc \<Longrightarrow> json_wf w"
  by (cases e) (auto simp: scope_wf_def split: option.splits intro: project_path_wf)

lemma evaluate_config_wf:
  "evaluate_config v sc = Inr w \<Longrightarrow> scope_wf sc \<Longrightarrow> json_wf v \<Longrightarrow> json_wf w"
  "evaluate_list vs sc = Inr ws \<Longrightarrow> scope_wf sc \<Longrightarrow> \<forall>v\<in>set vs. json_wf v \<Longrightarrow> \<forall>w\<in>set ws. json_wf w"
  "evaluate_fields fs sc = Inr gs \<Longrightarrow> scope_wf sc \<Longrightarrow> \<forall>e\<in>set fs. json_wf (snd e) \<Longrightarrow>
    \<forall>e\<in>set gs. json_wf (snd e)"
proof (induction v and vs and fs arbitrary: w and ws and gs rule: config_exprs_list_exprs_field_exprs.induct)
  case (2 fs)
  show ?case
  proof (cases "bt_get fs ''$expr''")
    case None
    then obtain gs where gs: "evaluate_fields fs sc = Inr gs" "w = JObj gs"
      using 2 by (auto simp: try_bind_eq_Inr split: if_splits)
    moreover have "\<forall>e\<in>set gs. json_wf (snd e)" using None gs 2 by simp
    moreover have "bt_wf gs" using evaluate_fields_keys [OF gs(1)] 2 by (simp add: bt_wf_def)
    ultimately show ?thesis by simp
  next
    case (Some e)
    then obtain x where "expr_field fs e = Inr x" "evaluate x sc = Inr w"
      using 2 by (auto simp: try_bind_eq_Inr)
    moreover from this have "reference x"
      by (auto simp: expr_field_def split: if_splits option.splits dest: parse_expr_ok)
    ultimately show ?thesis using 2 by (blast intro: reference_wf)
  qed
qed (fastforce simp: try_bind_eq_Inr)+

lemma evaluate_config_plain:
  "validate_config v = Inr () \<Longrightarrow> config_exprs v = [] \<Longrightarrow> evaluate_config v sc = Inr v"
  "validate_list vs = Inr () \<Longrightarrow> list_exprs vs = [] \<Longrightarrow> evaluate_list vs sc = Inr vs"
  "validate_fields fs = Inr () \<Longrightarrow> field_exprs fs = [] \<Longrightarrow> evaluate_fields fs sc = Inr fs"
proof (induction v and vs and fs rule: config_exprs_list_exprs_field_exprs.induct)
  case (2 fs)
  then show ?case
    by (cases "bt_get fs ''$expr''") (auto simp: try_bind_eq_Inr split: if_splits)
qed (auto simp: try_bind_eq_Inr)

subsection \<open>Properties\<close>

text \<open>The expression parser accepts exactly the reference grammar: a source, with or
  without its \<open>${...}\<close> wrapper, parses to an expression iff that expression is one of the
  five reference forms over well-formed names and the unwrapped source is its rendering.
  So parsing is unambiguous, no operator form (concat, equals, ...) can be written in a
  document, and parsing inverts rendering.\<close>

theorem parse_expr_grammar:
  "parse_expr s = Inr e \<longleftrightarrow> reference e \<and> unwrap_source s = render e"
  using parse_expr_ok parse_expr_unwrapped by blast

text \<open>Evaluating a configuration value reads nothing of the scope beyond the inputs its
  expressions name: two scopes that agree on the references of the \<open>$expr\<close> leaves give the
  same value or the same error.\<close>

theorem evaluate_config_reads_refs:
  "agree_on (concat (map expr_refs (config_exprs v))) sc sc' \<Longrightarrow>
    evaluate_config v sc = evaluate_config v sc'"
  by (rule evaluate_config_agree(1))

theorem evaluate_config_reads_refs_witness:
  "evaluate_config (JArr [JObj [(''$expr'', JStr ''env.A'')], JBool True])
      (from_allowed_environment (\<lambda>n. if n = ''A'' then Some ''x'' else Some ''secret'') ''linux'' ''arm'' [''A''])
    = evaluate_config (JArr [JObj [(''$expr'', JStr ''env.A'')], JBool True])
      (from_allowed_environment (\<lambda>n. Some ''x'') ''windows'' ''x86'' [''B'', ''A''])"
  by (rule evaluate_config_reads_refs) code_simp

text \<open>C4: A value that passed validation evaluates iff every input its expressions name is
  available: declared in the scope and, for a service projection, with an existing path.
  Validation leaves no other way for evaluation to fail.\<close>

theorem validated_config_evaluates:
  "validate_config v = Inr () \<Longrightarrow>
    (\<exists>w. evaluate_config v sc = Inr w) \<longleftrightarrow> (\<forall>e\<in>set (config_exprs v). available sc e)"
  by (rule validate_config_evaluates(1))

theorem validated_config_evaluates_witness:
  "\<exists>w. evaluate_config (JObj [(''port'', JObj [(''$expr'', JStr ''service.db.port'')])])
      ((default_config_scope ''linux'' ''arm'')\<lparr>services := [(''db'', JObj [(''port'', JNull)])]\<rparr>) = Inr w"
proof -
  let ?v = "JObj [(''port'', JObj [(''$expr'', JStr ''service.db.port'')])]"
  let ?sc = "(default_config_scope ''linux'' ''arm'')\<lparr>services := [(''db'', JObj [(''port'', JNull)])]\<rparr>"
  have "validate_config ?v = Inr ()" and "\<forall>e\<in>set (config_exprs ?v). available ?sc e"
    by code_simp+
  then show ?thesis using validated_config_evaluates by blast
qed

end
