(* ===== verification/EntryTree.thy ===== *)
theory EntryTree
  imports Config "HOL-Library.Multiset"
begin

section \<open>Entry trees and patches (loader.rs)\<close>

text \<open>
  The declarative configuration of the loader: entries in nested, ordered groups, the
  validation that accepts a tree, the views of it (all entries, active entries), the patches
  applied to a detached copy, the parsing of a document and its persistence through a
  temporary file. Parsers and printers of JSON and YAML (serde) are parameters.
\<close>

datatype runtime_kind = Native | Wasm | LegacyNode

fun runtime_rank :: "runtime_kind \<Rightarrow> nat" where
  "runtime_rank Native = 0"
| "runtime_rank Wasm = 1"
| "runtime_rank LegacyNode = 2"

instantiation runtime_kind :: linorder
begin

definition less_eq_runtime_kind :: "runtime_kind \<Rightarrow> runtime_kind \<Rightarrow> bool" where
  "a \<le> b \<longleftrightarrow> runtime_rank a \<le> runtime_rank b"

definition less_runtime_kind :: "runtime_kind \<Rightarrow> runtime_kind \<Rightarrow> bool" where
  "a < b \<longleftrightarrow> runtime_rank a < runtime_rank b"

instance
proof
  fix a b :: runtime_kind
  show "a \<le> b \<Longrightarrow> b \<le> a \<Longrightarrow> a = b"
    by (cases a; cases b) (simp_all add: less_eq_runtime_kind_def)
qed (auto simp: less_eq_runtime_kind_def less_runtime_kind_def)

end

record entry_options =
  eo_id :: entry_id
  eo_name :: "string option"
  eo_runtime :: runtime_kind
  eo_config :: json
  eo_inject :: "string list"
  eo_isolate :: "string list"
  eo_intercept :: json
  eo_disabled :: bool
  eo_group :: "string option"

record entry =
  package :: string
  options :: entry_options

datatype entry_group =
  EntryGroup (group_id: string) (group_entries: "entry list") (group_groups: "entry_group list")
    (group_disabled: bool)

record entry_tree =
  tree_entries :: "entry list"
  tree_groups :: "entry_group list"

abbreviation entry_id_of :: "entry \<Rightarrow> entry_id" where
  "entry_id_of e \<equiv> eo_id (options e)"

subsection \<open>Validation\<close>

definition is_identifier :: "string \<Rightarrow> bool" where
  "is_identifier s \<longleftrightarrow> s \<noteq> [] \<and> hd s \<notin> set ''.-_:'' \<and> (\<forall>c\<in>set s. is_alnum c \<or> c \<in> set ''.-_:'')"

definition entry_id_new :: "string \<Rightarrow> loader_error + entry_id" where
  "entry_id_new s =
    (if is_identifier s then Inr s
     else Inl (ValidationError [Text ''entry id '', Dbg s, Text '' must be a non-empty identifier'']))"

definition entry_fault :: "entry_options \<Rightarrow> string \<Rightarrow> loader_error" where
  "entry_fault opts what = ValidationError [Text ''entry '', Text (eo_id opts), Text what]"

definition check_items :: "entry_options \<Rightarrow> string \<times> string list \<Rightarrow> loader_error + unit" where
  "check_items opts fv =
    (if \<exists>v\<in>set (snd fv). blank v
     then Inl (ValidationError [Text ''entry '', Text (eo_id opts), Text '' has a blank '', Text (fst fv), Text '' item''])
     else Inr ())"

definition validate_options :: "entry_options \<Rightarrow> loader_error + unit" where
  "validate_options opts =
    try_bind (entry_id_new (eo_id opts)) (\<lambda>_.
    if (case eo_name opts of None \<Rightarrow> False | Some n \<Rightarrow> blank n)
    then Inl (entry_fault opts '' has a blank name'')
    else try_bind (try_each (check_items opts) [(''inject'', eo_inject opts), (''isolate'', eo_isolate opts)]) (\<lambda>_.
    if (case eo_group opts of None \<Rightarrow> False | Some g \<Rightarrow> \<not> is_identifier g)
    then Inl (entry_fault opts '' has an invalid group'')
    else try_bind (validate_config (eo_config opts)) (\<lambda>_. validate_config (eo_intercept opts))))"

definition validate_entry :: "entry \<Rightarrow> loader_error + unit" where
  "validate_entry e =
    (if blank (package e) then Inl (entry_fault (options e) '' has a blank package'')
     else validate_options (options e))"

text \<open>\<open>Entry::evaluate_config\<close>: both values are computed before either field is assigned.\<close>

definition entry_evaluate_config :: "entry \<Rightarrow> config_scope \<Rightarrow> loader_error + entry" where
  "entry_evaluate_config e sc =
    try_bind (evaluate_config (eo_config (options e)) sc) (\<lambda>c.
    try_bind (evaluate_config (eo_intercept (options e)) sc) (\<lambda>i.
      Inr (e\<lparr>options := (options e)\<lparr>eo_config := c, eo_intercept := i\<rparr>\<rparr>)))"

text \<open>The sets of identifiers seen so far are passed on; a repeated one is the error.\<close>

fun validate_entries :: "entry list \<Rightarrow> entry_id set \<Rightarrow> loader_error + entry_id set" where
  "validate_entries [] ids = Inr ids"
| "validate_entries (e # es) ids =
    try_bind (validate_entry e) (\<lambda>_.
      if entry_id_of e \<in> ids
      then Inl (ValidationError [Text ''duplicate entry id '', Text (entry_id_of e)])
      else validate_entries es (insert (entry_id_of e) ids))"

definition qualify :: "string \<Rightarrow> string \<Rightarrow> string" where
  "qualify parent g = (if parent = [] \<or> starts_with (parent @ ''.'') g then g else parent @ ''.'' @ g)"

fun validate_groups ::
  "entry_group list \<Rightarrow> string \<Rightarrow> entry_id set \<times> string set \<Rightarrow> loader_error + entry_id set \<times> string set" where
  "validate_groups [] parent seen = Inr seen"
| "validate_groups (EntryGroup g es gs d # rest) parent (ids, groups) =
    (if \<not> is_identifier g
     then Inl (ValidationError [Text ''group id '', Dbg g, Text '' must be a non-empty identifier''])
     else let qualified = qualify parent g in
     if qualified \<in> groups
     then Inl (ValidationError [Text ''duplicate group id '', Dbg qualified])
     else try_bind (validate_entries es ids) (\<lambda>ids'.
       try_bind (validate_groups gs qualified (ids', insert qualified groups)) (\<lambda>seen.
         validate_groups rest parent seen)))"

definition validate_tree :: "entry_tree \<Rightarrow> loader_error + unit" where
  "validate_tree t =
    try_bind (validate_entries (tree_entries t) {}) (\<lambda>ids.
      try_bind (validate_groups (tree_groups t) [] (ids, {})) (\<lambda>_. Inr ()))"

subsection \<open>Views\<close>

fun collect_entries :: "entry list \<Rightarrow> entry_group list \<Rightarrow> entry list" where
  "collect_entries root [] = root"
| "collect_entries root (EntryGroup g es gs d # rest) =
    root @ es @ collect_entries [] gs @ collect_entries [] rest"

definition entries :: "entry_tree \<Rightarrow> entry list" where
  "entries t = collect_entries (tree_entries t) (tree_groups t)"

fun collect_active_entries :: "entry list \<Rightarrow> entry_group list \<Rightarrow> bool \<Rightarrow> entry list" where
  "collect_active_entries root [] off = filter (\<lambda>e. \<not> eo_disabled (options e) \<and> \<not> off) root"
| "collect_active_entries root (EntryGroup g es gs d # rest) off =
    filter (\<lambda>e. \<not> eo_disabled (options e) \<and> \<not> off) root
    @ (let off' = off \<or> d in
       filter (\<lambda>e. \<not> eo_disabled (options e) \<and> \<not> off') es @ collect_active_entries [] gs off')
    @ collect_active_entries [] rest off"

definition active_entries :: "entry_tree \<Rightarrow> entry list" where
  "active_entries t = collect_active_entries (tree_entries t) (tree_groups t) False"

subsection \<open>Patches\<close>

datatype patch =
    Insert entry "entry_id option"
  | Update entry_id entry
  | UpdateConfig entry_id json
  | Remove entry_id
  | Move entry_id "entry_id option"

text \<open>
  \<open>find_in_groups_mut\<close>, \<open>remove_from_groups\<close> and \<open>insert_before_in_groups\<close> are one walk over
  the groups, own entries before nested groups, that stops at the first entry list the
  operation applies to.
\<close>

fun at_first_group ::
  "(entry list \<Rightarrow> ('r \<times> entry list) option) \<Rightarrow> entry_group list \<Rightarrow> ('r \<times> entry_group list) option" where
  "at_first_group f [] = None"
| "at_first_group f (EntryGroup g es gs d # rest) =
    (case f es of
       Some (r, es') \<Rightarrow> Some (r, EntryGroup g es' gs d # rest)
     | None \<Rightarrow>
         (case at_first_group f gs of
            Some (r, gs') \<Rightarrow> Some (r, EntryGroup g es gs' d # rest)
          | None \<Rightarrow>
              (case at_first_group f rest of
                 Some (r, rest') \<Rightarrow> Some (r, EntryGroup g es gs d # rest')
               | None \<Rightarrow> None)))"

definition at_first ::
  "(entry list \<Rightarrow> ('r \<times> entry list) option) \<Rightarrow> entry_tree \<Rightarrow> ('r \<times> entry_tree) option" where
  "at_first f t =
    (case f (tree_entries t) of
       Some (r, es) \<Rightarrow> Some (r, t\<lparr>tree_entries := es\<rparr>)
     | None \<Rightarrow>
         (case at_first_group f (tree_groups t) of
            Some (r, gs) \<Rightarrow> Some (r, t\<lparr>tree_groups := gs\<rparr>)
          | None \<Rightarrow> None))"

text \<open>\<open>find_in_entries_mut\<close> with the assignment made through the reference it returns.\<close>

fun find_in_entries_mut :: "entry_id \<Rightarrow> (entry \<Rightarrow> entry) \<Rightarrow> entry list \<Rightarrow> (unit \<times> entry list) option" where
  "find_in_entries_mut i f [] = None"
| "find_in_entries_mut i f (e # es) =
    (if entry_id_of e = i then Some ((), f e # es)
     else map_option (map_prod id ((#) e)) (find_in_entries_mut i f es))"

fun remove_from_entries :: "entry_id \<Rightarrow> entry list \<Rightarrow> (entry \<times> entry list) option" where
  "remove_from_entries i [] = None"
| "remove_from_entries i (e # es) =
    (if entry_id_of e = i then Some (e, es)
     else map_option (map_prod id ((#) e)) (remove_from_entries i es))"

fun insert_before :: "entry_id \<Rightarrow> entry \<Rightarrow> entry list \<Rightarrow> (unit \<times> entry list) option" where
  "insert_before i new [] = None"
| "insert_before i new (e # es) =
    (if entry_id_of e = i then Some ((), new # e # es)
     else map_option (map_prod id ((#) e)) (insert_before i new es))"

definition find_entry_mut :: "entry_tree \<Rightarrow> entry_id \<Rightarrow> (entry \<Rightarrow> entry) \<Rightarrow> loader_error + entry_tree" where
  "find_entry_mut t i f =
    (case at_first (find_in_entries_mut i f) t of
       None \<Rightarrow> Inl (MissingEntry i)
     | Some (_, t') \<Rightarrow> Inr t')"

definition remove_entry :: "entry_tree \<Rightarrow> entry_id \<Rightarrow> loader_error + entry \<times> entry_tree" where
  "remove_entry t i =
    (case at_first (remove_from_entries i) t of
       None \<Rightarrow> Inl (MissingEntry i)
     | Some r \<Rightarrow> Inr r)"

definition insert_entry :: "entry_tree \<Rightarrow> entry \<Rightarrow> entry_id option \<Rightarrow> loader_error + entry_tree" where
  "insert_entry t e before =
    (case before of
       None \<Rightarrow> Inr (t\<lparr>tree_entries := tree_entries t @ [e]\<rparr>)
     | Some b \<Rightarrow>
         (case at_first (insert_before b e) t of
            None \<Rightarrow> Inl (MissingEntry b)
          | Some (_, t') \<Rightarrow> Inr t'))"

fun apply_to :: "patch \<Rightarrow> entry_tree \<Rightarrow> loader_error + entry_tree" where
  "apply_to (Insert e before) t = insert_entry t e before"
| "apply_to (Update i e) t =
    (if entry_id_of e \<noteq> i
     then Inl (PatchError [Text ''replacement id '', Text (entry_id_of e),
            Text '' does not match target '', Text i])
     else find_entry_mut t i (\<lambda>_. e))"
| "apply_to (UpdateConfig i c) t =
    find_entry_mut t i (\<lambda>e. e\<lparr>options := (options e)\<lparr>eo_config := c\<rparr>\<rparr>)"
| "apply_to (Remove i) t = try_bind (remove_entry t i) (\<lambda>(_, t'). Inr t')"
| "apply_to (Move i before) t =
    (if before = Some i then Inl (PatchError (msg ''an entry cannot precede itself''))
     else try_bind (remove_entry t i) (\<lambda>(e, t'). insert_entry t' e before))"

definition apply_patch :: "entry_tree \<Rightarrow> patch \<Rightarrow> loader_error + entry_tree" where
  "apply_patch t p =
    try_bind (apply_to p t) (\<lambda>t'. try_bind (validate_tree t') (\<lambda>_. Inr t'))"

fun apply_patches :: "patch list \<Rightarrow> entry_tree \<Rightarrow> loader_error + entry_tree" where
  "apply_patches [] t = Inr t"
| "apply_patches (p # ps) t = try_bind (apply_to p t) (apply_patches ps)"

definition apply_all :: "entry_tree \<Rightarrow> patch list \<Rightarrow> loader_error + entry_tree" where
  "apply_all t ps =
    try_bind (apply_patches ps t) (\<lambda>t'. try_bind (validate_tree t') (\<lambda>_. Inr t'))"

subsection \<open>Documents\<close>

text \<open>
  \<open>serde_json::from_value\<close> at the two types is \<open>decode_entries\<close> and \<open>decode_tree\<close>, the text
  parsers are \<open>json_from_str\<close> and \<open>yaml_from_str\<close>; their errors are messages.
\<close>

definition normalize_entry :: "string \<times> json \<Rightarrow> json" where
  "normalize_entry iv =
    (let m = (case as_object (snd iv) of None \<Rightarrow> [] | Some m \<Rightarrow> m);
         m = (if bt_contains m ''id'' then m else bt_insert ''id'' (JStr (fst iv)) m)
     in JObj
         (if bt_contains m ''package'' then m
          else bt_insert ''package''
            (case bt_get m ''name'' of None \<Rightarrow> JStr (fst iv) | Some n \<Rightarrow> n) m))"

fun normalize_entries :: "json \<Rightarrow> json" where
  "normalize_entries (JObj es) = JArr (map normalize_entry es)"
| "normalize_entries v = v"

definition parse_tree_value ::
  "(json \<Rightarrow> message + entry list) \<Rightarrow> (json \<Rightarrow> message + entry_tree) \<Rightarrow> json \<Rightarrow> loader_error + entry_tree" where
  "parse_tree_value decode_entries decode_tree v =
    (if as_array v \<noteq> None
     then (case decode_entries v of
             Inl m \<Rightarrow> Inl (ParseError m)
           | Inr es \<Rightarrow> Inr \<lparr>tree_entries = es, tree_groups = []\<rparr>)
     else (case as_object v of
             None \<Rightarrow> Inl (ParseError (msg ''entry tree must be an object or entry list''))
           | Some obj \<Rightarrow>
               let obj' =
                 (if \<not> bt_contains obj ''entries''
                  then (case bt_get obj ''plugins'' of
                          None \<Rightarrow> obj
                        | Some es \<Rightarrow>
                            bt_insert ''entries'' (normalize_entries es) (bt_remove ''plugins'' obj))
                  else (case bt_get obj ''entries'' of
                          None \<Rightarrow> obj
                        | Some es \<Rightarrow>
                            bt_insert ''entries'' (normalize_entries es) (bt_remove ''entries'' obj)))
               in (case decode_tree (JObj obj') of
                     Inl m \<Rightarrow> Inl (ParseError m)
                   | Inr t \<Rightarrow> Inr t)))"

definition parse_entry_tree ::
  "(string \<Rightarrow> message + json) \<Rightarrow> (string \<Rightarrow> message + json) \<Rightarrow>
    (json \<Rightarrow> message + entry list) \<Rightarrow> (json \<Rightarrow> message + entry_tree) \<Rightarrow>
    string \<Rightarrow> loader_error + entry_tree" where
  "parse_entry_tree json_from_str yaml_from_str decode_entries decode_tree document =
    (if contains_str ''!!js'' document
     then Inl (ExpressionError (msg ''YAML !!js values must be handled by the legacy-node runtime''))
     else
       try_bind
         (case json_from_str document of
            Inr v \<Rightarrow> Inr v
          | Inl je \<Rightarrow>
              (case yaml_from_str document of
                 Inr v \<Rightarrow> Inr v
               | Inl ye \<Rightarrow>
                   Inl (ParseError ([Text ''invalid JSON (''] @ je @ [Text '') or YAML (''] @ ye @ [Text '')'']))))
         (\<lambda>v. try_bind (parse_tree_value decode_entries decode_tree v) (\<lambda>t.
           try_bind (validate_tree t) (\<lambda>_. Inr t))))"

subsection \<open>Persistence\<close>

text \<open>
  The file system is the contents of its files, by directory and name. A path is its parent
  directory and its file name, if it has one. Each call on the temporary file can fail:
  \<open>fs_fault\<close> says where, and after how many bytes for \<open>write_all\<close>. \<open>create_new\<close> also fails on
  an existing file. A rename replaces its target at once.
\<close>

type_synonym file_name = "string \<times> string"
type_synonym file_system = "file_name \<Rightarrow> string option"

datatype fs_fault = NoFault | CreateFails | WriteFails nat | SyncFails | RenameFails

record file_path =
  parent_dir :: string
  final_name :: "string option"

definition file_extension :: "string \<Rightarrow> string option" where
  "file_extension name =
    (let parts = split_on (CHR ''.'') name in
     if length parts = 1 \<or> (length parts = 2 \<and> hd parts = []) \<or> name = ''..'' then None
     else Some (last parts))"

definition temporary_name :: "file_path \<Rightarrow> string \<Rightarrow> nat \<Rightarrow> u64 \<Rightarrow> file_name" where
  "temporary_name p name pid n =
    (parent_dir p, ''.'' @ name @ ''.'' @ dec pid @ ''.'' @ dec (unat n) @ ''.tmp'')"

text \<open>The closure of \<open>persist_entry_tree\<close>: the file system it leaves and whether it succeeded.\<close>

definition write_and_rename ::
  "fs_fault \<Rightarrow> message \<Rightarrow> file_name \<Rightarrow> file_name \<Rightarrow> string \<Rightarrow> file_system \<Rightarrow>
    file_system \<times> (loader_error + unit)" where
  "write_and_rename fault os_error tmp target bytes fs =
    (if fault = CreateFails \<or> fs tmp \<noteq> None then (fs, Inl (PersistenceError os_error))
     else let fs1 = fs(tmp \<mapsto> []) in
     case fault of
       WriteFails n \<Rightarrow> (fs1(tmp \<mapsto> take n bytes), Inl (PersistenceError os_error))
     | SyncFails \<Rightarrow> (fs1(tmp \<mapsto> bytes), Inl (PersistenceError os_error))
     | RenameFails \<Rightarrow> (fs1(tmp \<mapsto> bytes), Inl (PersistenceError os_error))
     | _ \<Rightarrow> (fs1(target \<mapsto> bytes, tmp := None), Inr ()))"

definition encode_tree ::
  "(entry_tree \<Rightarrow> message + string) \<Rightarrow> (entry_tree \<Rightarrow> message + string) \<Rightarrow> file_path \<Rightarrow> entry_tree \<Rightarrow>
    message + string" where
  "encode_tree to_yaml to_json path t =
    (if Option.bind (final_name path) file_extension \<in> {Some ''yaml'', Some ''yml''}
     then to_yaml t else to_json t)"

text \<open>\<open>remove_file\<close> after an error; \<open>unremovable\<close> is its own failure, which the code ignores.\<close>

definition remove_temporary :: "bool \<Rightarrow> file_name \<Rightarrow> file_system \<Rightarrow> file_system" where
  "remove_temporary unremovable tmp fs = (if unremovable then fs else fs(tmp := None))"

definition persist_entry_tree ::
  "(entry_tree \<Rightarrow> message + string) \<Rightarrow> (entry_tree \<Rightarrow> message + string) \<Rightarrow> fs_fault \<Rightarrow> bool \<Rightarrow> message \<Rightarrow>
    nat \<Rightarrow> file_path \<Rightarrow> entry_tree \<Rightarrow> file_system \<times> u64 \<Rightarrow>
    (file_system \<times> u64) \<times> (loader_error + unit)" where
  "persist_entry_tree to_yaml to_json fault unremovable os_error pid path t st =
    (let (fs, counter) = st in
     case validate_tree t of
       Inl e \<Rightarrow> (st, Inl e)
     | Inr _ \<Rightarrow>
         (case encode_tree to_yaml to_json path t of
            Inl m \<Rightarrow> (st, Inl (PersistenceError m))
          | Inr bytes \<Rightarrow>
              (case final_name path of
                 None \<Rightarrow> (st, Inl (PersistenceError (msg ''persistence path has no file name'')))
               | Some name \<Rightarrow>
                   let tmp = temporary_name path name pid counter;
                       (fs', result) =
                         write_and_rename fault os_error tmp (parent_dir path, name) bytes fs
                   in (case result of
                         Inl e \<Rightarrow> ((remove_temporary unremovable tmp fs', counter + 1), Inl e)
                       | Inr _ \<Rightarrow> ((fs', counter + 1), Inr ())))))"

subsection \<open>The accepted trees\<close>

fun group_ids :: "entry_group list \<Rightarrow> string list" where
  "group_ids [] = []"
| "group_ids (EntryGroup g es gs d # rest) = g # group_ids gs @ group_ids rest"

fun qualified_ids :: "string \<Rightarrow> entry_group list \<Rightarrow> string list" where
  "qualified_ids parent [] = []"
| "qualified_ids parent (EntryGroup g es gs d # rest) =
    qualify parent g # qualified_ids (qualify parent g) gs @ qualified_ids parent rest"

lemma validate_entries_ok:
  "validate_entries es ids = Inr ids' \<longleftrightarrow>
    (\<forall>e\<in>set es. validate_entry e = Inr ()) \<and> distinct (map entry_id_of es)
    \<and> set (map entry_id_of es) \<inter> ids = {} \<and> ids' = ids \<union> set (map entry_id_of es)"
  by (induction es arbitrary: ids) (auto simp: try_bind_eq_Inr)

lemma validate_groups_ok:
  "validate_groups gs parent (ids, groups) = Inr seen \<longleftrightarrow>
    (\<forall>e\<in>set (collect_entries [] gs). validate_entry e = Inr ())
    \<and> distinct (map entry_id_of (collect_entries [] gs))
    \<and> set (map entry_id_of (collect_entries [] gs)) \<inter> ids = {}
    \<and> (\<forall>g\<in>set (group_ids gs). is_identifier g)
    \<and> distinct (qualified_ids parent gs) \<and> set (qualified_ids parent gs) \<inter> groups = {}
    \<and> seen = (ids \<union> set (map entry_id_of (collect_entries [] gs)),
              groups \<union> set (qualified_ids parent gs))"
proof (induction parent gs arbitrary: ids groups seen rule: qualified_ids.induct)
  case (1 parent)
  then show ?case by auto
next
  case (2 parent g es gs d rest)
  let ?q = "qualify parent g"
  have "validate_groups (EntryGroup g es gs d # rest) parent (ids, groups) = Inr seen \<longleftrightarrow>
     is_identifier g \<and> ?q \<notin> groups \<and>
     (\<exists>ids' a b. validate_entries es ids = Inr ids'
        \<and> validate_groups gs ?q (ids', insert ?q groups) = Inr (a, b)
        \<and> validate_groups rest parent (a, b) = Inr seen)"
    by (auto simp: Let_def try_bind_eq_Inr)
  then show ?case
    unfolding 2 validate_entries_ok
    by (simp add: ball_Un Int_Un_distrib Int_Un_distrib2 Int_commute) (safe; fastforce)
qed

lemma collect_entries_root: "collect_entries root gs = root @ collect_entries [] gs"
  by (cases "(root, gs)" rule: collect_entries.cases) simp_all

lemma validate_tree_ok:
  "validate_tree t = Inr () \<longleftrightarrow>
    (\<forall>e\<in>set (entries t). validate_entry e = Inr ())
    \<and> distinct (map entry_id_of (entries t))
    \<and> (\<forall>g\<in>set (group_ids (tree_groups t)). is_identifier g)
    \<and> distinct (qualified_ids [] (tree_groups t))"
proof -
  have "validate_tree t = Inr () \<longleftrightarrow> (\<exists>ids seen. validate_entries (tree_entries t) {} = Inr ids
      \<and> validate_groups (tree_groups t) [] (ids, {}) = Inr seen)"
    by (auto simp: validate_tree_def try_bind_eq_Inr)
  also have "entries t = tree_entries t @ collect_entries [] (tree_groups t)"
    unfolding entries_def by (rule collect_entries_root)
  ultimately show ?thesis
    by (simp add: validate_entries_ok validate_groups_ok del: ex_simps) blast
qed

subsection \<open>The abstract view: sections\<close>

text \<open>
  A section is one list of entries with the groups that enclose it, outermost first, each
  with its disabled flag. The sections of a tree, in document order, are what a patch is
  specified on: \<open>spec_patch\<close> edits every section by a plain list function.
\<close>

type_synonym entry_section = "(string \<times> bool) list \<times> entry list"

fun group_sections :: "(string \<times> bool) list \<Rightarrow> entry_group list \<Rightarrow> entry_section list" where
  "group_sections path [] = []"
| "group_sections path (EntryGroup g es gs d # rest) =
    (path @ [(g, d)], es) # group_sections (path @ [(g, d)]) gs @ group_sections path rest"

definition sections :: "entry_tree \<Rightarrow> entry_section list" where
  "sections t = ([], tree_entries t) # group_sections [] (tree_groups t)"

definition section_entries :: "entry_section list \<Rightarrow> entry list" where
  "section_entries ss = concat (map snd ss)"

abbreviation edit_sections :: "(entry list \<Rightarrow> entry list) \<Rightarrow> entry_section list \<Rightarrow> entry_section list" where
  "edit_sections f ss \<equiv> map (apsnd f) ss"

definition put_before :: "entry_id \<Rightarrow> entry \<Rightarrow> entry list \<Rightarrow> entry list" where
  "put_before b e es = concat (map (\<lambda>x. if entry_id_of x = b then [e, x] else [x]) es)"

fun put_section :: "entry \<Rightarrow> entry_id option \<Rightarrow> entry_section list \<Rightarrow> entry_section list" where
  "put_section e None ss = (case ss of [] \<Rightarrow> [] | (p, es) # rest \<Rightarrow> (p, es @ [e]) # rest)"
| "put_section e (Some b) ss = edit_sections (put_before b e) ss"

definition drop_id :: "entry_id \<Rightarrow> entry list \<Rightarrow> entry list" where
  "drop_id i es = filter (\<lambda>x. entry_id_of x \<noteq> i) es"

definition replace_id :: "entry_id \<Rightarrow> (entry \<Rightarrow> entry) \<Rightarrow> entry list \<Rightarrow> entry list" where
  "replace_id i f es = map (\<lambda>x. if entry_id_of x = i then f x else x) es"

fun spec_patch :: "patch \<Rightarrow> entry_section list \<Rightarrow> entry_section list" where
  "spec_patch (Insert e before) ss = put_section e before ss"
| "spec_patch (Update i e) ss = edit_sections (replace_id i (\<lambda>_. e)) ss"
| "spec_patch (UpdateConfig i c) ss =
    edit_sections (replace_id i (\<lambda>e. e\<lparr>options := (options e)\<lparr>eo_config := c\<rparr>\<rparr>)) ss"
| "spec_patch (Remove i) ss = edit_sections (drop_id i) ss"
| "spec_patch (Move i before) ss =
    (case filter (\<lambda>x. entry_id_of x = i) (section_entries ss) of
       [] \<Rightarrow> ss
     | e # _ \<Rightarrow> put_section e before (edit_sections (drop_id i) ss))"

lemma section_entries_simps [simp]:
  "section_entries [] = []"
  "section_entries (s # ss) = snd s @ section_entries ss"
  "section_entries (ss @ ss') = section_entries ss @ section_entries ss'"
  by (simp_all add: section_entries_def)

lemma group_sections_entries: "section_entries (group_sections path gs) = collect_entries [] gs"
  by (induction path gs rule: group_sections.induct) simp_all

lemma sections_entries: "section_entries (sections t) = entries t"
  by (simp add: sections_def entries_def group_sections_entries collect_entries_root [of "tree_entries t"])

text \<open>An operation of the walk changes exactly the first section it applies to.\<close>

definition edits_first ::
  "(entry list \<Rightarrow> ('r \<times> entry list) option) \<Rightarrow> 'r \<Rightarrow> entry_section list \<Rightarrow> entry_section list \<Rightarrow> bool" where
  "edits_first f r ss ss' \<longleftrightarrow>
    (\<exists>us p es es' ws. ss = us @ (p, es) # ws \<and> f es = Some (r, es') \<and> ss' = us @ (p, es') # ws)"

lemma edits_first_intro:
  "f es = Some (r, es') \<Longrightarrow> edits_first f r (us @ (p, es) # ws) (us @ (p, es') # ws)"
  unfolding edits_first_def by blast

lemma edits_first_within:
  assumes "edits_first f r ss ss'"
  shows "edits_first f r (us @ ss @ ws) (us @ ss' @ ws)"
proof -
  obtain as p es es' bs where "ss = as @ (p, es) # bs" "f es = Some (r, es')" "ss' = as @ (p, es') # bs"
    using assms by (auto simp: edits_first_def)
  then show ?thesis using edits_first_intro [of f es r es' "us @ as" p "bs @ ws"] by simp
qed

lemma at_first_group_edits:
  "at_first_group f gs = Some (r, gs') \<Longrightarrow>
    edits_first f r (group_sections path gs) (group_sections path gs')"
proof (induction path gs arbitrary: gs' rule: group_sections.induct)
  case (2 path g es gs d rest)
  let ?p = "path @ [(g, d)]"
  consider es' where "f es = Some (r, es')" "gs' = EntryGroup g es' gs d # rest"
    | ngs where "at_first_group f gs = Some (r, ngs)" "gs' = EntryGroup g es ngs d # rest"
    | rest' where "at_first_group f rest = Some (r, rest')" "gs' = EntryGroup g es gs d # rest'"
    using "2.prems" by (auto split: option.splits)
  then show ?case
  proof cases
    case (1 es')
    then show ?thesis
      using edits_first_intro [of f es r es' "[]" ?p "group_sections ?p gs @ group_sections path rest"]
      by simp
  next
    case (2 ngs)
    then show ?thesis
      using edits_first_within [OF "2.IH"(1) [OF 2(1)], of "[(?p, es)]" "group_sections path rest"]
      by simp
  next
    case (3 rest')
    then show ?thesis
      using edits_first_within [OF "2.IH"(2) [OF 3(1)], of "(?p, es) # group_sections ?p gs" "[]"]
      by simp
  qed
qed simp

lemma at_first_edits:
  assumes "at_first f t = Some (r, t')"
  shows "edits_first f r (sections t) (sections t')"
proof -
  consider es where "f (tree_entries t) = Some (r, es)" "t' = t\<lparr>tree_entries := es\<rparr>"
    | gs where "at_first_group f (tree_groups t) = Some (r, gs)" "t' = t\<lparr>tree_groups := gs\<rparr>"
    using assms by (auto simp: at_first_def split: option.splits)
  then show ?thesis
  proof cases
    case (1 es)
    then show ?thesis
      using edits_first_intro [of f _ r es "[]" "[]"] by (simp add: sections_def)
  next
    case (2 gs)
    then show ?thesis
      using edits_first_within [OF at_first_group_edits [OF 2(1), of "[]"], of "[([], tree_entries t)]" "[]"]
      by (simp add: sections_def)
  qed
qed

text \<open>
  The three edits share one contract: \<open>edit\<close> applies to a list iff the target's identifier
  occurs in it, and then does what \<open>pure\<close> does on a list without repeated identifiers.
\<close>

abbreviation ids_of :: "entry list \<Rightarrow> entry_id list" where
  "ids_of es \<equiv> map entry_id_of es"

locale targeted_edit =
  fixes edit :: "entry list \<Rightarrow> ('r \<times> entry list) option"
    and target :: entry_id
    and pure :: "entry list \<Rightarrow> entry list"
    and result :: "entry list \<Rightarrow> 'r"
  assumes edit_None: "edit es = None \<longleftrightarrow> target \<notin> set (ids_of es)"
    and edit_Some: "edit es = Some (r, es') \<Longrightarrow> distinct (ids_of es) \<Longrightarrow> es' = pure es \<and> r = result es"
    and pure_absent: "target \<notin> set (ids_of es) \<Longrightarrow> pure es = es"
    and result_local: "target \<notin> set (ids_of us) \<Longrightarrow> target \<notin> set (ids_of ws) \<Longrightarrow>
      result (us @ es @ ws) = result es"
begin

lemma missing_group: "at_first_group edit gs = None \<longleftrightarrow> target \<notin> set (ids_of (collect_entries [] gs))"
proof (induction gs rule: group_ids.induct)
  case (2 g es gs d rest)
  have "at_first_group edit (EntryGroup g es gs d # rest) = None \<longleftrightarrow>
      edit es = None \<and> at_first_group edit gs = None \<and> at_first_group edit rest = None"
    by (auto split: option.splits)
  then show ?case unfolding edit_None 2 by auto
qed simp

lemma missing: "at_first edit t = None \<longleftrightarrow> target \<notin> set (ids_of (entries t))"
proof -
  have "at_first edit t = None \<longleftrightarrow>
      edit (tree_entries t) = None \<and> at_first_group edit (tree_groups t) = None"
    by (auto simp: at_first_def split: option.splits)
  then show ?thesis
    unfolding edit_None missing_group entries_def collect_entries_root [of "tree_entries t"] by auto
qed

lemma pure_sections:
  "target \<notin> set (ids_of (section_entries ss)) \<Longrightarrow> edit_sections pure ss = ss"
  by (induction ss) (auto simp: pure_absent apsnd_def map_prod_def split: prod.splits)

lemma refines:
  assumes "at_first edit t = Some (r, t')" and "distinct (ids_of (entries t))"
  shows "sections t' = edit_sections pure (sections t) \<and> r = result (entries t)"
proof -
  obtain us p es es' ws where st: "sections t = us @ (p, es) # ws" "edit es = Some (r, es')"
      "sections t' = us @ (p, es') # ws"
    using at_first_edits [OF assms(1)] by (auto simp: edits_first_def)
  have ent: "entries t = section_entries us @ es @ section_entries ws"
    using st(1) by (simp flip: sections_entries)
  then have "distinct (ids_of es)" using assms(2) by simp
  then have "es' = pure es" "r = result es" using edit_Some [OF st(2)] by auto
  moreover have "target \<in> set (ids_of es)" using edit_None [of es] st(2) by auto
  then have "target \<notin> set (ids_of (section_entries us))" "target \<notin> set (ids_of (section_entries ws))"
    using assms(2) ent by auto
  ultimately show ?thesis using st ent by (simp add: pure_sections result_local)
qed

end

lemma replace_absent: "i \<notin> set (ids_of es) \<Longrightarrow> replace_id i f es = es"
  by (induction es) (auto simp: replace_id_def)

lemma drop_absent: "i \<notin> set (ids_of es) \<Longrightarrow> drop_id i es = es"
  by (induction es) (auto simp: drop_id_def)

lemma put_absent: "i \<notin> set (ids_of es) \<Longrightarrow> put_before i e es = es"
  by (induction es) (auto simp: put_before_def)

lemma edit_Cons [simp]:
  "replace_id i f (e # es) = (if entry_id_of e = i then f e else e) # replace_id i f es"
  "drop_id i (e # es) = (if entry_id_of e = i then drop_id i es else e # drop_id i es)"
  "put_before i new (e # es) = (if entry_id_of e = i then [new, e] else [e]) @ put_before i new es"
  by (simp_all add: replace_id_def drop_id_def put_before_def)

interpretation find_edit: targeted_edit "find_in_entries_mut i f" i "replace_id i f" "\<lambda>_. ()" for i f
proof
  show "find_in_entries_mut i f es = None \<longleftrightarrow> i \<notin> set (ids_of es)" for es
    by (induction es) auto
  show "find_in_entries_mut i f es = Some (r, es') \<Longrightarrow> distinct (ids_of es) \<Longrightarrow>
      es' = replace_id i f es \<and> r = ()" for es es' r
    by (induction es arbitrary: es') (auto simp: replace_absent split: if_splits)
qed (simp_all add: replace_absent)

definition first_id :: "entry_id \<Rightarrow> entry list \<Rightarrow> entry" where
  "first_id i es = hd (filter (\<lambda>x. entry_id_of x = i) es)"

interpretation remove_edit: targeted_edit "remove_from_entries i" i "drop_id i" "first_id i" for i
proof
  show "remove_from_entries i es = None \<longleftrightarrow> i \<notin> set (ids_of es)" for es
    by (induction es) auto
  show "remove_from_entries i es = Some (r, es') \<Longrightarrow> distinct (ids_of es) \<Longrightarrow>
      es' = drop_id i es \<and> r = first_id i es" for es es' r
    by (induction es arbitrary: es' r) (auto simp: drop_absent first_id_def split: if_splits)
  show "i \<notin> set (ids_of us) \<Longrightarrow> i \<notin> set (ids_of ws) \<Longrightarrow> first_id i (us @ es @ ws) = first_id i es"
    for us es ws
  proof -
    assume "i \<notin> set (ids_of us)" "i \<notin> set (ids_of ws)"
    then have "filter (\<lambda>x. entry_id_of x = i) us = []" "filter (\<lambda>x. entry_id_of x = i) ws = []"
      by (auto simp: filter_empty_conv)
    then show ?thesis by (simp add: first_id_def)
  qed
qed (simp add: drop_absent)

interpretation insert_edit: targeted_edit "insert_before b e" b "put_before b e" "\<lambda>_. ()" for b e
proof
  show "insert_before b e es = None \<longleftrightarrow> b \<notin> set (ids_of es)" for es
    by (induction es) auto
  show "insert_before b e es = Some (r, es') \<Longrightarrow> distinct (ids_of es) \<Longrightarrow>
      es' = put_before b e es \<and> r = ()" for es es' r
    by (induction es arbitrary: es') (auto simp: put_absent split: if_splits)
qed (simp_all add: put_absent)

lemma drop_sections_entries:
  "section_entries (edit_sections (drop_id i) ss) = drop_id i (section_entries ss)"
  by (induction ss) (auto simp: drop_id_def)

lemma insert_entry_sections:
  assumes "insert_entry t e before = Inr t'" and "distinct (ids_of (entries t))"
  shows "sections t' = put_section e before (sections t)"
  using assms insert_edit.refines
  by (cases before) (auto simp: insert_entry_def sections_def split: option.splits)

lemma remove_entry_sections:
  assumes "remove_entry t i = Inr (e, t')" and "distinct (ids_of (entries t))"
  shows "sections t' = edit_sections (drop_id i) (sections t) \<and> e = first_id i (entries t)
    \<and> i \<in> set (ids_of (entries t)) \<and> entries t' = drop_id i (entries t)"
proof -
  have at: "at_first (remove_from_entries i) t = Some (e, t')"
    using assms(1) by (auto simp: remove_entry_def split: option.splits)
  then have ref: "sections t' = edit_sections (drop_id i) (sections t)" "e = first_id i (entries t)"
    using remove_edit.refines assms(2) by blast+
  have "entries t' = drop_id i (entries t)"
    using arg_cong [OF ref(1), of section_entries] by (simp add: drop_sections_entries sections_entries)
  moreover have "i \<in> set (ids_of (entries t))"
    using at remove_edit.missing [of i t] by auto
  ultimately show ?thesis using ref by blast
qed

lemma drop_distinct: "distinct (ids_of es) \<Longrightarrow> distinct (ids_of (drop_id i es))"
  by (induction es) (auto simp: drop_id_def)

lemma filter_first:
  "i \<in> set (ids_of es) \<Longrightarrow> \<exists>rest. filter (\<lambda>x. entry_id_of x = i) es = first_id i es # rest"
  unfolding first_id_def by (induction es) auto

lemma apply_to_sections:
  assumes "distinct (ids_of (entries t))" and "apply_to p t = Inr t'"
  shows "sections t' = spec_patch p (sections t)"
proof (cases p)
  case (Insert e before)
  then show ?thesis using assms insert_entry_sections by simp
next
  case (Move i before)
  then obtain e t1 where rm: "remove_entry t i = Inr (e, t1)" and ins: "insert_entry t1 e before = Inr t'"
    using assms(2) by (auto simp: try_bind_eq_Inr split: if_splits)
  note t1 = remove_entry_sections [OF rm assms(1)]
  then have "sections t' = put_section e before (sections t1)"
    using insert_entry_sections [OF ins] drop_distinct assms(1) by simp
  then show ?thesis
    using t1 Move filter_first [of i "entries t"] by (auto simp: sections_entries)
next
  case (Remove i)
  then show ?thesis
    using assms remove_entry_sections by (force simp: try_bind_eq_Inr)
qed (use assms find_edit.refines in \<open>auto simp: find_entry_mut_def split: if_splits option.splits\<close>)

text \<open>The identifiers a patch addresses, and the two patches that contradict themselves.\<close>

fun patch_needs :: "patch \<Rightarrow> entry_id set" where
  "patch_needs (Insert e before) = set_option before"
| "patch_needs (Update i e) = {i}"
| "patch_needs (UpdateConfig i c) = {i}"
| "patch_needs (Remove i) = {i}"
| "patch_needs (Move i before) = insert i (set_option before)"

fun patch_coherent :: "patch \<Rightarrow> bool" where
  "patch_coherent (Update i e) = (entry_id_of e = i)"
| "patch_coherent (Move i before) = (before \<noteq> Some i)"
| "patch_coherent _ = True"

lemma insert_entry_ok:
  "(\<exists>t'. insert_entry t e before = Inr t') \<longleftrightarrow> set_option before \<subseteq> set (ids_of (entries t))"
  using insert_edit.missing [of "the before" e t]
  by (cases before) (auto simp: insert_entry_def split: option.splits)

lemma find_entry_ok: "(\<exists>t'. find_entry_mut t i f = Inr t') \<longleftrightarrow> i \<in> set (ids_of (entries t))"
  using find_edit.missing [of i f t] by (auto simp: find_entry_mut_def split: option.splits)

lemma remove_entry_ok: "(\<exists>e t'. remove_entry t i = Inr (e, t')) \<longleftrightarrow> i \<in> set (ids_of (entries t))"
  using remove_edit.missing [of i t] by (auto simp: remove_entry_def split: option.splits)

lemma drop_ids_of: "set (ids_of (drop_id i es)) = set (ids_of es) - {i}"
  by (auto simp: drop_id_def)

lemma apply_to_succeeds:
  assumes "distinct (ids_of (entries t))"
  shows "(\<exists>t'. apply_to p t = Inr t') \<longleftrightarrow> patch_coherent p \<and> patch_needs p \<subseteq> set (ids_of (entries t))"
proof (cases p)
  case (Insert e before)
  then show ?thesis using insert_entry_ok by simp
next
  case (Move i before)
  have "(\<exists>t'. apply_to p t = Inr t') \<longleftrightarrow> before \<noteq> Some i \<and>
      (\<exists>e t1. remove_entry t i = Inr (e, t1) \<and> (\<exists>t'. insert_entry t1 e before = Inr t'))"
    using Move by (auto simp: try_bind_eq_Inr)
  also have "\<dots> \<longleftrightarrow> before \<noteq> Some i \<and> (\<exists>e t1. remove_entry t i = Inr (e, t1)) \<and>
      set_option before \<subseteq> set (ids_of (entries t)) - {i}"
    unfolding insert_entry_ok using remove_entry_sections assms drop_ids_of by metis
  finally show ?thesis unfolding remove_entry_ok using Move by auto
next
  case (Remove i)
  then show ?thesis using remove_entry_ok [of t i] by (auto simp: try_bind_eq_Inr)
next
  case (Update i e)
  then show ?thesis using find_entry_ok [of t i] by auto
next
  case (UpdateConfig i c)
  then show ?thesis using find_entry_ok [of t i] by auto
qed

definition section_active :: "entry_section \<Rightarrow> entry list" where
  "section_active s =
    (if \<exists>g\<in>set (fst s). snd g then [] else filter (\<lambda>e. \<not> eo_disabled (options e)) (snd s))"

lemma active_group_sections:
  "off = (\<exists>g\<in>set path. snd g) \<Longrightarrow>
    collect_active_entries [] gs off = concat (map section_active (group_sections path gs))"
proof (induction path gs arbitrary: off rule: group_sections.induct)
  case (2 path g es gs d rest)
  have "(off \<or> d) = (\<exists>x\<in>set (path @ [(g, d)]). snd x)" using "2.prems" by auto
  note nested = "2.IH"(1) [OF this]
  have "section_active (path @ [(g, d)], es) = filter (\<lambda>e. \<not> eo_disabled (options e) \<and> \<not> (off \<or> d)) es"
    using "2.prems" by (auto simp: section_active_def)
  then show ?case
    using nested "2.IH"(2) [OF "2.prems"] by (simp add: Let_def del: de_Morgan_disj)
qed simp

lemma collect_active_root:
  "collect_active_entries root gs off =
    filter (\<lambda>e. \<not> eo_disabled (options e) \<and> \<not> off) root @ collect_active_entries [] gs off"
  by (cases "(root, gs, off)" rule: collect_active_entries.cases) simp_all

subsection \<open>Properties\<close>

text \<open>C2: A tree is accepted exactly when every entry is valid on its own, no two entries
  anywhere in the tree share an identifier, every group identifier is well formed and no two
  groups have the same qualified identifier. The order of the checks and the sets threaded
  through them accept nothing more and nothing less.\<close>

theorem validate_tree_exact:
  "validate_tree t = Inr () \<longleftrightarrow>
    list_all (\<lambda>e. validate_entry e = Inr ()) (entries t)
    \<and> distinct (map entry_id_of (entries t))
    \<and> list_all is_identifier (group_ids (tree_groups t))
    \<and> distinct (qualified_ids [] (tree_groups t))"
  by (simp add: validate_tree_ok list_all_iff)

text \<open>C1: On an accepted tree, every patch refines its specification on sections: it
  replaces, drops or inserts exactly the addressed entry, in its section and at its position,
  and leaves every other entry, the nesting and the disabled flags alone. It succeeds iff the
  identifiers it addresses exist and it does not contradict itself.\<close>

theorem patch_refines_sections:
  assumes "validate_tree t = Inr ()"
  shows "(\<forall>t'. apply_to p t = Inr t' \<longrightarrow> sections t' = spec_patch p (sections t))
    \<and> ((\<exists>t'. apply_to p t = Inr t') \<longleftrightarrow> patch_coherent p \<and> patch_needs p \<subseteq> set (map entry_id_of (entries t)))"
  using assms apply_to_sections apply_to_succeeds unfolding validate_tree_ok by blast

text \<open>The active entries are, in document order, the entries that are not disabled
  themselves and have no disabled group around them, at any depth.\<close>

theorem active_entries_exact:
  "active_entries t = concat (map section_active (sections t))"
  using active_group_sections [of False "[]" "tree_groups t"]
    collect_active_root [of "tree_entries t" "tree_groups t" False]
  by (simp add: active_entries_def sections_def section_active_def)

text \<open>C3: Persisting never tears the document: wherever the creation, the write, the sync or the rename
  fails, the target keeps its old contents; on success it holds the complete encoding of a valid tree, in
  the format its extension asks for. No other file changes but the temporary one. That one is gone after a
  success; after an error it is gone too, unless it cannot be removed, and then it holds the part of the
  encoding that was written. A success needs its name to be free before.\<close>

theorem persist_atomic:
  assumes "final_name path = Some name"
    and "persist_entry_tree to_yaml to_json fault unremovable os_error pid path t (fs, c) = ((fs', c'), r)"
  shows "(case r of
      Inl e \<Rightarrow> fs' (parent_dir path, name) = fs (parent_dir path, name)
        \<and> (fs (temporary_name path name pid c) = None \<longrightarrow>
            fs' (temporary_name path name pid c) = None
            \<or> unremovable \<and> (\<exists>bytes n. encode_tree to_yaml to_json path t = Inr bytes
                \<and> fs' (temporary_name path name pid c) = Some (take n bytes)))
    | Inr _ \<Rightarrow> validate_tree t = Inr ()
        \<and> fs (temporary_name path name pid c) = None \<and> fs' (temporary_name path name pid c) = None
        \<and> (\<exists>bytes. encode_tree to_yaml to_json path t = Inr bytes \<and> fs' (parent_dir path, name) = Some bytes))
    \<and> (\<forall>f. f \<noteq> (parent_dir path, name) \<and> f \<noteq> temporary_name path name pid c \<longrightarrow> fs' f = fs f)"
proof -
  have other: "temporary_name path name pid c \<noteq> (parent_dir path, name)"
    by (auto simp: temporary_name_def dest: arg_cong [of _ _ length])
  show ?thesis
  proof (cases "validate_tree t")
    case (Inr u)
    then have valid: "validate_tree t = Inr ()" by simp
    show ?thesis
    proof (cases "encode_tree to_yaml to_json path t")
      case (Inr bytes)
      have whole: "\<exists>n. bytes = take n bytes" by (rule exI [of _ "length bytes"]) simp
      show ?thesis using assms other valid Inr whole
        by (cases fault; cases r)
          (auto simp: persist_entry_tree_def write_and_rename_def remove_temporary_def Let_def split: if_splits)
    qed (use assms valid in \<open>auto simp: persist_entry_tree_def\<close>)
  qed (use assms in \<open>cases r; auto simp: persist_entry_tree_def\<close>)
qed

text \<open>The error path removes the temporary file even when it belongs to somebody else: a name that is
  taken makes the creation fail, and what is removed is the file that was there before.\<close>

lemma persist_removes_foreign_file:
  assumes "final_name path = Some name" and "validate_tree t = Inr ()"
    and "encode_tree to_yaml to_json path t = Inr bytes" and "fs (temporary_name path name pid c) = Some other"
  shows "persist_entry_tree to_yaml to_json fault False os_error pid path t (fs, c)
    = ((fs(temporary_name path name pid c := None), c + 1), Inl (PersistenceError os_error))"
  using assms by (simp add: persist_entry_tree_def write_and_rename_def remove_temporary_def Let_def)

definition sample_entry :: "string \<Rightarrow> entry" where
  "sample_entry i = \<lparr>package = ''pkg'', options = \<lparr>eo_id = i, eo_name = None, eo_runtime = Native,
    eo_config = JObj [], eo_inject = [], eo_isolate = [], eo_intercept = JObj [],
    eo_disabled = False, eo_group = None\<rparr>\<rparr>"

definition sample_tree :: entry_tree where
  "sample_tree = \<lparr>tree_entries = [sample_entry ''a''],
    tree_groups = [EntryGroup ''g'' [sample_entry ''b''] [EntryGroup ''h'' [sample_entry ''c''] [] False] True]\<rparr>"

lemma sample_tree_valid: "validate_tree sample_tree = Inr ()"
  by code_simp

theorem patch_refines_sections_witness:
  "\<exists>t'. apply_to (Move ''c'' (Some ''b'')) sample_tree = Inr t'
    \<and> sections t' = spec_patch (Move ''c'' (Some ''b'')) (sections sample_tree)"
proof -
  have "patch_coherent (Move ''c'' (Some ''b''))
      \<and> patch_needs (Move ''c'' (Some ''b'')) \<subseteq> set (map entry_id_of (entries sample_tree))"
    by code_simp
  then show ?thesis
    using patch_refines_sections [OF sample_tree_valid, of "Move ''c'' (Some ''b'')"] by blast
qed

definition sample_path :: file_path where
  "sample_path = \<lparr>parent_dir = ''/etc'', final_name = Some ''tree.json''\<rparr>"

theorem persist_atomic_witness:
  "\<exists>fs'. persist_entry_tree (\<lambda>_. Inl []) (\<lambda>_. Inr ''{}'') (WriteFails 1) True [] 7 sample_path sample_tree
      ((\<lambda>_. None)((''/etc'', ''tree.json'') \<mapsto> ''old''), 0) = ((fs', 1), Inl (PersistenceError []))
    \<and> fs' (''/etc'', ''tree.json'') = Some ''old''
    \<and> fs' (temporary_name sample_path ''tree.json'' 7 0) = Some ''{''"
proof -
  let ?fs = "(\<lambda>_. None)((''/etc'', ''tree.json'') \<mapsto> ''old'') :: file_system"
  obtain fs' where run: "persist_entry_tree (\<lambda>_. Inl []) (\<lambda>_. Inr ''{}'') (WriteFails 1) True [] 7 sample_path sample_tree
      (?fs, 0) = ((fs', 1), Inl (PersistenceError []))"
      "fs' (temporary_name sample_path ''tree.json'' 7 0) = Some ''{''"
    by (simp add: persist_entry_tree_def sample_tree_valid write_and_rename_def sample_path_def
        temporary_name_def encode_tree_def file_extension_def remove_temporary_def)
  show ?thesis
    using persist_atomic [OF _ run(1), of "''tree.json''"] run by (simp add: sample_path_def)
qed

end
