(* ===== verification/Waiters.thy ===== *)
theory Waiters
  imports Prelude
begin

section \<open>One-shot signals and their waiters (lifecycle.rs)\<close>

text \<open>
  \<open>CancellationToken\<close> and \<open>DisposeCompletion\<close> are the same protocol: a value that is set
  once (the flag, the result) and a mutex-protected list of wakers. The firing side sets the
  value without the lock and then takes the list; the waiting side locks the list, checks the
  value once more and registers. The machine has one step per atomic action, so that every
  interleaving of the two sides is a run.
\<close>

type_synonym waker = nat

text \<open>\<open>register_waker\<close>: a waker that would wake the same task is replaced, not repeated.\<close>

fun register_waker :: "waker \<Rightarrow> waker list \<Rightarrow> waker list" where
  "register_waker w [] = [w]"
| "register_waker w (v # ws) = (if v = w then w # ws else v # register_waker w ws)"

text \<open>
  \<open>critical\<close> is the poll that holds the list's lock, with \<open>True\<close> once its second look at the
  value found it unset. \<open>firing\<close> holds from the store of the value to the taking of the
  list. \<open>parked\<close> records every poll that returned \<open>Pending\<close>, \<open>ready\<close> every one that
  returned \<open>Ready\<close>, \<open>woken\<close> every wake-up.
\<close>

record signal =
  fired :: bool
  firing :: bool
  waiters :: "waker list"
  critical :: "(waker \<times> bool) option"
  parked :: "waker list"
  ready :: "waker list"
  woken :: "waker list"

definition signal_new :: signal where
  "signal_new = \<lparr>fired = False, firing = False, waiters = [], critical = None,
     parked = [], ready = [], woken = []\<rparr>"

datatype signal_step = Fire | FireLost | TakeWaiters | PollFast waker | PollLock waker | PollCheck | PollPark

fun signal_exec :: "signal_step \<Rightarrow> signal \<Rightarrow> signal option" where
  "signal_exec Fire s = (if fired s then None else Some (s\<lparr>fired := True, firing := True\<rparr>))"
| "signal_exec FireLost s = (if fired s then Some s else None)"
| "signal_exec TakeWaiters s =
    (if firing s \<and> critical s = None
     then Some (s\<lparr>firing := False, waiters := [], woken := woken s @ waiters s\<rparr>) else None)"
| "signal_exec (PollFast w) s = (if fired s then Some (s\<lparr>ready := ready s @ [w]\<rparr>) else None)"
| "signal_exec (PollLock w) s =
    (if critical s = None then Some (s\<lparr>critical := Some (w, False)\<rparr>) else None)"
| "signal_exec PollCheck s =
    (case critical s of
       Some (w, False) \<Rightarrow>
         Some (if fired s then s\<lparr>critical := None, ready := ready s @ [w]\<rparr>
               else s\<lparr>critical := Some (w, True)\<rparr>)
     | _ \<Rightarrow> None)"
| "signal_exec PollPark s =
    (case critical s of
       Some (w, True) \<Rightarrow>
         Some (s\<lparr>critical := None, waiters := register_waker w (waiters s), parked := parked s @ [w]\<rparr>)
     | _ \<Rightarrow> None)"

definition signal_start :: "signal \<Rightarrow> bool" where
  "signal_start s \<longleftrightarrow> s = signal_new"

definition signal_inv :: "signal \<Rightarrow> bool" where
  "signal_inv s \<longleftrightarrow>
    (fired s \<and> \<not> firing s \<longrightarrow> waiters s = [] \<and> (\<forall>w. critical s \<noteq> Some (w, True)))
    \<and> (firing s \<longrightarrow> fired s)
    \<and> set (parked s) \<subseteq> set (waiters s) \<union> set (woken s)
    \<and> (\<not> fired s \<longrightarrow> woken s = [] \<and> ready s = [])
    \<and> distinct (waiters s)"

lemma register_waker_set [simp]: "set (register_waker w ws) = insert w (set ws)"
  by (induction ws) auto

lemma register_waker_distinct: "distinct ws \<Longrightarrow> distinct (register_waker w ws)"
  by (induction ws) auto

interpretation signal: transition_invariant signal_start "exec_rel signal_exec" signal_inv
proof
  show "signal_start s \<Longrightarrow> signal_inv s" for s
    by (simp add: signal_start_def signal_new_def signal_inv_def)
  show "signal_inv s \<Longrightarrow> exec_rel signal_exec s l t \<Longrightarrow> signal_inv t" for s l t
    by (cases l)
      (auto simp: exec_rel_def signal_inv_def register_waker_distinct
        split: if_splits option.splits prod.splits bool.splits)
qed

text \<open>The value is set at most once, and stays set.\<close>

interpretation signal_once: transition_monotone "exec_rel signal_exec" "\<lambda>s t. fired s \<longrightarrow> fired t"
proof
  show "exec_rel signal_exec s l t \<Longrightarrow> fired s \<longrightarrow> fired t" for s l t
    by (cases l) (auto simp: exec_rel_def split: if_splits option.splits prod.splits bool.splits)
qed auto

subsection \<open>Properties\<close>

text \<open>C5: No wake-up is lost: in every interleaving of one firing with any number of polls,
  once the signal has fired and its waiters were taken, every poll that returned \<open>Pending\<close>
  has been woken, nobody is left in the list and no poll can still park.\<close>

theorem no_lost_wakeup:
  assumes "reach signal_start (exec_rel signal_exec) s" and "fired s" and "\<not> firing s"
  shows "set (parked s) \<subseteq> set (woken s) \<and> waiters s = []
    \<and> (\<forall>t. signal_exec PollPark s \<noteq> Some t)"
  using signal.inv_reach [OF assms(1)] assms(2,3)
  by (auto simp: signal_inv_def split: option.splits prod.splits bool.splits)

theorem no_lost_wakeup_witness:
  "\<exists>s. exec_run signal_exec [PollLock 3, PollCheck, Fire, PollPark, TakeWaiters] signal_new = Some s
    \<and> set (parked s) \<subseteq> set (woken s)"
proof -
  obtain s where s: "exec_run signal_exec [PollLock 3, PollCheck, Fire, PollPark, TakeWaiters] signal_new = Some s"
      "fired s" "\<not> firing s"
    by (simp add: signal_new_def)
  moreover have "reach signal_start (exec_rel signal_exec) s"
    by (rule exec_run_reach [OF s(1)]) (simp add: signal_start_def)
  ultimately show ?thesis using no_lost_wakeup by blast
qed

end
