(* ===== verification/Lifecycle.thy ===== *)
theory Lifecycle
  imports Errors Waiters
begin

section \<open>Scopes, effects and fibers (lifecycle.rs)\<close>

text \<open>
  The ownership tree: scopes hold effects and child scopes, disposal takes both and cleans
  them up in a task of its own, a fiber runs a setup inside a child scope and rolls the scope
  back when the setup fails. All handles are identifiers into one store; every operation is a
  function on the store that returns its result, and \<open>None\<close> is a panic (identifiers
  exhausted) or a handle that does not exist. The cleanup loop, which suspends at every
  \<open>await\<close>, is a task advanced one atomic action at a time, so calls interleave with it freely.
\<close>

type_synonym disposer = nat

datatype effect_meta = EffectMeta (em_id: resource_id) (em_label: string) (em_children: "effect_meta list")

record effect =
  ef_meta :: effect_meta
  ef_disposer :: disposer

text \<open>
  \<open>ScopeInner\<close>. \<open>sc_cancelled\<close> is the cancellation flag and \<open>sc_result\<close> the result of the
  completion (their waiters are in Waiters); \<open>sc_ancestors\<close> is the completion's disposal context.
\<close>

record scope_cell =
  sc_generation :: generation
  sc_state :: fiber_state
  sc_cancelled :: bool
  sc_effects :: "effect list"
  sc_children :: "scope_id list"
  sc_result :: "(core_error + unit) option"
  sc_ancestors :: "scope_id list"

datatype task_kind = Cleaning | RollingBack

text \<open>
  A suspended \<open>dispose_resources\<close>: what is left of its two loops, innermost first, the errors
  so far and where it stands. \<open>AwaitChild c owner\<close> waits in \<open>child.dispose().await\<close>, as the
  owner of that disposal or as a joiner.
\<close>

datatype stage = Working | AwaitChild scope_id bool | InEffect resource_id | Storing "core_error + unit"

record task =
  tk_children :: "scope_id list"
  tk_effects :: "effect list"
  tk_errors :: "core_error list"
  tk_stage :: stage

type_synonym task_key = "scope_id \<times> task_kind"

text \<open>
  \<open>FiberInner\<close>. \<open>fb_setup\<close> says that a \<open>start\<close> call is awaiting its setup, \<open>fb_failure\<close> is the
  setup error of a \<open>start\<close> call awaiting its rollback, \<open>fb_outcome\<close> what \<open>start\<close> returned.
\<close>

record fiber_cell =
  fb_name :: string
  fb_scope :: scope_id
  fb_state :: fiber_state
  fb_setup :: bool
  fb_failure :: "core_error option"
  fb_outcome :: "(core_error + unit) option"

text \<open>
  The store, its counters, and what a run did: \<open>ran\<close> lists the disposers invoked, with their
  scope and resource; \<open>parent_of\<close> and \<open>skipped\<close> record who created a scope and which
  children a task did not wait for.
\<close>

record lifecycle =
  scopes :: "scope_id \<rightharpoonup> scope_cell"
  tasks :: "task_key \<rightharpoonup> task"
  fibers :: "fiber_id \<rightharpoonup> fiber_cell"
  next_scope :: u64
  next_generation :: u64
  next_resource :: u64
  next_fiber :: u64
  ran :: "(scope_id \<times> resource_id \<times> disposer) list"
  parent_of :: "scope_id \<rightharpoonup> scope_id"
  skipped :: "(scope_id \<times> scope_id) list"

definition lifecycle_new :: lifecycle where
  "lifecycle_new = \<lparr>scopes = Map.empty, tasks = Map.empty, fibers = Map.empty, next_scope = 1,
     next_generation = 1, next_resource = 1, next_fiber = 1, ran = [], parent_of = Map.empty, skipped = []\<rparr>"

subsection \<open>Scopes\<close>

definition new_cell :: "generation \<Rightarrow> scope_cell" where
  "new_cell g = \<lparr>sc_generation = g, sc_state = Active, sc_cancelled = False, sc_effects = [],
     sc_children = [], sc_result = None, sc_ancestors = []\<rparr>"

abbreviation put_scope :: "scope_id \<Rightarrow> scope_cell \<Rightarrow> lifecycle \<Rightarrow> lifecycle" where
  "put_scope s c m \<equiv> m\<lparr>scopes := (scopes m)(s \<mapsto> c)\<rparr>"

definition scope_new :: "lifecycle \<Rightarrow> (scope_id \<times> lifecycle) option" where
  "scope_new m =
    Option.bind (next_id (next_scope m)) (\<lambda>(s, ns).
    Option.bind (next_id (next_generation m)) (\<lambda>(g, ng).
      Some (s, m\<lparr>scopes := (scopes m)(s \<mapsto> new_cell g), next_scope := ns, next_generation := ng\<rparr>)))"

definition invalid_state :: "string \<Rightarrow> scope_cell \<Rightarrow> core_error" where
  "invalid_state op c = InvalidState op (sc_state c)"

definition scope_child :: "scope_id \<Rightarrow> lifecycle \<Rightarrow> ((core_error + scope_id) \<times> lifecycle) option" where
  "scope_child p m =
    Option.bind (scopes m p) (\<lambda>c.
      if sc_state c \<noteq> Active then Some (Inl (invalid_state ''create child scope'' c), m)
      else Option.bind (scope_new m) (\<lambda>(s, m').
        Some (Inr s, put_scope p (c\<lparr>sc_children := sc_children c @ [s]\<rparr>)
                       (m'\<lparr>parent_of := (parent_of m')(s \<mapsto> p)\<rparr>))))"

text \<open>
  \<open>add_effect_with\<close>: the setup runs under the admission lock, on the state \<open>w\<close> it closes over.
\<close>

definition add_effect_with ::
  "scope_id \<Rightarrow> string \<Rightarrow> ('w \<Rightarrow> ((core_error + 't \<times> disposer) \<times> 'w) option) \<Rightarrow> lifecycle \<Rightarrow> 'w \<Rightarrow>
    ((core_error + resource_id \<times> 't) \<times> lifecycle \<times> 'w) option" where
  "add_effect_with s label setup m w =
    Option.bind (scopes m s) (\<lambda>c.
      if sc_state c \<noteq> Active then Some (Inl (invalid_state ''register effect'' c), m, w)
      else Option.bind (setup w) (\<lambda>(r, w').
        case r of
          Inl e \<Rightarrow> Some (Inl e, m, w')
        | Inr (v, d) \<Rightarrow>
            Option.bind (next_id (next_resource m)) (\<lambda>(i, nr).
              Some (Inr (i, v),
                put_scope s (c\<lparr>sc_effects :=
                    sc_effects c @ [\<lparr>ef_meta = EffectMeta i label [], ef_disposer = d\<rparr>]\<rparr>)
                  (m\<lparr>next_resource := nr\<rparr>), w'))))"

definition add_effect ::
  "scope_id \<Rightarrow> string \<Rightarrow> disposer \<Rightarrow> lifecycle \<Rightarrow> ((core_error + resource_id) \<times> lifecycle) option" where
  "add_effect s label d m =
    map_option (\<lambda>(r, m', _). (map_sum id fst r, m'))
      (add_effect_with s label (\<lambda>w. Some (Inr ((), d), w)) m ())"

definition effects :: "scope_id \<Rightarrow> lifecycle \<Rightarrow> effect_meta list option" where
  "effects s m = map_option (\<lambda>c. map ef_meta (sc_effects c)) (scopes m s)"

text \<open>
  \<open>CancellationToken::cancel\<close> on the scope's flag: whether this call won, and the new cell.
\<close>

definition cancel :: "scope_cell \<Rightarrow> bool \<times> scope_cell" where
  "cancel c = (if sc_cancelled c then (False, c) else (True, c\<lparr>sc_cancelled := True\<rparr>))"

text \<open>\<open>inherit_ancestors\<close>: what is missing is appended.\<close>

definition add_missing :: "scope_id list \<Rightarrow> scope_id list \<Rightarrow> scope_id list" where
  "add_missing new old = fold (\<lambda>a acc. if a \<in> set acc then acc else acc @ [a]) new old"

definition inherit_ancestors :: "scope_id list \<Rightarrow> scope_id \<Rightarrow> lifecycle \<Rightarrow> lifecycle" where
  "inherit_ancestors new s m =
    (case scopes m s of
       None \<Rightarrow> m
     | Some c \<Rightarrow> put_scope s (c\<lparr>sc_ancestors := add_missing new (sc_ancestors c)\<rparr>) m)"

datatype dispose_claim = Owner | Join

definition new_task :: "scope_cell \<Rightarrow> task" where
  "new_task c = \<lparr>tk_children = rev (sc_children c), tk_effects = rev (sc_effects c),
     tk_errors = [], tk_stage = Working\<rparr>"

text \<open>
  \<open>claim_disposal\<close>, by a caller inside the cleanups of the scopes \<open>D\<close> (\<open>disposing_scopes()\<close>).
  The first claim takes the resources and spawns the cleanup task.
\<close>

definition claim_disposal :: "scope_id list \<Rightarrow> scope_id \<Rightarrow> lifecycle \<Rightarrow> (dispose_claim \<times> lifecycle) option" where
  "claim_disposal D s m =
    Option.bind (scopes m s) (\<lambda>c.
      if sc_state c = Unloading \<or> sc_state c = Disposed then Some (Join, m)
      else
        let c' = (snd (cancel (c\<lparr>sc_state := Unloading\<rparr>)))\<lparr>sc_effects := [], sc_children := []\<rparr>;
            m1 = put_scope s c' m;
            m2 = fold (inherit_ancestors (D @ [s])) (sc_children c) m1;
            m3 = inherit_ancestors D s m2
        in Some (Owner, m3\<lparr>tasks := (tasks m3)((s, Cleaning) \<mapsto> new_task c)\<rparr>))"

text \<open>
  \<open>dispose\<close> up to its first suspension, and one poll of what it then waits for.
\<close>

datatype waiting = Ready "core_error + unit" | Wait bool

definition dispose_call :: "scope_id list \<Rightarrow> scope_id \<Rightarrow> lifecycle \<Rightarrow> (waiting \<times> lifecycle) option" where
  "dispose_call D s m =
    Option.bind (claim_disposal D s m) (\<lambda>(claim, m').
      case claim of
        Owner \<Rightarrow> Some (Wait True, m')
      | Join \<Rightarrow>
          if s \<in> set D then Some (Ready (Inr ()), m')
          else Some (Wait False, inherit_ancestors D s m'))"

definition poll_dispose :: "scope_id list \<Rightarrow> scope_id \<Rightarrow> bool \<Rightarrow> lifecycle \<Rightarrow> (core_error + unit) option" where
  "poll_dispose D s owner m =
    (if \<not> owner \<and> s \<in> set D then Some (Inr ()) else Option.bind (scopes m s) sc_result)"

definition rollback_failed_setup :: "scope_id \<Rightarrow> lifecycle \<Rightarrow> (bool \<times> lifecycle) option" where
  "rollback_failed_setup s m =
    Option.bind (scopes m s) (\<lambda>c.
      if sc_state c \<noteq> Active then Some (False, m)
      else
        let c' = (snd (cancel (c\<lparr>sc_state := Failed\<rparr>)))\<lparr>sc_effects := [], sc_children := []\<rparr>
        in Some (True, (put_scope s c' m)\<lparr>tasks := (tasks m)((s, RollingBack) \<mapsto> new_task c)\<rparr>))"

subsection \<open>The cleanup loop\<close>

definition cleanup_result :: "core_error list \<Rightarrow> core_error + unit" where
  "cleanup_result errors = (if errors = [] then Inr () else Inl (Cleanup errors))"

definition collect_result :: "core_error + unit \<Rightarrow> task \<Rightarrow> task" where
  "collect_result r t =
    (case r of Inr _ \<Rightarrow> t | Inl e \<Rightarrow> t\<lparr>tk_errors := collect_cleanup_error (tk_errors t) e\<rparr>)"

abbreviation put_task :: "task_key \<Rightarrow> task \<Rightarrow> lifecycle \<Rightarrow> lifecycle" where
  "put_task k t m \<equiv> m\<lparr>tasks := (tasks m)(k \<mapsto> t)\<rparr>"

text \<open>
  The scopes a task runs inside of: \<open>DisposalScopeGuard::enter\<close> adds the inherited ancestors
  and the scope itself around every poll of a cleanup; a rollback runs where \<open>start\<close> was
  called, which is \<open>env\<close>.
\<close>

fun task_context :: "task_key \<Rightarrow> scope_id list \<Rightarrow> lifecycle \<Rightarrow> scope_id list" where
  "task_context (s, Cleaning) env m =
    (case scopes m s of None \<Rightarrow> [] | Some c \<Rightarrow> sc_ancestors c) @ [s]"
| "task_context (s, RollingBack) env m = env"

definition task_child :: "task_key \<Rightarrow> scope_id list \<Rightarrow> lifecycle \<Rightarrow> lifecycle option" where
  "task_child k env m =
    Option.bind (tasks m k) (\<lambda>t.
      case (tk_stage t, tk_children t) of
        (Working, c # cs) \<Rightarrow>
          Option.bind (dispose_call (task_context k env m) c m) (\<lambda>(w, m').
            case w of
              Wait owner \<Rightarrow> Some (put_task k (t\<lparr>tk_children := cs, tk_stage := AwaitChild c owner\<rparr>) m')
            | Ready r \<Rightarrow>
                Some (put_task k (collect_result r (t\<lparr>tk_children := cs\<rparr>))
                       (m'\<lparr>skipped := skipped m' @ [(fst k, c)]\<rparr>)))
      | _ \<Rightarrow> None)"

definition task_child_done :: "task_key \<Rightarrow> scope_id list \<Rightarrow> lifecycle \<Rightarrow> lifecycle option" where
  "task_child_done k env m =
    Option.bind (tasks m k) (\<lambda>t.
      case tk_stage t of
        AwaitChild c owner \<Rightarrow>
          Option.bind (poll_dispose (task_context k env m) c owner m) (\<lambda>r.
            Some (put_task k (collect_result r (t\<lparr>tk_stage := Working\<rparr>))
              (if Option.bind (scopes m c) sc_result = None
               then m\<lparr>skipped := skipped m @ [(fst k, c)]\<rparr> else m)))
      | _ \<Rightarrow> None)"

definition task_effect :: "task_key \<Rightarrow> lifecycle \<Rightarrow> lifecycle option" where
  "task_effect k m =
    Option.bind (tasks m k) (\<lambda>t.
      case (tk_stage t, tk_children t, tk_effects t) of
        (Working, [], e # es) \<Rightarrow>
          Some (put_task k (t\<lparr>tk_effects := es, tk_stage := InEffect (em_id (ef_meta e))\<rparr>)
            (m\<lparr>ran := ran m @ [(fst k, em_id (ef_meta e), ef_disposer e)]\<rparr>))
      | _ \<Rightarrow> None)"

definition task_effect_done :: "task_key \<Rightarrow> core_error + unit \<Rightarrow> lifecycle \<Rightarrow> lifecycle option" where
  "task_effect_done k r m =
    Option.bind (tasks m k) (\<lambda>t.
      case tk_stage t of
        InEffect _ \<Rightarrow> Some (put_task k (collect_result r (t\<lparr>tk_stage := Working\<rparr>)) m)
      | _ \<Rightarrow> None)"

text \<open>The end of the loops: a cleanup stores \<open>Disposed\<close> before it completes.\<close>

definition task_store :: "task_key \<Rightarrow> lifecycle \<Rightarrow> lifecycle option" where
  "task_store k m =
    Option.bind (tasks m k) (\<lambda>t.
      case (tk_stage t, tk_children t, tk_effects t) of
        (Working, [], []) \<Rightarrow>
          let m' = put_task k (t\<lparr>tk_stage := Storing (cleanup_result (tk_errors t))\<rparr>) m in
          (case k of
             (s, Cleaning) \<Rightarrow>
               Option.bind (scopes m s) (\<lambda>c. Some (put_scope s (c\<lparr>sc_state := Disposed\<rparr>) m'))
           | (s, RollingBack) \<Rightarrow> Some m')
      | _ \<Rightarrow> None)"

definition task_complete :: "scope_id \<Rightarrow> lifecycle \<Rightarrow> lifecycle option" where
  "task_complete s m =
    Option.bind (tasks m (s, Cleaning)) (\<lambda>t.
      case tk_stage t of
        Storing r \<Rightarrow>
          Option.bind (scopes m s) (\<lambda>c.
            Some ((put_scope s (c\<lparr>sc_result := Some r\<rparr>) m)\<lparr>tasks := (tasks m)((s, Cleaning) := None)\<rparr>))
      | _ \<Rightarrow> None)"

subsection \<open>Fibers\<close>

abbreviation put_fiber :: "fiber_id \<Rightarrow> fiber_cell \<Rightarrow> lifecycle \<Rightarrow> lifecycle" where
  "put_fiber f x m \<equiv> m\<lparr>fibers := (fibers m)(f \<mapsto> x)\<rparr>"

definition fiber_new :: "scope_id \<Rightarrow> string \<Rightarrow> lifecycle \<Rightarrow> ((core_error + fiber_id) \<times> lifecycle) option" where
  "fiber_new parent name m =
    Option.bind (next_id (next_fiber m)) (\<lambda>(f, nf).
    Option.bind (scope_child parent (m\<lparr>next_fiber := nf\<rparr>)) (\<lambda>(r, m').
      case r of
        Inl e \<Rightarrow> Some (Inl e, m')
      | Inr s \<Rightarrow>
          Some (Inr f, put_fiber f \<lparr>fb_name = name, fb_scope = s, fb_state = Pending, fb_setup = False,
            fb_failure = None, fb_outcome = None\<rparr> m')))"

definition fiber_state_of :: "fiber_id \<Rightarrow> lifecycle \<Rightarrow> fiber_state option" where
  "fiber_state_of f m =
    Option.bind (fibers m f) (\<lambda>x. Option.bind (scopes m (fb_scope x)) (\<lambda>c.
      Some (case sc_state c of
              Failed \<Rightarrow> Failed
            | Unloading \<Rightarrow> Unloading
            | Disposed \<Rightarrow> Disposed
            | _ \<Rightarrow> fb_state x)))"

text \<open>\<open>Fiber::start\<close> up to the call of its setup: the error it returns, or \<open>Loading\<close>.\<close>

definition fiber_start :: "fiber_id \<Rightarrow> lifecycle \<Rightarrow> ((core_error + unit) \<times> lifecycle) option" where
  "fiber_start f m =
    Option.bind (fibers m f) (\<lambda>x. Option.bind (scopes m (fb_scope x)) (\<lambda>c.
      if sc_state c \<noteq> Active then Some (Inl (InvalidState ''start fiber'' (sc_state c)), m)
      else if fb_state x \<noteq> Pending
      then Option.bind (fiber_state_of f m) (\<lambda>st. Some (Inl (InvalidState ''start fiber'' st), m))
      else Some (Inr (), put_fiber f (x\<lparr>fb_state := Loading, fb_setup := True\<rparr>) m)))"

text \<open>\<open>Fiber::start\<close> when its setup returns \<open>r\<close>, up to the end or up to the rollback's loop.\<close>

definition fiber_setup :: "fiber_id \<Rightarrow> core_error + unit \<Rightarrow> lifecycle \<Rightarrow> lifecycle option" where
  "fiber_setup f r m =
    Option.bind (fibers m f) (\<lambda>x. Option.bind (scopes m (fb_scope x)) (\<lambda>c.
      if \<not> fb_setup x then None
      else let x' = x\<lparr>fb_setup := False\<rparr> in
      case r of
        Inr _ \<Rightarrow>
          (if sc_state c = Active
           then Some (put_fiber f (x'\<lparr>fb_state := Active, fb_outcome := Some (Inr ())\<rparr>) m)
           else if sc_state c = Unloading \<or> sc_state c = Disposed
           then Some (put_fiber f (x'\<lparr>fb_outcome := Some (Inr ())\<rparr>) m)
           else Some (put_fiber f (x'\<lparr>fb_state := sc_state c,
             fb_outcome := Some (Inl (InvalidState ''complete fiber start'' (sc_state c)))\<rparr>) m))
      | Inl e \<Rightarrow>
          Option.bind (rollback_failed_setup (fb_scope x) m) (\<lambda>(rolling, m').
            Some (put_fiber f
              (if rolling then x'\<lparr>fb_state := Failed, fb_failure := Some e\<rparr>
               else x'\<lparr>fb_state := Failed, fb_outcome := Some (Inl e)\<rparr>) m'))))"

definition start_failure :: "core_error \<Rightarrow> core_error + unit \<Rightarrow> core_error" where
  "start_failure e r =
    (case r of
       Inr _ \<Rightarrow> e
     | Inl (Cleanup es) \<Rightarrow> Cleanup (e # es)
     | Inl d \<Rightarrow> Cleanup [e, d])"

text \<open>\<open>Fiber::start\<close> when its rollback has ended.\<close>

definition fiber_rolled_back :: "fiber_id \<Rightarrow> lifecycle \<Rightarrow> lifecycle option" where
  "fiber_rolled_back f m =
    Option.bind (fibers m f) (\<lambda>x.
    Option.bind (fb_failure x) (\<lambda>e.
    Option.bind (tasks m (fb_scope x, RollingBack)) (\<lambda>t.
      case tk_stage t of
        Storing r \<Rightarrow>
          Some ((put_fiber f (x\<lparr>fb_failure := None, fb_outcome := Some (Inl (start_failure e r))\<rparr>) m)
            \<lparr>tasks := (tasks m)((fb_scope x, RollingBack) := None)\<rparr>)
      | _ \<Rightarrow> None)))"

text \<open>\<open>Fiber::dispose\<close>: the state loop and the call of the scope's disposal; then its end.\<close>

definition fiber_dispose :: "scope_id list \<Rightarrow> fiber_id \<Rightarrow> lifecycle \<Rightarrow> (waiting \<times> lifecycle) option" where
  "fiber_dispose D f m =
    Option.bind (fibers m f) (\<lambda>x.
      dispose_call D (fb_scope x)
        (if fb_state x = Unloading \<or> fb_state x = Disposed then m
         else put_fiber f (x\<lparr>fb_state := Unloading\<rparr>) m))"

definition fiber_disposed :: "fiber_id \<Rightarrow> lifecycle \<Rightarrow> lifecycle option" where
  "fiber_disposed f m =
    Option.bind (fibers m f) (\<lambda>x. Option.bind (scopes m (fb_scope x)) (\<lambda>c.
      Some (if sc_state c = Disposed then put_fiber f (x\<lparr>fb_state := Disposed\<rparr>) m else m)))"

subsection \<open>The machine\<close>

datatype lifecycle_step =
    RootScope
  | Child scope_id
  | AddEffect scope_id string disposer
  | Dispose "scope_id list" scope_id
  | FiberNew scope_id string
  | FiberStart fiber_id
  | FiberSetup fiber_id "core_error + unit"
  | FiberRolledBack fiber_id
  | FiberDispose "scope_id list" fiber_id
  | FiberDisposed fiber_id
  | TaskChild task_key "scope_id list"
  | TaskChildDone task_key "scope_id list"
  | TaskEffect task_key
  | TaskEffectDone task_key "core_error + unit"
  | TaskStore task_key
  | TaskComplete scope_id

fun lifecycle_exec :: "lifecycle_step \<Rightarrow> lifecycle \<Rightarrow> lifecycle option" where
  "lifecycle_exec RootScope m = map_option snd (scope_new m)"
| "lifecycle_exec (Child s) m = map_option snd (scope_child s m)"
| "lifecycle_exec (AddEffect s label d) m = map_option snd (add_effect s label d m)"
| "lifecycle_exec (Dispose D s) m = map_option snd (dispose_call D s m)"
| "lifecycle_exec (FiberNew s name) m = map_option snd (fiber_new s name m)"
| "lifecycle_exec (FiberStart f) m = map_option snd (fiber_start f m)"
| "lifecycle_exec (FiberSetup f r) m = fiber_setup f r m"
| "lifecycle_exec (FiberRolledBack f) m = fiber_rolled_back f m"
| "lifecycle_exec (FiberDispose D f) m = map_option snd (fiber_dispose D f m)"
| "lifecycle_exec (FiberDisposed f) m = fiber_disposed f m"
| "lifecycle_exec (TaskChild k env) m = task_child k env m"
| "lifecycle_exec (TaskChildDone k env) m = task_child_done k env m"
| "lifecycle_exec (TaskEffect k) m = task_effect k m"
| "lifecycle_exec (TaskEffectDone k r) m = task_effect_done k r m"
| "lifecycle_exec (TaskStore k) m = task_store k m"
| "lifecycle_exec (TaskComplete s) m = task_complete s m"

definition lifecycle_start :: "lifecycle \<Rightarrow> bool" where
  "lifecycle_start m \<longleftrightarrow> m = lifecycle_new"

abbreviation lifecycle_reach :: "lifecycle \<Rightarrow> bool" where
  "lifecycle_reach \<equiv> reach lifecycle_start (exec_rel lifecycle_exec)"

end
