(* ===== verification/LifecycleInv.thy ===== *)
theory LifecycleInv
  imports Lifecycle
begin

section \<open>The invariants of the ownership tree\<close>

text \<open>
  Every reachable store satisfies \<open>lifecycle_inv\<close>: admission closes before cleanup begins,
  what is registered, waiting and run is in order and in one place, and a child is waited for
  until it is disposed. The properties of disposal follow from it.
\<close>

subsection \<open>The invariant\<close>

text \<open>
  What the invariant sees of a cell: state, effects, children, result (not the disposal
  context). \<open>slot_ok\<close> relates one scope's view to its tasks and to the identifiers \<open>rs\<close> of its
  effects that have run; \<open>tree_ok\<close> relates parents and children.
\<close>

type_synonym scope_view = "fiber_state \<times> effect list \<times> scope_id list \<times> (core_error + unit) option"

definition cell_view :: "scope_cell \<Rightarrow> scope_view" where
  "cell_view c = (sc_state c, sc_effects c, sc_children c, sc_result c)"

definition view :: "lifecycle \<Rightarrow> scope_id \<Rightarrow> scope_view option" where
  "view m s = map_option cell_view (scopes m s)"

definition ids_of_effects :: "effect list \<Rightarrow> resource_id list" where
  "ids_of_effects es = map (em_id \<circ> ef_meta) es"

definition left_ids :: "task option \<Rightarrow> resource_id list" where
  "left_ids t = (case t of None \<Rightarrow> [] | Some t \<Rightarrow> ids_of_effects (tk_effects t))"

definition ran_ids :: "scope_id \<Rightarrow> (scope_id \<times> resource_id \<times> disposer) list \<Rightarrow> resource_id list" where
  "ran_ids s R = map (fst \<circ> snd) (filter (\<lambda>x. fst x = s) R)"

definition idle :: "task \<Rightarrow> bool" where
  "idle t \<longleftrightarrow> tk_effects t = [] \<and> tk_children t = [] \<and> (\<forall>c b. tk_stage t \<noteq> AwaitChild c b)"

definition storing :: "task \<Rightarrow> bool" where
  "storing t \<longleftrightarrow> (\<exists>r. tk_stage t = Storing r)"

definition rolling_ok :: "task option \<Rightarrow> bool" where
  "rolling_ok rb \<longleftrightarrow> (\<forall>t. rb = Some t \<longrightarrow> storing t \<longrightarrow> idle t)"

definition cleaning_ok :: "task option \<Rightarrow> task option \<Rightarrow> bool" where
  "cleaning_ok cl rb \<longleftrightarrow> (\<exists>t. cl = Some t \<and> \<not> storing t \<and> (idle t \<or> rb = None))"

definition closed_ok :: "task option \<Rightarrow> (core_error + unit) option \<Rightarrow> bool" where
  "closed_ok cl res \<longleftrightarrow>
    (case cl of None \<Rightarrow> res \<noteq> None | Some t \<Rightarrow> storing t \<and> idle t \<and> res = None)"

fun slot_shape :: "scope_view option \<Rightarrow> resource_id list \<Rightarrow> task option \<Rightarrow> task option \<Rightarrow> bool" where
  "slot_shape None rs cl rb \<longleftrightarrow> rs = [] \<and> cl = None \<and> rb = None"
| "slot_shape (Some (Active, es, cs, res)) rs cl rb \<longleftrightarrow> rs = [] \<and> cl = None \<and> rb = None \<and> res = None"
| "slot_shape (Some (Failed, es, cs, res)) rs cl rb \<longleftrightarrow>
    es = [] \<and> cs = [] \<and> cl = None \<and> res = None \<and> rolling_ok rb"
| "slot_shape (Some (Unloading, es, cs, res)) rs cl rb \<longleftrightarrow>
    es = [] \<and> cs = [] \<and> res = None \<and> cleaning_ok cl rb \<and> rolling_ok rb"
| "slot_shape (Some (Disposed, es, cs, res)) rs cl rb \<longleftrightarrow>
    es = [] \<and> cs = [] \<and> closed_ok cl res \<and> rolling_ok rb"
| "slot_shape _ rs cl rb \<longleftrightarrow> False"

fun slot_ids :: "scope_view option \<Rightarrow> resource_id list" where
  "slot_ids None = []"
| "slot_ids (Some (st, es, cs, res)) = ids_of_effects es"

definition slot_ok ::
  "u64 \<Rightarrow> scope_view option \<Rightarrow> resource_id list \<Rightarrow> task option \<Rightarrow> task option \<Rightarrow> bool" where
  "slot_ok n v rs cl rb \<longleftrightarrow>
    slot_shape v rs cl rb
    \<and> sorted_wrt (<) (slot_ids v)
    \<and> sorted_wrt (>) (rs @ left_ids cl @ left_ids rb)
    \<and> (\<forall>i\<in>set (slot_ids v @ rs @ left_ids cl @ left_ids rb). i < n)"

definition holds :: "task option \<Rightarrow> scope_id \<Rightarrow> bool" where
  "holds t c \<longleftrightarrow>
    (case t of None \<Rightarrow> False | Some t \<Rightarrow> c \<in> set (tk_children t) \<or> (\<exists>b. tk_stage t = AwaitChild c b))"

definition held :: "(scope_id \<Rightarrow> scope_view option) \<Rightarrow> (task_key \<rightharpoonup> task) \<Rightarrow> scope_id \<Rightarrow> scope_id \<Rightarrow> bool" where
  "held V T p c \<longleftrightarrow>
    (case V p of None \<Rightarrow> False | Some v \<Rightarrow> c \<in> set (fst (snd (snd v))))
    \<or> holds (T (p, Cleaning)) c \<or> holds (T (p, RollingBack)) c"

lemma holds_simps [simp]:
  "\<not> holds None c"
  "holds (Some t) c \<longleftrightarrow> c \<in> set (tk_children t) \<or> (\<exists>b. tk_stage t = AwaitChild c b)"
  by (simp_all add: holds_def)

definition in_states :: "fiber_state set \<Rightarrow> (scope_id \<Rightarrow> scope_view option) \<Rightarrow> scope_id \<Rightarrow> bool" where
  "in_states S V c \<longleftrightarrow> (case V c of None \<Rightarrow> False | Some v \<Rightarrow> fst v \<in> S)"

abbreviation claimed :: "(scope_id \<Rightarrow> scope_view option) \<Rightarrow> scope_id \<Rightarrow> bool" where
  "claimed \<equiv> in_states {Unloading, Disposed}"

definition tree_ok ::
  "(scope_id \<Rightarrow> scope_view option) \<Rightarrow> (task_key \<rightharpoonup> task) \<Rightarrow> (scope_id \<rightharpoonup> scope_id) \<Rightarrow>
    (scope_id \<times> scope_id) list \<Rightarrow> bool" where
  "tree_ok V T P K \<longleftrightarrow>
    (\<forall>p c. held V T p c \<longrightarrow> p < c \<and> V c \<noteq> None)
    \<and> (\<forall>k t c b. T k = Some t \<longrightarrow> tk_stage t = AwaitChild c b \<longrightarrow> claimed V c)
    \<and> (\<forall>c p. P c = Some p \<longrightarrow> held V T p c \<or> in_states {Disposed} V c \<or> (p, c) \<in> set K)
    \<and> (\<forall>p c. (p, c) \<in> set K \<longrightarrow> claimed V c)"

definition bounded :: "u64 \<Rightarrow> (scope_id \<Rightarrow> scope_view option) \<Rightarrow> bool" where
  "bounded ns V \<longleftrightarrow> (\<forall>s. V s \<noteq> None \<longrightarrow> s < ns)"

definition slots_ok ::
  "u64 \<Rightarrow> u64 \<Rightarrow> (scope_id \<Rightarrow> scope_view option) \<Rightarrow> (task_key \<rightharpoonup> task) \<Rightarrow>
    (scope_id \<times> resource_id \<times> disposer) list \<Rightarrow> bool" where
  "slots_ok ns nr V T R \<longleftrightarrow>
    (\<forall>s. slot_ok nr (V s) (ran_ids s R) (T (s, Cleaning)) (T (s, RollingBack)))
    \<and> bounded ns V \<and> finite (dom T)"

definition lifecycle_inv :: "lifecycle \<Rightarrow> bool" where
  "lifecycle_inv m \<longleftrightarrow>
    slots_ok (next_scope m) (next_resource m) (view m) (tasks m) (ran m)
    \<and> tree_ok (view m) (tasks m) (parent_of m) (skipped m)"

lemma view_put [simp]: "view (m\<lparr>scopes := (scopes m')(s \<mapsto> c)\<rparr>) = (view m')(s \<mapsto> cell_view c)"
  by (auto simp: view_def fun_eq_iff)

lemma view_other [simp]:
  "view (m\<lparr>tasks := a\<rparr>) = view m" "view (m\<lparr>fibers := b\<rparr>) = view m" "view (m\<lparr>ran := r\<rparr>) = view m"
  "view (m\<lparr>next_fiber := f\<rparr>) = view m" "view (m\<lparr>skipped := k\<rparr>) = view m"
  "view (m\<lparr>parent_of := q\<rparr>) = view m" "view (m\<lparr>next_resource := i\<rparr>) = view m"
  "view (m\<lparr>next_scope := i\<rparr>) = view m" "view (m\<lparr>next_generation := i\<rparr>) = view m"
  by (simp_all add: view_def fun_eq_iff)

lemma scopes_view: "scopes m s = Some c \<Longrightarrow> view m s = Some (cell_view c)"
  by (simp add: view_def)

lemma ran_ids_append [simp]:
  "ran_ids s (R @ [(p, i, d)]) = (if s = p then ran_ids s R @ [i] else ran_ids s R)"
  by (simp add: ran_ids_def)

lemma inherit_same [simp]:
  "view (inherit_ancestors D s m) = view m" "tasks (inherit_ancestors D s m) = tasks m"
  "ran (inherit_ancestors D s m) = ran m" "parent_of (inherit_ancestors D s m) = parent_of m"
  "skipped (inherit_ancestors D s m) = skipped m" "next_scope (inherit_ancestors D s m) = next_scope m"
  "next_resource (inherit_ancestors D s m) = next_resource m" "fibers (inherit_ancestors D s m) = fibers m"
  by (auto simp: inherit_ancestors_def view_def cell_view_def fun_eq_iff split: option.splits)

lemma inherit_fold [simp]:
  "view (fold (inherit_ancestors D) cs m) = view m" "tasks (fold (inherit_ancestors D) cs m) = tasks m"
  "ran (fold (inherit_ancestors D) cs m) = ran m" "parent_of (fold (inherit_ancestors D) cs m) = parent_of m"
  "skipped (fold (inherit_ancestors D) cs m) = skipped m"
  "next_scope (fold (inherit_ancestors D) cs m) = next_scope m"
  "next_resource (fold (inherit_ancestors D) cs m) = next_resource m"
  "fibers (fold (inherit_ancestors D) cs m) = fibers m"
  by (induction cs arbitrary: m) simp_all

lemma inherit_inv [simp]: "lifecycle_inv (inherit_ancestors D s m) = lifecycle_inv m"
  by (simp add: lifecycle_inv_def)

lemma other_inv [simp]:
  "lifecycle_inv (m\<lparr>fibers := b\<rparr>) = lifecycle_inv m"
  "lifecycle_inv (m\<lparr>next_fiber := f\<rparr>) = lifecycle_inv m"
  by (simp_all add: lifecycle_inv_def)

subsection \<open>Preservation, one lemma per kind of change\<close>

lemma slot_ok_mono: "slot_ok n v rs cl rb \<Longrightarrow> n \<le> n' \<Longrightarrow> slot_ok n' v rs cl rb"
  unfolding slot_ok_def by (meson order.strict_trans2)

lemma slot_ok_fresh: "slot_ok n (Some (Active, [], [], None)) [] None None"
  by (simp add: slot_ok_def ids_of_effects_def left_ids_def)

lemma slot_ok_None: "slot_ok n None rs cl rb \<longleftrightarrow> rs = [] \<and> cl = None \<and> rb = None"
  by (auto simp: slot_ok_def left_ids_def)

lemma bounded_get: "bounded ns V \<Longrightarrow> V s = Some v \<Longrightarrow> s < ns"
  unfolding bounded_def by blast

lemma bounded_put: "bounded ns V \<Longrightarrow> V s \<noteq> None \<Longrightarrow> bounded ns (V(s \<mapsto> v))"
  by (auto simp: bounded_def)

lemma bounded_new: "bounded ns V \<Longrightarrow> ns < ns' \<Longrightarrow> bounded ns' (V(ns \<mapsto> v))"
  unfolding bounded_def by (metis fun_upd_other less_trans)

lemma inv_new_scope:
  assumes "slots_ok ns nr V T R" and "tree_ok V T P K" and "ns < ns'"
  shows "slots_ok ns' nr (V(ns \<mapsto> (Active, [], [], None))) T R"
    and "tree_ok (V(ns \<mapsto> (Active, [], [], None))) T P K"
    and "V ns = None"
proof -
  show fresh: "V ns = None" using assms(1) unfolding slots_ok_def bounded_def by blast
  have slot: "slot_ok nr None (ran_ids ns R) (T (ns, Cleaning)) (T (ns, RollingBack))"
    using assms(1) fresh unfolding slots_ok_def by metis
  then have none: "T (ns, kd) = None" "ran_ids ns R = []" for kd by (cases kd; simp add: slot_ok_None)+
  show "slots_ok ns' nr (V(ns \<mapsto> (Active, [], [], None))) T R"
    using assms(1,3) none by (simp add: slots_ok_def slot_ok_fresh bounded_new)
  have "held (V(ns \<mapsto> (Active, [], [], None))) T p c = held V T p c" for p c
    using fresh none by (auto simp: held_def)
  moreover have "in_states S (V(ns \<mapsto> (Active, [], [], None))) c" if "in_states S V c" for S c
    using that fresh by (auto simp: in_states_def)
  ultimately show "tree_ok (V(ns \<mapsto> (Active, [], [], None))) T P K"
    using assms(2) fresh unfolding tree_ok_def by simp meson
qed

lemma slots_change:
  assumes "slots_ok ns nr V T R" and "V s \<noteq> None" and "V' s \<noteq> None" and "nr \<le> nr'"
    and "finite (dom T')"
    and "\<And>x. x \<noteq> s \<Longrightarrow> V' x = V x \<and> ran_ids x R' = ran_ids x R \<and> (\<forall>kd. T' (x, kd) = T (x, kd))"
    and "slot_ok nr' (V' s) (ran_ids s R') (T' (s, Cleaning)) (T' (s, RollingBack))"
  shows "slots_ok ns nr' V' T' R'"
proof -
  have "slot_ok nr' (V' x) (ran_ids x R') (T' (x, Cleaning)) (T' (x, RollingBack))" for x
  proof (cases "x = s")
    case False
    then show ?thesis
      using assms(1,4,6) slot_ok_mono unfolding slots_ok_def by metis
  qed (use assms(7) in simp)
  moreover have "bounded ns V'"
    using assms(1,2,6) unfolding slots_ok_def bounded_def by metis
  ultimately show ?thesis using assms(5) by (simp add: slots_ok_def)
qed

lemma slots_slot:
  "slots_ok ns nr V T R \<Longrightarrow> slot_ok nr (V s) (ran_ids s R) (T (s, Cleaning)) (T (s, RollingBack))"
  by (simp add: slots_ok_def)

lemma ids_of_effects_simps [simp]:
  "ids_of_effects [] = []" "ids_of_effects (e # es) = em_id (ef_meta e) # ids_of_effects es"
  "ids_of_effects (es @ fs) = ids_of_effects es @ ids_of_effects fs"
  "ids_of_effects (rev es) = rev (ids_of_effects es)"
  by (simp_all add: ids_of_effects_def rev_map)

lemma left_ids_simps [simp]:
  "left_ids None = []" "left_ids (Some t) = ids_of_effects (tk_effects t)"
  by (simp_all add: left_ids_def)

lemma slot_push:
  assumes "slot_ok n (Some (Active, es, cs, res)) rs cl rb" and "em_id (ef_meta e) = n" and "n < n'"
  shows "slot_ok n' (Some (Active, es @ [e], cs, res)) rs cl rb"
  using assms by (auto simp: slot_ok_def sorted_wrt_append intro: less_trans)

lemma slot_children:
  "slot_ok n (Some (Active, es, cs, res)) rs cl rb \<Longrightarrow> slot_ok n (Some (Active, es, cs', res)) rs cl rb"
  by (simp add: slot_ok_def)

lemma slot_claim:
  assumes "slot_ok n (Some (cell_view c)) rs cl rb" and "sc_state c \<noteq> Unloading" and "sc_state c \<noteq> Disposed"
  shows "slot_ok n (Some (Unloading, [], [], sc_result c)) rs (Some (new_task c)) rb"
proof -
  have new: "\<not> storing (new_task c)" "idle (new_task c) \<longleftrightarrow> sc_effects c = [] \<and> sc_children c = []"
    by (simp_all add: new_task_def storing_def idle_def)
  show ?thesis
  proof (cases "sc_state c")
    case Active
    then show ?thesis using assms(1) new
      by (simp add: slot_ok_def cell_view_def cleaning_ok_def rolling_ok_def)
        (simp add: new_task_def sorted_wrt_rev)
  next
    case Failed
    then show ?thesis using assms(1) new
      by (auto simp: slot_ok_def cell_view_def cleaning_ok_def) (auto simp: new_task_def)
  qed (use assms in \<open>simp_all add: slot_ok_def cell_view_def\<close>)
qed

lemma slot_rollback:
  assumes "slot_ok n (Some (cell_view c)) rs cl rb" and "sc_state c = Active"
  shows "slot_ok n (Some (Failed, [], [], sc_result c)) rs cl (Some (new_task c))"
  using assms by (simp add: slot_ok_def cell_view_def rolling_ok_def)
    (simp add: new_task_def storing_def sorted_wrt_rev)

text \<open>The task of one kind.\<close>

abbreviation task_of :: "task_kind \<Rightarrow> task option \<Rightarrow> task option \<Rightarrow> task option" where
  "task_of kd cl rb \<equiv> (case kd of Cleaning \<Rightarrow> cl | RollingBack \<Rightarrow> rb)"

text \<open>A step of the loops keeps the shape: only the effects left and the identifiers run change.\<close>

lemma shape_loop:
  assumes "slot_shape (Some v) rs cl rb" and "task_of kd cl rb = Some t" and "\<not> storing t" and "\<not> storing t'"
    and "idle t \<Longrightarrow> idle t'"
  shows "kd = Cleaning \<Longrightarrow> slot_shape (Some v) rs' (Some t') rb"
    and "kd = RollingBack \<Longrightarrow> slot_shape (Some v) rs' cl (Some t')"
  using assms
  by (cases "(Some v, rs, cl, rb)" rule: slot_shape.cases;
      auto simp: cleaning_ok_def rolling_ok_def closed_ok_def)+

lemma shape_other_empty:
  assumes "slot_shape (Some v) rs cl rb" and "rb = Some t" and "cl = Some u"
  shows "idle u"
  using assms
  by (cases "(Some v, rs, cl, rb)" rule: slot_shape.cases) (auto simp: cleaning_ok_def closed_ok_def)

lemma slot_loop:
  assumes "slot_ok n (Some v) rs cl rb" and "task_of kd cl rb = Some t"
    and "tk_effects t' = tk_effects t" and "\<not> storing t" and "\<not> storing t'" and "idle t \<Longrightarrow> idle t'"
  shows "kd = Cleaning \<Longrightarrow> slot_ok n (Some v) rs (Some t') rb"
    and "kd = RollingBack \<Longrightarrow> slot_ok n (Some v) rs cl (Some t')"
  using assms shape_loop [of v rs cl rb kd t t' rs] by (simp_all add: slot_ok_def)

lemma slot_effect:
  assumes "slot_ok n (Some v) rs cl rb" and "task_of kd cl rb = Some t"
    and "tk_effects t = e # es" and "tk_effects t' = es" and "\<not> storing t" and "\<not> storing t'"
  shows "kd = Cleaning \<Longrightarrow> slot_ok n (Some v) (rs @ [em_id (ef_meta e)]) (Some t') rb"
    and "kd = RollingBack \<Longrightarrow> slot_ok n (Some v) (rs @ [em_id (ef_meta e)]) cl (Some t')"
proof -
  have shape: "slot_shape (Some v) rs cl rb" using assms(1) by (simp add: slot_ok_def)
  have busy: "\<not> idle t" using assms(3) by (simp add: idle_def)
  have left: "left_ids (Some t) = em_id (ef_meta e) # left_ids (Some t')"
    using assms(3,4) by simp
  show "slot_ok n (Some v) (rs @ [em_id (ef_meta e)]) (Some t') rb" if kd: "kd = Cleaning"
  proof -
    have "cl = Some t" using assms(2) kd by simp
    then show ?thesis
      using assms(1) shape_loop(1) [OF shape assms(2,5,6) _ kd, of "rs @ [em_id (ef_meta e)]"] busy
      unfolding slot_ok_def by (simp add: left del: left_ids_simps(2) slot_shape.simps slot_ids.simps)
  qed
  show "slot_ok n (Some v) (rs @ [em_id (ef_meta e)]) cl (Some t')" if kd: "kd = RollingBack"
  proof -
    have rb: "rb = Some t" using assms(2) kd by simp
    have "slot_shape (Some v) (rs @ [em_id (ef_meta e)]) cl (Some t')"
      using shape_loop(2) [OF shape assms(2,5,6) _ kd] busy by blast
    moreover have "left_ids cl = []"
      using shape_other_empty [OF shape rb] busy by (cases cl) (auto simp: idle_def)
    ultimately show ?thesis
      using assms(1) unfolding slot_ok_def rb left by simp
  qed
qed

lemma slot_store:
  assumes "slot_ok n (Some (st, es, cs, res)) rs (Some t) rb" and "\<not> storing t"
    and "idle t" and "storing t'" and "idle t'"
  shows "slot_ok n (Some (Disposed, es, cs, res)) rs (Some t') rb"
proof -
  have "slot_shape (Some (Disposed, es, cs, res)) rs (Some t') rb"
    using assms
    by (cases st) (simp_all add: slot_ok_def cleaning_ok_def closed_ok_def)
  then show ?thesis using assms by (simp add: slot_ok_def idle_def)
qed

lemma slot_store_rollback:
  assumes "slot_ok n (Some v) rs cl (Some t)" and "idle t" and "storing t'" and "idle t'"
  shows "slot_ok n (Some v) rs cl (Some t')"
proof -
  have "slot_shape (Some v) rs cl (Some t')"
    using assms by (cases "(Some v, rs, cl, Some t)" rule: slot_shape.cases)
      (auto simp: slot_ok_def cleaning_ok_def rolling_ok_def)
  then show ?thesis using assms by (simp add: slot_ok_def idle_def)
qed

lemma slot_complete:
  assumes "slot_ok n (Some (st, es, cs, res)) rs (Some t) rb" and "storing t"
  shows "slot_ok n (Some (st, es, cs, Some r)) rs None rb"
  using assms by (cases st) (auto simp: slot_ok_def cleaning_ok_def closed_ok_def idle_def)

lemma slot_rolled_back:
  assumes "slot_ok n (Some v) rs cl (Some t)" and "storing t"
  shows "slot_ok n (Some v) rs cl None"
proof -
  have "slot_shape (Some v) rs cl None \<and> idle t"
    using assms by (cases "(Some v, rs, cl, Some t)" rule: slot_shape.cases)
      (auto simp: slot_ok_def cleaning_ok_def rolling_ok_def)
  then show ?thesis using assms by (simp add: slot_ok_def idle_def)
qed

lemma in_states_put:
  "in_states S (V(s \<mapsto> v)) c \<longleftrightarrow> (if c = s then fst v \<in> S else in_states S V c)"
  by (simp add: in_states_def)

lemma tree_change:
  assumes "tree_ok V T P K"
    and "\<And>c. claimed V c \<Longrightarrow> claimed V' c"
    and "\<And>c. in_states {Disposed} V c \<Longrightarrow> in_states {Disposed} V' c"
    and "\<And>c. V c \<noteq> None \<Longrightarrow> V' c \<noteq> None"
    and "\<And>p c. held V' T' p c \<Longrightarrow> held V T p c \<or> p < c \<and> V' c \<noteq> None"
    and "\<And>k t c b. T' k = Some t \<Longrightarrow> tk_stage t = AwaitChild c b \<Longrightarrow>
      (\<exists>u. T k = Some u \<and> tk_stage u = AwaitChild c b) \<or> claimed V' c"
    and "\<And>c p. P' c = Some p \<Longrightarrow> P c = Some p \<or> held V' T' p c"
    and "\<And>c p. held V T p c \<Longrightarrow> held V' T' p c \<or> in_states {Disposed} V' c \<or> (p, c) \<in> set K'"
    and "set K \<subseteq> set K'"
    and "\<And>p c. (p, c) \<in> set K' \<Longrightarrow> (p, c) \<in> set K \<or> claimed V' c"
  shows "tree_ok V' T' P' K'"
  unfolding tree_ok_def
proof (intro conjI allI impI)
  fix p c assume "held V' T' p c"
  then show "p < c" "V' c \<noteq> None" using assms(1,4,5) unfolding tree_ok_def by metis+
next
  fix k t c b assume "T' k = Some t" "tk_stage t = AwaitChild c b"
  then show "claimed V' c" using assms(1,2,6) unfolding tree_ok_def by metis
next
  fix c p assume "P' c = Some p"
  then consider "held V' T' p c" | "P c = Some p" using assms(7) by blast
  then show "held V' T' p c \<or> in_states {Disposed} V' c \<or> (p, c) \<in> set K'"
  proof cases
    case 2
    then have "held V T p c \<or> in_states {Disposed} V c \<or> (p, c) \<in> set K"
      using assms(1) unfolding tree_ok_def by blast
    then show ?thesis using assms(3,8,9) by blast
  qed simp
next
  fix p c assume "(p, c) \<in> set K'"
  then show "claimed V' c" using assms(1,2,10) unfolding tree_ok_def by blast
qed

lemma held_other: "p \<noteq> s \<Longrightarrow> V' p = V p \<Longrightarrow> (\<And>kd. T' (p, kd) = T (p, kd)) \<Longrightarrow> held V' T' p c = held V T p c"
  by (simp add: held_def)

lemma held_put_same: "V s = Some (st, es, cs, res) \<Longrightarrow> held (V(s \<mapsto> (st', es', cs, res'))) T p c = held V T p c"
  by (simp add: held_def)

subsection \<open>Preservation, operation by operation\<close>

lemma scope_new_inv:
  assumes "lifecycle_inv m" and "scope_new m = Some (s, m')"
  shows "lifecycle_inv m'" and "s = next_scope m" and "view m s = None"
    and "view m' = (view m)(s \<mapsto> (Active, [], [], None))" and "tasks m' = tasks m" and "ran m' = ran m"
    and "parent_of m' = parent_of m" and "skipped m' = skipped m" and "next_resource m' = next_resource m"
proof -
  define g ns ng where "g = next_generation m" and nsd: "ns = next_scope m + 1" and "ng = next_generation m + 1"
  have ns: "next_scope m \<noteq> u64_max" "ns = next_scope m + 1" and s: "s = next_scope m"
    and m': "m' = m\<lparr>scopes := (scopes m)(s \<mapsto> new_cell g), next_scope := ns, next_generation := ng\<rparr>"
    using assms(2) by (auto simp: scope_new_def next_id_def g_def nsd ng_def split: if_splits)
  have v: "cell_view (new_cell g) = (Active, [], [], None)"
    by (simp add: cell_view_def new_cell_def)
  note new = inv_new_scope [of "next_scope m" "next_resource m" "view m" "tasks m" "ran m" "parent_of m" "skipped m" ns]
  have less: "next_scope m < ns" using ns next_id_less by simp
  show "s = next_scope m" by (rule s)
  show "view m' = (view m)(s \<mapsto> (Active, [], [], None))" "tasks m' = tasks m" "ran m' = ran m"
    "parent_of m' = parent_of m" "skipped m' = skipped m" "next_resource m' = next_resource m"
    using v by (simp_all add: m')
  moreover have "slots_ok (next_scope m) (next_resource m) (view m) (tasks m) (ran m)"
    "tree_ok (view m) (tasks m) (parent_of m) (skipped m)"
    using assms(1) by (simp_all add: lifecycle_inv_def)
  moreover have "next_scope m' = ns" by (simp add: m')
  ultimately show "lifecycle_inv m'" "view m s = None"
    using new less s unfolding lifecycle_inv_def by metis+
qed

lemma scope_child_inv:
  assumes "lifecycle_inv m" and "scope_child p m = Some (r, m')"
  shows "lifecycle_inv m'"
proof -
  obtain c where c: "scopes m p = Some c" using assms(2) by (auto simp: scope_child_def bind_eq_Some_conv)
  show ?thesis
  proof (cases "sc_state c = Active")
    case False
    then show ?thesis using assms c by (simp add: scope_child_def)
  next
    case True
    obtain s m1 where new: "scope_new m = Some (s, m1)"
      and m': "m' = put_scope p (c\<lparr>sc_children := sc_children c @ [s]\<rparr>)
                       (m1\<lparr>parent_of := (parent_of m1)(s \<mapsto> p)\<rparr>)"
      using assms(2) c True by (auto simp: scope_child_def bind_eq_Some_conv)
    note n = scope_new_inv [OF assms(1) new]
    have vp: "view m p = Some (Active, sc_effects c, sc_children c, sc_result c)"
      using c True by (simp add: view_def cell_view_def)
    have ps: "p < s" "p \<noteq> s"
      using assms(1) vp n(2) bounded_get [of "next_scope m" "view m" p] by (auto simp: lifecycle_inv_def slots_ok_def)
    let ?V = "view m1" and ?V' = "(view m1)(p \<mapsto> (Active, sc_effects c, sc_children c @ [s], sc_result c))"
    have v': "view m' = ?V'" using True by (simp add: m' cell_view_def)
    have v1p: "?V p = Some (Active, sc_effects c, sc_children c, sc_result c)" using vp ps n(4) by simp
    have inv1: "slots_ok (next_scope m1) (next_resource m1) ?V (tasks m1) (ran m1)"
      "tree_ok ?V (tasks m1) (parent_of m1) (skipped m1)"
      using n(1) by (simp_all add: lifecycle_inv_def)
    have "slots_ok (next_scope m1) (next_resource m1) ?V' (tasks m1) (ran m1)"
    proof (rule slots_change [OF inv1(1), of p])
      show "slot_ok (next_resource m1) (?V' p) (ran_ids p (ran m1)) (tasks m1 (p, Cleaning)) (tasks m1 (p, RollingBack))"
        using slots_slot [OF inv1(1), of p] v1p by (auto intro: slot_children)
    qed (use inv1(1) v1p in \<open>auto simp: slots_ok_def\<close>)
    moreover have "tree_ok ?V' (tasks m1) ((parent_of m1)(s \<mapsto> p)) (skipped m1)"
    proof (rule tree_change [OF inv1(2)])
      show "held ?V' (tasks m1) q d \<Longrightarrow> held ?V (tasks m1) q d \<or> q < d \<and> ?V' d \<noteq> None" for q d
        using v1p ps n(4) by (auto simp: held_def split: if_splits)
      show "((parent_of m1)(s \<mapsto> p)) d = Some q \<Longrightarrow> parent_of m1 d = Some q \<or> held ?V' (tasks m1) q d" for q d
        by (auto simp: held_def split: if_splits)
      show "held ?V (tasks m1) q d \<Longrightarrow> held ?V' (tasks m1) q d \<or> in_states {Disposed} ?V' d \<or> (q, d) \<in> set (skipped m1)" for q d
        using v1p by (auto simp: held_def)
    qed (use v1p in \<open>auto simp: in_states_put in_states_def\<close>)
    ultimately show ?thesis using v' by (simp add: lifecycle_inv_def m')
  qed
qed

lemma scope_slot:
  assumes "lifecycle_inv m" and "scopes m s = Some c"
  shows "slot_ok (next_resource m) (Some (cell_view c)) (ran_ids s (ran m)) (tasks m (s, Cleaning)) (tasks m (s, RollingBack))"
  using assms slots_slot [of "next_scope m" "next_resource m" "view m" "tasks m" "ran m" s]
  by (simp add: lifecycle_inv_def scopes_view)

text \<open>A change of one scope's view and tasks that keeps what it holds.\<close>

lemma inv_change:
  assumes "lifecycle_inv m" and "scopes m s = Some c"
    and "view m' = (view m)(s \<mapsto> v)"
    and "finite (dom (tasks m'))" and "\<And>x kd. x \<noteq> s \<Longrightarrow> tasks m' (x, kd) = tasks m (x, kd)"
    and "\<And>x. x \<noteq> s \<Longrightarrow> ran_ids x (ran m') = ran_ids x (ran m)"
    and "next_scope m' = next_scope m" and "next_resource m \<le> next_resource m'"
    and "slot_ok (next_resource m') (Some v) (ran_ids s (ran m')) (tasks m' (s, Cleaning)) (tasks m' (s, RollingBack))"
    and "parent_of m' = parent_of m" and "set (skipped m) \<subseteq> set (skipped m')"
    and "sc_state c = Unloading \<Longrightarrow> fst v \<in> {Unloading, Disposed}" and "sc_state c = Disposed \<Longrightarrow> fst v = Disposed"
    and "\<And>d. held (view m') (tasks m') s d \<Longrightarrow> held (view m) (tasks m) s d"
    and "\<And>kd t d b. tasks m' (s, kd) = Some t \<Longrightarrow> tk_stage t = AwaitChild d b \<Longrightarrow>
      (\<exists>u. tasks m (s, kd) = Some u \<and> tk_stage u = AwaitChild d b) \<or> claimed (view m') d"
    and "\<And>d. held (view m) (tasks m) s d \<Longrightarrow>
      held (view m') (tasks m') s d \<or> in_states {Disposed} (view m') d \<or> (s, d) \<in> set (skipped m')"
    and "\<And>q d. (q, d) \<in> set (skipped m') \<Longrightarrow> (q, d) \<in> set (skipped m) \<or> claimed (view m') d"
  shows "lifecycle_inv m'"
proof -
  note vs = scopes_view [OF assms(2)]
  have inv: "slots_ok (next_scope m) (next_resource m) (view m) (tasks m) (ran m)"
    "tree_ok (view m) (tasks m) (parent_of m) (skipped m)"
    using assms(1) by (simp_all add: lifecycle_inv_def)
  have other: "p \<noteq> s \<Longrightarrow> held (view m') (tasks m') p d = held (view m) (tasks m) p d" for p d
    by (rule held_other) (simp_all add: assms(3,5))
  have "slots_ok (next_scope m) (next_resource m') (view m') (tasks m') (ran m')"
    by (rule slots_change [OF inv(1), of s]) (use assms vs in auto)
  moreover have "tree_ok (view m') (tasks m') (parent_of m') (skipped m')"
  proof (rule tree_change [OF inv(2)])
    show "claimed (view m) d \<Longrightarrow> claimed (view m') d" for d
      using assms(12,13) vs unfolding assms(3) in_states_put by (auto simp: in_states_def cell_view_def)
    show "in_states {Disposed} (view m) d \<Longrightarrow> in_states {Disposed} (view m') d" for d
      using assms(13) vs unfolding assms(3) in_states_put by (auto simp: in_states_def cell_view_def)
    show "held (view m') (tasks m') p d \<Longrightarrow> held (view m) (tasks m) p d \<or> p < d \<and> view m' d \<noteq> None" for p d
      using other assms(14) by (cases "p = s") auto
    show "held (view m) (tasks m) p d \<Longrightarrow> held (view m') (tasks m') p d \<or> in_states {Disposed} (view m') d \<or> (p, d) \<in> set (skipped m')" for p d
      using other assms(16) by (cases "p = s") auto
    show "tasks m' k = Some t \<Longrightarrow> tk_stage t = AwaitChild d b \<Longrightarrow>
      (\<exists>u. tasks m k = Some u \<and> tk_stage u = AwaitChild d b) \<or> claimed (view m') d" for k t d b
      using assms(5,15) by (cases k; cases "fst k = s") auto
    show "view m d \<noteq> None \<Longrightarrow> view m' d \<noteq> None" for d
      by (cases "d = s") (simp_all add: assms(3))
  qed (use assms in auto)
  ultimately show ?thesis by (simp add: lifecycle_inv_def assms(7))
qed

lemma add_effect_inv:
  assumes "lifecycle_inv m" and "add_effect s label d m = Some (r, m')"
  shows "lifecycle_inv m'"
proof -
  obtain c where c: "scopes m s = Some c"
    using assms(2) by (auto simp: add_effect_def add_effect_with_def bind_eq_Some_conv)
  show ?thesis
  proof (cases "sc_state c = Active")
    case False
    then show ?thesis using assms c by (simp add: add_effect_def add_effect_with_def)
  next
    case True
    let ?e = "\<lparr>ef_meta = EffectMeta (next_resource m) label [], ef_disposer = d\<rparr>"
    have nr: "next_resource m \<noteq> u64_max"
      and m': "m' = put_scope s (c\<lparr>sc_effects := sc_effects c @ [?e]\<rparr>) (m\<lparr>next_resource := next_resource m + 1\<rparr>)"
      using assms(2) c True
      by (auto simp: add_effect_def add_effect_with_def next_id_def split: if_splits)
    have less: "next_resource m < next_resource m + 1" using nr by (rule next_id_less)
    have slot: "slot_ok (next_resource m) (Some (Active, sc_effects c, sc_children c, sc_result c))
        (ran_ids s (ran m)) (tasks m (s, Cleaning)) (tasks m (s, RollingBack))"
      using scope_slot [OF assms(1) c] True by (simp add: cell_view_def)
    show ?thesis
    proof (rule inv_change [OF assms(1) c])
      show "view m' = (view m)(s \<mapsto> (Active, sc_effects c @ [?e], sc_children c, sc_result c))"
        using True by (simp add: m' cell_view_def)
      show "slot_ok (next_resource m') (Some (Active, sc_effects c @ [?e], sc_children c, sc_result c))
          (ran_ids s (ran m')) (tasks m' (s, Cleaning)) (tasks m' (s, RollingBack))"
        using slot_push [OF slot _ less, of ?e] by (simp add: m')
    qed (use True less assms(1) scopes_view [OF c] in
        \<open>auto simp: m' held_def cell_view_def lifecycle_inv_def slots_ok_def\<close>)
  qed
qed

lemma cancel_view [simp]: "cell_view (snd (cancel c)) = cell_view c"
  by (simp add: cancel_def cell_view_def)

lemma taken_view:
  "cell_view ((snd (cancel (c\<lparr>sc_state := st\<rparr>)))\<lparr>sc_effects := [], sc_children := []\<rparr>) = (st, [], [], sc_result c)"
  by (simp add: cancel_def cell_view_def)

lemma claim_owner:
  assumes "claim_disposal D s m = Some (Owner, m')"
  obtains c where "scopes m s = Some c" and "sc_state c \<noteq> Unloading" and "sc_state c \<noteq> Disposed"
    and "view m' = (view m)(s \<mapsto> (Unloading, [], [], sc_result c))"
    and "tasks m' = (tasks m)((s, Cleaning) \<mapsto> new_task c)"
    and "ran m' = ran m" and "parent_of m' = parent_of m" and "skipped m' = skipped m"
    and "next_scope m' = next_scope m" and "next_resource m' = next_resource m" and "fibers m' = fibers m"
  using assms by (auto simp: claim_disposal_def bind_eq_Some_conv Let_def taken_view split: if_splits)

lemma claim_join:
  "claim_disposal D s m = Some (Join, m') \<Longrightarrow> m' = m \<and> claimed (view m) s"
  by (auto simp: claim_disposal_def bind_eq_Some_conv Let_def in_states_def view_def cell_view_def split: if_splits)

lemma claim_cases:
  assumes "claim_disposal D s m = Some (w, m')"
  shows "w = Owner \<or> w = Join"
  by (cases w) auto

lemma slot_unclaimed:
  "slot_ok n (Some (cell_view c)) rs cl rb \<Longrightarrow> sc_state c \<noteq> Unloading \<Longrightarrow> sc_state c \<noteq> Disposed \<Longrightarrow> cl = None"
  by (cases "sc_state c") (auto simp: slot_ok_def cell_view_def)

lemma claim_disposal_inv:
  assumes "lifecycle_inv m" and "claim_disposal D s m = Some (w, m')"
  shows "lifecycle_inv m' \<and> claimed (view m') s"
proof (cases w)
  case Join
  then show ?thesis using assms claim_join by blast
next
  case Owner
  then obtain c where c: "scopes m s = Some c" and st: "sc_state c \<noteq> Unloading" "sc_state c \<noteq> Disposed"
    and m': "view m' = (view m)(s \<mapsto> (Unloading, [], [], sc_result c))"
      "tasks m' = (tasks m)((s, Cleaning) \<mapsto> new_task c)" "ran m' = ran m" "parent_of m' = parent_of m"
      "skipped m' = skipped m" "next_scope m' = next_scope m" "next_resource m' = next_resource m"
    using assms(2) claim_owner by metis
  note slot = scope_slot [OF assms(1) c]
  have none: "tasks m (s, Cleaning) = None" using slot_unclaimed [OF slot st] .
  have held: "held (view m') (tasks m') s d = held (view m) (tasks m) s d" for d
    using none scopes_view [OF c] unfolding m' by (auto simp: held_def cell_view_def new_task_def split: if_splits)
  have "lifecycle_inv m'"
  proof (rule inv_change [OF assms(1) c m'(1)])
    show "slot_ok (next_resource m') (Some (Unloading, [], [], sc_result c)) (ran_ids s (ran m'))
        (tasks m' (s, Cleaning)) (tasks m' (s, RollingBack))"
      using slot_claim [OF slot st] by (simp add: m')
    show "finite (dom (tasks m'))"
      using assms(1) by (simp add: m' lifecycle_inv_def slots_ok_def)
    show "tasks m' (s, kd) = Some t \<Longrightarrow> tk_stage t = AwaitChild d b \<Longrightarrow>
      (\<exists>u. tasks m (s, kd) = Some u \<and> tk_stage u = AwaitChild d b) \<or> claimed (view m') d" for kd t d b
      by (auto simp: m' new_task_def split: if_splits)
  qed (use st m' held in auto)
  moreover have "claimed (view m') s" by (simp add: m' in_states_put)
  ultimately show ?thesis by blast
qed

lemma dispose_call_inv:
  assumes "lifecycle_inv m" and "dispose_call D s m = Some (w, m')"
  shows "lifecycle_inv m' \<and> claimed (view m') s"
proof -
  obtain cl m1 where claim: "claim_disposal D s m = Some (cl, m1)"
    using assms(2) by (auto simp: dispose_call_def bind_eq_Some_conv)
  then have m': "m' = m1 \<or> m' = inherit_ancestors D s m1"
    using assms(2) by (cases cl) (auto simp: dispose_call_def split: if_splits)
  then show ?thesis using claim_disposal_inv [OF assms(1) claim] by auto
qed

lemma rollback_inv:
  assumes "lifecycle_inv m" and "rollback_failed_setup s m = Some (rolling, m')"
  shows "lifecycle_inv m'"
proof -
  obtain c where c: "scopes m s = Some c"
    using assms(2) by (auto simp: rollback_failed_setup_def bind_eq_Some_conv)
  show ?thesis
  proof (cases "sc_state c = Active")
    case False
    then show ?thesis using assms c by (simp add: rollback_failed_setup_def)
  next
    case True
    have m': "view m' = (view m)(s \<mapsto> (Failed, [], [], sc_result c))"
      "tasks m' = (tasks m)((s, RollingBack) \<mapsto> new_task c)" "ran m' = ran m" "parent_of m' = parent_of m"
      "skipped m' = skipped m" "next_scope m' = next_scope m" "next_resource m' = next_resource m"
      using assms(2) c True by (auto simp: rollback_failed_setup_def taken_view)
    note slot = scope_slot [OF assms(1) c]
    have none: "tasks m (s, RollingBack) = None"
      using slot True by (simp add: slot_ok_def cell_view_def)
    have held: "held (view m') (tasks m') s d = held (view m) (tasks m) s d" for d
      using none scopes_view [OF c] unfolding m' by (auto simp: held_def cell_view_def new_task_def split: if_splits)
    show ?thesis
    proof (rule inv_change [OF assms(1) c m'(1)])
      show "slot_ok (next_resource m') (Some (Failed, [], [], sc_result c)) (ran_ids s (ran m'))
          (tasks m' (s, Cleaning)) (tasks m' (s, RollingBack))"
        using slot_rollback [OF slot True] by (simp add: m')
      show "finite (dom (tasks m'))"
        using assms(1) by (simp add: m' lifecycle_inv_def slots_ok_def)
      show "tasks m' (s, kd) = Some t \<Longrightarrow> tk_stage t = AwaitChild d b \<Longrightarrow>
        (\<exists>u. tasks m (s, kd) = Some u \<and> tk_stage u = AwaitChild d b) \<or> claimed (view m') d" for kd t d b
        by (auto simp: m' new_task_def split: if_splits)
    qed (use True m' held in auto)
  qed
qed

lemma task_cell:
  assumes "lifecycle_inv m" and "tasks m (s, kd) = Some t"
  obtains c where "scopes m s = Some c"
proof (cases "scopes m s")
  case None
  then have "slot_ok (next_resource m) None (ran_ids s (ran m)) (tasks m (s, Cleaning)) (tasks m (s, RollingBack))"
    using assms(1) slots_slot [of "next_scope m" "next_resource m" "view m" "tasks m" "ran m" s]
    by (simp add: lifecycle_inv_def view_def)
  then show ?thesis using assms(2) by (cases kd) (simp_all add: slot_ok_None)
qed (rule that)

lemma result_disposed:
  assumes "lifecycle_inv m" and "scopes m c = Some x" and "sc_result x = Some r"
  shows "sc_state x = Disposed"
  using scope_slot [OF assms(1,2)] assms(3) by (cases "sc_state x") (auto simp: slot_ok_def cell_view_def)

lemma held_child:
  assumes "lifecycle_inv m" and "tasks m (s, kd) = Some t" and "holds (Some t) d"
  shows "s < d \<and> view m d \<noteq> None"
proof -
  have "held (view m) (tasks m) s d"
    using assms(2,3) by (cases kd) (simp_all add: held_def)
  then show ?thesis using assms(1) by (simp add: lifecycle_inv_def tree_ok_def)
qed

lemma put_task_inv:
  assumes inv: "lifecycle_inv m" and t: "tasks m (s, kd) = Some t"
    and "tk_effects t' = tk_effects t" and "\<not> storing t" and "\<not> storing t'" and "idle t \<Longrightarrow> idle t'"
    and sub: "\<And>d. holds (Some t') d \<Longrightarrow> holds (Some t) d"
    and await: "\<And>d b. tk_stage t' = AwaitChild d b \<Longrightarrow> claimed (view m) d"
    and kept: "\<And>d. holds (Some t) d \<Longrightarrow> holds (Some t') d \<or> in_states {Disposed} (view m) d \<or> (s, d) \<in> set K'"
    and "set (skipped m) \<subseteq> set K'" and "\<And>q d. (q, d) \<in> set K' \<Longrightarrow> (q, d) \<in> set (skipped m) \<or> claimed (view m) d"
  shows "lifecycle_inv (put_task (s, kd) t' (m\<lparr>skipped := K'\<rparr>))" (is "lifecycle_inv ?m'")
proof -
  obtain c where c: "scopes m s = Some c" using task_cell [OF inv t] .
  have vs: "view m s = Some (cell_view c)" by (rule scopes_view [OF c])
  have slot: "slot_ok (next_resource m) (Some (cell_view c)) (ran_ids s (ran m))
      (tasks m (s, Cleaning)) (tasks m (s, RollingBack))"
    by (rule scope_slot [OF inv c])
  have tk: "task_of kd (tasks m (s, Cleaning)) (tasks m (s, RollingBack)) = Some t"
    using t by (cases kd) simp_all
  have same: "view ?m' = (view m)(s \<mapsto> cell_view c)" using vs by (simp add: fun_upd_idem)
  have v: "view ?m' = view m" by simp
  show ?thesis
  proof (rule inv_change [OF inv c same])
    show "slot_ok (next_resource ?m') (Some (cell_view c)) (ran_ids s (ran ?m'))
        (tasks ?m' (s, Cleaning)) (tasks ?m' (s, RollingBack))"
      using slot_loop [OF slot tk assms(3-6)] by (cases kd) simp_all
    show "finite (dom (tasks ?m'))" using inv by (simp add: lifecycle_inv_def slots_ok_def)
    show "held (view ?m') (tasks ?m') s d \<Longrightarrow> held (view m) (tasks m) s d" for d
      using sub [of d] t vs by (cases kd) (auto simp: held_def)
    show "held (view m) (tasks m) s d \<Longrightarrow>
      held (view ?m') (tasks ?m') s d \<or> in_states {Disposed} (view ?m') d \<or> (s, d) \<in> set (skipped ?m')" for d
      using kept [of d] t vs by (cases kd) (auto simp: held_def)
    show "tasks ?m' (s, kd') = Some u \<Longrightarrow> tk_stage u = AwaitChild d b \<Longrightarrow>
      (\<exists>u. tasks m (s, kd') = Some u \<and> tk_stage u = AwaitChild d b) \<or> claimed (view ?m') d" for kd' u d b
      using await by (cases "kd' = kd") auto
  qed (use assms in \<open>auto simp: cell_view_def\<close>)
qed

lemma collect_result_simps [simp]:
  "tk_effects (collect_result r t) = tk_effects t" "tk_children (collect_result r t) = tk_children t"
  "tk_stage (collect_result r t) = tk_stage t"
  by (cases r; simp add: collect_result_def)+

lemma dispose_call_tasks:
  assumes "dispose_call D s m = Some (w, m')" and "s \<noteq> fst k"
  shows "tasks m' k = tasks m k \<and> skipped m' = skipped m"
proof -
  obtain cl m1 where claim: "claim_disposal D s m = Some (cl, m1)"
    using assms(1) by (auto simp: dispose_call_def bind_eq_Some_conv)
  have "tasks m1 k = tasks m k \<and> skipped m1 = skipped m"
  proof (cases cl)
    case Owner
    then show ?thesis using claim claim_owner assms(2) by (metis fst_conv fun_upd_other)
  next
    case Join
    then show ?thesis using claim claim_join by metis
  qed
  then show ?thesis
    using assms(1) claim by (cases cl) (auto simp: dispose_call_def split: if_splits)
qed

lemma task_child_inv:
  assumes "lifecycle_inv m" and "task_child (s, kd) env m = Some m'"
  shows "lifecycle_inv m'"
proof -
  obtain t where t0: "tasks m (s, kd) = Some t"
    using assms(2) by (auto simp: task_child_def bind_eq_Some_conv)
  obtain c cs w m1 where t: "tasks m (s, kd) = Some t" "tk_stage t = Working" "tk_children t = c # cs"
    and call: "dispose_call (task_context (s, kd) env m) c m = Some (w, m1)"
    and m': "m' = (case w of
        Wait owner \<Rightarrow> put_task (s, kd) (t\<lparr>tk_children := cs, tk_stage := AwaitChild c owner\<rparr>) m1
      | Ready r \<Rightarrow> put_task (s, kd) (collect_result r (t\<lparr>tk_children := cs\<rparr>))
          (m1\<lparr>skipped := skipped m1 @ [(s, c)]\<rparr>))"
  proof -
    assume goal: thesis if "tasks m (s, kd) = Some t" "tk_stage t = Working" "tk_children t = c # cs"
      "dispose_call (task_context (s, kd) env m) c m = Some (w, m1)"
      "m' = (case w of
        Wait owner \<Rightarrow> put_task (s, kd) (t\<lparr>tk_children := cs, tk_stage := AwaitChild c owner\<rparr>) m1
      | Ready r \<Rightarrow> put_task (s, kd) (collect_result r (t\<lparr>tk_children := cs\<rparr>))
          (m1\<lparr>skipped := skipped m1 @ [(s, c)]\<rparr>))" for c cs w m1
    obtain c cs where stage: "tk_stage t = Working" "tk_children t = c # cs"
      using assms(2) t0 by (cases "tk_stage t"; cases "tk_children t") (auto simp: task_child_def)
    then obtain w m1 where call: "dispose_call (task_context (s, kd) env m) c m = Some (w, m1)"
      using assms(2) t0 by (auto simp: task_child_def bind_eq_Some_conv)
    show thesis
      by (rule goal [OF t0 stage call]) (use assms(2) t0 stage call in \<open>cases w; auto simp: task_child_def\<close>)
  qed
  have "s < c" using held_child [OF assms(1) t(1), of c] t(3) by simp
  then have t1: "tasks m1 (s, kd) = Some t" using dispose_call_tasks [OF call, of "(s, kd)"] t(1) by auto
  have inv1: "lifecycle_inv m1" and claimed: "claimed (view m1) c"
    using dispose_call_inv [OF assms(1) call] by auto
  have busy: "\<not> idle t" "\<not> storing t" using t by (auto simp: idle_def storing_def)
  show ?thesis
  proof (cases w)
    case (Wait owner)
    have "lifecycle_inv (put_task (s, kd) (t\<lparr>tk_children := cs, tk_stage := AwaitChild c owner\<rparr>)
        (m1\<lparr>skipped := skipped m1\<rparr>))"
      by (rule put_task_inv [OF inv1 t1]) (use busy t claimed in \<open>auto simp: storing_def\<close>)
    then show ?thesis using m' Wait by simp
  next
    case (Ready r)
    have "lifecycle_inv (put_task (s, kd) (collect_result r (t\<lparr>tk_children := cs\<rparr>))
        (m1\<lparr>skipped := skipped m1 @ [(s, c)]\<rparr>))"
      by (rule put_task_inv [OF inv1 t1]) (use busy t claimed in \<open>auto simp: storing_def\<close>)
    then show ?thesis using m' Ready by simp
  qed
qed

lemma task_child_done_inv:
  assumes "lifecycle_inv m" and "task_child_done (s, kd) env m = Some m'"
  shows "lifecycle_inv m'"
proof -
  obtain t where t0: "tasks m (s, kd) = Some t"
    using assms(2) by (auto simp: task_child_done_def bind_eq_Some_conv)
  obtain c b r where t: "tasks m (s, kd) = Some t" "tk_stage t = AwaitChild c b"
    and m': "m' = put_task (s, kd) (collect_result r (t\<lparr>tk_stage := Working\<rparr>))
        (m\<lparr>skipped := (if Option.bind (scopes m c) sc_result = None then skipped m @ [(s, c)] else skipped m)\<rparr>)"
    using assms(2) t0 by (cases "tk_stage t") (auto simp: task_child_done_def bind_eq_Some_conv split: if_splits)
  have claimed: "claimed (view m) c"
    using assms(1) t by (auto simp: lifecycle_inv_def tree_ok_def)
  have gone: "in_states {Disposed} (view m) c" if "Option.bind (scopes m c) sc_result = Some x" for x
    using that result_disposed [OF assms(1)]
    by (auto simp: bind_eq_Some_conv in_states_def view_def cell_view_def)
  show ?thesis unfolding m'
    by (rule put_task_inv [OF assms(1) t(1)])
      (use t claimed gone in \<open>auto simp: storing_def idle_def split: if_splits\<close>)
qed

lemma task_effect_done_inv:
  assumes "lifecycle_inv m" and "task_effect_done (s, kd) r m = Some m'"
  shows "lifecycle_inv m'"
proof -
  obtain t where t0: "tasks m (s, kd) = Some t"
    using assms(2) by (auto simp: task_effect_done_def bind_eq_Some_conv)
  obtain i where t: "tasks m (s, kd) = Some t" "tk_stage t = InEffect i"
    and m': "m' = put_task (s, kd) (collect_result r (t\<lparr>tk_stage := Working\<rparr>)) (m\<lparr>skipped := skipped m\<rparr>)"
    using assms(2) t0 by (cases "tk_stage t") (auto simp: task_effect_done_def)
  show ?thesis unfolding m'
    by (rule put_task_inv [OF assms(1) t(1)]) (use t in \<open>auto simp: storing_def idle_def\<close>)
qed

lemma task_effect_cases:
  assumes "task_effect (s, kd) m = Some m'"
  obtains t e es where "tasks m (s, kd) = Some t" and "tk_stage t = Working" and "tk_children t = []"
    and "tk_effects t = e # es"
    and "m' = put_task (s, kd) (t\<lparr>tk_effects := es, tk_stage := InEffect (em_id (ef_meta e))\<rparr>)
        (m\<lparr>ran := ran m @ [(s, em_id (ef_meta e), ef_disposer e)]\<rparr>)"
proof -
  obtain t where t0: "tasks m (s, kd) = Some t"
    using assms by (auto simp: task_effect_def bind_eq_Some_conv)
  then show ?thesis
    using assms that by (cases "tk_stage t"; cases "tk_children t"; cases "tk_effects t")
      (auto simp: task_effect_def)
qed

lemma task_effect_inv:
  assumes inv: "lifecycle_inv m" and "task_effect (s, kd) m = Some m'"
  shows "lifecycle_inv m'"
proof -
  obtain t e es where t: "tasks m (s, kd) = Some t" "tk_stage t = Working" "tk_children t = []"
      "tk_effects t = e # es"
    and m': "m' = put_task (s, kd) (t\<lparr>tk_effects := es, tk_stage := InEffect (em_id (ef_meta e))\<rparr>)
        (m\<lparr>ran := ran m @ [(s, em_id (ef_meta e), ef_disposer e)]\<rparr>)"
    using task_effect_cases [OF assms(2)] by metis
  obtain c where c: "scopes m s = Some c" using task_cell [OF inv t(1)] .
  have vs: "view m s = Some (cell_view c)" by (rule scopes_view [OF c])
  have same: "view m' = (view m)(s \<mapsto> cell_view c)" using vs by (simp add: m' fun_upd_idem)
  have tk: "task_of kd (tasks m (s, Cleaning)) (tasks m (s, RollingBack)) = Some t"
    using t by (cases kd) simp_all
  have st: "\<not> storing t" "\<not> storing (t\<lparr>tk_effects := es, tk_stage := InEffect (em_id (ef_meta e))\<rparr>)"
    using t by (simp_all add: storing_def)
  have held: "held (view m') (tasks m') s d = held (view m) (tasks m) s d" for d
    using t by (cases kd) (auto simp: m' held_def)
  show ?thesis
  proof (rule inv_change [OF inv c same])
    show "slot_ok (next_resource m') (Some (cell_view c)) (ran_ids s (ran m'))
        (tasks m' (s, Cleaning)) (tasks m' (s, RollingBack))"
      using slot_effect [OF scope_slot [OF inv c] tk t(4) _ st] by (cases kd) (simp_all add: m')
    show "finite (dom (tasks m'))" using inv by (simp add: m' lifecycle_inv_def slots_ok_def)
    show "tasks m' (s, kd') = Some u \<Longrightarrow> tk_stage u = AwaitChild d b \<Longrightarrow>
      (\<exists>u. tasks m (s, kd') = Some u \<and> tk_stage u = AwaitChild d b) \<or> claimed (view m') d" for kd' u d b
      by (cases "kd' = kd") (auto simp: m')
  qed (use held in \<open>auto simp: m' cell_view_def\<close>)
qed

lemma task_store_inv:
  assumes inv: "lifecycle_inv m" and "task_store (s, kd) m = Some m'"
  shows "lifecycle_inv m'"
proof -
  obtain t where t0: "tasks m (s, kd) = Some t"
    using assms(2) by (auto simp: task_store_def bind_eq_Some_conv)
  have t: "tk_stage t = Working" "tk_children t = []" "tk_effects t = []"
    using assms(2) t0
    by (cases "tk_stage t"; cases "tk_children t"; cases "tk_effects t"; auto simp: task_store_def)+
  let ?t' = "t\<lparr>tk_stage := Storing (cleanup_result (tk_errors t))\<rparr>"
  have st: "\<not> storing t" "idle t" "storing ?t'" "idle ?t'"
    using t by (auto simp: storing_def idle_def)
  obtain c where c: "scopes m s = Some c" using task_cell [OF inv t0] .
  note slot = scope_slot [OF inv c]
  have vs: "view m s = Some (cell_view c)" by (rule scopes_view [OF c])
  define v where "v = (if kd = Cleaning then (Disposed, sc_effects c, sc_children c, sc_result c) else cell_view c)"
  have view': "view m' = (view m)(s \<mapsto> v)" and m': "tasks m' = (tasks m)((s, kd) \<mapsto> ?t')" "ran m' = ran m"
      "next_scope m' = next_scope m" "next_resource m' = next_resource m" "skipped m' = skipped m"
      "parent_of m' = parent_of m"
  proof -
    have "m' = (if kd = Cleaning then put_scope s (c\<lparr>sc_state := Disposed\<rparr>) (put_task (s, kd) ?t' m)
        else put_task (s, kd) ?t' m)"
      using assms(2) t0 t c by (cases kd) (simp_all add: task_store_def)
    then show "view m' = (view m)(s \<mapsto> v)" "tasks m' = (tasks m)((s, kd) \<mapsto> ?t')" "ran m' = ran m"
      "next_scope m' = next_scope m" "next_resource m' = next_resource m" "skipped m' = skipped m"
      "parent_of m' = parent_of m"
      using vs by (simp_all add: v_def cell_view_def fun_upd_idem)
  qed
  have held: "held (view m') (tasks m') s d = held (view m) (tasks m) s d" for d
    using vs t t0 by (cases kd) (auto simp: view' m' held_def v_def cell_view_def)
  show ?thesis
  proof (rule inv_change [OF inv c view'])
    show "slot_ok (next_resource m') (Some v) (ran_ids s (ran m'))
        (tasks m' (s, Cleaning)) (tasks m' (s, RollingBack))"
    proof (cases kd)
      case Cleaning
      have "slot_ok (next_resource m) (Some (sc_state c, sc_effects c, sc_children c, sc_result c)) (ran_ids s (ran m))
          (Some t) (tasks m (s, RollingBack))"
        using slot t0 Cleaning by (simp add: cell_view_def)
      from slot_store [OF this st(1,2,3,4)] show ?thesis using Cleaning by (simp add: m' v_def)
    next
      case RollingBack
      have "slot_ok (next_resource m) (Some (cell_view c)) (ran_ids s (ran m)) (tasks m (s, Cleaning)) (Some t)"
        using slot t0 RollingBack by simp
      from slot_store_rollback [OF this st(2,3,4)] show ?thesis using RollingBack by (simp add: m' v_def)
    qed
    show "finite (dom (tasks m'))" using inv by (simp add: m' lifecycle_inv_def slots_ok_def)
    show "tasks m' (s, kd') = Some u \<Longrightarrow> tk_stage u = AwaitChild d b \<Longrightarrow>
      (\<exists>u. tasks m (s, kd') = Some u \<and> tk_stage u = AwaitChild d b) \<or> claimed (view m') d" for kd' u d b
      by (cases "kd' = kd") (auto simp: m')
  qed (use held in \<open>auto simp: m' v_def cell_view_def\<close>)
qed

lemma task_complete_inv:
  assumes inv: "lifecycle_inv m" and "task_complete s m = Some m'"
  shows "lifecycle_inv m'"
proof -
  obtain t where t0: "tasks m (s, Cleaning) = Some t"
    using assms(2) by (auto simp: task_complete_def bind_eq_Some_conv)
  obtain r where r: "tk_stage t = Storing r"
    using assms(2) t0 by (cases "tk_stage t") (auto simp: task_complete_def)
  obtain c where c: "scopes m s = Some c" using task_cell [OF inv t0] .
  have m': "m' = (put_scope s (c\<lparr>sc_result := Some r\<rparr>) m)\<lparr>tasks := (tasks m)((s, Cleaning) := None)\<rparr>"
    using assms(2) t0 r c by (simp add: task_complete_def)
  note slot = scope_slot [OF inv c]
  have st: "storing t" using r by (auto simp: storing_def)
  have vs: "view m s = Some (cell_view c)" by (rule scopes_view [OF c])
  have "idle t"
    using slot st t0 by (cases "sc_state c") (auto simp: slot_ok_def cell_view_def cleaning_ok_def closed_ok_def)
  then have held: "held (view m') (tasks m') s d = held (view m) (tasks m) s d" for d
    using vs t0 r by (auto simp: m' held_def idle_def cell_view_def)
  have slot': "slot_ok (next_resource m) (Some (sc_state c, sc_effects c, sc_children c, Some r)) (ran_ids s (ran m))
        None (tasks m (s, RollingBack))"
    using slot_complete [OF _ st] slot t0 unfolding cell_view_def by simp
  show ?thesis
  proof (rule inv_change [OF inv c])
    show "view m' = (view m)(s \<mapsto> (sc_state c, sc_effects c, sc_children c, Some r))"
      by (simp add: m' cell_view_def)
    show "slot_ok (next_resource m') (Some (sc_state c, sc_effects c, sc_children c, Some r)) (ran_ids s (ran m'))
        (tasks m' (s, Cleaning)) (tasks m' (s, RollingBack))"
      using slot' by (simp add: m')
    show "finite (dom (tasks m'))"
      using inv by (simp add: m' lifecycle_inv_def slots_ok_def)
  qed (use held in \<open>auto simp: m' cell_view_def split: if_splits\<close>)
qed

lemma fiber_rolled_back_inv:
  assumes inv: "lifecycle_inv m" and "fiber_rolled_back f m = Some m'"
  shows "lifecycle_inv m'"
proof -
  obtain x e t where x: "fibers m f = Some x" "fb_failure x = Some e" and t0: "tasks m (fb_scope x, RollingBack) = Some t"
    using assms(2) by (auto simp: fiber_rolled_back_def bind_eq_Some_conv)
  obtain r where r: "tk_stage t = Storing r"
    using assms(2) t0 x by (cases "tk_stage t") (auto simp: fiber_rolled_back_def)
  define s where "s = fb_scope x"
  obtain c where c: "scopes m s = Some c" using task_cell [OF inv t0] unfolding s_def by blast
  have m': "tasks m' = (tasks m)((s, RollingBack) := None)" "scopes m' = scopes m" "ran m' = ran m"
      "next_scope m' = next_scope m" "next_resource m' = next_resource m" "skipped m' = skipped m"
      "parent_of m' = parent_of m"
    using assms(2) t0 r x by (auto simp: fiber_rolled_back_def s_def)
  note slot = scope_slot [OF inv c]
  have st: "storing t" using r by (auto simp: storing_def)
  have vs: "view m s = Some (cell_view c)" by (rule scopes_view [OF c])
  have view': "view m' = (view m)(s \<mapsto> cell_view c)" using vs m'(2) by (auto simp: view_def fun_eq_iff)
  have "idle t"
    using slot st t0 by (cases "sc_state c")
      (auto simp: slot_ok_def cell_view_def rolling_ok_def s_def)
  then have held: "held (view m') (tasks m') s d = held (view m) (tasks m) s d" for d
    using vs t0 r by (auto simp: view' m' held_def idle_def s_def)
  show ?thesis
  proof (rule inv_change [OF inv c view'])
    show "slot_ok (next_resource m') (Some (cell_view c)) (ran_ids s (ran m'))
        (tasks m' (s, Cleaning)) (tasks m' (s, RollingBack))"
      using slot_rolled_back [OF _ st] slot t0 unfolding m' s_def by simp
    show "finite (dom (tasks m'))"
      using inv by (simp add: m' lifecycle_inv_def slots_ok_def)
  qed (use held in \<open>auto simp: m' cell_view_def split: if_splits\<close>)
qed

lemma fiber_step_inv:
  assumes "lifecycle_inv m"
  shows "fiber_new p name m = Some (r, m') \<Longrightarrow> lifecycle_inv m'"
    and "fiber_start f m = Some (r', m') \<Longrightarrow> lifecycle_inv m'"
    and "fiber_setup f q m = Some m' \<Longrightarrow> lifecycle_inv m'"
    and "fiber_dispose D f m = Some (w, m') \<Longrightarrow> lifecycle_inv m'"
    and "fiber_disposed f m = Some m' \<Longrightarrow> lifecycle_inv m'"
proof -
  show "fiber_new p name m = Some (r, m') \<Longrightarrow> lifecycle_inv m'"
  proof -
    assume new: "fiber_new p name m = Some (r, m')"
    then obtain i nf q m1 where "next_id (next_fiber m) = Some (i, nf)"
      and child: "scope_child p (m\<lparr>next_fiber := nf\<rparr>) = Some (q, m1)"
      by (auto simp: fiber_new_def bind_eq_Some_conv)
    then have "m' = m1 \<or> (\<exists>x. m' = put_fiber i x m1)"
      using new by (cases q) (auto simp: fiber_new_def)
    then show ?thesis using scope_child_inv [OF _ child] assms by auto
  qed
  show "fiber_start f m = Some (r', m') \<Longrightarrow> lifecycle_inv m'"
    using assms by (auto simp: fiber_start_def bind_eq_Some_conv split: if_splits)
  show "fiber_setup f q m = Some m' \<Longrightarrow> lifecycle_inv m'"
    using assms by (auto simp: fiber_setup_def bind_eq_Some_conv Let_def split: if_splits sum.splits
        dest!: rollback_inv [rotated])
  show "fiber_dispose D f m = Some (w, m') \<Longrightarrow> lifecycle_inv m'"
    using assms by (auto simp: fiber_dispose_def bind_eq_Some_conv split: if_splits
        dest!: dispose_call_inv [rotated])
  show "fiber_disposed f m = Some m' \<Longrightarrow> lifecycle_inv m'"
    using assms by (auto simp: fiber_disposed_def bind_eq_Some_conv split: if_splits)
qed

interpretation lifecycle: transition_invariant lifecycle_start "exec_rel lifecycle_exec" lifecycle_inv
proof
  show "lifecycle_start m \<Longrightarrow> lifecycle_inv m" for m
    by (simp add: lifecycle_start_def lifecycle_new_def lifecycle_inv_def slots_ok_def tree_ok_def view_def
        ran_ids_def slot_ok_None bounded_def held_def)
  show "lifecycle_inv m \<Longrightarrow> exec_rel lifecycle_exec m l m' \<Longrightarrow> lifecycle_inv m'" for m l m'
    by (cases l)
      (auto simp: exec_rel_def intro: scope_new_inv(1) scope_child_inv add_effect_inv fiber_step_inv
        fiber_rolled_back_inv task_child_inv task_child_done_inv task_effect_inv task_effect_done_inv
        task_store_inv task_complete_inv dest: dispose_call_inv)
qed

subsection \<open>Nothing registered is lost\<close>

text \<open>The identifiers of the effects of a scope, wherever they are: registered, waiting in a task, run.\<close>

definition known :: "scope_id \<Rightarrow> lifecycle \<Rightarrow> resource_id set" where
  "known s m = set (slot_ids (view m s)) \<union> set (ran_ids s (ran m))
    \<union> set (left_ids (tasks m (s, Cleaning))) \<union> set (left_ids (tasks m (s, RollingBack)))"

lemma slot_ids_view: "slot_ids (map_option cell_view c) = (case c of None \<Rightarrow> [] | Some x \<Rightarrow> ids_of_effects (sc_effects x))"
  by (cases c) (simp_all add: cell_view_def)

lemma known_inherit [simp]: "known s (inherit_ancestors D x m) = known s m"
  by (simp add: known_def)

lemma known_other [simp]:
  "known s (m\<lparr>fibers := b\<rparr>) = known s m" "known s (m\<lparr>next_fiber := f\<rparr>) = known s m"
  "known s (m\<lparr>parent_of := q\<rparr>) = known s m" "known s (m\<lparr>skipped := z\<rparr>) = known s m"
  by (simp_all add: known_def)

lemma known_scope_new:
  assumes "lifecycle_inv m" and "scope_new m = Some (x, m')"
  shows "known s m \<subseteq> known s m'"
  using scope_new_inv [OF assms] by (auto simp: known_def)

lemma known_put_scope:
  "scopes m x = Some c \<Longrightarrow> set (ids_of_effects (sc_effects c)) \<subseteq> set (ids_of_effects (sc_effects c')) \<Longrightarrow>
    known s m \<subseteq> known s (put_scope x c' m)"
  by (auto simp: known_def view_def cell_view_def)

lemma known_child:
  assumes "lifecycle_inv m" and "scope_child p m = Some (r, m')"
  shows "known s m \<subseteq> known s m'"
proof -
  obtain c where c: "scopes m p = Some c" using assms(2) by (auto simp: scope_child_def bind_eq_Some_conv)
  show ?thesis
  proof (cases "sc_state c = Active")
    case False
    then show ?thesis using assms c by (simp add: scope_child_def)
  next
    case True
    obtain x m1 where new: "scope_new m = Some (x, m1)"
      and m': "m' = put_scope p (c\<lparr>sc_children := sc_children c @ [x]\<rparr>)
                       (m1\<lparr>parent_of := (parent_of m1)(x \<mapsto> p)\<rparr>)"
      using assms(2) c True by (auto simp: scope_child_def bind_eq_Some_conv)
    note n = scope_new_inv [OF assms(1) new]
    have vp: "view m p = Some (cell_view c)" by (rule scopes_view [OF c])
    then have "p \<noteq> x" using n(3) by auto
    then show ?thesis using n vp by (auto simp: known_def m' cell_view_def)
  qed
qed

lemma known_claim:
  assumes "lifecycle_inv m" and "claim_disposal D x m = Some (w, m')"
  shows "known s m \<subseteq> known s m'"
proof (cases w)
  case Join
  then show ?thesis using assms claim_join by blast
next
  case Owner
  then obtain c where c: "scopes m x = Some c" and st: "sc_state c \<noteq> Unloading" "sc_state c \<noteq> Disposed"
    and m': "view m' = (view m)(x \<mapsto> (Unloading, [], [], sc_result c))"
      "tasks m' = (tasks m)((x, Cleaning) \<mapsto> new_task c)" "ran m' = ran m"
    using assms(2) claim_owner by metis
  have "tasks m (x, Cleaning) = None" using slot_unclaimed [OF scope_slot [OF assms(1) c] st] .
  then show ?thesis
    using scopes_view [OF c] by (auto simp: known_def m' new_task_def cell_view_def)
qed

lemma known_dispose:
  assumes "lifecycle_inv m" and "dispose_call D x m = Some (w, m')"
  shows "known s m \<subseteq> known s m'"
proof -
  obtain cl m1 where claim: "claim_disposal D x m = Some (cl, m1)"
    using assms(2) by (auto simp: dispose_call_def bind_eq_Some_conv)
  then have "m' = m1 \<or> m' = inherit_ancestors D x m1"
    using assms(2) by (cases cl) (auto simp: dispose_call_def split: if_splits)
  then show ?thesis using known_claim [OF assms(1) claim, of s] by auto
qed

lemma known_rollback:
  assumes "lifecycle_inv m" and "rollback_failed_setup x m = Some (w, m')"
  shows "known s m \<subseteq> known s m'"
proof -
  obtain c where c: "scopes m x = Some c"
    using assms(2) by (auto simp: rollback_failed_setup_def bind_eq_Some_conv)
  show ?thesis
  proof (cases "sc_state c = Active")
    case False
    then show ?thesis using assms c by (simp add: rollback_failed_setup_def)
  next
    case True
    then have "tasks m (x, RollingBack) = None"
      using scope_slot [OF assms(1) c] by (simp add: slot_ok_def cell_view_def)
    moreover have "view m' = (view m)(x \<mapsto> (Failed, [], [], sc_result c))"
      "tasks m' = (tasks m)((x, RollingBack) \<mapsto> new_task c)" "ran m' = ran m"
      using assms(2) c True by (auto simp: rollback_failed_setup_def taken_view)
    ultimately show ?thesis
      using scopes_view [OF c] by (auto simp: known_def new_task_def cell_view_def)
  qed
qed

lemma known_put_task:
  "tasks m k = Some t \<Longrightarrow> tk_effects t' = tk_effects t \<Longrightarrow> known s (put_task k t' m) = known s m"
  by (cases k) (auto simp: known_def)

lemma known_removed_task:
  "tasks m k = Some t \<Longrightarrow> tk_effects t = [] \<Longrightarrow> known s (m\<lparr>tasks := (tasks m)(k := None)\<rparr>) = known s m"
  by (cases k) (auto simp: known_def)

lemma known_task_child:
  assumes "lifecycle_inv m" and "task_child (x, kd) env m = Some m'"
  shows "known s m \<subseteq> known s m'"
proof -
  obtain t where t: "tasks m (x, kd) = Some t"
    using assms(2) by (auto simp: task_child_def bind_eq_Some_conv)
  obtain c cs where stage: "tk_stage t = Working" "tk_children t = c # cs"
    using assms(2) t by (cases "tk_stage t"; cases "tk_children t") (auto simp: task_child_def)
  then obtain w m1 where call: "dispose_call (task_context (x, kd) env m) c m = Some (w, m1)"
    using assms(2) t by (auto simp: task_child_def bind_eq_Some_conv)
  have "x < c" using held_child [OF assms(1) t, of c] stage by simp
  then have t1: "tasks m1 (x, kd) = Some t" using dispose_call_tasks [OF call, of "(x, kd)"] t by auto
  have "known s m' = known s m1"
  proof (cases w)
    case (Ready r)
    then have "m' = put_task (x, kd) (collect_result r (t\<lparr>tk_children := cs\<rparr>)) (m1\<lparr>skipped := skipped m1 @ [(x, c)]\<rparr>)"
      using assms(2) t stage call by (simp add: task_child_def)
    then show ?thesis
      using known_put_task [of "m1\<lparr>skipped := skipped m1 @ [(x, c)]\<rparr>" "(x, kd)" t] t1 by simp
  next
    case (Wait b)
    then have "m' = put_task (x, kd) (t\<lparr>tk_children := cs, tk_stage := AwaitChild c b\<rparr>) m1"
      using assms(2) t stage call by (simp add: task_child_def)
    then show ?thesis using known_put_task [OF t1] by simp
  qed
  then show ?thesis using known_dispose [OF assms(1) call, of s] by simp
qed

lemma known_task:
  assumes inv: "lifecycle_inv m"
  shows "task_child_done (x, kd) env m = Some m' \<Longrightarrow> known s m \<subseteq> known s m'"
    and "task_effect (x, kd) m = Some m' \<Longrightarrow> known s m \<subseteq> known s m'"
    and "task_effect_done (x, kd) r m = Some m' \<Longrightarrow> known s m \<subseteq> known s m'"
proof -
  assume step: "task_child_done (x, kd) env m = Some m'"
  obtain t where t: "tasks m (x, kd) = Some t"
    using step by (auto simp: task_child_done_def bind_eq_Some_conv)
  obtain c b where stage: "tk_stage t = AwaitChild c b"
    using step t by (cases "tk_stage t") (auto simp: task_child_done_def)
  define K where "K = (if Option.bind (scopes m c) sc_result = None then skipped m @ [(x, c)] else skipped m)"
  obtain r where m': "m' = put_task (x, kd) (collect_result r (t\<lparr>tk_stage := Working\<rparr>)) (m\<lparr>skipped := K\<rparr>)"
    using step t stage by (auto simp: task_child_done_def bind_eq_Some_conv K_def split: if_splits)
  show "known s m \<subseteq> known s m'"
    unfolding m' using known_put_task [of "m\<lparr>skipped := K\<rparr>" "(x, kd)" t] t by simp
next
  assume step: "task_effect (x, kd) m = Some m'"
  then obtain t e es where "tasks m (x, kd) = Some t" "tk_effects t = e # es"
    "m' = put_task (x, kd) (t\<lparr>tk_effects := es, tk_stage := InEffect (em_id (ef_meta e))\<rparr>)
        (m\<lparr>ran := ran m @ [(x, em_id (ef_meta e), ef_disposer e)]\<rparr>)"
    using task_effect_cases by metis
  then show "known s m \<subseteq> known s m'" by (cases kd) (auto simp: known_def)
next
  assume step: "task_effect_done (x, kd) r m = Some m'"
  obtain t where t: "tasks m (x, kd) = Some t"
    using step by (auto simp: task_effect_done_def bind_eq_Some_conv)
  have m': "m' = put_task (x, kd) (collect_result r (t\<lparr>tk_stage := Working\<rparr>)) m"
    using step t by (cases "tk_stage t") (auto simp: task_effect_done_def)
  show "known s m \<subseteq> known s m'"
    unfolding m' using known_put_task [OF t] by simp
qed

lemma known_task_end:
  assumes inv: "lifecycle_inv m"
  shows "task_store (x, kd) m = Some m' \<Longrightarrow> known s m \<subseteq> known s m'"
    and "task_complete x m = Some m' \<Longrightarrow> known s m \<subseteq> known s m'"
    and "fiber_rolled_back f m = Some m' \<Longrightarrow> known s m \<subseteq> known s m'"
proof -
  assume step: "task_store (x, kd) m = Some m'"
  obtain t where t: "tasks m (x, kd) = Some t"
    using step by (auto simp: task_store_def bind_eq_Some_conv)
  let ?t' = "t\<lparr>tk_stage := Storing (cleanup_result (tk_errors t))\<rparr>"
  obtain c where c: "scopes m x = Some c" using task_cell [OF inv t] .
  have m': "m' = (if kd = Cleaning then put_scope x (c\<lparr>sc_state := Disposed\<rparr>) (put_task (x, kd) ?t' m)
        else put_task (x, kd) ?t' m)"
    using step t c by (cases kd; cases "tk_stage t"; cases "tk_children t"; cases "tk_effects t") (simp_all add: task_store_def)
  have "known s (put_task (x, kd) ?t' m) = known s m" using known_put_task [OF t] by simp
  moreover have "scopes (put_task (x, kd) ?t' m) x = Some c" using c by simp
  ultimately show "known s m \<subseteq> known s m'"
    using known_put_scope [of "put_task (x, kd) ?t' m" x c "c\<lparr>sc_state := Disposed\<rparr>" s] by (auto simp: m')
next
  assume step: "task_complete x m = Some m'"
  obtain t where t: "tasks m (x, Cleaning) = Some t"
    using step by (auto simp: task_complete_def bind_eq_Some_conv)
  obtain r where r: "tk_stage t = Storing r"
    using step t by (cases "tk_stage t") (auto simp: task_complete_def)
  obtain c where c: "scopes m x = Some c" using task_cell [OF inv t] .
  have m': "m' = (put_scope x (c\<lparr>sc_result := Some r\<rparr>) m)\<lparr>tasks := (tasks m)((x, Cleaning) := None)\<rparr>"
    using step t r c by (simp add: task_complete_def)
  have "storing t" using r by (auto simp: storing_def)
  then have "idle t"
    using scope_slot [OF inv c] t
    by (cases "sc_state c") (auto simp: slot_ok_def cell_view_def cleaning_ok_def closed_ok_def)
  then show "known s m \<subseteq> known s m'"
    using t scopes_view [OF c] by (auto simp: m' known_def cell_view_def idle_def)
next
  assume step: "fiber_rolled_back f m = Some m'"
  obtain y e t where y: "fibers m f = Some y" "fb_failure y = Some e" and t: "tasks m (fb_scope y, RollingBack) = Some t"
    using step by (auto simp: fiber_rolled_back_def bind_eq_Some_conv)
  obtain r where r: "tk_stage t = Storing r"
    using step t y by (cases "tk_stage t") (auto simp: fiber_rolled_back_def)
  have m': "tasks m' = (tasks m)((fb_scope y, RollingBack) := None)" "scopes m' = scopes m" "ran m' = ran m"
    using step t r y by (auto simp: fiber_rolled_back_def)
  obtain c where c: "scopes m (fb_scope y) = Some c" using task_cell [OF inv t] .
  have "storing t" using r by (auto simp: storing_def)
  then have "idle t"
    using scope_slot [OF inv c] t by (cases "sc_state c") (auto simp: slot_ok_def cell_view_def rolling_ok_def)
  moreover have "view m' = view m" using m'(2) by (simp add: view_def fun_eq_iff)
  ultimately show "known s m \<subseteq> known s m'"
    using t by (auto simp: m' known_def idle_def)
qed

lemma known_add_effect:
  assumes "add_effect x label d m = Some (r, m')"
  shows "known s m \<subseteq> known s m'"
proof -
  obtain c where c: "scopes m x = Some c"
    using assms by (auto simp: add_effect_def add_effect_with_def bind_eq_Some_conv)
  then have "m' = m \<or> (\<exists>e n. m' = put_scope x (c\<lparr>sc_effects := sc_effects c @ [e]\<rparr>) (m\<lparr>next_resource := n\<rparr>))"
    using assms by (auto simp: add_effect_def add_effect_with_def next_id_def split: if_splits)
  then show ?thesis using c by (auto simp: known_def view_def cell_view_def)
qed

lemma known_fiber:
  assumes "lifecycle_inv m"
  shows "fiber_new p name m = Some (r, m') \<Longrightarrow> known s m \<subseteq> known s m'"
    and "fiber_start f m = Some (r', m') \<Longrightarrow> known s m \<subseteq> known s m'"
    and "fiber_setup f q m = Some m' \<Longrightarrow> known s m \<subseteq> known s m'"
    and "fiber_dispose D f m = Some (w, m') \<Longrightarrow> known s m \<subseteq> known s m'"
    and "fiber_disposed f m = Some m' \<Longrightarrow> known s m \<subseteq> known s m'"
proof -
  assume new: "fiber_new p name m = Some (r, m')"
  then obtain i nf q m1 where "next_id (next_fiber m) = Some (i, nf)"
    and child: "scope_child p (m\<lparr>next_fiber := nf\<rparr>) = Some (q, m1)"
    by (auto simp: fiber_new_def bind_eq_Some_conv)
  then have "m' = m1 \<or> (\<exists>x. m' = put_fiber i x m1)"
    using new by (cases q) (auto simp: fiber_new_def)
  then show "known s m \<subseteq> known s m'" using known_child [OF _ child, of s] assms by auto
next
  assume "fiber_start f m = Some (r', m')"
  then show "known s m \<subseteq> known s m'"
    by (auto simp: fiber_start_def bind_eq_Some_conv split: if_splits)
next
  assume "fiber_setup f q m = Some m'"
  then show "known s m \<subseteq> known s m'"
    using assms by (auto simp: fiber_setup_def bind_eq_Some_conv Let_def split: if_splits sum.splits
        dest: known_rollback [THEN subsetD, rotated 2])
next
  assume "fiber_dispose D f m = Some (w, m')"
  then obtain y where "dispose_call D (fb_scope y)
      (if fb_state y = Unloading \<or> fb_state y = Disposed then m else put_fiber f (y\<lparr>fb_state := Unloading\<rparr>) m) = Some (w, m')"
    by (auto simp: fiber_dispose_def bind_eq_Some_conv)
  moreover have "lifecycle_inv (if fb_state y = Unloading \<or> fb_state y = Disposed then m
      else put_fiber f (y\<lparr>fb_state := Unloading\<rparr>) m)"
    and "known s (if fb_state y = Unloading \<or> fb_state y = Disposed then m
      else put_fiber f (y\<lparr>fb_state := Unloading\<rparr>) m) = known s m"
    using assms by simp_all
  ultimately show "known s m \<subseteq> known s m'" using known_dispose by metis
next
  assume "fiber_disposed f m = Some m'"
  then show "known s m \<subseteq> known s m'"
    by (auto simp: fiber_disposed_def bind_eq_Some_conv split: if_splits)
qed

abbreviation guarded_step :: "lifecycle \<Rightarrow> lifecycle_step \<Rightarrow> lifecycle \<Rightarrow> bool" where
  "guarded_step m l m' \<equiv> lifecycle_inv m \<and> exec_rel lifecycle_exec m l m'"

interpretation known: transition_monotone guarded_step "\<lambda>m m'. known s m \<subseteq> known s m'" for s
proof
  show "guarded_step m l m' \<Longrightarrow> known s m \<subseteq> known s m'" for m l m'
    by (cases l)
      (auto simp: exec_rel_def dest: known_scope_new [THEN subsetD, rotated 2] known_child [THEN subsetD, rotated 2]
        known_add_effect [THEN subsetD, rotated] known_fiber [THEN subsetD, rotated 2]
        known_dispose [THEN subsetD, rotated 2]
        known_task_child [THEN subsetD, rotated 2] known_task [THEN subsetD, rotated 2]
        known_task_end [THEN subsetD, rotated 2])
qed auto

subsection \<open>Properties\<close>

text \<open>C6: In every interleaving of registrations, disposals, fiber calls and cleanup steps,
  the effects of each scope run in strictly reverse registration order: identifiers are handed
  out in registration order, so a strictly decreasing run list also says that no effect runs
  twice.\<close>

theorem effects_run_once_lifo:
  assumes "lifecycle_reach m"
  shows "sorted_wrt (>) (ran_ids s (ran m)) \<and> distinct (ran_ids s (ran m))"
proof -
  have "slots_ok (next_scope m) (next_resource m) (view m) (tasks m) (ran m)"
    using lifecycle.inv_reach [OF assms] by (simp add: lifecycle_inv_def)
  then have desc: "sorted_wrt (>) (ran_ids s (ran m))"
    using slots_slot [of _ _ _ _ "ran m" s] by (simp add: slot_ok_def sorted_wrt_append)
  have "sorted_wrt (>) ids \<Longrightarrow> distinct ids" for ids :: "resource_id list"
    by (induction ids) auto
  then show ?thesis using desc by blast
qed

text \<open>C40: No registered effect is lost: an effect that a scope holds at some point of a run
  has been run by the time the scope's disposal has a result and no rollback of the scope is
  still under way.\<close>

theorem registered_effects_run:
  assumes "lifecycle_reach m" and "exec_run lifecycle_exec ls m = Some m'"
    and "i \<in> known s m" and "scopes m' s = Some c" and "sc_result c = Some r"
    and "tasks m' (s, RollingBack) = None"
  shows "i \<in> set (ran_ids s (ran m'))"
proof -
  have run: "run (exec_rel lifecycle_exec) m ls m'" by (rule exec_run_run [OF assms(2)])
  have inv: "lifecycle_inv m" by (rule lifecycle.inv_reach [OF assms(1)])
  have "known s m \<subseteq> known s m'"
    by (rule known.le_run [OF lifecycle.run_guarded [OF run inv]])
  moreover have inv': "lifecycle_inv m'" by (rule lifecycle.inv_run [OF run inv])
  have "slot_ids (view m' s) = [] \<and> tasks m' (s, Cleaning) = None"
    using scope_slot [OF inv' assms(4)] assms(4,5)
    by (cases "sc_state c") (auto simp: slot_ok_def view_def cell_view_def closed_ok_def split: option.splits)
  ultimately show ?thesis using assms(3,6) by (auto simp: known_def)
qed

text \<open>Children go first: when a cleanup starts an effect of a scope, every child created
  under that scope is fully disposed, or its disposal was already claimed and the task did not
  wait because that child's own cleanup is one of its callers (recorded in \<open>skipped\<close>).\<close>

theorem children_disposed_first:
  assumes "lifecycle_reach m" and "task_effect (s, kd) m = Some m'" and "parent_of m c = Some s"
  shows "in_states {Disposed} (view m) c \<or> ((s, c) \<in> set (skipped m) \<and> claimed (view m) c)"
proof -
  have inv: "lifecycle_inv m" by (rule lifecycle.inv_reach [OF assms(1)])
  obtain t e es where t: "tasks m (s, kd) = Some t" "tk_stage t = Working" "tk_children t = []" "tk_effects t = e # es"
    using task_effect_cases [OF assms(2)] by metis
  obtain x where x: "scopes m s = Some x" using task_cell [OF inv t(1)] .
  note slot = scope_slot [OF inv x]
  have "\<not> idle t" using t by (simp add: idle_def)
  then have "\<not> held (view m) (tasks m) s c"
    using slot t scopes_view [OF x]
    by (cases kd; cases "sc_state x")
      (auto simp: slot_ok_def cell_view_def cleaning_ok_def closed_ok_def held_def idle_def holds_def split: option.splits)
  then show ?thesis
    using inv assms(3) unfolding lifecycle_inv_def tree_ok_def by blast
qed

subsection \<open>A sample run\<close>

text \<open>Scope 1 with effects 1 and 3, its child 2 with effect 2, disposed from the root down.\<close>

definition sample_setup :: "lifecycle_step list" where
  "sample_setup = [RootScope, AddEffect 1 ''a'' 10, Child 1, AddEffect 2 ''b'' 20, AddEffect 1 ''c'' 30,
     Dispose [] 1]"

definition sample_cleanup :: "lifecycle_step list" where
  "sample_cleanup = [TaskChild (1, Cleaning) [], TaskEffect (2, Cleaning), TaskEffectDone (2, Cleaning) (Inr ()),
     TaskStore (2, Cleaning), TaskComplete 2, TaskChildDone (1, Cleaning) []]"

definition sample_finish :: "lifecycle_step list" where
  "sample_finish = [TaskEffect (1, Cleaning), TaskEffectDone (1, Cleaning) (Inr ()), TaskEffect (1, Cleaning),
     TaskEffectDone (1, Cleaning) (Inr ()), TaskStore (1, Cleaning), TaskComplete 1]"

definition run_of :: "lifecycle_step list \<Rightarrow> lifecycle" where
  "run_of ls = the (exec_run lifecycle_exec ls lifecycle_new)"

lemma run_of_some:
  "\<not> Option.is_none (exec_run lifecycle_exec ls lifecycle_new) \<Longrightarrow>
    exec_run lifecycle_exec ls lifecycle_new = Some (run_of ls)"
  by (cases "exec_run lifecycle_exec ls lifecycle_new") (simp_all add: run_of_def)

lemma run_of_reach:
  "\<not> Option.is_none (exec_run lifecycle_exec ls lifecycle_new) \<Longrightarrow> lifecycle_reach (run_of ls)"
  by (rule exec_run_reach [OF run_of_some]) (simp_all add: lifecycle_start_def)

lemma sample_runs:
  "\<not> Option.is_none (exec_run lifecycle_exec sample_setup lifecycle_new)"
  "\<not> Option.is_none (exec_run lifecycle_exec (sample_setup @ sample_cleanup) lifecycle_new)"
  "\<not> Option.is_none (exec_run lifecycle_exec (sample_setup @ sample_cleanup @ sample_finish) lifecycle_new)"
  by code_simp+

theorem effects_run_once_lifo_witness:
  "distinct (ran_ids 1 (ran (run_of (sample_setup @ sample_cleanup @ sample_finish))))
    \<and> ran_ids 1 (ran (run_of (sample_setup @ sample_cleanup @ sample_finish))) = [3, 1]"
proof
  show "distinct (ran_ids 1 (ran (run_of (sample_setup @ sample_cleanup @ sample_finish))))"
    using effects_run_once_lifo [OF run_of_reach [OF sample_runs(3)]] by blast
qed code_simp

theorem registered_effects_run_witness:
  "3 \<in> set (ran_ids 1 (ran (run_of (sample_setup @ sample_cleanup @ sample_finish))))"
proof -
  let ?m = "run_of sample_setup" and ?m' = "run_of (sample_setup @ sample_cleanup @ sample_finish)"
  have run: "exec_run lifecycle_exec (sample_cleanup @ sample_finish) ?m = Some ?m'"
    using run_of_some [OF sample_runs(1)] run_of_some [OF sample_runs(3)]
      exec_run_append [of lifecycle_exec sample_setup "sample_cleanup @ sample_finish" lifecycle_new] by simp
  obtain c r where "scopes ?m' 1 = Some c" "sc_result c = Some r"
  proof -
    have "\<not> Option.is_none (Option.bind (scopes ?m' 1) sc_result)" by code_simp
    then show ?thesis
      using that by (cases "scopes ?m' 1"; cases "Option.bind (scopes ?m' 1) sc_result") auto
  qed
  moreover have "3 \<in> known 1 ?m" by code_simp
  moreover have "tasks ?m' (1, RollingBack) = None" by code_simp
  ultimately show ?thesis
    using registered_effects_run [OF run_of_reach [OF sample_runs(1)] run] by blast
qed

theorem children_disposed_first_witness:
  "in_states {Disposed} (view (run_of (sample_setup @ sample_cleanup))) 2"
proof -
  let ?m = "run_of (sample_setup @ sample_cleanup)"
  have "\<not> Option.is_none (task_effect (1, Cleaning) ?m)" by code_simp
  then obtain m' where eff: "task_effect (1, Cleaning) ?m = Some m'"
    by (cases "task_effect (1, Cleaning) ?m") auto
  have "parent_of ?m 2 = Some 1" and "skipped ?m = []" by code_simp+
  then show ?thesis
    using children_disposed_first [OF run_of_reach [OF sample_runs(2)] eff] by simp
qed

text \<open>What the theorems leave open is a rollback that is still running; a run that shows it.\<close>

definition race_run :: "lifecycle_step list" where
  "race_run = [RootScope, FiberNew 1 ''f'', FiberStart 1, AddEffect 2 ''x'' 7, FiberSetup 1 (Inl Cancelled),
     FiberDispose [] 1, TaskStore (2, Cleaning), TaskComplete 2, FiberDisposed 1]"

text \<open>A \<open>dispose\<close> that arrives while the rollback of a failed \<open>start\<close> is suspended finds no
  resources left: it completes with \<open>Ok\<close> and the fiber is \<open>Disposed\<close> although the rollback has
  not run the scope's effect yet.\<close>

theorem dispose_overtakes_rollback:
  "\<not> Option.is_none (exec_run lifecycle_exec race_run lifecycle_new)
    \<and> Option.bind (scopes (run_of race_run) 2) sc_result = Some (Inr ())
    \<and> fiber_state_of 1 (run_of race_run) = Some Disposed
    \<and> ran (run_of race_run) = [] \<and> left_ids (tasks (run_of race_run) (2, RollingBack)) = [1]"
  by code_simp

end
