(* ===== verification/Nesting.thy ===== *)
theory Nesting
  imports LifecycleInv
begin

section \<open>Cleanups that dispose other scopes (lifecycle.rs)\<close>

text \<open>
  An effect's disposer may call \<open>dispose\<close> on any scope and wait for it. The machine of Lifecycle is
  extended by what the running effect of each task waits for, so that an effect that waits returns
  only after its \<open>dispose\<close> has. What the guards \<open>is_disposing\<close> of \<open>dispose\<close> exclude and what they do
  not is stated over the waits between scopes.
\<close>

record nested =
  store :: lifecycle
  awaiting :: "task_key \<rightharpoonup> scope_id \<times> bool"

definition nested_new :: nested where
  "nested_new = \<lparr>store = lifecycle_new, awaiting = Map.empty\<rparr>"

datatype nested_step =
    Plain lifecycle_step
  | EffectDisposes task_key "scope_id list" scope_id
  | EffectResumes task_key "scope_id list"

definition in_effect :: "task option \<Rightarrow> bool" where
  "in_effect t \<longleftrightarrow> (case t of None \<Rightarrow> False | Some t \<Rightarrow> (case tk_stage t of InEffect _ \<Rightarrow> True | _ \<Rightarrow> False))"

text \<open>An effect that awaits a disposal does not return; it goes on when a poll of the disposal is ready.\<close>

fun returns_early :: "lifecycle_step \<Rightarrow> nested \<Rightarrow> bool" where
  "returns_early (TaskEffectDone k r) n = (awaiting n k \<noteq> None)"
| "returns_early _ n = False"

fun nested_exec :: "nested_step \<Rightarrow> nested \<Rightarrow> nested option" where
  "nested_exec (Plain l) n =
    (if returns_early l n then None
     else map_option (\<lambda>m. n\<lparr>store := m\<rparr>) (lifecycle_exec l (store n)))"
| "nested_exec (EffectDisposes k env c) n =
    (if \<not> in_effect (tasks (store n) k) \<or> awaiting n k \<noteq> None then None
     else Option.bind (dispose_call (task_context k env (store n)) c (store n)) (\<lambda>(w, m).
       Some (case w of
               Ready r \<Rightarrow> n\<lparr>store := m\<rparr>
             | Wait owner \<Rightarrow> n\<lparr>store := m, awaiting := (awaiting n)(k \<mapsto> (c, owner))\<rparr>)))"
| "nested_exec (EffectResumes k env) n =
    Option.bind (awaiting n k) (\<lambda>(c, owner).
    Option.bind (poll_dispose (task_context k env (store n)) c owner (store n)) (\<lambda>r.
      Some (n\<lparr>awaiting := (awaiting n)(k := None)\<rparr>)))"

abbreviation nested_reach :: "nested \<Rightarrow> bool" where
  "nested_reach \<equiv> reach (\<lambda>n. n = nested_new) (exec_rel nested_exec)"

subsection \<open>Waits\<close>

text \<open>What a task waits for, and as what: the owner of the disposal or a joiner.\<close>

definition waits_on :: "nested \<Rightarrow> task_key \<Rightarrow> (scope_id \<times> bool) option" where
  "waits_on n k =
    (case tasks (store n) k of
       None \<Rightarrow> None
     | Some t \<Rightarrow>
         (case tk_stage t of AwaitChild c owner \<Rightarrow> Some (c, owner) | InEffect _ \<Rightarrow> awaiting n k | _ \<Rightarrow> None))"

text \<open>The cleanup of \<open>s\<close> waits for the disposal of \<open>c\<close>, and a poll of it is not ready.\<close>

definition blocked_by :: "nested \<Rightarrow> scope_id \<Rightarrow> scope_id \<Rightarrow> bool" where
  "blocked_by n s c \<longleftrightarrow>
    (case waits_on n (s, Cleaning) of
       None \<Rightarrow> False
     | Some (d, owner) \<Rightarrow>
         d = c \<and> poll_dispose (task_context (s, Cleaning) [] (store n)) d owner (store n) = None)"

definition blocked_ring :: "nested \<Rightarrow> scope_id list \<Rightarrow> bool" where
  "blocked_ring n ss \<longleftrightarrow>
    ss \<noteq> [] \<and> distinct ss \<and> list_all2 (blocked_by n) ss (tl ss @ [hd ss])"

definition nested_of :: "nested_step list \<Rightarrow> nested" where
  "nested_of ls = the (exec_run nested_exec ls nested_new)"

subsection \<open>Rings of waits\<close>

text \<open>
  Abstractly: \<open>w\<close> is what each scope waits for and as what, \<open>a\<close> the ancestors of each scope. A wait
  leaves the waiting scope and its ancestors with the scope it waits for, but later ancestors of the
  first do not reach the second: a ring of three waits always contains one that sees the ring.
\<close>

type_synonym wait_graph = "scope_id \<Rightarrow> (scope_id \<times> bool) option"

definition waits_inherit :: "wait_graph \<Rightarrow> (scope_id \<Rightarrow> scope_id set) \<Rightarrow> bool" where
  "waits_inherit w a \<longleftrightarrow>
    (\<forall>x y owner. w x = Some (y, owner) \<longrightarrow> x \<noteq> y \<and> x \<in> a y)
    \<and> (\<forall>x y z o1 o2. w x = Some (y, o1) \<longrightarrow> w y = Some (z, o2) \<longrightarrow> z \<noteq> x \<and> (o1 \<longrightarrow> x \<in> a z))"

definition rings_seen :: "wait_graph \<Rightarrow> (scope_id \<Rightarrow> scope_id set) \<Rightarrow> bool" where
  "rings_seen w a \<longleftrightarrow>
    (\<forall>x y z o1 o2 o3. w x = Some (y, o1) \<longrightarrow> w y = Some (z, o2) \<longrightarrow> w z = Some (x, o3) \<longrightarrow>
      \<not> o1 \<and> y \<in> a x \<or> \<not> o2 \<and> z \<in> a y \<or> \<not> o3 \<and> x \<in> a z)"

definition waits_ok :: "wait_graph \<Rightarrow> (scope_id \<Rightarrow> scope_id set) \<Rightarrow> bool" where
  "waits_ok w a \<longleftrightarrow> waits_inherit w a \<and> rings_seen w a"

lemma waits_inheritD:
  assumes "waits_inherit w a" and "w x = Some (y, o1)"
  shows "x \<noteq> y" and "x \<in> a y" and "w y = Some (z, o2) \<Longrightarrow> z \<noteq> x" and "w y = Some (z, o2) \<Longrightarrow> o1 \<Longrightarrow> x \<in> a z"
  using assms unfolding waits_inherit_def by blast+

lemma waits_inheritI:
  assumes "\<And>x y owner. w x = Some (y, owner) \<Longrightarrow> x \<noteq> y \<and> x \<in> a y"
    and "\<And>x y z o1 o2. w x = Some (y, o1) \<Longrightarrow> w y = Some (z, o2) \<Longrightarrow> z \<noteq> x \<and> (o1 \<longrightarrow> x \<in> a z)"
  shows "waits_inherit w a"
  unfolding waits_inherit_def using assms by blast

lemma waits_ok_grow:
  assumes "waits_ok w a" and "\<And>x v. w' x = Some v \<Longrightarrow> w x = Some v" and "\<And>x. a x \<subseteq> a' x"
  shows "waits_ok w' a'"
proof -
  have inh: "waits_inherit w a" using assms(1) by (simp add: waits_ok_def)
  have "waits_inherit w' a'"
  proof (rule waits_inheritI)
    fix x y owner assume "w' x = Some (y, owner)"
    note e = assms(2) [OF this]
    show "x \<noteq> y \<and> x \<in> a' y"
      using waits_inheritD(1,2) [OF inh e] assms(3) by blast
  next
    fix x y z o1 o2 assume "w' x = Some (y, o1)" "w' y = Some (z, o2)"
    note e = this [THEN assms(2)]
    show "z \<noteq> x \<and> (o1 \<longrightarrow> x \<in> a' z)"
      using waits_inheritD(3,4) [OF inh e(1) e(2)] assms(3) by blast
  qed
  moreover have "rings_seen w' a'"
    unfolding rings_seen_def
  proof (intro allI impI)
    fix x y z o1 o2 o3
    assume "w' x = Some (y, o1)" "w' y = Some (z, o2)" "w' z = Some (x, o3)"
    then have "\<not> o1 \<and> y \<in> a x \<or> \<not> o2 \<and> z \<in> a y \<or> \<not> o3 \<and> x \<in> a z"
      using assms(1,2) unfolding waits_ok_def rings_seen_def by meson
    then show "\<not> o1 \<and> y \<in> a' x \<or> \<not> o2 \<and> z \<in> a' y \<or> \<not> o3 \<and> x \<in> a' z"
      using assms(3) by blast
  qed
  ultimately show ?thesis by (simp add: waits_ok_def)
qed

text \<open>A new wait: an owner's target has not begun, a joiner has not seen its target above it.\<close>

lemma inherit_new_wait:
  assumes "waits_ok w a" and "w x = None" and "x \<noteq> y" and "insert x (a x) \<subseteq> a' y" and "\<And>s. a s \<subseteq> a' s"
    and owner: "own \<Longrightarrow> w y = None" and joiner: "\<not> own \<Longrightarrow> y \<notin> a x"
  shows "waits_inherit (w(x \<mapsto> (y, own))) a'"
proof -
  have old: "\<And>u v o1. w u = Some (v, o1) \<Longrightarrow> u \<noteq> v \<and> u \<in> a v"
    and old2: "\<And>u v z o1 o2. w u = Some (v, o1) \<Longrightarrow> w v = Some (z, o2) \<Longrightarrow> z \<noteq> u \<and> (o1 \<longrightarrow> u \<in> a z)"
    using assms(1) unfolding waits_ok_def waits_inherit_def by blast+
  have "z \<noteq> u \<and> (o1 \<longrightarrow> u \<in> a' z)"
    if e: "(w(x \<mapsto> (y, own))) u = Some (v, o1)" "(w(x \<mapsto> (y, own))) v = Some (z, o2)" for u v z o1 o2
  proof (cases "u = x")
    case True
    then have v: "v = y" "o1 = own" "w y = Some (z, o2)" using e assms(3) by (auto split: if_splits)
    then have "\<not> own" using owner by auto
    moreover have "z \<noteq> x" using old [OF v(3)] joiner [OF \<open>\<not> own\<close>] by blast
    ultimately show ?thesis using v True by simp
  next
    case u: False
    show ?thesis
    proof (cases "v = x")
      case True
      then have wu: "w u = Some (x, o1)" and z: "z = y" using e u by (auto split: if_splits)
      have ux: "u \<in> a x" using old [OF wu] by blast
      have "z \<noteq> u"
      proof
        assume "z = u"
        then have yu: "w y = Some (x, o1)" "y \<in> a x" using z wu ux by simp_all
        then have "\<not> own" using owner by auto
        then show False using joiner yu by blast
      qed
      then show ?thesis using assms(4) ux z by blast
    next
      case False
    then have "w u = Some (v, o1)" "w v = Some (z, o2)" using e u by simp_all
      then show ?thesis using old2 assms(5) by blast
    qed
  qed
  moreover have "u \<noteq> v \<and> u \<in> a' v" if "(w(x \<mapsto> (y, own))) u = Some (v, o1)" for u v o1
    using that assms(3,4) old [of u v o1] assms(5) [of v] by (cases "u = x") auto
  ultimately show ?thesis unfolding waits_inherit_def by blast
qed

lemma ring_new_wait:
  assumes "waits_ok w a" and "insert x (a x) \<subseteq> a' y"
    and owner: "own \<Longrightarrow> w y = None" and joiner: "\<not> own \<Longrightarrow> y \<notin> a x"
    and e: "w y = Some (z, o2)" "w z = Some (x, o3)"
  shows "\<not> o2 \<and> z \<in> a' y"
proof -
  have zx: "z \<in> a x" and own2: "o2 \<Longrightarrow> y \<in> a x"
    using assms(1) e unfolding waits_ok_def waits_inherit_def by blast+
  have "\<not> own" using owner e(1) by auto
  then show ?thesis using joiner own2 zx assms(2) by blast
qed

lemma waits_ok_new:
  assumes "waits_ok w a" and "w x = None" and "x \<noteq> y" and "insert x (a x) \<subseteq> a' y" and "\<And>s. a s \<subseteq> a' s"
    and "own \<Longrightarrow> w y = None" and "\<not> own \<Longrightarrow> y \<notin> a x"
  shows "waits_ok (w(x \<mapsto> (y, own))) a'"
proof -
  let ?w = "w(x \<mapsto> (y, own))"
  have ring: "\<not> o2 \<and> z \<in> a' y" if "w y = Some (z, o2)" "w z = Some (x, o3)" for z o2 o3
    using ring_new_wait [of w a x a' y own] assms(1,4,6,7) that by metis
  have inh: "waits_inherit ?w a'" by (rule inherit_new_wait [of w a x y a' own, OF assms])
  have "rings_seen ?w a'"
    unfolding rings_seen_def
  proof (intro allI impI)
    fix p q r o1 o2 o3
    assume e: "?w p = Some (q, o1)" "?w q = Some (r, o2)" "?w r = Some (p, o3)"
    have d: "p \<noteq> q" "q \<noteq> r" "r \<noteq> p" using e inh unfolding waits_inherit_def by blast+
    consider "p = x" | "q = x" | "r = x" | "p \<noteq> x" "q \<noteq> x" "r \<noteq> x" by blast
    then show "\<not> o1 \<and> q \<in> a' p \<or> \<not> o2 \<and> r \<in> a' q \<or> \<not> o3 \<and> p \<in> a' r"
    proof cases
      case 1
      then show ?thesis using e d ring [of r o2 o3] by simp
    next
      case 2
      then show ?thesis using e d ring [of p o3 o1] by simp
    next
      case 3
      then show ?thesis using e d ring [of q o1 o2] by simp
    next
      case 4
      then have "w p = Some (q, o1)" "w q = Some (r, o2)" "w r = Some (p, o3)" using e by simp_all
      then have "\<not> o1 \<and> q \<in> a p \<or> \<not> o2 \<and> r \<in> a q \<or> \<not> o3 \<and> p \<in> a r"
        using assms(1) unfolding waits_ok_def rings_seen_def by blast
      then show ?thesis using assms(5) by blast
    qed
  qed
  with inh show ?thesis by (simp add: waits_ok_def)
qed

subsection \<open>What a step leaves\<close>

text \<open>
  Ancestors are only added and a claimed scope stays claimed; a step that is calm starts no wait for a
  child and ends no effect but those of \<open>X\<close>.
\<close>

definition closing :: "scope_cell \<Rightarrow> bool" where
  "closing c \<longleftrightarrow> sc_state c = Unloading \<or> sc_state c = Disposed"

definition grows :: "lifecycle \<Rightarrow> lifecycle \<Rightarrow> bool" where
  "grows m m' \<longleftrightarrow> (\<forall>s c. scopes m s = Some c \<longrightarrow>
    (\<exists>c'. scopes m' s = Some c' \<and> set (sc_ancestors c) \<subseteq> set (sc_ancestors c') \<and> (closing c \<longrightarrow> closing c')))"

definition ancestors :: "lifecycle \<Rightarrow> scope_id \<Rightarrow> scope_id set" where
  "ancestors m s = (case scopes m s of None \<Rightarrow> {} | Some c \<Rightarrow> set (sc_ancestors c))"

definition awaits_child :: "task option \<Rightarrow> bool" where
  "awaits_child t \<longleftrightarrow> (case t of None \<Rightarrow> False | Some t \<Rightarrow> (case tk_stage t of AwaitChild c b \<Rightarrow> True | _ \<Rightarrow> False))"

definition calm :: "task_key set \<Rightarrow> lifecycle \<Rightarrow> lifecycle \<Rightarrow> bool" where
  "calm X m m' \<longleftrightarrow>
    (\<forall>k. tasks m' k = tasks m k \<or> (k \<in> X \<or> \<not> in_effect (tasks m k)) \<and> \<not> awaits_child (tasks m' k))"

lemma grows_refl: "grows m m"
  by (auto simp: grows_def)

lemma grows_trans: "grows m1 m2 \<Longrightarrow> grows m2 m3 \<Longrightarrow> grows m1 m3"
  unfolding grows_def by (meson order_trans)

lemma grows_same: "scopes m' = scopes m \<Longrightarrow> grows m m'"
  by (auto simp: grows_def)

lemma grows_put:
  assumes "scopes m' = (scopes m)(s \<mapsto> c')"
    and "\<And>c. scopes m s = Some c \<Longrightarrow> set (sc_ancestors c) \<subseteq> set (sc_ancestors c') \<and> (closing c \<longrightarrow> closing c')"
  shows "grows m m'"
  using assms by (auto simp: grows_def)

lemma growsE:
  assumes "grows m m'" and "scopes m s = Some c"
  obtains c' where "scopes m' s = Some c'" and "set (sc_ancestors c) \<subseteq> set (sc_ancestors c')" and "closing c \<Longrightarrow> closing c'"
  using assms unfolding grows_def by blast

lemma grows_ancestors: "grows m m' \<Longrightarrow> ancestors m s \<subseteq> ancestors m' s"
  by (cases "scopes m s") (auto simp: ancestors_def elim!: growsE [of m m' s])

lemma claimed_closing: "claimed (view m) s \<longleftrightarrow> (\<exists>c. scopes m s = Some c \<and> closing c)"
  by (auto simp: in_states_def view_def cell_view_def closing_def split: option.splits)

lemma grows_claimed: "grows m m' \<Longrightarrow> claimed (view m) s \<Longrightarrow> claimed (view m') s"
  unfolding claimed_closing grows_def by blast

lemma set_add_missing: "set (add_missing new old) = set new \<union> set old"
  by (induction new arbitrary: old) (auto simp: add_missing_def)

lemma inherit_grows: "grows m (inherit_ancestors D s m)"
  by (cases "scopes m s") (auto simp: inherit_ancestors_def set_add_missing closing_def intro: grows_refl grows_put)

lemma inherit_fold_grows: "grows m (fold (inherit_ancestors D) cs m)"
proof (induction cs arbitrary: m)
  case (Cons c cs)
  show ?case using grows_trans [OF inherit_grows Cons.IH] by simp
qed (simp add: grows_refl)

lemma inherit_ancestors_of: "scopes m s = Some c \<Longrightarrow> set D \<subseteq> ancestors (inherit_ancestors D s m) s"
  by (simp add: inherit_ancestors_def ancestors_def set_add_missing)

lemma calm_refl: "tasks m' = tasks m \<Longrightarrow> calm X m m'"
  by (simp add: calm_def)

lemma calm_put:
  "tasks m' = (tasks m)(k := t') \<Longrightarrow> k \<in> X \<or> \<not> in_effect (tasks m k) \<Longrightarrow> \<not> awaits_child t' \<Longrightarrow> calm X m m'"
  by (auto simp: calm_def)

lemma stage_simps [simp]:
  "\<not> in_effect None" "\<not> awaits_child None" "\<not> awaits_child (Some (new_task c))"
  "tk_stage t = Working \<Longrightarrow> \<not> in_effect (Some t)" "tk_stage t = Working \<Longrightarrow> \<not> awaits_child (Some t)"
  "tk_stage t = InEffect i \<Longrightarrow> \<not> awaits_child (Some t)" "tk_stage t = InEffect i \<Longrightarrow> in_effect (Some t)"
  "tk_stage t = Storing r \<Longrightarrow> \<not> awaits_child (Some t)" "tk_stage t = Storing r \<Longrightarrow> \<not> in_effect (Some t)"
  "tk_stage t = AwaitChild d b \<Longrightarrow> \<not> in_effect (Some t)"
  by (simp_all add: in_effect_def awaits_child_def new_task_def)

lemma quiet_fields [simp]:
  "grows m (m'\<lparr>fibers := b\<rparr>) = grows m m'" "calm X m (m'\<lparr>fibers := b\<rparr>) = calm X m m'"
  "grows (m\<lparr>fibers := b\<rparr>) m' = grows m m'" "calm X (m\<lparr>fibers := b\<rparr>) m' = calm X m m'"
  "grows (m\<lparr>next_fiber := i\<rparr>) m' = grows m m'" "calm X (m\<lparr>next_fiber := i\<rparr>) m' = calm X m m'"
  by (simp_all add: grows_def calm_def)

subsection \<open>The operations\<close>

lemma claim_owner_grows:
  assumes "lifecycle_inv m" and "claim_disposal D s m = Some (Owner, m')"
  shows "grows m m'" and "set D \<subseteq> ancestors m' s" and "tasks m (s, Cleaning) = None"
    and "\<exists>c. tasks m' = (tasks m)((s, Cleaning) \<mapsto> new_task c)"
proof -
  obtain c where c: "scopes m s = Some c" and st: "sc_state c \<noteq> Unloading" "sc_state c \<noteq> Disposed"
    using assms(2) claim_owner by metis
  let ?c' = "(snd (cancel (c\<lparr>sc_state := Unloading\<rparr>)))\<lparr>sc_effects := [], sc_children := []\<rparr>"
  let ?m1 = "put_scope s ?c' m"
  let ?m2 = "fold (inherit_ancestors (D @ [s])) (sc_children c) ?m1"
  let ?m3 = "inherit_ancestors D s ?m2"
  have m': "m' = ?m3\<lparr>tasks := (tasks ?m3)((s, Cleaning) \<mapsto> new_task c)\<rparr>"
    using assms(2) c st by (simp add: claim_disposal_def Let_def)
  have g1: "grows m ?m1"
    using c by (intro grows_put [of ?m1 m s ?c']) (auto simp: cancel_def closing_def)
  have g2: "grows ?m1 ?m2" by (rule inherit_fold_grows)
  have "grows ?m2 ?m3" by (rule inherit_grows)
  then have "grows m ?m3" using grows_trans [OF g1 g2] grows_trans by blast
  then show "grows m m'" using m' by (simp add: grows_def)
  have "scopes ?m1 s = Some ?c'" by simp
  then obtain c2 where "scopes ?m2 s = Some c2" using growsE [OF g2] by metis
  then show "set D \<subseteq> ancestors m' s" using inherit_ancestors_of [of ?m2 s c2 D] m' by (simp add: ancestors_def)
  show "tasks m (s, Cleaning) = None" using slot_unclaimed [OF scope_slot [OF assms(1) c] st] .
  show "\<exists>c. tasks m' = (tasks m)((s, Cleaning) \<mapsto> new_task c)" by (auto simp: m')
qed

lemma dispose_call_waits:
  assumes "lifecycle_inv m" and "dispose_call D s m = Some (w, m')"
  shows "grows m m'" and "calm X m m'"
    and "\<And>owner. w = Wait owner \<Longrightarrow> set D \<subseteq> ancestors m' s"
    and "w = Wait True \<Longrightarrow> tasks m (s, Cleaning) = None \<and> (\<exists>c. tasks m' = (tasks m)((s, Cleaning) \<mapsto> new_task c))"
    and "w = Wait False \<Longrightarrow> s \<notin> set D \<and> tasks m' = tasks m"
proof -
  obtain cl m1 where claim: "claim_disposal D s m = Some (cl, m1)"
    using assms(2) by (auto simp: dispose_call_def bind_eq_Some_conv)
  have "grows m m' \<and> calm X m m' \<and> (\<forall>owner. w = Wait owner \<longrightarrow> set D \<subseteq> ancestors m' s)
      \<and> (w = Wait True \<longrightarrow> tasks m (s, Cleaning) = None \<and> (\<exists>c. tasks m' = (tasks m)((s, Cleaning) \<mapsto> new_task c)))
      \<and> (w = Wait False \<longrightarrow> s \<notin> set D \<and> tasks m' = tasks m)"
  proof (cases cl)
    case Owner
    then have "w = Wait True" "m' = m1" using assms(2) claim by (auto simp: dispose_call_def)
    note o = claim_owner_grows [OF assms(1) claim [unfolded Owner]]
    obtain c where "tasks m1 = (tasks m)((s, Cleaning) \<mapsto> new_task c)" using o(4) by blast
    then have "calm X m m1" using o(3) calm_put [of m1 m "(s, Cleaning)" "Some (new_task c)" X] by simp
    then show ?thesis using o \<open>w = Wait True\<close> \<open>m' = m1\<close> by simp
  next
    case Join
    then have m1: "m1 = m" "claimed (view m) s" using claim claim_join by blast+
    then obtain c where "scopes m s = Some c" by (auto simp: claimed_closing)
    then show ?thesis
      using assms(2) claim Join m1 inherit_grows [of m D s] inherit_ancestors_of [of m s c D]
      by (auto simp: dispose_call_def grows_refl calm_refl split: if_splits)
  qed
  then show "grows m m'" "calm X m m'" "\<And>owner. w = Wait owner \<Longrightarrow> set D \<subseteq> ancestors m' s"
    "w = Wait True \<Longrightarrow> tasks m (s, Cleaning) = None \<and> (\<exists>c. tasks m' = (tasks m)((s, Cleaning) \<mapsto> new_task c))"
    "w = Wait False \<Longrightarrow> s \<notin> set D \<and> tasks m' = tasks m" by blast+
qed

lemma scope_new_quiet:
  assumes "lifecycle_inv m" and "scope_new m = Some (s, m')"
  shows "grows m m'" and "tasks m' = tasks m"
proof -
  have none: "scopes m s = None"
    using scope_new_inv(3) [OF assms] by (simp add: view_def)
  obtain c where "scopes m' = (scopes m)(s \<mapsto> c)"
    using assms(2) by (auto simp: scope_new_def bind_eq_Some_conv)
  then show "grows m m'" using none by (intro grows_put) auto
  show "tasks m' = tasks m" using scope_new_inv(5) [OF assms] .
qed

lemma scope_child_quiet:
  assumes "lifecycle_inv m" and "scope_child p m = Some (r, m')"
  shows "grows m m' \<and> tasks m' = tasks m"
proof -
  obtain c where c: "scopes m p = Some c" using assms(2) by (auto simp: scope_child_def bind_eq_Some_conv)
  show ?thesis
  proof (cases "sc_state c = Active")
    case True
    then obtain s m1 where n: "scope_new m = Some (s, m1)"
      and m': "m' = put_scope p (c\<lparr>sc_children := sc_children c @ [s]\<rparr>) (m1\<lparr>parent_of := (parent_of m1)(s \<mapsto> p)\<rparr>)"
      using assms(2) c by (auto simp: scope_child_def bind_eq_Some_conv)
    have "scopes m1 p = Some c"
      using n c scope_new_inv(3) [OF assms(1) n] by (auto simp: scope_new_def bind_eq_Some_conv view_def)
    then have "grows m1 m'" by (intro grows_put [of m' m1 p]) (auto simp: m' closing_def)
    then show ?thesis using scope_new_quiet [OF assms(1) n] grows_trans m' by auto
  qed (use assms c in \<open>simp add: scope_child_def grows_refl\<close>)
qed

lemma add_effect_quiet:
  assumes "add_effect s label d m = Some (r, m')"
  shows "grows m m' \<and> tasks m' = tasks m"
proof -
  obtain c where c: "scopes m s = Some c"
    using assms by (auto simp: add_effect_def add_effect_with_def bind_eq_Some_conv)
  then show ?thesis
    using assms by (auto simp: add_effect_def add_effect_with_def bind_eq_Some_conv closing_def
        intro: grows_refl grows_put split: if_splits)
qed

lemma rollback_quiet:
  assumes "lifecycle_inv m" and "rollback_failed_setup s m = Some (b, m')"
  shows "grows m m' \<and> calm X m m'"
proof -
  obtain c where c: "scopes m s = Some c" using assms(2) by (auto simp: rollback_failed_setup_def bind_eq_Some_conv)
  show ?thesis
  proof (cases "sc_state c = Active")
    case True
    have "tasks m (s, RollingBack) = None"
      using scope_slot [OF assms(1) c] True by (simp add: slot_ok_def cell_view_def)
    then show ?thesis
      using assms(2) c True
      by (auto simp: rollback_failed_setup_def Let_def closing_def cancel_def intro!: grows_put [of _ m s] calm_put)
  qed (use assms(2) c in \<open>simp add: rollback_failed_setup_def grows_refl calm_refl\<close>)
qed

lemma fiber_quiet:
  assumes "lifecycle_inv m"
  shows "fiber_new s name m = Some (r, m') \<Longrightarrow> grows m m' \<and> calm X m m'"
    and "fiber_start f m = Some (r2, m') \<Longrightarrow> grows m m' \<and> calm X m m'"
    and "fiber_setup f r3 m = Some m' \<Longrightarrow> grows m m' \<and> calm X m m'"
    and "fiber_dispose D f m = Some (w, m') \<Longrightarrow> grows m m' \<and> calm X m m'"
    and "fiber_disposed f m = Some m' \<Longrightarrow> grows m m' \<and> calm X m m'"
proof -
  show "fiber_new s name m = Some (r, m') \<Longrightarrow> grows m m' \<and> calm X m m'"
  proof -
    assume "fiber_new s name m = Some (r, m')"
    then obtain f nf q m1 where sc: "scope_child s (m\<lparr>next_fiber := nf\<rparr>) = Some (q, m1)"
      and m': "m' = m1 \<or> (\<exists>x. m' = put_fiber f x m1)"
      by (auto simp: fiber_new_def bind_eq_Some_conv split: sum.splits) (metis sum.exhaust)+
    have "grows m m1 \<and> tasks m1 = tasks m"
      using scope_child_quiet [OF _ sc] assms by simp
    then show ?thesis using m' by (auto simp: calm_refl)
  qed
  show "fiber_start f m = Some (r2, m') \<Longrightarrow> grows m m' \<and> calm X m m'"
    by (auto simp: fiber_start_def bind_eq_Some_conv split: if_splits intro: grows_same calm_refl)
  show "fiber_setup f r3 m = Some m' \<Longrightarrow> grows m m' \<and> calm X m m'"
    using assms rollback_quiet [OF assms, where X = X]
    by (auto simp: fiber_setup_def bind_eq_Some_conv Let_def grows_refl calm_refl split: if_splits sum.splits)
  show "fiber_dispose D f m = Some (w, m') \<Longrightarrow> grows m m' \<and> calm X m m'"
  proof -
    assume "fiber_dispose D f m = Some (w, m')"
    then obtain m0 s where "dispose_call D s m0 = Some (w, m')" and m0: "m0 = m \<or> (\<exists>x. m0 = put_fiber f x m)"
      by (auto simp: fiber_dispose_def bind_eq_Some_conv split: if_splits)
    moreover have "lifecycle_inv m0" using m0 assms by auto
    ultimately have "grows m0 m' \<and> calm X m0 m'" using dispose_call_waits(1,2) by blast
    then show ?thesis using m0 by auto
  qed
  show "fiber_disposed f m = Some m' \<Longrightarrow> grows m m' \<and> calm X m m'"
    by (auto simp: fiber_disposed_def bind_eq_Some_conv split: if_splits intro: grows_same calm_refl)
qed

lemma task_quiet:
  shows "task_child_done k env m = Some m' \<Longrightarrow> grows m m' \<and> calm X m m'"
    and "task_effect k m = Some m' \<Longrightarrow> grows m m' \<and> calm X m m'"
    and "task_effect_done k r m = Some m' \<Longrightarrow> grows m m' \<and> calm {k} m m'"
    and "task_complete s m = Some m' \<Longrightarrow> grows m m' \<and> calm X m m'"
    and "fiber_rolled_back f m = Some m' \<Longrightarrow> grows m m' \<and> calm X m m'"
proof -
  assume a: "task_child_done k env m = Some m'"
  then obtain t where t: "tasks m k = Some t" by (auto simp: task_child_done_def bind_eq_Some_conv)
  obtain c owner where st: "tk_stage t = AwaitChild c owner"
    using a t by (cases "tk_stage t") (auto simp: task_child_done_def)
  then obtain r where "scopes m' = scopes m" "tasks m' = (tasks m)(k \<mapsto> collect_result r (t\<lparr>tk_stage := Working\<rparr>))"
    using a t by (auto simp: task_child_done_def bind_eq_Some_conv split: if_splits)
  moreover have "\<not> awaits_child (Some (collect_result r (t\<lparr>tk_stage := Working\<rparr>)))" for r by simp
  ultimately show "grows m m' \<and> calm X m m'" using t st by (metis calm_put grows_same stage_simps(10))
next
  assume a: "task_effect k m = Some m'"
  obtain s kd where k: "k = (s, kd)" by (cases k)
  show "grows m m' \<and> calm X m m'"
    using a unfolding k by (rule task_effect_cases) (auto intro!: grows_same calm_put [of _ m "(s, kd)"])
next
  assume a: "task_effect_done k r m = Some m'"
  then obtain t where t: "tasks m k = Some t" by (auto simp: task_effect_done_def bind_eq_Some_conv)
  then have "m' = put_task k (collect_result r (t\<lparr>tk_stage := Working\<rparr>)) m"
    using a by (cases "tk_stage t") (auto simp: task_effect_done_def)
  then show "grows m m' \<and> calm {k} m m'" by (auto intro!: grows_same calm_put [of _ m k])
next
  assume a: "task_complete s m = Some m'"
  then obtain t where t: "tasks m (s, Cleaning) = Some t" by (auto simp: task_complete_def bind_eq_Some_conv)
  obtain r where st: "tk_stage t = Storing r" using a t by (cases "tk_stage t") (auto simp: task_complete_def)
  then obtain c where "scopes m s = Some c" "scopes m' = (scopes m)(s \<mapsto> c\<lparr>sc_result := Some r\<rparr>)"
      "tasks m' = (tasks m)((s, Cleaning) := None)"
    using a t by (auto simp: task_complete_def bind_eq_Some_conv)
  then show "grows m m' \<and> calm X m m'"
    using t st calm_put [of m' m "(s, Cleaning)" None] grows_put [of m' m s "c\<lparr>sc_result := Some r\<rparr>"]
    by (auto simp: closing_def)
next
  assume a: "fiber_rolled_back f m = Some m'"
  then obtain x t where t: "fibers m f = Some x" "tasks m (fb_scope x, RollingBack) = Some t"
    by (auto simp: fiber_rolled_back_def bind_eq_Some_conv)
  obtain r where st: "tk_stage t = Storing r"
    using a t by (cases "tk_stage t") (auto simp: fiber_rolled_back_def bind_eq_Some_conv)
  then have "scopes m' = scopes m" "tasks m' = (tasks m)((fb_scope x, RollingBack) := None)"
    using a t by (auto simp: fiber_rolled_back_def bind_eq_Some_conv)
  then show "grows m m' \<and> calm X m m'"
    using t st calm_put [of m' m "(fb_scope x, RollingBack)" None] grows_same [of m' m] by auto
qed

lemma task_store_quiet:
  assumes "task_store k m = Some m'"
  shows "grows m m' \<and> calm X m m'"
proof -
  obtain s kd where k: "k = (s, kd)" by (cases k)
  obtain t where t: "tasks m k = Some t" using assms by (auto simp: task_store_def bind_eq_Some_conv)
  have st: "tk_stage t = Working" "tk_children t = []" "tk_effects t = []"
    using assms t by (cases "tk_stage t"; cases "tk_children t"; cases "tk_effects t"; simp add: task_store_def)+
  let ?t' = "t\<lparr>tk_stage := Storing (cleanup_result (tk_errors t))\<rparr>"
  have m': "tasks m' = (tasks m)(k \<mapsto> ?t')"
      "scopes m' = scopes m \<or> (\<exists>c. scopes m s = Some c \<and> scopes m' = (scopes m)(s \<mapsto> c\<lparr>sc_state := Disposed\<rparr>))"
    using assms t st k by (cases kd; auto simp: task_store_def bind_eq_Some_conv Let_def)+
  have "calm X m m'" by (rule calm_put [OF m'(1)]) (use t st in simp_all)
  moreover have "grows m m'"
    using m'(2) by (auto simp: closing_def intro: grows_same grows_put [of m' m s])
  ultimately show ?thesis by blast
qed

lemma exec_quiet:
  assumes "lifecycle_inv m" and "lifecycle_exec l m = Some m'" and "\<forall>k env. l \<noteq> TaskChild k env"
  shows "grows m m' \<and> calm (case l of TaskEffectDone k r \<Rightarrow> {k} | _ \<Rightarrow> {}) m m'"
proof (cases l)
  case RootScope
  then show ?thesis using assms scope_new_quiet [OF assms(1)] by (auto intro: calm_refl)
next
  case (Child s)
  then show ?thesis using assms scope_child_quiet [OF assms(1)] by (auto intro: calm_refl)
next
  case (AddEffect s label d)
  then show ?thesis using assms add_effect_quiet by (auto intro: calm_refl)
next
  case (Dispose D s)
  then show ?thesis using assms dispose_call_waits(1,2) [OF assms(1)] by auto
qed (use assms fiber_quiet [OF assms(1)] task_quiet task_store_quiet in auto)

subsection \<open>The invariant of the waits\<close>

abbreviation cleaning_waits :: "nested \<Rightarrow> wait_graph" where
  "cleaning_waits n \<equiv> (\<lambda>s. waits_on n (s, Cleaning))"

definition nested_inv :: "nested \<Rightarrow> bool" where
  "nested_inv n \<longleftrightarrow> lifecycle_inv (store n)
    \<and> (\<forall>k. awaiting n k \<noteq> None \<longrightarrow> in_effect (tasks (store n) k))
    \<and> (\<forall>k c owner. awaiting n k = Some (c, owner) \<longrightarrow> claimed (view (store n)) c)
    \<and> waits_ok (cleaning_waits n) (ancestors (store n))"

lemma nested_invD:
  assumes "nested_inv n"
  shows "lifecycle_inv (store n)" and "\<not> in_effect (tasks (store n) k) \<Longrightarrow> awaiting n k = None"
    and "awaiting n k = Some (c, owner) \<Longrightarrow> claimed (view (store n)) c"
    and "waits_ok (cleaning_waits n) (ancestors (store n))"
  using assms unfolding nested_inv_def by blast+

lemma waits_on_alt:
  "waits_on n k =
    (if in_effect (tasks (store n) k) then awaiting n k
     else Option.bind (tasks (store n) k) (\<lambda>t. case tk_stage t of AwaitChild c owner \<Rightarrow> Some (c, owner) | _ \<Rightarrow> None))"
  by (auto simp: waits_on_def in_effect_def split: option.splits stage.splits)

lemma waits_on_cases:
  assumes "waits_on n k = Some v"
  shows "awaits_child (tasks (store n) k) \<or> in_effect (tasks (store n) k) \<and> awaiting n k = Some v"
  using assms by (auto simp: waits_on_def awaits_child_def in_effect_def split: option.splits stage.splits)

lemma waits_on_cong: "tasks (store n') k = tasks (store n) k \<Longrightarrow> awaiting n' k = awaiting n k \<Longrightarrow> waits_on n' k = waits_on n k"
  by (simp add: waits_on_def split: option.splits stage.splits)

lemma calm_waits:
  assumes "nested_inv n" and "calm X (store n) m" and "\<And>k. k \<in> X \<Longrightarrow> awaiting n k = None"
    and "waits_on (n\<lparr>store := m\<rparr>) k = Some v"
  shows "waits_on n k = Some v"
proof (cases "tasks m k = tasks (store n) k")
  case True
  then show ?thesis using assms(4) waits_on_cong [of "n\<lparr>store := m\<rparr>" k n] by simp
next
  case False
  then have "(k \<in> X \<or> \<not> in_effect (tasks (store n) k)) \<and> \<not> awaits_child (tasks m k)"
    using assms(2) unfolding calm_def by blast
  then show ?thesis
    using waits_on_cases [OF assms(4)] nested_invD(2) [OF assms(1), of k] assms(3) [of k] by auto
qed

lemma calm_awaiting:
  assumes "nested_inv n" and "calm X (store n) m" and "\<And>k. k \<in> X \<Longrightarrow> awaiting n k = None" and "awaiting n k \<noteq> None"
  shows "in_effect (tasks m k)"
proof -
  have "in_effect (tasks (store n) k)" using nested_invD(2) [OF assms(1), of k] assms(4) by blast
  moreover have "k \<notin> X" using assms(3) [of k] assms(4) by blast
  ultimately show ?thesis using assms(2) unfolding calm_def by metis
qed

lemma quiet_inv:
  assumes inv: "nested_inv n" and "lifecycle_inv m" and "grows (store n) m" and "calm X (store n) m"
    and "\<And>k. k \<in> X \<Longrightarrow> awaiting n k = None"
  shows "nested_inv (n\<lparr>store := m\<rparr>)"
proof -
  have "waits_ok (cleaning_waits (n\<lparr>store := m\<rparr>)) (ancestors m)"
  proof (rule waits_ok_grow)
    show "waits_ok (cleaning_waits n) (ancestors (store n))" using inv by (simp add: nested_inv_def)
    show "waits_on (n\<lparr>store := m\<rparr>) (x, Cleaning) = Some v \<Longrightarrow> waits_on n (x, Cleaning) = Some v" for x v
      by (rule calm_waits [OF inv assms(4,5)])
    show "ancestors (store n) x \<subseteq> ancestors m x" for x by (rule grows_ancestors [OF assms(3)])
  qed
  moreover have "claimed (view m) c" if "awaiting n k = Some (c, owner)" for k c owner
    using that inv grows_claimed [OF assms(3), of c] unfolding nested_inv_def by blast
  ultimately show ?thesis
    using assms(2) calm_awaiting [OF inv assms(4,5)] unfolding nested_inv_def by simp
qed

text \<open>A task begins to wait for \<open>c\<close>; \<open>m1\<close> is the store that the call of \<open>dispose\<close> left.\<close>

lemma new_wait_inv:
  assumes inv: "nested_inv n" and call: "dispose_call (task_context k env (store n)) c (store n) = Some (Wait owner, m1)"
    and before: "tasks (store n) k \<noteq> None" "waits_on n k = None"
    and after: "ancestors (store n') = ancestors m1" "waits_on n' k = Some (c, owner)"
      "\<And>j v. j \<noteq> k \<Longrightarrow> waits_on n' j = Some v \<Longrightarrow> waits_on n j = Some v"
  shows "waits_ok (cleaning_waits n') (ancestors (store n'))"
proof -
  let ?m = "store n"
  have lin: "lifecycle_inv ?m" and ok: "waits_ok (cleaning_waits n) (ancestors ?m)"
    using inv by (simp_all add: nested_inv_def)
  note d = dispose_call_waits [OF lin call]
  have grow: "ancestors ?m x \<subseteq> ancestors m1 x" for x by (rule grows_ancestors [OF d(1)])
  obtain s kd where k: "k = (s, kd)" by (cases k)
  show ?thesis
  proof (cases kd)
    case RollingBack
    then show ?thesis using after k by (intro waits_ok_grow [OF ok]) (simp_all add: grow)
  next
    case Cleaning
    have ctx: "set (task_context k env ?m) = insert s (ancestors ?m s)"
      using k Cleaning by (auto simp: ancestors_def split: option.splits)
    have fresh: "owner \<Longrightarrow> tasks ?m (c, Cleaning) = None" using d(4) by auto
    have "waits_ok ((cleaning_waits n)(s \<mapsto> (c, owner))) (ancestors m1)"
    proof (rule waits_ok_new [OF ok])
      show "waits_on n (s, Cleaning) = None" using before k Cleaning by simp
      show "s \<noteq> c" using d(5) fresh before k Cleaning ctx by (cases owner) auto
      show "insert s (ancestors ?m s) \<subseteq> ancestors m1 c" using d(3) [of owner] ctx by simp
      show "owner \<Longrightarrow> waits_on n (c, Cleaning) = None" using fresh by (simp add: waits_on_def)
      show "\<not> owner \<Longrightarrow> c \<notin> ancestors ?m s" using d(5) ctx by auto
    qed (rule grow)
    moreover have "((cleaning_waits n)(s \<mapsto> (c, owner))) x = Some v" if "waits_on n' (x, Cleaning) = Some v" for x v
      using that after(2,3) k Cleaning by (cases "x = s") auto
    ultimately show ?thesis unfolding after(1) by (rule waits_ok_grow) auto
  qed
qed

lemma task_child_step:
  assumes "task_child k env m = Some m'"
  obtains t c cs w m1 where "tasks m k = Some t" and "tk_stage t = Working"
    and "dispose_call (task_context k env m) c m = Some (w, m1)" and "scopes m' = scopes m1"
    and "case w of
        Wait owner \<Rightarrow> tasks m' = (tasks m1)(k \<mapsto> t\<lparr>tk_children := cs, tk_stage := AwaitChild c owner\<rparr>)
      | Ready r \<Rightarrow> tasks m' = (tasks m1)(k \<mapsto> collect_result r (t\<lparr>tk_children := cs\<rparr>))"
proof -
  obtain t where t: "tasks m k = Some t" using assms by (auto simp: task_child_def bind_eq_Some_conv)
  obtain c cs where st: "tk_stage t = Working" "tk_children t = c # cs"
    using assms t by (cases "tk_stage t"; cases "tk_children t") (auto simp: task_child_def)
  obtain w m1 where d: "dispose_call (task_context k env m) c m = Some (w, m1)"
    using assms t st by (auto simp: task_child_def bind_eq_Some_conv)
  then show ?thesis
    using assms t st that [of t c w m1 cs] by (cases w) (auto simp: task_child_def)
qed

lemma grows_scopes: "grows m m1 \<Longrightarrow> scopes m' = scopes m1 \<Longrightarrow> grows m m'"
  by (simp add: grows_def)

lemma task_child_nested:
  assumes inv: "nested_inv n" and step: "task_child k env (store n) = Some m'"
  shows "nested_inv (n\<lparr>store := m'\<rparr>)"
proof -
  let ?m = "store n" and ?n = "n\<lparr>store := m'\<rparr>"
  have lin: "lifecycle_inv ?m" using inv by (simp add: nested_inv_def)
  then have lin': "lifecycle_inv m'" using step task_child_inv by (cases k) auto
  obtain t c cs w m1 where t: "tasks ?m k = Some t" "tk_stage t = Working"
    and d: "dispose_call (task_context k env ?m) c ?m = Some (w, m1)" and sc: "scopes m' = scopes m1"
    and m': "case w of
        Wait owner \<Rightarrow> tasks m' = (tasks m1)(k \<mapsto> t\<lparr>tk_children := cs, tk_stage := AwaitChild c owner\<rparr>)
      | Ready r \<Rightarrow> tasks m' = (tasks m1)(k \<mapsto> collect_result r (t\<lparr>tk_children := cs\<rparr>))"
    using step by (rule task_child_step)
  note q = dispose_call_waits(2) [OF lin d, where X = "{}"]
  have g: "grows ?m m'" by (rule grows_scopes [OF dispose_call_waits(1) [OF lin d] sc])
  show ?thesis
  proof (cases w)
    case (Ready r)
    have "\<not> awaits_child (tasks m' k)" using m' t Ready by simp
    moreover have "tasks m' j = tasks m1 j" if "j \<noteq> k" for j using m' that Ready by simp
    ultimately have "calm {} ?m m'" using q t unfolding calm_def by (metis stage_simps(4))
    then show ?thesis using quiet_inv [OF inv lin' g] by blast
  next
    case (Wait owner)
    have tk: "tasks m' = (tasks m1)(k \<mapsto> t\<lparr>tk_children := cs, tk_stage := AwaitChild c owner\<rparr>)"
      using m' Wait by simp
    have idle: "awaiting n k = None" using nested_invD(2) [OF inv, of k] t by simp
    have "waits_ok (cleaning_waits ?n) (ancestors (store ?n))"
    proof (rule new_wait_inv [OF inv d [unfolded Wait]])
      show "waits_on n k = None" "tasks ?m k \<noteq> None" using t by (simp_all add: waits_on_def)
      show "ancestors (store ?n) = ancestors m1" using sc by (simp add: ancestors_def fun_eq_iff)
      show "waits_on ?n k = Some (c, owner)" using tk by (simp add: waits_on_def)
      fix j v assume j: "j \<noteq> k" "waits_on ?n j = Some v"
      then have "waits_on (n\<lparr>store := m1\<rparr>) j = Some v"
        using waits_on_cong [of "n\<lparr>store := m1\<rparr>" j ?n] tk by simp
      then show "waits_on n j = Some v" using calm_waits [OF inv q] by blast
    qed
    moreover have "in_effect (tasks m' j)" if "awaiting n j \<noteq> None" for j
      using that calm_awaiting [OF inv q] tk idle by (cases "j = k") auto
    moreover have "claimed (view m') x" if "awaiting n j = Some (x, b)" for j x b
      using that inv grows_claimed [OF g, of x] unfolding nested_inv_def by blast
    ultimately show ?thesis using lin' by (simp add: nested_inv_def)
  qed
qed

lemma plain_nested:
  assumes inv: "nested_inv n" and "lifecycle_exec l (store n) = Some m" and "\<not> returns_early l n"
  shows "nested_inv (n\<lparr>store := m\<rparr>)"
proof (cases "\<exists>k env. l = TaskChild k env")
  case True
  then show ?thesis using assms task_child_nested by auto
next
  case False
  have lin: "lifecycle_inv (store n)" using inv by (simp add: nested_inv_def)
  have "lifecycle_inv m" using lifecycle.inv_step [OF lin] assms(2) by (simp add: exec_rel_def)
  moreover have "awaiting n k = None" if "k \<in> (case l of TaskEffectDone k r \<Rightarrow> {k} | _ \<Rightarrow> {})" for k
    using that assms(3) by (cases l) (auto simp del: not_None_eq)
  ultimately show ?thesis using exec_quiet [OF lin assms(2)] False quiet_inv [OF inv] by blast
qed

lemma effect_disposes_nested:
  assumes inv: "nested_inv n" and "in_effect (tasks (store n) k)" and "awaiting n k = None"
    and d: "dispose_call (task_context k env (store n)) c (store n) = Some (w, m)"
  shows "nested_inv (case w of Ready r \<Rightarrow> n\<lparr>store := m\<rparr>
    | Wait owner \<Rightarrow> n\<lparr>store := m, awaiting := (awaiting n)(k \<mapsto> (c, owner))\<rparr>)"
proof -
  have lin: "lifecycle_inv (store n)" using inv by (simp add: nested_inv_def)
  note q = dispose_call_waits(2) [OF lin d, where X = "{}"]
  have lin': "lifecycle_inv m" "claimed (view m) c" using dispose_call_inv [OF lin d] by blast+
  have quiet: "nested_inv (n\<lparr>store := m\<rparr>)"
    using quiet_inv [OF inv lin'(1) dispose_call_waits(1) [OF lin d] q] by blast
  show ?thesis
  proof (cases w)
    case (Wait owner)
    let ?n = "n\<lparr>store := m, awaiting := (awaiting n)(k \<mapsto> (c, owner))\<rparr>"
    have same: "tasks m k = tasks (store n) k" using q assms(2) unfolding calm_def by blast
    have "waits_ok (cleaning_waits ?n) (ancestors (store ?n))"
    proof (rule new_wait_inv [OF inv d [unfolded Wait]])
      show "waits_on n k = None" "tasks (store n) k \<noteq> None"
        using assms(2,3) by (cases "tasks (store n) k"; simp add: waits_on_alt)+
      show "waits_on ?n k = Some (c, owner)" using assms(2) same by (simp add: waits_on_alt)
      fix j v assume j: "j \<noteq> k" "waits_on ?n j = Some v"
      then have "waits_on (n\<lparr>store := m\<rparr>) j = Some v"
        using waits_on_cong [of "n\<lparr>store := m\<rparr>" j ?n] by simp
      then show "waits_on n j = Some v" using calm_waits [OF inv q] by blast
    qed simp
    moreover have "in_effect (tasks m j)" if "awaiting ?n j \<noteq> None" for j
    proof (cases "j = k")
      case False
      then have "awaiting (n\<lparr>store := m\<rparr>) j \<noteq> None" using that by simp
      with nested_invD(2) [OF quiet, of j] have "in_effect (tasks (store (n\<lparr>store := m\<rparr>)) j)" by argo
      then show ?thesis by simp
    qed (use assms(2) same in simp)
    moreover have "claimed (view m) x" if "awaiting ?n j = Some (x, b)" for j x b
      using that nested_invD(3) [OF quiet, of j x b] lin'(2) by (cases "j = k") auto
    ultimately show ?thesis using lin'(1) Wait by (simp add: nested_inv_def)
  qed (use quiet in simp)
qed

lemma effect_resumes_nested:
  assumes inv: "nested_inv n"
  shows "nested_inv (n\<lparr>awaiting := (awaiting n)(k := None)\<rparr>)"
proof -
  let ?n = "n\<lparr>awaiting := (awaiting n)(k := None)\<rparr>"
  have "waits_on n j = Some v" if "waits_on ?n j = Some v" for j v
    using that by (cases "j = k") (auto simp: waits_on_alt split: if_splits)
  then have "waits_ok (cleaning_waits ?n) (ancestors (store n))"
    by (rule waits_ok_grow [OF nested_invD(4) [OF inv]]) simp_all
  moreover have "in_effect (tasks (store n) j)" if "awaiting ?n j \<noteq> None" for j
  proof (cases "j = k")
    case False
    then have "awaiting n j \<noteq> None" using that by simp
    with nested_invD(2) [OF inv, of j] show ?thesis by argo
  qed (use that in simp)
  moreover have "claimed (view (store n)) c" if "awaiting ?n j = Some (c, b)" for j c b
    using that nested_invD(3) [OF inv, of j c b] by (cases "j = k") auto
  ultimately show ?thesis using nested_invD(1) [OF inv] by (simp add: nested_inv_def)
qed

lemma nested_exec_inv:
  assumes inv: "nested_inv n" and e: "nested_exec l n = Some n'"
  shows "nested_inv n'"
proof (cases l)
  case (Plain l)
  then have "\<not> returns_early l n" and "map_option (\<lambda>m. n\<lparr>store := m\<rparr>) (lifecycle_exec l (store n)) = Some n'"
    using e by (cases "returns_early l n"; simp)+
  then show ?thesis using plain_nested [OF inv, of l] by (cases "lifecycle_exec l (store n)") simp_all
next
  case (EffectDisposes k env c)
  then obtain w m where "dispose_call (task_context k env (store n)) c (store n) = Some (w, m)"
    using e by (auto simp: bind_eq_Some_conv split: if_splits)
  then show ?thesis
    using effect_disposes_nested [OF inv, of k env c w m] e EffectDisposes by (simp del: not_None_eq split: if_splits)
next
  case (EffectResumes k env)
  then have "n' = n\<lparr>awaiting := (awaiting n)(k := None)\<rparr>" using e by (auto simp: bind_eq_Some_conv)
  then show ?thesis using effect_resumes_nested [OF inv] by simp
qed

lemma nested_inv_new: "nested_inv nested_new"
  using lifecycle.inv_init [of lifecycle_new]
  by (auto simp: nested_inv_def nested_new_def lifecycle_start_def waits_ok_def waits_inherit_def rings_seen_def
      waits_on_def lifecycle_new_def)

interpretation nested: transition_invariant "\<lambda>n. n = nested_new" "exec_rel nested_exec" nested_inv
  using nested_inv_new nested_exec_inv by unfold_locales (auto simp: exec_rel_def)

subsection \<open>Progress\<close>

text \<open>What is left to do: a cleanup that has not completed, a rollback that has not come to its end.\<close>

definition unfinished :: "lifecycle \<Rightarrow> task_key \<Rightarrow> bool" where
  "unfinished m k \<longleftrightarrow> (\<exists>t. tasks m k = Some t \<and> (snd k = RollingBack \<longrightarrow> \<not> storing t))"

text \<open>The steps of the cleanups themselves; a rollback gets no help from where it was started.\<close>

fun is_task_step :: "lifecycle_step \<Rightarrow> bool" where
  "is_task_step (TaskChild k env) = (env = [])"
| "is_task_step (TaskChildDone k env) = (env = [])"
| "is_task_step (TaskEffect k) = True"
| "is_task_step (TaskEffectDone k r) = True"
| "is_task_step (TaskStore k) = True"
| "is_task_step (TaskComplete s) = True"
| "is_task_step _ = False"

lemma claim_total: "scopes m s = Some c \<Longrightarrow> \<exists>r. claim_disposal D s m = Some r"
  by (simp add: claim_disposal_def Let_def)

lemma dispose_total: "scopes m s = Some c \<Longrightarrow> \<exists>w m'. dispose_call D s m = Some (w, m')"
  using claim_total [of m s c D] by (auto simp: dispose_call_def split: dispose_claim.split)

lemma claimed_waits:
  assumes "lifecycle_inv m" and "claimed (view m) c"
  shows "(\<exists>r. Option.bind (scopes m c) sc_result = Some r) \<or> unfinished m (c, Cleaning)"
proof -
  obtain x where x: "scopes m c = Some x" and st: "sc_state x = Unloading \<or> sc_state x = Disposed"
    using assms(2) by (auto simp: in_states_def view_def cell_view_def split: option.splits)
  show ?thesis
    using scope_slot [OF assms(1) x] x st
    by (auto simp: slot_ok_def cell_view_def cleaning_ok_def closed_ok_def unfinished_def split: option.splits)
qed

lemma working_step:
  assumes inv: "lifecycle_inv m" and t: "tasks m (s, kd) = Some t" and st: "tk_stage t = Working"
  shows "\<exists>l m'. is_task_step l \<and> (\<forall>k r. l \<noteq> TaskEffectDone k r) \<and> lifecycle_exec l m = Some m'"
proof -
  obtain x where x: "scopes m s = Some x" using task_cell [OF inv t] .
  consider c cs where "tk_children t = c # cs" | e es where "tk_children t = []" "tk_effects t = e # es"
    | "tk_children t = []" "tk_effects t = []"
    by (cases "tk_children t"; cases "tk_effects t") auto
  then show ?thesis
  proof cases
    case (1 c cs)
    then obtain y where "scopes m c = Some y"
      using held_child [OF inv t, of c] by (auto simp: view_def)
    then obtain w m1 where "dispose_call (task_context (s, kd) [] m) c m = Some (w, m1)"
      using dispose_total by blast
    then have "\<exists>m'. lifecycle_exec (TaskChild (s, kd) []) m = Some m'"
      using t st 1 by (auto simp: task_child_def split: waiting.splits)
    then show ?thesis by (intro exI [of _ "TaskChild (s, kd) []"]) simp
  next
    case (2 e es)
    then have "\<exists>m'. lifecycle_exec (TaskEffect (s, kd)) m = Some m'"
      using t st by (simp add: task_effect_def)
    then show ?thesis by (intro exI [of _ "TaskEffect (s, kd)"]) simp
  next
    case 3
    then have "\<exists>m'. lifecycle_exec (TaskStore (s, kd)) m = Some m'"
      using t st x by (cases kd) (simp_all add: task_store_def)
    then show ?thesis by (intro exI [of _ "TaskStore (s, kd)"]) simp
  qed
qed

fun cleanup_step :: "nested_step \<Rightarrow> bool" where
  "cleanup_step (Plain l) = is_task_step l"
| "cleanup_step (EffectDisposes k env c) = False"
| "cleanup_step (EffectResumes k env) = (env = [])"

definition can_step :: "nested \<Rightarrow> bool" where
  "can_step n \<longleftrightarrow> (\<exists>l n'. cleanup_step l \<and> nested_exec l n = Some n')"

lemma plain_can_step:
  "lifecycle_exec l (store n) = Some m \<Longrightarrow> is_task_step l \<Longrightarrow> \<not> returns_early l n \<Longrightarrow> can_step n"
  unfolding can_step_def by (intro exI [of _ "Plain l"]) simp

lemma resumes_can_step:
  "awaiting n k = Some (c, owner) \<Longrightarrow> poll_dispose (task_context k [] (store n)) c owner (store n) = Some r \<Longrightarrow> can_step n"
  unfolding can_step_def by (intro exI [of _ "EffectResumes k []"]) simp

lemma stuck_waits:
  assumes inv: "nested_inv n" and u: "unfinished (store n) k" and stuck: "\<not> can_step n"
  shows "\<exists>c owner. waits_on n k = Some (c, owner) \<and> poll_dispose (task_context k [] (store n)) c owner (store n) = None
    \<and> unfinished (store n) (c, Cleaning)"
proof -
  let ?m = "store n"
  note lin = nested_invD(1) [OF inv]
  obtain s kd where k: "k = (s, kd)" by (cases k)
  obtain t where t: "tasks ?m (s, kd) = Some t" and roll: "kd = RollingBack \<longrightarrow> \<not> storing t"
    using u by (auto simp: unfinished_def k)
  have unready: "unfinished ?m (c, Cleaning)"
    if "claimed (view ?m) c" "poll_dispose (task_context k [] ?m) c owner ?m = None" for c owner
    using claimed_waits [OF lin that(1)] that(2) by (auto simp: poll_dispose_def split: if_splits)
  show ?thesis
  proof (cases "tk_stage t")
    case Working
    then obtain l m' where "is_task_step l" "\<forall>k r. l \<noteq> TaskEffectDone k r" "lifecycle_exec l ?m = Some m'"
      using working_step [OF lin t] by blast
    moreover have "\<not> returns_early l n" using calculation(2) by (cases l) auto
    ultimately show ?thesis using stuck plain_can_step by blast
  next
    case (AwaitChild c owner)
    have cl: "claimed (view ?m) c"
      using lin t AwaitChild unfolding lifecycle_inv_def tree_ok_def by blast
    have none: "poll_dispose (task_context k [] ?m) c owner ?m = None"
    proof (rule ccontr)
      assume "poll_dispose (task_context k [] ?m) c owner ?m \<noteq> None"
      then have "\<exists>m'. lifecycle_exec (TaskChildDone k []) ?m = Some m'"
        using t k AwaitChild by (auto simp: task_child_done_def)
      then show False using stuck plain_can_step by fastforce
    qed
    then show ?thesis using unready [OF cl none] t k AwaitChild by (simp add: waits_on_def)
  next
    case (InEffect i)
    show ?thesis
    proof (cases "awaiting n k")
      case None
      then have "\<exists>m'. lifecycle_exec (TaskEffectDone k (Inr ())) ?m = Some m'"
        using t k InEffect by (simp add: task_effect_done_def)
      then show ?thesis using stuck plain_can_step None by fastforce
    next
      case (Some v)
      then obtain c owner where v: "awaiting n k = Some (c, owner)" by (cases v) simp
      have cl: "claimed (view ?m) c" by (rule nested_invD(3) [OF inv v])
      have none: "poll_dispose (task_context k [] ?m) c owner ?m = None"
        using resumes_can_step [OF v] stuck by (cases "poll_dispose (task_context k [] ?m) c owner ?m") auto
      then show ?thesis using unready [OF cl none] t k InEffect v by (simp add: waits_on_def)
    qed
  next
    case (Storing r)
    then have kd: "kd = Cleaning" using roll by (cases kd) (auto simp: storing_def)
    obtain x where "scopes ?m s = Some x" using task_cell [OF lin t] .
    then have "\<exists>m'. lifecycle_exec (TaskComplete s) ?m = Some m'"
      using t Storing kd by (simp add: task_complete_def)
    then show ?thesis using stuck plain_can_step by fastforce
  qed
qed

text \<open>A function on a finite set comes back: its orbit ends in a ring.\<close>

lemma orbit_ring:
  fixes f :: "'a \<Rightarrow> 'a"
  assumes "finite S" and "\<And>x. x \<in> S \<Longrightarrow> f x \<in> S" and "x \<in> S"
  shows "\<exists>ys. ys \<noteq> [] \<and> distinct ys \<and> set ys \<subseteq> S \<and> list_all2 (\<lambda>a b. f a = b) ys (tl ys @ [hd ys])"
proof -
  define g where "g i = (f ^^ i) x" for i
  have step: "g (Suc i) = f (g i)" for i by (simp add: g_def)
  have mem: "g i \<in> S" for i by (induction i) (simp_all add: assms step g_def [of 0])
  have "\<not> inj g" using assms(1) mem finite_subset [of "range g" S] finite_imageD [of g UNIV] infinite_UNIV_nat by blast
  then obtain i j where ij: "g i = g j" "i < j" by (metis injI linorder_neqE_nat)
  define P where "P p \<longleftrightarrow> 0 < p \<and> (\<exists>i. g (i + p) = g i)" for p
  have "P (j - i)" using ij unfolding P_def by (intro conjI exI [of _ i]) simp_all
  then have "P (LEAST p. P p)" by (rule LeastI)
  moreover define p where "p = (LEAST p. P p)"
  ultimately obtain i where p: "0 < p" "g (i + p) = g i" by (auto simp: P_def)
  have least: "p \<le> q" if "P q" for q using Least_le [of P, OF that] by (simp add: p_def)
  define ys where "ys = map (\<lambda>k. g (i + k)) [0..<p]"
  have apart: "\<not> (a < b \<and> b < p)" if "g (i + a) = g (i + b)" for a b
  proof
    assume ab: "a < b \<and> b < p"
    then have "P (b - a)" using that unfolding P_def by (intro conjI exI [of _ "i + a"]) simp_all
    then show False using least [of "b - a"] ab by linarith
  qed
  have "inj_on (\<lambda>k. g (i + k)) {0..<p}"
    by (rule inj_onI) (metis apart atLeastLessThan_iff linorder_neqE_nat)
  then have "distinct ys" by (simp add: ys_def distinct_map)
  moreover have "list_all2 (\<lambda>a b. f a = b) ys (tl ys @ [hd ys])"
  proof (rule list_all2_all_nthI)
    fix k assume "k < length ys"
    then have k: "k < p" by (simp add: ys_def)
    then have "f (ys ! k) = g (i + Suc k)" by (simp add: ys_def step)
    moreover have "(tl ys @ [hd ys]) ! k = g (i + Suc k)"
    proof (cases "Suc k = p")
      case True
      then have "k = length (tl ys)" by (simp add: ys_def)
      moreover have "hd ys = g (i + Suc k)" using p True by (simp add: ys_def hd_map)
      ultimately show ?thesis by (simp only: nth_append_length)
    next
      case False
      then have "k < length (tl ys)" using k by (simp add: ys_def)
      then show ?thesis using k by (simp add: nth_append nth_tl) (use False in \<open>simp add: ys_def\<close>)
    qed
    ultimately show "f (ys ! k) = (tl ys @ [hd ys]) ! k" by simp
  qed (use p in \<open>simp add: ys_def\<close>)
  ultimately show ?thesis using p mem by (intro exI [of _ ys]) (auto simp: ys_def)
qed

lemma blocked_byD:
  assumes "blocked_by n s c"
  shows "\<exists>owner. waits_on n (s, Cleaning) = Some (c, owner) \<and> (owner \<or> c \<notin> ancestors (store n) s)"
proof (cases "waits_on n (s, Cleaning)")
  case None
  then show ?thesis using assms by (simp add: blocked_by_def)
next
  case (Some v)
  then obtain d owner where v: "waits_on n (s, Cleaning) = Some (d, owner)" by (cases v) simp
  then have "d = c" and "poll_dispose (task_context (s, Cleaning) [] (store n)) c owner (store n) = None"
    using assms by (auto simp: blocked_by_def)
  moreover have "ancestors (store n) s \<subseteq> set (task_context (s, Cleaning) [] (store n))"
    by (auto simp: ancestors_def split: option.splits)
  ultimately show ?thesis using v by (auto simp: poll_dispose_def split: if_splits)
qed

lemma ring_at_least_four:
  assumes inv: "nested_inv n" and ring: "blocked_ring n ss"
  shows "4 \<le> length ss"
proof (rule ccontr)
  assume "\<not> 4 \<le> length ss"
  moreover have "length ss \<noteq> 0" using ring by (simp add: blocked_ring_def)
  ultimately have "length ss = 1 \<or> length ss = 2 \<or> length ss = 3" by linarith
  then consider a where "ss = [a]" | a b where "ss = [a, b]" | a b c where "ss = [a, b, c]"
    by (auto simp: length_Suc_conv numeral_eq_Suc)
  moreover have inh: "waits_inherit (cleaning_waits n) (ancestors (store n))"
    and seen: "rings_seen (cleaning_waits n) (ancestors (store n))"
    using nested_invD(4) [OF inv] by (simp_all add: waits_ok_def)
  ultimately show False
  proof cases
    case (1 a)
    then have "blocked_by n a a" using ring by (simp add: blocked_ring_def)
    then show False using blocked_byD waits_inheritD(1) [OF inh] by blast
  next
    case (2 a b)
    then have "blocked_by n a b" "blocked_by n b a" using ring by (simp_all add: blocked_ring_def)
    then show False using blocked_byD waits_inheritD(3) [OF inh] by metis
  next
    case (3 a b c)
    then have "blocked_by n a b" "blocked_by n b c" "blocked_by n c a" using ring by (simp_all add: blocked_ring_def)
    note this [THEN blocked_byD]
    then show False using seen unfolding rings_seen_def by metis
  qed
qed

lemma stuck_ring:
  assumes inv: "nested_inv n" and u: "unfinished (store n) k" and stuck: "\<not> can_step n"
  shows "\<exists>ss. blocked_ring n ss"
proof -
  let ?S = "{s. unfinished (store n) (s, Cleaning)}"
  define f where "f s = (case waits_on n (s, Cleaning) of Some (c, owner) \<Rightarrow> c | None \<Rightarrow> s)" for s
  have next_of: "blocked_by n s (f s) \<and> f s \<in> ?S" if "s \<in> ?S" for s
    using stuck_waits [OF inv _ stuck, of "(s, Cleaning)"] that by (auto simp: f_def blocked_by_def)
  have "finite (dom (tasks (store n)))"
    using nested_invD(1) [OF inv] by (simp add: lifecycle_inv_def slots_ok_def)
  moreover have "?S \<subseteq> fst ` dom (tasks (store n))" by (force simp: unfinished_def)
  ultimately have "finite ?S" by (meson finite_imageI finite_subset)
  moreover obtain x where "x \<in> ?S" using stuck_waits [OF inv u stuck] by blast
  ultimately obtain ys where ys: "ys \<noteq> []" "distinct ys" "set ys \<subseteq> ?S" "list_all2 (\<lambda>a b. f a = b) ys (tl ys @ [hd ys])"
    using orbit_ring [of ?S f x] next_of by blast
  have "list_all2 (blocked_by n) ys (tl ys @ [hd ys])"
    by (rule list.rel_mono_strong [OF ys(4)]) (use next_of ys(3) in blast)
  then show ?thesis using ys(1,2) by (auto simp: blocked_ring_def)
qed

subsection \<open>Properties\<close>

text \<open>C7: Cleanups that dispose one another do not block themselves in small rings: in every
  interleaving, as long as some cleanup or rollback has work left, one of them can take its next step,
  unless there is a ring of cleanups each of which waits for the next; and no such ring has fewer than four
  scopes, so that a scope's cleanup may dispose the scope itself, two or three cleanups each other. An effect
  that awaits a disposal goes on only when that is ready, every other running effect counts as able to
  return.\<close>

theorem cleanup_progress:
  assumes "nested_reach n"
  shows "(unfinished (store n) k \<longrightarrow> can_step n \<or> (\<exists>ss. blocked_ring n ss))
    \<and> (blocked_ring n ss \<longrightarrow> 4 \<le> length ss)"
  using stuck_ring ring_at_least_four nested.inv_reach [OF assms] by blast

lemma nested_of_reach:
  "\<not> Option.is_none (exec_run nested_exec ls nested_new) \<Longrightarrow> nested_reach (nested_of ls)"
  by (rule exec_run_reach) (auto simp: nested_of_def Option.is_none_def)

text \<open>Three scopes whose effects dispose one another: the third call, on a scope that waits, wakes it.\<close>

definition three_run :: "nested_step list" where
  "three_run = concat (map (\<lambda>s. [Plain RootScope, Plain (AddEffect s ''e'' 7), Plain (Dispose [] s),
       Plain (TaskEffect (s, Cleaning))]) [1, 2, 3])
     @ [EffectDisposes (2, Cleaning) [] 3, EffectDisposes (1, Cleaning) [] 2, EffectDisposes (3, Cleaning) [] 1]"

lemma three_waits:
  "\<not> Option.is_none (exec_run nested_exec three_run nested_new)
    \<and> map (waits_on (nested_of three_run)) [(1, Cleaning), (2, Cleaning), (3, Cleaning)]
      = [Some (2, False), Some (3, False), Some (1, False)]"
  by code_simp

lemma three_unfinished: "map_option tk_stage (tasks (store (nested_of three_run)) (1, Cleaning)) = Some (InEffect 1)"
  by code_simp

theorem cleanup_progress_witness:
  "nested_reach (nested_of three_run) \<and> waits_on (nested_of three_run) (1, Cleaning) = Some (2, False)
    \<and> waits_on (nested_of three_run) (2, Cleaning) = Some (3, False)
    \<and> waits_on (nested_of three_run) (3, Cleaning) = Some (1, False)
    \<and> \<not> blocked_ring (nested_of three_run) [1, 2, 3]"
proof -
  have r: "nested_reach (nested_of three_run)" by (rule nested_of_reach) (simp add: three_waits)
  have "\<not> blocked_ring (nested_of three_run) [1, 2, 3]"
    using cleanup_progress [OF r, of _ "[1, 2, 3]"] by simp
  then show ?thesis using r three_waits by simp
qed

subsection \<open>A ring of four\<close>

text \<open>Scopes 1 to 4, each the child of the one before; 3 is disposed first, then 1, then the effect of 4
  disposes 1.\<close>

definition ring_run :: "nested_step list" where
  "ring_run = [Plain RootScope, Plain (Child 1), Plain (Child 2), Plain (Child 3), Plain (AddEffect 4 ''e'' 7),
     Plain (Dispose [] 3), Plain (TaskChild (3, Cleaning) []), Plain (TaskEffect (4, Cleaning)),
     Plain (Dispose [] 1), Plain (TaskChild (1, Cleaning) []), Plain (TaskChild (2, Cleaning) []),
     EffectDisposes (4, Cleaning) [] 1]"

lemma ring_blocked:
  "\<not> Option.is_none (exec_run nested_exec ring_run nested_new) \<and> blocked_ring (nested_of ring_run) [1, 2, 3, 4]"
  by code_simp

text \<open>The disposal of 1 reaches 3, whose cleanup runs already, but not 4, which 3 waits for: the effect of 4
  does not know that it runs inside the disposal of 1. The four cleanups wait for each other.\<close>

theorem late_dispose_deadlocks: "\<exists>n. nested_reach n \<and> blocked_ring n [1, 2, 3, 4]"
  using ring_blocked nested_of_reach by blast

end
