(* ===== verification/Registry.thy ===== *)
theory Registry
  imports Errors
begin

section \<open>The service registry (service.rs)\<close>

text \<open>
  A registry is a lock-protected state with an optional parent. A registry value here is the
  chain of those states, its own first: \<open>[s]\<close> is a root, \<open>s # ps\<close> one staged on \<open>ps\<close>. The
  operations recurse along the chain as the code does through \<open>parent\<close>, and return the
  chain they leave. \<open>None\<close> is a panic: identifiers exhausted, or a committed registry without
  a host. Services and listeners are opaque values (\<open>'v\<close> with the name of its Rust type, \<open>'c\<close>).
\<close>

datatype dependency = Required service_key | OptionalDep service_key

fun dependency_key :: "dependency \<Rightarrow> service_key" where
  "dependency_key (Required k) = k"
| "dependency_key (OptionalDep k) = k"

fun is_required :: "dependency \<Rightarrow> bool" where
  "is_required (Required k) = True"
| "is_required (OptionalDep k) = False"

record service_snapshot =
  ss_key :: string
  ss_realm :: string
  ss_generation :: "generation option"
  ss_available :: bool
  ss_intercepts :: "json list"

record dependency_snapshot =
  ds_ready :: bool
  ds_services :: "service_snapshot list"

record resolved_dependency =
  rd_service :: resolved_service
  rd_required :: bool
  rd_intercepts :: "json list"

record 'v service_entry =
  se_generation :: generation
  se_type :: string
  se_value :: 'v

record 'c listener =
  ln_dependencies :: "resolved_dependency list"
  ln_callback :: 'c

record ('v, 'c) registry_state =
  providers :: "(resolved_service, 'v service_entry) btree"
  listeners :: "(resource_id, 'c listener) btree"
  expected_parent :: "(resolved_service, generation option) btree"
  committed :: bool

type_synonym ('v, 'c) registry = "('v, 'c) registry_state list"

definition registry_state_new :: "('v, 'c) registry_state" where
  "registry_state_new = \<lparr>providers = [], listeners = [], expected_parent = [], committed = False\<rparr>"

definition registry_new :: "('v, 'c) registry" where
  "registry_new = [registry_state_new]"

definition registry_staged :: "('v, 'c) registry \<Rightarrow> ('v, 'c) registry" where
  "registry_staged parent = registry_state_new # parent"

subsection \<open>Lookup\<close>

text \<open>\<open>Registry::entry\<close>: a committed staging is transparent.\<close>

fun reg_entry :: "('v, 'c) registry \<Rightarrow> resolved_service \<Rightarrow> 'v service_entry option" where
  "reg_entry [] svc = None"
| "reg_entry (s # ps) svc =
    (case (if committed s then None else bt_get (providers s) svc) of
       Some e \<Rightarrow> Some e
     | None \<Rightarrow> reg_entry ps svc)"

definition reg_is_current :: "('v, 'c) registry \<Rightarrow> resolved_service \<Rightarrow> generation \<Rightarrow> bool" where
  "reg_is_current r svc g \<longleftrightarrow> map_option se_generation (reg_entry r svc) = Some g"

definition snapshot_of_entry ::
  "resolved_service \<Rightarrow> json list \<Rightarrow> generation option \<Rightarrow> service_snapshot" where
  "snapshot_of_entry svc intercepts g =
    \<lparr>ss_key = diagnostic_key (rs_key svc), ss_realm = realm_diagnostic_key (rs_realm svc),
     ss_generation = g, ss_available = (g \<noteq> None), ss_intercepts = intercepts\<rparr>"

definition reg_snapshot :: "('v, 'c) registry \<Rightarrow> resolved_service \<Rightarrow> json list \<Rightarrow> service_snapshot" where
  "reg_snapshot r svc intercepts = snapshot_of_entry svc intercepts (map_option se_generation (reg_entry r svc))"

fun provider_services :: "('v, 'c) registry \<Rightarrow> resolved_service list" where
  "provider_services [] = []"
| "provider_services [s] = bt_keys (providers s)"
| "provider_services (s # p # ps) =
    remdups_adj (sort (provider_services (p # ps) @ (if committed s then [] else bt_keys (providers s))))"

subsection \<open>Mutation\<close>

fun reg_provide ::
  "('v, 'c) registry \<Rightarrow> resolved_service \<Rightarrow> string \<Rightarrow> 'v \<Rightarrow> bool \<Rightarrow> u64 \<Rightarrow>
    ((core_error + generation \<times> 'v service_entry option) \<times> ('v, 'c) registry \<times> u64) option" where
  "reg_provide [] svc ty v repl ng = None"
| "reg_provide (s # ps) svc ty v repl ng =
    (if committed s then
       map_option (\<lambda>(res, ps', ng'). (res, s # ps', ng')) (reg_provide ps svc ty v repl ng)
     else
       let parent_generation = map_option se_generation (reg_entry ps svc);
           present = bt_contains (providers s) svc \<or> parent_generation \<noteq> None
       in
       if \<not> repl \<and> present
       then Some (Inl (ServiceAlreadyProvided (diagnostic_key (rs_key svc))), s # ps, ng)
       else if repl \<and> \<not> present
       then Some (Inl (ServiceNotProvided (diagnostic_key (rs_key svc))), s # ps, ng)
       else
         Option.bind (next_id ng) (\<lambda>(g, ng').
           let s1 = (if ps \<noteq> [] \<and> \<not> bt_contains (expected_parent s) svc
                     then s\<lparr>expected_parent := bt_insert svc parent_generation (expected_parent s)\<rparr>
                     else s);
               retired = bt_get (providers s1) svc;
               s2 = s1\<lparr>providers := bt_insert svc \<lparr>se_generation = g, se_type = ty, se_value = v\<rparr> (providers s1)\<rparr>
           in Some (Inr (g, retired), s2 # ps, ng')))"

text \<open>
  \<open>remove_if_current\<close>: whether it removed, and the chain whose listeners are to be notified
  is the one the removal happened in.
\<close>

fun reg_remove_if_current ::
  "('v, 'c) registry \<Rightarrow> resolved_service \<Rightarrow> generation \<Rightarrow> bool \<times> ('v, 'c) registry" where
  "reg_remove_if_current [] svc g = (False, [])"
| "reg_remove_if_current (s # ps) svc g =
    (if committed s then
       (let (removed, ps') = reg_remove_if_current ps svc g in (removed, s # ps'))
     else if map_option se_generation (bt_get (providers s) svc) = Some g
     then (True, s\<lparr>providers := bt_remove svc (providers s),
                   expected_parent := bt_remove svc (expected_parent s)\<rparr> # ps)
     else (False, s # ps))"

text \<open>
  \<open>commit\<close>: every expectation is checked against the host before anything is installed. The
  result is the services installed, in key order; each is then notified in the host.
\<close>

definition expectation_met ::
  "('v, 'c) registry_state \<Rightarrow> resolved_service \<times> generation option \<Rightarrow> core_error + unit" where
  "expectation_met host se =
    (if map_option se_generation (bt_get (providers host) (fst se)) \<noteq> snd se
     then Inl (ServiceChanged (diagnostic_key (rs_key (fst se)))) else Inr ())"

definition install ::
  "(resolved_service, 'v service_entry) btree \<Rightarrow> ('v, 'c) registry_state \<Rightarrow> ('v, 'c) registry_state" where
  "install staged host =
    host\<lparr>providers := fold (\<lambda>(svc, e) m. bt_insert svc e m) staged (providers host)\<rparr>"

fun reg_commit :: "('v, 'c) registry \<Rightarrow> (core_error + resolved_service list) \<times> ('v, 'c) registry" where
  "reg_commit (s # host # ps) =
    (if committed s then (Inr [], s # host # ps)
     else case try_each (expectation_met host) (expected_parent s) of
       Inl e \<Rightarrow> (Inl e, s # host # ps)
     | Inr _ \<Rightarrow>
         (Inr (bt_keys (providers s)),
          s\<lparr>providers := [], expected_parent := [], committed := True\<rparr>
            # install (providers s) host # ps))"
| "reg_commit r = (Inr [], r)"

subsection \<open>Listeners\<close>

text \<open>
  Snapshots for listeners are taken from one state, without its parents.
\<close>

definition snapshot_from ::
  "('v, 'c) registry_state \<Rightarrow> resolved_service \<Rightarrow> json list \<Rightarrow> service_snapshot" where
  "snapshot_from s svc intercepts = snapshot_of_entry svc intercepts (map_option se_generation (bt_get (providers s) svc))"

definition ready_of :: "resolved_dependency list \<Rightarrow> service_snapshot list \<Rightarrow> bool" where
  "ready_of ds ss \<longleftrightarrow> list_all (\<lambda>(d, s). \<not> rd_required d \<or> ss_available s) (zip ds ss)"

definition dependency_snapshot_from ::
  "('v, 'c) registry_state \<Rightarrow> resolved_dependency list \<Rightarrow> dependency_snapshot" where
  "dependency_snapshot_from s ds =
    (let services = map (\<lambda>d. snapshot_from s (rd_service d) (rd_intercepts d)) ds
     in \<lparr>ds_ready = ready_of ds services, ds_services = services\<rparr>)"

definition unavailable_snapshot :: "resolved_dependency list \<Rightarrow> dependency_snapshot" where
  "unavailable_snapshot ds =
    \<lparr>ds_ready = list_all (\<lambda>d. \<not> rd_required d) ds,
     ds_services = map (\<lambda>d. snapshot_of_entry (rd_service d) (rd_intercepts d) None) ds\<rparr>"

definition reg_dependency_snapshot ::
  "('v, 'c) registry \<Rightarrow> resolved_dependency list \<Rightarrow> dependency_snapshot option" where
  "reg_dependency_snapshot r ds =
    (case r of [] \<Rightarrow> None | s # _ \<Rightarrow> Some (dependency_snapshot_from s ds))"

definition register_listener ::
  "('v, 'c) registry \<Rightarrow> resolved_dependency list \<Rightarrow> 'c \<Rightarrow> u64 \<Rightarrow>
    (resource_id \<times> ('v, 'c) registry \<times> u64) option" where
  "register_listener r ds cb nr =
    (case r of
       [] \<Rightarrow> None
     | s # ps \<Rightarrow>
         Option.bind (next_id nr) (\<lambda>(i, nr').
           Some (i, s\<lparr>listeners := bt_insert i \<lparr>ln_dependencies = ds, ln_callback = cb\<rparr> (listeners s)\<rparr> # ps, nr')))"

definition unregister_listener :: "('v, 'c) registry \<Rightarrow> resource_id \<Rightarrow> bool \<times> ('v, 'c) registry" where
  "unregister_listener r i =
    (case r of
       [] \<Rightarrow> (False, [])
     | s # ps \<Rightarrow> (bt_contains (listeners s) i, s\<lparr>listeners := bt_remove i (listeners s)\<rparr> # ps))"

definition depends_on :: "'c listener \<Rightarrow> resolved_service \<Rightarrow> bool" where
  "depends_on l svc \<longleftrightarrow> list_ex (\<lambda>d. rd_service d = svc) (ln_dependencies l)"

text \<open>
  \<open>notify\<close>: the deliveries it makes, in registration order. They are collected under the
  lock; the callbacks run afterwards and may call the registry again.
\<close>

fun reg_notify :: "('v, 'c) registry \<Rightarrow> resolved_service \<Rightarrow> ('c \<times> dependency_snapshot) list option" where
  "reg_notify [] svc = None"
| "reg_notify (s # ps) svc =
    (if committed s then reg_notify ps svc
     else Some (map (\<lambda>l. (ln_callback l, dependency_snapshot_from s (ln_dependencies l)))
            (filter (\<lambda>l. depends_on l svc) (map snd (listeners s)))))"

subsection \<open>All the registries of a context tree\<close>

text \<open>
  One host registry and the registries staged on it (\<open>ContextHandle::staged\<close> always stages on
  the host). A view names one of them; \<open>chain\<close> is its registry value.
\<close>

datatype reg_view = HostView | StagedView nat

record ('v, 'c) reg_store =
  host :: "('v, 'c) registry_state"
  stagings :: "('v, 'c) registry_state list"

definition chain :: "('v, 'c, 'z) reg_store_scheme \<Rightarrow> reg_view \<Rightarrow> ('v, 'c) registry" where
  "chain w v =
    (case v of
       HostView \<Rightarrow> [host w]
     | StagedView n \<Rightarrow> if n < length (stagings w) then [stagings w ! n, host w] else [])"

definition put_chain ::
  "reg_view \<Rightarrow> ('v, 'c) registry \<Rightarrow> ('v, 'c, 'z) reg_store_scheme \<Rightarrow> ('v, 'c, 'z) reg_store_scheme" where
  "put_chain v r w =
    (case (v, r) of
       (HostView, [h]) \<Rightarrow> w\<lparr>host := h\<rparr>
     | (StagedView n, [s, h]) \<Rightarrow> w\<lparr>host := h, stagings := (stagings w)[n := s]\<rparr>
     | _ \<Rightarrow> w)"

text \<open>The registry side of the context operations as a machine; \<open>Tick\<close> is any other use of the counter.\<close>

datatype 'v reg_step =
    Stage
  | Provide reg_view resolved_service string 'v bool
  | RemoveCurrent reg_view resolved_service generation
  | Commit reg_view
  | Tick

fun reg_exec ::
  "'v reg_step \<Rightarrow> ('v, 'c) reg_store \<times> u64 \<Rightarrow> (('v, 'c) reg_store \<times> u64) option" where
  "reg_exec Stage (w, ng) = Some (w\<lparr>stagings := stagings w @ [registry_state_new]\<rparr>, ng)"
| "reg_exec (Provide v svc ty x repl) (w, ng) =
    map_option (\<lambda>(_, ch, ng'). (put_chain v ch w, ng')) (reg_provide (chain w v) svc ty x repl ng)"
| "reg_exec (RemoveCurrent v svc g) (w, ng) =
    Some (put_chain v (snd (reg_remove_if_current (chain w v) svc g)) w, ng)"
| "reg_exec (Commit v) (w, ng) = Some (put_chain v (snd (reg_commit (chain w v))) w, ng)"
| "reg_exec Tick (w, ng) = map_option (\<lambda>(_, ng'). (w, ng')) (next_id ng)"

fun reg_start :: "('v, 'c) reg_store \<times> u64 \<Rightarrow> bool" where
  "reg_start (w, ng) \<longleftrightarrow> host w = registry_state_new \<and> stagings w = [] \<and> ng = 1"

subsection \<open>The invariant\<close>

text \<open>The generation provided at each place of the store.\<close>

definition own_state :: "('v, 'c, 'z) reg_store_scheme \<Rightarrow> reg_view \<Rightarrow> ('v, 'c) registry_state option" where
  "own_state w v = (case chain w v of [] \<Rightarrow> None | s # _ \<Rightarrow> Some s)"

definition gen_at :: "('v, 'c, 'z) reg_store_scheme \<Rightarrow> reg_view \<times> resolved_service \<Rightarrow> generation option" where
  "gen_at w p =
    Option.bind (own_state w (fst p)) (\<lambda>s. map_option se_generation (bt_get (providers s) (snd p)))"

definition staging_ok :: "('v, 'c) registry_state \<Rightarrow> bool" where
  "staging_ok s \<longleftrightarrow> bt_wf (providers s) \<and> bt_wf (expected_parent s)
    \<and> bt_keys (expected_parent s) = bt_keys (providers s) \<and> (committed s \<longrightarrow> providers s = [])"

definition generations_ok :: "u64 \<Rightarrow> (reg_view \<times> resolved_service \<Rightarrow> generation option) \<Rightarrow> bool" where
  "generations_ok ng G \<longleftrightarrow>
    (\<forall>p q g. G p = Some g \<longrightarrow> G q = Some g \<longrightarrow> p = q) \<and> (\<forall>p g. G p = Some g \<longrightarrow> g < ng)"

fun reg_inv :: "('v, 'c) reg_store \<times> u64 \<Rightarrow> bool" where
  "reg_inv (w, ng) \<longleftrightarrow>
    \<not> committed (host w) \<and> bt_wf (providers (host w)) \<and> list_all staging_ok (stagings w)
    \<and> generations_ok ng (gen_at w)"

lemma chain_simps [simp]:
  "chain w HostView = [host w]"
  "n < length (stagings w) \<Longrightarrow> chain w (StagedView n) = [stagings w ! n, host w]"
  "\<not> n < length (stagings w) \<Longrightarrow> chain w (StagedView n) = []"
  by (simp_all add: chain_def)

lemma put_chain_simps [simp]:
  "put_chain HostView [h] w = w\<lparr>host := h\<rparr>"
  "put_chain (StagedView n) [s, h] w = w\<lparr>host := h, stagings := (stagings w)[n := s]\<rparr>"
  "put_chain v [] w = w"
  by (simp_all add: put_chain_def split: reg_view.splits)

lemma own_state_simps [simp]:
  "own_state w HostView = Some (host w)"
  "own_state w (StagedView n) = (if n < length (stagings w) then Some (stagings w ! n) else None)"
  by (simp_all add: own_state_def)

lemma gen_at_host: "gen_at w (HostView, svc) = map_option se_generation (bt_get (providers (host w)) svc)"
  by (simp add: gen_at_def)

lemma gen_at_staged:
  "gen_at w (StagedView n, svc) =
    (if n < length (stagings w) then map_option se_generation (bt_get (providers (stagings w ! n)) svc) else None)"
  by (simp add: gen_at_def)

lemma current_live:
  assumes "reg_is_current (chain w v) svc g"
  shows "\<exists>p. gen_at w p = Some g"
proof (cases v)
  case HostView
  then show ?thesis
    using assms by (intro exI [of _ "(HostView, svc)"]) (auto simp: reg_is_current_def gen_at_host split: option.splits if_splits)
next
  case (StagedView n)
  then have n: "n < length (stagings w)"
    using assms by (cases "n < length (stagings w)") (simp_all add: reg_is_current_def)
  have "gen_at w (StagedView n, svc) = Some g \<or> gen_at w (HostView, svc) = Some g"
    using assms StagedView n
    by (auto simp: reg_is_current_def gen_at_host gen_at_staged split: option.splits if_splits)
  then show ?thesis by blast
qed

lemma generations_put:
  assumes "generations_ok ng G" and "ng < ng'" and "G' = G(q \<mapsto> ng)"
  shows "generations_ok ng' G'"
proof -
  have "G p \<noteq> Some ng" for p using assms(1) unfolding generations_ok_def by (metis less_irrefl)
  then show ?thesis
    using assms(1,2) unfolding generations_ok_def assms(3) by (metis fun_upd_apply less_trans option.inject)
qed

lemma generations_sub:
  assumes "generations_ok ng G" and "\<And>p g. G' p = Some g \<Longrightarrow> G (f p) = Some g"
    and "\<And>p q g. G' p = Some g \<Longrightarrow> G' q = Some g \<Longrightarrow> f p = f q \<Longrightarrow> p = q"
  shows "generations_ok ng G'"
  using assms unfolding generations_ok_def by metis

subsection \<open>What the mutations do to one state\<close>

text \<open>A provider put in place, with the expectation that a staging records for it.\<close>

definition provided ::
  "generation option \<Rightarrow> bool \<Rightarrow> resolved_service \<Rightarrow> 'v service_entry \<Rightarrow> ('v, 'c) registry_state \<Rightarrow> ('v, 'c) registry_state" where
  "provided pg has_parent svc e s =
    (let s1 = (if has_parent \<and> \<not> bt_contains (expected_parent s) svc
               then s\<lparr>expected_parent := bt_insert svc pg (expected_parent s)\<rparr> else s)
     in s1\<lparr>providers := bt_insert svc e (providers s1)\<rparr>)"

lemma provide_result:
  assumes "reg_provide (s # ps) svc ty x repl ng = Some (Inr (g, old), r', ng')" and "\<not> committed s"
  shows "r' = provided (map_option se_generation (reg_entry ps svc)) (ps \<noteq> []) svc
           \<lparr>se_generation = g, se_type = ty, se_value = x\<rparr> s # ps"
    and "g = ng" and "ng < ng'" and "old = bt_get (providers s) svc"
    and "repl = (reg_entry (s # ps) svc \<noteq> None)"
  using assms next_id_less [of ng]
  by (auto simp: provided_def Let_def bt_contains_def next_id_Some bind_eq_Some_conv split: if_splits option.splits)

lemma provide_error:
  assumes "reg_provide r svc ty x repl ng = Some (Inl e, r', ng')"
  shows "r' = r \<and> ng' = ng"
  using assms
  by (induction r arbitrary: r') (auto simp: Let_def bind_eq_Some_conv split: if_splits)

lemma reg_provide_committed [simp]:
  "committed s \<Longrightarrow> reg_provide (s # ps) svc ty x repl ng =
    map_option (\<lambda>(res, ps', ng'). (res, s # ps', ng')) (reg_provide ps svc ty x repl ng)"
  by simp

declare reg_provide.simps(2) [simp del]

lemma provided_fields [simp]:
  "providers (provided pg b svc e s) = bt_insert svc e (providers s)"
  "committed (provided pg b svc e s) = committed s"
  "listeners (provided pg b svc e s) = listeners s"
  by (simp_all add: provided_def Let_def)

lemma bt_keys_insert: "bt_keys (bt_insert k v m) = map fst (bt_insert k v m)"
  by (simp add: bt_keys_def)

lemma same_keys_insert:
  assumes "bt_wf m" and "bt_wf n" and "bt_keys m = bt_keys n"
  shows "bt_keys (bt_insert k v m) = bt_keys (bt_insert k u n)"
proof -
  have "sorted_wrt (<) (bt_keys (bt_insert k v m))" "sorted_wrt (<) (bt_keys (bt_insert k u n))"
    using assms by (simp_all add: bt_keys_sorted)
  moreover have "set (bt_keys (bt_insert k v m)) = set (bt_keys (bt_insert k u n))"
    using assms(3) by (simp only: bt_keys_def bt_insert_keys)
  ultimately show ?thesis by (metis strict_sorted_equal)
qed

lemma same_keys_present:
  assumes "bt_wf m" and "bt_wf n" and "bt_keys m = bt_keys n" and "bt_contains m k"
  shows "bt_keys m = bt_keys (bt_insert k u n)"
proof -
  have "k \<in> set (bt_keys n)" using assms(3,4) by (metis bt_contains_def bt_keys_set mem_Collect_eq)
  then have "set (bt_keys (bt_insert k u n)) = set (bt_keys m)"
    using assms(3) by (metis bt_insert_keys bt_keys_def insert_absorb)
  moreover have "sorted_wrt (<) (bt_keys (bt_insert k u n))" "sorted_wrt (<) (bt_keys m)"
    using assms by (simp_all add: bt_keys_sorted)
  ultimately show ?thesis by (metis strict_sorted_equal)
qed

lemma staging_provided:
  "staging_ok s \<Longrightarrow> \<not> committed s \<Longrightarrow> staging_ok (provided pg True svc e s)"
  using same_keys_present [of "expected_parent s" "providers s" svc e]
  by (auto simp: staging_ok_def provided_def Let_def same_keys_insert)

lemma bt_keys_remove: "bt_keys (bt_remove k m) = filter (\<lambda>x. x \<noteq> k) (bt_keys m)"
  by (induction m) (auto simp: bt_remove_def bt_keys_def)

lemma staging_removed:
  "staging_ok s \<Longrightarrow> \<not> committed s \<Longrightarrow>
    staging_ok (s\<lparr>providers := bt_remove svc (providers s), expected_parent := bt_remove svc (expected_parent s)\<rparr>)"
  by (simp add: staging_ok_def bt_keys_remove)

lemma fold_insert_get:
  "distinct (map fst m) \<Longrightarrow> bt_get (fold (\<lambda>(k, v) n. bt_insert k v n) m n) k =
    (case bt_get m k of Some v \<Rightarrow> Some v | None \<Rightarrow> bt_get n k)"
proof (induction m arbitrary: n)
  case (Cons e m)
  obtain l u where e: "e = (l, u)" by (cases e)
  have "bt_get m l = None" using Cons.prems e by (simp add: bt_get_def map_of_eq_None_iff)
  then show ?case using Cons e by (auto simp: bt_get_def split: option.splits)
qed simp

lemma install_get:
  assumes "bt_wf staged"
  shows "bt_get (providers (install staged h)) svc =
    (case bt_get staged svc of Some e \<Rightarrow> Some e | None \<Rightarrow> bt_get (providers h) svc)"
proof -
  have "distinct (map fst staged)" using assms by (simp add: bt_wf_def strict_sorted_iff)
  then show ?thesis by (simp add: install_def fold_insert_get)
qed

lemma install_wf: "bt_wf (providers h) \<Longrightarrow> bt_wf (providers (install staged h))"
proof -
  have "bt_wf m \<Longrightarrow> bt_wf (fold (\<lambda>(k, v) n. bt_insert k v n) xs m)" for xs :: "(resolved_service \<times> 'a service_entry) list" and m
    by (induction xs arbitrary: m) auto
  then show "bt_wf (providers h) \<Longrightarrow> bt_wf (providers (install staged h))" by (simp add: install_def)
qed

lemma commit_result:
  assumes "reg_commit (s # h # ps) = (r, r')" and "\<not> committed s"
  shows "(\<exists>e. r = Inl e \<and> r' = s # h # ps \<and> try_each (expectation_met h) (expected_parent s) = Inl e)
    \<or> (r = Inr (bt_keys (providers s)) \<and> try_each (expectation_met h) (expected_parent s) = Inr ()
       \<and> r' = s\<lparr>providers := [], expected_parent := [], committed := True\<rparr> # install (providers s) h # ps)"
  using assms by (auto split: sum.splits)

subsection \<open>Every step keeps the invariant\<close>

lemma gen_at_put_host:
  "gen_at (w\<lparr>host := h\<rparr>) (v, svc) =
    (if v = HostView then map_option se_generation (bt_get (providers h) svc) else gen_at w (v, svc))"
  by (cases v) (simp_all add: gen_at_def)

lemma gen_at_put_staged:
  "n < length (stagings w) \<Longrightarrow> gen_at (w\<lparr>stagings := (stagings w)[n := s]\<rparr>) (v, svc) =
    (if v = StagedView n then map_option se_generation (bt_get (providers s) svc) else gen_at w (v, svc))"
  by (cases v) (auto simp: gen_at_def nth_list_update)

lemma list_all_update: "list_all P xs \<Longrightarrow> P x \<Longrightarrow> list_all P (xs[n := x])"
  by (auto simp: list_all_iff dest: set_update_subset_insert [THEN subsetD])

lemma provide_host_inv:
  assumes "reg_inv (w, ng)" and "reg_provide [host w] svc ty x repl ng = Some (Inr (g, old), r', ng')"
  shows "\<exists>h. r' = [h] \<and> reg_inv (w\<lparr>host := h\<rparr>, ng')
    \<and> gen_at (w\<lparr>host := h\<rparr>) = (gen_at w)((HostView, svc) \<mapsto> ng)"
proof -
  note p = provide_result [OF assms(2)]
  let ?e = "\<lparr>se_generation = g, se_type = ty, se_value = x\<rparr>"
  let ?h = "provided None False svc ?e (host w)"
  have nc: "\<not> committed (host w)" using assms(1) by simp
  have r': "r' = [?h]" using p(1) [OF nc] by simp
  have G: "gen_at (w\<lparr>host := ?h\<rparr>) = (gen_at w)((HostView, svc) \<mapsto> ng)"
  proof
    show "gen_at (w\<lparr>host := ?h\<rparr>) q = ((gen_at w)((HostView, svc) \<mapsto> ng)) q" for q
      using p(2) [OF nc] by (cases q) (auto simp: gen_at_put_host gen_at_host)
  qed
  have "generations_ok ng' (gen_at (w\<lparr>host := ?h\<rparr>))"
    using generations_put [OF _ p(3) [OF nc] G] assms(1) by simp
  then show ?thesis using assms(1) r' G by simp
qed

lemma provide_staged_inv:
  assumes "reg_inv (w, ng)" and n: "n < length (stagings w)" and nc: "\<not> committed (stagings w ! n)"
    and "reg_provide [stagings w ! n, host w] svc ty x repl ng = Some (Inr (g, old), r', ng')"
  shows "reg_inv (put_chain (StagedView n) r' w, ng')
    \<and> gen_at (put_chain (StagedView n) r' w) = (gen_at w)((StagedView n, svc) \<mapsto> ng)"
proof -
  note p = provide_result [OF assms(4) nc]
  let ?s = "provided (map_option se_generation (reg_entry [host w] svc)) True svc
      \<lparr>se_generation = g, se_type = ty, se_value = x\<rparr> (stagings w ! n)"
  let ?w = "w\<lparr>stagings := (stagings w)[n := ?s]\<rparr>"
  have w': "put_chain (StagedView n) r' w = ?w" using p(1) by simp
  have G: "gen_at ?w = (gen_at w)((StagedView n, svc) \<mapsto> ng)"
  proof
    show "gen_at ?w q = ((gen_at w)((StagedView n, svc) \<mapsto> ng)) q" for q
      using p(2) n by (cases q) (auto simp: gen_at_put_staged gen_at_staged)
  qed
  have "generations_ok ng' (gen_at ?w)"
    using generations_put [OF _ p(3) G] assms(1) by simp
  moreover have "staging_ok ?s"
    using assms(1) n nc by (intro staging_provided) (auto simp: list_all_length)
  ultimately show ?thesis using assms(1) G w' by (simp add: list_all_update)
qed

text \<open>Where an operation through a view takes effect: a committed staging stands for the host.\<close>

definition place :: "('v, 'c) reg_store \<Rightarrow> reg_view \<Rightarrow> reg_view" where
  "place w v =
    (case v of
       HostView \<Rightarrow> HostView
     | StagedView n \<Rightarrow>
         if n < length (stagings w) \<and> \<not> committed (stagings w ! n) then StagedView n else HostView)"

lemma provide_inv:
  assumes "reg_inv (w, ng)" and "reg_provide (chain w v) svc ty x repl ng = Some (r, ch, ng')"
  shows "reg_inv (put_chain v ch w, ng')"
    and "\<And>g old. r = Inr (g, old) \<Longrightarrow> gen_at (put_chain v ch w) = (gen_at w)((place w v, svc) \<mapsto> ng) \<and> ng < ng'"
    and "\<And>e. r = Inl e \<Longrightarrow> gen_at (put_chain v ch w) = gen_at w \<and> ng' = ng"
proof -
  have same: "put_chain v (chain w v) w = w"
    by (cases v) (auto simp: chain_def put_chain_def)
  have main: "reg_inv (put_chain v ch w, ng') \<and> gen_at (put_chain v ch w) = (gen_at w)((place w v, svc) \<mapsto> ng) \<and> ng < ng'"
    if r: "r = Inr (g, old)" for g old
  proof (cases v)
    case HostView
    then show ?thesis
      using provide_host_inv [OF assms(1), of svc ty x repl g old ch ng'] assms r
        provide_result(3) [of "host w" "[]"] by (auto simp: place_def)
  next
    case (StagedView n)
    have n: "n < length (stagings w)" using assms(2) StagedView by (cases "n < length (stagings w)") auto
    show ?thesis
    proof (cases "committed (stagings w ! n)")
      case False
      then show ?thesis
        using provide_staged_inv [OF assms(1) n False, of svc ty x repl g old ch ng'] assms r n StagedView
          provide_result(3) [of "stagings w ! n" "[host w]"] by (auto simp: place_def)
    next
      case True
      then obtain ps' where h: "reg_provide [host w] svc ty x repl ng = Some (Inr (g, old), ps', ng')"
        and ch: "ch = stagings w ! n # ps'"
        using assms(2) StagedView n r by auto
      obtain h' where h': "ps' = [h']" "reg_inv (w\<lparr>host := h'\<rparr>, ng')"
        "gen_at (w\<lparr>host := h'\<rparr>) = (gen_at w)((HostView, svc) \<mapsto> ng)"
        using provide_host_inv [OF assms(1) h] by auto
      have "put_chain v ch w = w\<lparr>host := h'\<rparr>" using StagedView ch h'(1) n by simp
      then show ?thesis using h' provide_result(3) [OF h] assms(1) StagedView True by (auto simp: place_def)
    qed
  qed
  have err: "reg_inv (put_chain v ch w, ng') \<and> gen_at (put_chain v ch w) = gen_at w \<and> ng' = ng"
    if "r = Inl e" for e
    using provide_error [of "chain w v" svc ty x repl ng e ch ng'] assms that same by simp
  show "reg_inv (put_chain v ch w, ng')" using main err by (cases r) auto
  show "\<And>g old. r = Inr (g, old) \<Longrightarrow> gen_at (put_chain v ch w) = (gen_at w)((place w v, svc) \<mapsto> ng) \<and> ng < ng'"
    using main by blast
  show "\<And>e. r = Inl e \<Longrightarrow> gen_at (put_chain v ch w) = gen_at w \<and> ng' = ng" using err by blast
qed

lemma remove_result:
  assumes "\<not> committed s" and "reg_remove_if_current (s # ps) svc g = (b, r')"
  shows "r' = s # ps \<and> \<not> b \<or> b \<and> map_option se_generation (bt_get (providers s) svc) = Some g \<and>
    r' = s\<lparr>providers := bt_remove svc (providers s), expected_parent := bt_remove svc (expected_parent s)\<rparr> # ps"
  using assms by (auto split: if_splits)

lemma generations_drop: "generations_ok ng G \<Longrightarrow> generations_ok ng (G(p := None))"
  by (rule generations_sub [of ng G _ id]) (auto split: if_splits)

lemma remove_inv:
  assumes "reg_inv (w, ng)" and "reg_remove_if_current (chain w v) svc g = (b, ch)"
  shows "reg_inv (put_chain v ch w, ng)"
    and "b \<Longrightarrow> gen_at w (place w v, svc) = Some g \<and> gen_at (put_chain v ch w) = (gen_at w)((place w v, svc) := None)"
    and "\<not> b \<Longrightarrow> put_chain v ch w = w"
proof -
  have same: "put_chain v (chain w v) w = w"
    by (cases v) (auto simp: chain_def put_chain_def)
  let ?rm = "\<lambda>s. s\<lparr>providers := bt_remove svc (providers s), expected_parent := bt_remove svc (expected_parent s)\<rparr>"
  have host: "reg_inv (w\<lparr>host := ?rm (host w)\<rparr>, ng) \<and>
      gen_at (w\<lparr>host := ?rm (host w)\<rparr>) = (gen_at w)((HostView, svc) := None)"
  proof -
    have G: "gen_at (w\<lparr>host := ?rm (host w)\<rparr>) = (gen_at w)((HostView, svc) := None)"
      by (auto simp: fun_eq_iff gen_at_put_host gen_at_host)
    then show ?thesis using assms(1) generations_drop by simp
  qed
  have *: "reg_inv (put_chain v ch w, ng) \<and>
    (b \<longrightarrow> gen_at w (place w v, svc) = Some g \<and> gen_at (put_chain v ch w) = (gen_at w)((place w v, svc) := None))
    \<and> (\<not> b \<longrightarrow> put_chain v ch w = w)"
  proof (cases v)
    case HostView
    then have "\<not> committed (host w)" "reg_remove_if_current [host w] svc g = (b, ch)" using assms by simp_all
    then show ?thesis
      using remove_result [of "host w" "[]" svc g b ch] host assms(1) HostView same
      by (auto simp: place_def gen_at_host)
  next
    case (StagedView n)
    show ?thesis
    proof (cases "n < length (stagings w)")
      case False
      then show ?thesis using assms StagedView by (simp add: place_def)
    next
      case n: True
      show ?thesis
      proof (cases "committed (stagings w ! n)")
        case True
        obtain r' where r': "reg_remove_if_current [host w] svc g = (b, r')" and ch: "ch = stagings w ! n # r'"
          using assms(2) StagedView n True by (auto split: prod.splits)
        have "\<not> committed (host w)" using assms(1) by simp
        then show ?thesis
          using remove_result [of "host w" "[]" svc g b r'] r' ch host assms(1) StagedView n True
          by (auto simp: place_def gen_at_host)
      next
        case False
        let ?w = "w\<lparr>stagings := (stagings w)[n := ?rm (stagings w ! n)]\<rparr>"
        have G: "gen_at ?w = (gen_at w)((StagedView n, svc) := None)"
          using n by (auto simp: fun_eq_iff gen_at_put_staged gen_at_staged)
        have "staging_ok (?rm (stagings w ! n))"
          using assms(1) n False by (intro staging_removed) (auto simp: list_all_length)
        then have "reg_inv (?w, ng)"
          using assms(1) G generations_drop by (simp add: list_all_update)
        then show ?thesis
          using remove_result [of "stagings w ! n" "[host w]" svc g b ch] assms StagedView n False G same
          by (auto simp: place_def gen_at_staged)
      qed
    qed
  qed
  show "reg_inv (put_chain v ch w, ng)"
    and "b \<Longrightarrow> gen_at w (place w v, svc) = Some g \<and> gen_at (put_chain v ch w) = (gen_at w)((place w v, svc) := None)"
    and "\<not> b \<Longrightarrow> put_chain v ch w = w"
    using * by auto
qed

text \<open>Where the generation at a place comes from after the commit of staging \<open>n\<close>.\<close>

lemma commit_gen_at:
  assumes n: "n < length (stagings w)" and "bt_wf (providers (stagings w ! n))"
    and w': "w' = w\<lparr>host := install (providers (stagings w ! n)) (host w),
      stagings := (stagings w)[n := (stagings w ! n)\<lparr>providers := [], expected_parent := [], committed := True\<rparr>]\<rparr>"
  shows "gen_at w' (StagedView n, svc) = None"
    and "gen_at w' (HostView, svc) =
      (case gen_at w (StagedView n, svc) of Some g \<Rightarrow> Some g | None \<Rightarrow> gen_at w (HostView, svc))"
    and "m \<noteq> n \<Longrightarrow> gen_at w' (StagedView m, svc) = gen_at w (StagedView m, svc)"
  using n install_get [OF assms(2), of "host w" svc]
  by (auto simp: w' gen_at_host gen_at_staged split: option.splits)

lemma commit_generations:
  assumes "generations_ok ng (gen_at w)" and n: "n < length (stagings w)" and wf: "bt_wf (providers (stagings w ! n))"
    and w': "w' = w\<lparr>host := install (providers (stagings w ! n)) (host w),
      stagings := (stagings w)[n := (stagings w ! n)\<lparr>providers := [], expected_parent := [], committed := True\<rparr>]\<rparr>"
  shows "generations_ok ng (gen_at w')" and "gen_at w' q = Some g \<Longrightarrow> \<exists>p. gen_at w p = Some g"
proof -
  note at = commit_gen_at [OF n wf w']
  define f where "f q = (if fst q = HostView \<and> gen_at w (StagedView n, snd q) \<noteq> None
      then (StagedView n, snd q) else q)" for q :: "reg_view \<times> resolved_service"
  have from_f: "gen_at w (f q) = Some g" if "gen_at w' q = Some g" for q g
    using that at by (cases q; cases "fst q = StagedView n"; cases "fst q") (auto simp: f_def split: option.splits if_splits)
  show "generations_ok ng (gen_at w')"
  proof (rule generations_sub [OF assms(1) from_f])
    fix p q g assume "gen_at w' p = Some g" "gen_at w' q = Some g" "f p = f q"
    moreover from this have "fst p \<noteq> StagedView n" "fst q \<noteq> StagedView n"
      using at(1) by (cases p; cases q; force)+
    ultimately show "p = q" by (cases p; cases q) (auto simp: f_def split: if_splits)
  qed
  show "gen_at w' q = Some g \<Longrightarrow> \<exists>p. gen_at w p = Some g" using from_f by blast
qed

lemma commit_inv:
  assumes "reg_inv (w, ng)" and "reg_commit (chain w v) = (r, ch)"
  shows "reg_inv (put_chain v ch w, ng)"
    and "gen_at (put_chain v ch w) q = Some g \<Longrightarrow> \<exists>p. gen_at w p = Some g"
proof -
  have *: "reg_inv (put_chain v ch w, ng) \<and> (gen_at (put_chain v ch w) q = Some g \<longrightarrow> (\<exists>p. gen_at w p = Some g))"
  proof (cases "\<exists>n. v = StagedView n \<and> n < length (stagings w) \<and> \<not> committed (stagings w ! n)
      \<and> try_each (expectation_met (host w)) (expected_parent (stagings w ! n)) = Inr ()")
    case False
    then have "ch = chain w v"
      using assms(2) by (cases v) (auto simp: chain_def split: if_splits sum.splits)
    then have same: "put_chain v ch w = w" by (cases v) (auto simp: chain_def put_chain_def)
    show ?thesis unfolding same using assms(1) by blast
  next
    case True
    then obtain n where n: "v = StagedView n" "n < length (stagings w)" "\<not> committed (stagings w ! n)"
      and met: "try_each (expectation_met (host w)) (expected_parent (stagings w ! n)) = Inr ()" by blast
    let ?s = "stagings w ! n"
    have ok: "staging_ok ?s" using assms(1) n by (auto simp: list_all_length)
    then have wf: "bt_wf (providers ?s)" by (simp add: staging_ok_def)
    have w': "put_chain v ch w = w\<lparr>host := install (providers ?s) (host w),
      stagings := (stagings w)[n := ?s\<lparr>providers := [], expected_parent := [], committed := True\<rparr>]\<rparr>"
      using assms(2) n met by auto
    have "committed (install (providers ?s) (host w)) = committed (host w)" by (simp add: install_def)
    moreover have "staging_ok (?s\<lparr>providers := [], expected_parent := [], committed := True\<rparr>)"
      by (simp add: staging_ok_def bt_keys_def)
    moreover have "generations_ok ng (gen_at w)" "list_all staging_ok (stagings w)" "bt_wf (providers (host w))"
      "\<not> committed (host w)"
      using assms(1) by simp_all
    ultimately show ?thesis
      using commit_generations [OF _ n(2) wf w'] install_wf [of "host w" "providers ?s"] unfolding w' by (simp add: list_all_update)
  qed
  show "reg_inv (put_chain v ch w, ng)"
    and "gen_at (put_chain v ch w) q = Some g \<Longrightarrow> \<exists>p. gen_at w p = Some g"
    using * by auto
qed

lemma stage_gen_at: "gen_at (w\<lparr>stagings := stagings w @ [registry_state_new]\<rparr>) = gen_at w"
proof
  show "gen_at (w\<lparr>stagings := stagings w @ [registry_state_new]\<rparr>) q = gen_at w q" for q
    by (cases q; cases "fst q") (auto simp: gen_at_def nth_append registry_state_new_def)
qed

lemma stage_inv:
  "reg_inv (w, ng) \<Longrightarrow> reg_inv (w\<lparr>stagings := stagings w @ [registry_state_new]\<rparr>, ng)"
  by (simp add: stage_gen_at) (simp add: registry_state_new_def staging_ok_def bt_keys_def bt_wf_def)

lemma generations_mono: "generations_ok ng G \<Longrightarrow> ng \<le> ng' \<Longrightarrow> generations_ok ng' G"
  unfolding generations_ok_def by (meson order.strict_trans2)

interpretation registry: transition_invariant reg_start "exec_rel reg_exec" reg_inv
proof
  show "reg_start \<sigma> \<Longrightarrow> reg_inv \<sigma>" for \<sigma> :: "('v, 'c) reg_store \<times> u64"
  proof (cases \<sigma>)
    case (Pair w ng)
    assume "reg_start \<sigma>"
    moreover from this have "gen_at w p = None" for p
      using Pair by (cases p; cases "fst p") (auto simp: gen_at_def registry_state_new_def)
    ultimately show ?thesis using Pair
      by (simp add: registry_state_new_def generations_ok_def)
  qed
  show "reg_inv \<sigma> \<Longrightarrow> exec_rel reg_exec \<sigma> l \<tau> \<Longrightarrow> reg_inv \<tau>" for \<sigma> \<tau> :: "('v, 'c) reg_store \<times> u64" and l
  proof (cases \<sigma>)
    case (Pair w ng)
    assume inv: "reg_inv \<sigma>" and step: "exec_rel reg_exec \<sigma> l \<tau>"
    show ?thesis
    proof (cases l)
      case Stage
      then have "\<tau> = (w\<lparr>stagings := stagings w @ [registry_state_new]\<rparr>, ng)"
        using step Pair by (simp add: exec_rel_def)
      then show ?thesis using inv Pair stage_inv [of w ng] by blast
    next
      case (Provide v svc ty x repl)
      then obtain r ch ng' where p: "reg_provide (chain w v) svc ty x repl ng = Some (r, ch, ng')"
        and \<tau>: "\<tau> = (put_chain v ch w, ng')"
        using step Pair by (auto simp: exec_rel_def)
      show ?thesis using provide_inv(1) [OF _ p] inv unfolding Pair \<tau> by blast
    next
      case (RemoveCurrent v svc g)
      obtain b ch where rm: "reg_remove_if_current (chain w v) svc g = (b, ch)" by fastforce
      then have \<tau>: "\<tau> = (put_chain v ch w, ng)" using step Pair RemoveCurrent by (simp add: exec_rel_def)
      show ?thesis using remove_inv(1) [OF _ rm] inv unfolding Pair \<tau> by blast
    next
      case (Commit v)
      obtain r ch where cm: "reg_commit (chain w v) = (r, ch)" by fastforce
      then have \<tau>: "\<tau> = (put_chain v ch w, ng)" using step Pair Commit by (simp add: exec_rel_def)
      show ?thesis using commit_inv(1) [OF _ cm] inv unfolding Pair \<tau> by blast
    next
      case Tick
      then obtain ng' where "ng < ng'" "\<tau> = (w, ng')"
        using step Pair next_id_less by (auto simp: exec_rel_def next_id_Some)
      then show ?thesis using inv Pair generations_mono [of ng "gen_at w" ng'] by auto
    qed
  qed
qed

text \<open>A generation is dead when it was handed out and no registry provides it.\<close>

fun dead :: "generation \<Rightarrow> ('v, 'c) reg_store \<times> u64 \<Rightarrow> bool" where
  "dead g (w, ng) \<longleftrightarrow> g < ng \<and> (\<forall>p. gen_at w p \<noteq> Some g)"

lemma dead_step:
  assumes inv: "reg_inv (w, ng)" and "reg_exec l (w, ng) = Some \<tau>" and "dead g (w, ng)"
  shows "dead g \<tau>"
proof (cases l)
  case Stage
  then show ?thesis using assms(2,3) by (auto simp: stage_gen_at)
next
  case (Provide v svc ty x repl)
  then obtain r ch ng' where p: "reg_provide (chain w v) svc ty x repl ng = Some (r, ch, ng')"
    and \<tau>: "\<tau> = (put_chain v ch w, ng')"
    using assms(2) by auto
  show ?thesis
  proof (cases r)
    case (Inl e)
    then show ?thesis using provide_inv(3) [OF inv p] assms(3) \<tau> by simp
  next
    case (Inr a)
    obtain g' old where "a = (g', old)" by (cases a)
    then have "gen_at (put_chain v ch w) = (gen_at w)((place w v, svc) \<mapsto> ng)" "ng < ng'"
      using provide_inv(2) [OF inv p] Inr by auto
    then show ?thesis using assms(3) \<tau> by (auto split: if_splits)
  qed
next
  case (RemoveCurrent v svc g')
  obtain b ch where rm: "reg_remove_if_current (chain w v) svc g' = (b, ch)" by fastforce
  then show ?thesis using remove_inv(2,3) [OF inv rm] assms(2,3) RemoveCurrent
    by (cases b) (auto split: if_splits)
next
  case (Commit v)
  obtain r ch where "reg_commit (chain w v) = (r, ch)" by fastforce
  then show ?thesis using commit_inv(2) [OF inv] assms(2,3) Commit by fastforce
next
  case Tick
  then show ?thesis using assms(2,3) next_id_less [of ng] by (auto simp: next_id_Some)
qed

abbreviation reg_guarded :: "('v, 'c) reg_store \<times> u64 \<Rightarrow> 'v reg_step \<Rightarrow> ('v, 'c) reg_store \<times> u64 \<Rightarrow> bool" where
  "reg_guarded \<sigma> l \<tau> \<equiv> reg_inv \<sigma> \<and> exec_rel reg_exec \<sigma> l \<tau>"

interpretation dead_forever: transition_monotone reg_guarded "\<lambda>\<sigma> \<tau>. dead g \<sigma> \<longrightarrow> dead g \<tau>" for g
proof
  show "reg_guarded \<sigma> l \<tau> \<Longrightarrow> dead g \<sigma> \<longrightarrow> dead g \<tau>" for \<sigma> \<tau> :: "('v, 'c) reg_store \<times> u64" and l
    unfolding exec_rel_def using dead_step by (cases \<sigma>) blast
qed auto

abbreviation reg_reach :: "('v, 'c) reg_store \<times> u64 \<Rightarrow> bool" where
  "reg_reach \<equiv> reach reg_start (exec_rel reg_exec)"

subsection \<open>Properties\<close>

lemma provide_error_cause:
  assumes "reg_provide (s # ps) svc ty x repl ng = Some (Inl e, r', ng')" and "\<not> committed s"
  shows "repl = (reg_entry (s # ps) svc = None)"
proof -
  have "bt_contains (providers s) svc \<or> map_option se_generation (reg_entry ps svc) \<noteq> None \<longleftrightarrow>
      reg_entry (s # ps) svc \<noteq> None"
    using assms(2) by (auto simp: bt_contains_def split: option.splits)
  then show ?thesis
    using assms by (auto simp: reg_provide.simps Let_def bind_eq_Some_conv simp del: reg_entry.simps split: if_splits)
qed

text \<open>Stale handles stay stale: once a provider of the host registry has been replaced, a
  handle of its generation is never current again, through any view, whatever providing,
  replacing, removing, staging and committing follows.\<close>

theorem replaced_generation_never_current:
  fixes w :: "('v, 'c) reg_store"
  assumes "reg_reach (w, ng)" and "bt_get (providers (host w)) svc = Some e"
    and "reg_exec (Provide HostView svc ty x True) (w, ng) = Some \<sigma>"
    and "exec_run reg_exec ls \<sigma> = Some (w', ng')"
  shows "\<not> reg_is_current (chain w' v) svc' (se_generation e)"
proof -
  let ?g = "se_generation e"
  have inv: "reg_inv (w, ng)" by (rule registry.inv_reach [OF assms(1)])
  obtain r ch ng1 where p: "reg_provide [host w] svc ty x True ng = Some (r, ch, ng1)"
    and \<sigma>: "\<sigma> = (put_chain HostView ch w, ng1)"
    using assms(3) by auto
  have at: "gen_at w (HostView, svc) = Some ?g" using assms(2) by (simp add: gen_at_host)
  have gens: "generations_ok ng (gen_at w)" and nc: "\<not> committed (host w)" using inv by simp_all
  have "r \<noteq> Inl d" for d
    using p nc assms(2) by (auto simp: reg_provide.simps Let_def bt_contains_def bind_eq_Some_conv split: if_splits)
  then obtain g old where r: "r = Inr (g, old)" by (cases r) auto
  have G: "gen_at (put_chain HostView ch w) = (gen_at w)((HostView, svc) \<mapsto> ng)" "ng < ng1"
    using provide_inv(2) [OF inv, of HostView svc ty x True r ch ng1 g old] p r by (auto simp: place_def)
  have "?g < ng" "\<forall>p. gen_at w p = Some ?g \<longrightarrow> p = (HostView, svc)"
    using gens at unfolding generations_ok_def by blast+
  then have "dead ?g \<sigma>" using G \<sigma> by (auto split: if_splits)
  moreover have "run (exec_rel reg_exec) \<sigma> ls (w', ng')" by (rule exec_run_run [OF assms(4)])
  moreover have "reg_inv \<sigma>" using registry.inv_step [OF inv] assms(3) unfolding exec_rel_def by blast
  ultimately have "dead ?g (w', ng')"
    using dead_forever.le_run registry.run_guarded by blast
  then show ?thesis using current_live by fastforce
qed

text \<open>C8: A commit is atomic and loses no concurrent update: it fails with the host and the
  staging unchanged iff the generation the host provides for some staged service is not the
  one the staging saw when it first wrote that service; otherwise it installs everything, and
  every service is seen through the staging, and now through the host, as it was through the
  staging before.\<close>

theorem commit_is_atomic:
  fixes w :: "('v, 'c) reg_store"
  assumes "reg_reach (w, ng)" and "n < length (stagings w)" and "\<not> committed (stagings w ! n)"
    and "reg_commit (chain w (StagedView n)) = (r, ch)"
  shows "(case r of
      Inl e \<Rightarrow> ch = chain w (StagedView n) \<and>
        (\<exists>svc. bt_contains (providers (stagings w ! n)) svc \<and>
          bt_get (expected_parent (stagings w ! n)) svc \<noteq> Some (gen_at w (HostView, svc)))
    | Inr svcs \<Rightarrow> svcs = bt_keys (providers (stagings w ! n)) \<and>
        (\<forall>svc. bt_contains (providers (stagings w ! n)) svc \<longrightarrow>
          bt_get (expected_parent (stagings w ! n)) svc = Some (gen_at w (HostView, svc))) \<and>
        (\<forall>svc. reg_entry ch svc = reg_entry (chain w (StagedView n)) svc \<and>
          reg_entry (tl ch) svc = reg_entry (chain w (StagedView n)) svc))"
proof -
  let ?s = "stagings w ! n"
  have inv: "reg_inv (w, ng)" by (rule registry.inv_reach [OF assms(1)])
  then have ok: "staging_ok ?s" and nc: "\<not> committed (host w)" using assms(2) by (auto simp: list_all_length)
  have keys: "bt_contains (providers ?s) svc \<longleftrightarrow> bt_contains (expected_parent ?s) svc" for svc
  proof -
    have "set (bt_keys (providers ?s)) = set (bt_keys (expected_parent ?s))"
      using ok by (simp only: staging_ok_def)
    then show ?thesis unfolding bt_keys_set bt_contains_def by blast
  qed
  have wf: "bt_wf (expected_parent ?s)" "bt_wf (providers ?s)" using ok by (simp_all add: staging_ok_def)
  have met: "expectation_met (host w) (svc, x) = Inr () \<longleftrightarrow> x = gen_at w (HostView, svc)" for svc x
    by (auto simp: expectation_met_def gen_at_host)
  have all: "try_each (expectation_met (host w)) (expected_parent ?s) = Inr () \<longleftrightarrow>
      (\<forall>svc. bt_contains (providers ?s) svc \<longrightarrow>
          bt_get (expected_parent ?s) svc = Some (gen_at w (HostView, svc)))"
  proof -
    have "try_each (expectation_met (host w)) (expected_parent ?s) = Inr () \<longleftrightarrow>
        (\<forall>svc x. bt_get (expected_parent ?s) svc = Some x \<longrightarrow> x = gen_at w (HostView, svc))"
      unfolding try_each_ok using bt_get_set [OF wf(1)] met by (metis surj_pair)
    then show ?thesis unfolding keys unfolding bt_contains_def by auto
  qed
  note res = commit_result [of ?s "host w" "[]" r ch]
  show ?thesis
  proof (cases r)
    case (Inl e)
    then have "ch = [?s, host w]" "try_each (expectation_met (host w)) (expected_parent ?s) \<noteq> Inr ()"
      using res assms(2-4) by auto
    then show ?thesis using Inl all assms(2) by simp
  next
    case (Inr svcs)
    then have ch: "ch = [?s\<lparr>providers := [], expected_parent := [], committed := True\<rparr>, install (providers ?s) (host w)]"
      and "svcs = bt_keys (providers ?s)" "try_each (expectation_met (host w)) (expected_parent ?s) = Inr ()"
      using res assms(2-4) by auto
    moreover have "\<not> committed (install (providers ?s) (host w))" using nc by (simp add: install_def)
    then have "reg_entry (tl ch) svc = reg_entry (chain w (StagedView n)) svc \<and> reg_entry ch svc = reg_entry (tl ch) svc" for svc
      using install_get [OF wf(2), of "host w" svc] nc assms(2,3) by (auto simp: ch split: option.splits)
    ultimately show ?thesis using Inr all by simp
  qed
qed

text \<open>Providing is strict: without \<open>replace\<close> it succeeds iff the service is not visible
  through the view, with \<open>replace\<close> iff it is; an error changes nothing, and a success makes the
  new value, under a generation never used before, what the view sees, and leaves every other
  service as it was.\<close>

theorem provide_is_strict:
  assumes "reg_provide (s # ps) svc ty x repl ng = Some (r, r', ng')" and "\<not> committed s"
  shows "(case r of
      Inl e \<Rightarrow> repl = (reg_entry (s # ps) svc = None) \<and> r' = s # ps \<and> ng' = ng
    | Inr (g, old) \<Rightarrow> repl = (reg_entry (s # ps) svc \<noteq> None) \<and> g = ng
        \<and> reg_entry r' = (reg_entry (s # ps))(svc \<mapsto> \<lparr>se_generation = g, se_type = ty, se_value = x\<rparr>)
        \<and> old = bt_get (providers s) svc \<and> tl r' = ps)"
proof (cases r)
  case (Inl e)
  then have "r' = s # ps \<and> ng' = ng" using provide_error [of "s # ps"] assms(1) by simp
  moreover have "repl = (reg_entry (s # ps) svc = None)"
    by (rule provide_error_cause [OF _ assms(2)]) (use assms(1) Inl in simp)
  ultimately show ?thesis using Inl by simp
next
  case (Inr a)
  obtain g old where a: "a = (g, old)" by (cases a)
  note p = provide_result [of s ps svc ty x repl ng g old r' ng']
  have "reg_entry r' = (reg_entry (s # ps))(svc \<mapsto> \<lparr>se_generation = g, se_type = ty, se_value = x\<rparr>)"
    using p(1) assms Inr a by (auto simp: fun_eq_iff)
  then show ?thesis using p assms Inr a by auto
qed

lemma ready_iff:
  "ds_ready (dependency_snapshot_from s ds) \<longleftrightarrow>
    list_all (\<lambda>d. rd_required d \<longrightarrow> bt_contains (providers s) (rd_service d)) ds"
proof -
  have "list_all (\<lambda>(d, x). \<not> rd_required d \<or> ss_available x)
      (zip ds (map (\<lambda>d. snapshot_from s (rd_service d) (rd_intercepts d)) ds)) \<longleftrightarrow>
    list_all (\<lambda>d. rd_required d \<longrightarrow> bt_contains (providers s) (rd_service d)) ds"
    by (induction ds) (auto simp: snapshot_from_def snapshot_of_entry_def bt_contains_def)
  then show ?thesis by (simp add: dependency_snapshot_from_def ready_of_def Let_def)
qed

subsection \<open>A sample store\<close>

text \<open>
  A service provided at generation 1, replaced in a staging at 2 and, concurrently, in the
  host at 3.
\<close>

definition sample_service :: resolved_service where
  "sample_service = ResolvedService (ServiceKey ''db'' ''v1'') RealmRoot"

definition sample_store :: "(nat, nat) reg_store \<times> u64" where
  "sample_store = (\<lparr>host = registry_state_new, stagings = []\<rparr>, 1)"

definition store_after :: "nat reg_step list \<Rightarrow> (nat, nat) reg_store \<times> u64" where
  "store_after ls = the (exec_run reg_exec ls sample_store)"

definition sample_steps :: "nat reg_step list" where
  "sample_steps = [Provide HostView sample_service ''u8'' 1 False, Stage,
     Provide (StagedView 0) sample_service ''u8'' 2 True]"

lemma store_after_reach:
  "\<not> Option.is_none (exec_run reg_exec ls sample_store) \<Longrightarrow> reg_reach (store_after ls)"
  by (rule exec_run_reach [of reg_exec ls sample_store])
    (cases "exec_run reg_exec ls sample_store"; simp add: store_after_def sample_store_def)+

lemma sample_steps_run:
  "\<not> Option.is_none (exec_run reg_exec sample_steps sample_store)"
  "\<not> Option.is_none (exec_run reg_exec (Provide HostView sample_service ''u8'' 3 True # [Commit (StagedView 0)])
      (store_after sample_steps))"
  by code_simp+

theorem replaced_generation_never_current_witness:
  "\<not> reg_is_current (chain (fst (the (exec_run reg_exec
      (Provide HostView sample_service ''u8'' 3 True # [Commit (StagedView 0)]) (store_after sample_steps)))) HostView)
    sample_service 1"
proof -
  obtain w ng where w: "store_after sample_steps = (w, ng)" by (cases "store_after sample_steps")
  let ?l = "Provide HostView sample_service ''u8'' 3 True"
  obtain \<tau> where run: "exec_run reg_exec (?l # [Commit (StagedView 0)]) (store_after sample_steps) = Some \<tau>"
    using sample_steps_run(2)
    by (cases "exec_run reg_exec (?l # [Commit (StagedView 0)]) (store_after sample_steps)") auto
  obtain w' ng' where \<tau>: "\<tau> = (w', ng')" by (cases \<tau>)
  obtain \<sigma> where steps: "reg_exec ?l (w, ng) = Some \<sigma>" "exec_run reg_exec [Commit (StagedView 0)] \<sigma> = Some (w', ng')"
    using run unfolding w \<tau> exec_run.simps(2) [of reg_exec ?l] by (cases "reg_exec ?l (w, ng)") auto
  have "map_option se_generation (bt_get (providers (host (fst (store_after sample_steps)))) sample_service) = Some 1"
    by code_simp
  then obtain e where e: "bt_get (providers (host w)) sample_service = Some e" "se_generation e = 1"
    using w by auto
  have "reg_reach (w, ng)" using store_after_reach [OF sample_steps_run(1)] w by simp
  from replaced_generation_never_current [OF this e(1) steps, of HostView sample_service] e(2)
  show ?thesis using run \<tau> by simp
qed

theorem commit_is_atomic_witness:
  "fst (reg_commit (chain (fst (store_after sample_steps)) (StagedView 0))) = Inr [sample_service]"
proof -
  obtain w ng where w: "store_after sample_steps = (w, ng)" by (cases "store_after sample_steps")
  obtain r ch where rc: "reg_commit (chain w (StagedView 0)) = (r, ch)" by fastforce
  have reach: "reg_reach (w, ng)" using store_after_reach [OF sample_steps_run(1)] w by simp
  have "0 < length (stagings (fst (store_after sample_steps)))
      \<and> \<not> committed (stagings (fst (store_after sample_steps)) ! 0)
      \<and> bt_keys (providers (stagings (fst (store_after sample_steps)) ! 0)) = [sample_service]
      \<and> bt_get (expected_parent (stagings (fst (store_after sample_steps)) ! 0)) sample_service
          = Some (gen_at (fst (store_after sample_steps)) (HostView, sample_service))"
    by code_simp
  then have s: "0 < length (stagings w)" "\<not> committed (stagings w ! 0)"
    "bt_keys (providers (stagings w ! 0)) = [sample_service]"
    "bt_get (expected_parent (stagings w ! 0)) sample_service = Some (gen_at w (HostView, sample_service))"
    using w by simp_all
  have only: "bt_contains (providers (stagings w ! 0)) svc \<longleftrightarrow> svc = sample_service" for svc
    using bt_keys_set [of "providers (stagings w ! 0)"] s(3) unfolding bt_contains_def by auto
  show ?thesis
    using commit_is_atomic [OF reach s(1,2) rc] s(3,4) only w rc by (cases r) auto
qed

theorem provide_is_strict_witness:
  "reg_provide [registry_state_new] sample_service ''u8'' (7 :: nat) False 1
      = Some (Inr (1, None), [provided None False sample_service
          \<lparr>se_generation = 1, se_type = ''u8'', se_value = 7\<rparr> (registry_state_new :: (nat, nat) registry_state)], 2)
    \<and> reg_entry [provided None False sample_service
          \<lparr>se_generation = 1, se_type = ''u8'', se_value = 7\<rparr> (registry_state_new :: (nat, nat) registry_state)]
        sample_service = Some \<lparr>se_generation = 1, se_type = ''u8'', se_value = 7\<rparr>"
proof -
  let ?s = "registry_state_new :: (nat, nat) registry_state"
  let ?e = "\<lparr>se_generation = 1, se_type = ''u8'', se_value = 7\<rparr>"
  have run: "reg_provide [?s] sample_service ''u8'' 7 False 1
      = Some (Inr (1, None), [provided None False sample_service ?e ?s], 2)"
    by code_simp
  moreover have "\<not> committed ?s" by (simp add: registry_state_new_def)
  ultimately show ?thesis using provide_is_strict [OF run] by simp
qed

end
