(* ===== verification/Context.thy ===== *)
theory Context
  imports Registry Lifecycle
begin

section \<open>Contexts (context.rs)\<close>

text \<open>
  The world of a context tree: the lifecycle store, whose counters the registry shares, the
  host registry, the registries staged on it, and the cleanup closures that the lifecycle's
  disposers name. A handle names its registry by a \<open>reg_view\<close>. User callbacks are functions on the
  world, passed as \<open>call\<close>. Contexts keep no mutable state of their own.
\<close>

datatype cleanup_action =
    RemoveService reg_view resolved_service generation
  | Unregister resource_id
  | OtherCleanup

record ('v, 'c) world = "('v, 'c) reg_store" +
  life :: lifecycle
  actions :: "cleanup_action list"

record ctx =
  cx_scope :: scope_id
  cx_view :: reg_view
  cx_realms :: "(service_key, realm) btree"
  cx_intercepts :: "(service_key, json list) btree"

text \<open>A typed handle: the registry, the service and the generation it was made for.\<close>

record 'v service_handle =
  sh_view :: reg_view
  sh_service :: resolved_service
  sh_generation :: generation
  sh_value :: 'v

subsection \<open>Immutable views\<close>

definition context_root :: "scope_id \<Rightarrow> ctx" where
  "context_root s = \<lparr>cx_scope = s, cx_view = HostView, cx_realms = [], cx_intercepts = []\<rparr>"

definition with_scope :: "ctx \<Rightarrow> scope_id \<Rightarrow> ctx" where
  "with_scope cx s = cx\<lparr>cx_scope := s\<rparr>"

text \<open>\<open>staged\<close> always stages on the host registry, whatever view it is called on.\<close>

definition staged :: "ctx \<Rightarrow> ('v, 'c) world \<Rightarrow> ctx \<times> ('v, 'c) world" where
  "staged cx w =
    (cx\<lparr>cx_view := StagedView (length (stagings w))\<rparr>,
     w\<lparr>stagings := stagings w @ [hd (registry_staged [host w])]\<rparr>)"

definition context_child ::
  "ctx \<Rightarrow> ('v, 'c) world \<Rightarrow> ((core_error + ctx) \<times> ('v, 'c) world) option" where
  "context_child cx w =
    map_option (\<lambda>(r, m). (map_sum id (with_scope cx) r, w\<lparr>life := m\<rparr>))
      (scope_child (cx_scope cx) (life w))"

definition isolate ::
  "ctx \<Rightarrow> service_key \<Rightarrow> realm_label option \<Rightarrow> ('v, 'c) world \<Rightarrow> (ctx \<times> ('v, 'c) world) option" where
  "isolate cx svc label w =
    (case label of
       Some l \<Rightarrow> Some (cx\<lparr>cx_realms := bt_insert svc (RealmShared l) (cx_realms cx)\<rparr>, w)
     | None \<Rightarrow>
         Option.bind (next_id (next_generation (life w))) (\<lambda>(g, ng).
           Some (cx\<lparr>cx_realms := bt_insert svc (RealmPrivate g) (cx_realms cx)\<rparr>,
                 w\<lparr>life := (life w)\<lparr>next_generation := ng\<rparr>\<rparr>)))"

definition intercept :: "ctx \<Rightarrow> service_key \<Rightarrow> json \<Rightarrow> ctx" where
  "intercept cx svc v =
    cx\<lparr>cx_intercepts := bt_adjust svc [] (\<lambda>vs. vs @ [v]) (cx_intercepts cx)\<rparr>"

definition intercept_chain :: "ctx \<Rightarrow> service_key \<Rightarrow> json list" where
  "intercept_chain cx svc = (case bt_get (cx_intercepts cx) svc of None \<Rightarrow> [] | Some vs \<Rightarrow> vs)"

definition merge_intercept :: "json \<Rightarrow> (string, json) btree \<Rightarrow> (string, json) btree" where
  "merge_intercept v merged =
    (case v of JObj config \<Rightarrow> fold (\<lambda>(k, x) m. bt_insert k x m) config merged | _ \<Rightarrow> merged)"

definition intercept_config :: "ctx \<Rightarrow> service_key \<Rightarrow> json" where
  "intercept_config cx svc = JObj (fold merge_intercept (intercept_chain cx svc) [])"

definition resolve :: "ctx \<Rightarrow> service_key \<Rightarrow> resolved_service" where
  "resolve cx svc =
    ResolvedService svc (case bt_get (cx_realms cx) svc of None \<Rightarrow> RealmRoot | Some r \<Rightarrow> r)"

subsection \<open>Notification\<close>

type_synonym ('v, 'c) callbacks = "'c \<Rightarrow> dependency_snapshot \<Rightarrow> ('v, 'c) world \<Rightarrow> ('v, 'c) world"

definition deliver ::
  "('v, 'c) callbacks \<Rightarrow> ('c \<times> dependency_snapshot) list \<Rightarrow> ('v, 'c) world \<Rightarrow> ('v, 'c) world" where
  "deliver call ds w = fold (\<lambda>(c, s) w. call c s w) ds w"

definition notify ::
  "('v, 'c) callbacks \<Rightarrow> reg_view \<Rightarrow> resolved_service \<Rightarrow> ('v, 'c) world \<Rightarrow> ('v, 'c) world option" where
  "notify call v svc w = map_option (\<lambda>ds. deliver call ds w) (reg_notify (chain w v) svc)"

fun notify_each ::
  "('v, 'c) callbacks \<Rightarrow> reg_view \<Rightarrow> resolved_service list \<Rightarrow> ('v, 'c) world \<Rightarrow> ('v, 'c) world option" where
  "notify_each call v [] w = Some w"
| "notify_each call v (svc # svcs) w = Option.bind (notify call v svc w) (notify_each call v svcs)"

definition commit_staged ::
  "('v, 'c) callbacks \<Rightarrow> ctx \<Rightarrow> ('v, 'c) world \<Rightarrow> ((core_error + unit) \<times> ('v, 'c) world) option" where
  "commit_staged call cx w =
    (let (r, ch) = reg_commit (chain w (cx_view cx)); w' = put_chain (cx_view cx) ch w in
     case r of
       Inl e \<Rightarrow> Some (Inl e, w')
     | Inr svcs \<Rightarrow> map_option (\<lambda>w''. (Inr (), w'')) (notify_each call HostView svcs w'))"

subsection \<open>Providers\<close>

text \<open>What the setup closure of \<open>publish_service\<close> works on: the registries, the actions, the counter.\<close>

definition provide_setup ::
  "reg_view \<Rightarrow> resolved_service \<Rightarrow> string \<Rightarrow> 'v \<Rightarrow> bool \<Rightarrow> ('v, 'c) world \<times> u64 \<Rightarrow>
    ((core_error + generation \<times> disposer) \<times> ('v, 'c) world \<times> u64) option" where
  "provide_setup v svc ty x repl wn =
    (let (w, ng) = wn in
     map_option (\<lambda>(r, ch, ng').
        (case r of
           Inl e \<Rightarrow> (Inl e, put_chain v ch w, ng')
         | Inr (g, retired) \<Rightarrow>
             (Inr (g, length (actions w)),
              (put_chain v ch w)\<lparr>actions := actions w @ [RemoveService v svc g]\<rparr>, ng')))
      (reg_provide (chain w v) svc ty x repl ng))"

definition publish_service ::
  "('v, 'c) callbacks \<Rightarrow> ctx \<Rightarrow> service_key \<Rightarrow> string \<Rightarrow> 'v \<Rightarrow> bool \<Rightarrow> ('v, 'c) world \<Rightarrow>
    ((core_error + 'v service_handle) \<times> ('v, 'c) world) option" where
  "publish_service call cx key ty x repl w =
    (let svc = resolve cx key in
     Option.bind
       (add_effect_with (cx_scope cx) (''service:'' @ diagnostic_key key)
          (provide_setup (cx_view cx) svc ty x repl) (life w) (w, next_generation (life w)))
       (\<lambda>(r, m, w1, ng).
          let w2 = w1\<lparr>life := m\<lparr>next_generation := ng\<rparr>\<rparr> in
          case r of
            Inl e \<Rightarrow> Some (Inl e, w2)
          | Inr (i, g) \<Rightarrow>
              map_option
                (\<lambda>w3. (Inr \<lparr>sh_view = cx_view cx, sh_service = svc, sh_generation = g, sh_value = x\<rparr>, w3))
                (notify call (cx_view cx) svc w2)))"

definition context_provide ::
  "('v, 'c) callbacks \<Rightarrow> ctx \<Rightarrow> service_key \<Rightarrow> string \<Rightarrow> 'v \<Rightarrow> ('v, 'c) world \<Rightarrow>
    ((core_error + 'v service_handle) \<times> ('v, 'c) world) option" where
  "context_provide call cx key ty x w = publish_service call cx key ty x False w"

definition context_replace ::
  "('v, 'c) callbacks \<Rightarrow> ctx \<Rightarrow> service_key \<Rightarrow> string \<Rightarrow> 'v \<Rightarrow> ('v, 'c) world \<Rightarrow>
    ((core_error + 'v service_handle) \<times> ('v, 'c) world) option" where
  "context_replace call cx key ty x w = publish_service call cx key ty x True w"

text \<open>The body of a cleanup closure, when the lifecycle runs its disposer.\<close>

definition run_action ::
  "('v, 'c) callbacks \<Rightarrow> disposer \<Rightarrow> ('v, 'c) world \<Rightarrow> ('v, 'c) world option" where
  "run_action call d w =
    (if d < length (actions w) then
       (case actions w ! d of
          RemoveService v svc g \<Rightarrow>
            (let (removed, ch) = reg_remove_if_current (chain w v) svc g; w' = put_chain v ch w in
             if removed then notify call v svc w' else Some w')
        | Unregister i \<Rightarrow> Some (put_chain HostView (snd (unregister_listener (chain w HostView) i)) w)
        | OtherCleanup \<Rightarrow> Some w)
     else Some w)"

definition context_get ::
  "ctx \<Rightarrow> service_key \<Rightarrow> string \<Rightarrow> ('v, 'c) world \<Rightarrow> core_error + 'v service_handle option" where
  "context_get cx key ty w =
    (let svc = resolve cx key in
     case reg_entry (chain w (cx_view cx)) svc of
       None \<Rightarrow> Inr None
     | Some e \<Rightarrow>
         if se_type e \<noteq> ty then Inl (ServiceTypeMismatch (diagnostic_key key))
         else Inr (Some \<lparr>sh_view = cx_view cx, sh_service = svc, sh_generation = se_generation e,
                sh_value = se_value e\<rparr>))"

definition handle_is_current :: "'v service_handle \<Rightarrow> ('v, 'c) world \<Rightarrow> bool" where
  "handle_is_current h w = reg_is_current (chain w (sh_view h)) (sh_service h) (sh_generation h)"

definition handle_with :: "'v service_handle \<Rightarrow> ('v \<Rightarrow> 'r) \<Rightarrow> ('v, 'c) world \<Rightarrow> core_error + 'r" where
  "handle_with h operation w =
    (if handle_is_current h w then Inr (operation (sh_value h))
     else Inl (StaleServiceHandle (diagnostic_key (rs_key (sh_service h))) (sh_generation h)))"

definition context_snapshot :: "ctx \<Rightarrow> service_key \<Rightarrow> ('v, 'c) world \<Rightarrow> service_snapshot" where
  "context_snapshot cx key w = reg_snapshot (chain w (cx_view cx)) (resolve cx key) (intercept_chain cx key)"

definition snapshots :: "ctx \<Rightarrow> ('v, 'c) world \<Rightarrow> service_snapshot list" where
  "snapshots cx w =
    map (\<lambda>svc. reg_snapshot (chain w (cx_view cx)) svc (intercept_chain cx (rs_key svc)))
      (filter (\<lambda>svc. resolve cx (rs_key svc) = svc) (provider_services (chain w (cx_view cx))))"

subsection \<open>Subscriptions\<close>

definition resolve_dependency :: "ctx \<Rightarrow> dependency \<Rightarrow> resolved_dependency" where
  "resolve_dependency cx d =
    \<lparr>rd_service = resolve cx (dependency_key d), rd_required = is_required d,
     rd_intercepts = intercept_chain cx (dependency_key d)\<rparr>"

text \<open>\<open>DependencySubscription::unsubscribe\<close>, and \<open>subscribe\<close>, which registers in the host.\<close>

definition unsubscribe :: "resource_id \<Rightarrow> ('v, 'c) world \<Rightarrow> bool \<times> ('v, 'c) world" where
  "unsubscribe i w =
    (let (b, ch) = unregister_listener (chain w HostView) i in (b, put_chain HostView ch w))"

definition subscribe ::
  "('v, 'c) callbacks \<Rightarrow> ctx \<Rightarrow> dependency list \<Rightarrow> 'c \<Rightarrow> ('v, 'c) world \<Rightarrow>
    ((core_error + resource_id) \<times> ('v, 'c) world) option" where
  "subscribe call cx deps cb w =
    (let ds = map (resolve_dependency cx) deps in
     Option.bind (register_listener (chain w HostView) ds cb (next_resource (life w))) (\<lambda>(i, ch, nr).
       let w1 = (put_chain HostView ch w)\<lparr>life := (life w)\<lparr>next_resource := nr\<rparr>\<rparr>;
           w2 = w1\<lparr>actions := actions w1 @ [Unregister i]\<rparr>
       in
       Option.bind (add_effect (cx_scope cx) ''service-subscription'' (length (actions w1)) (life w2)) (\<lambda>(r, m).
         let w3 = w2\<lparr>life := m\<rparr> in
         case r of
           Inl e \<Rightarrow> Some (Inl e, snd (unsubscribe i w3))
         | Inr _ \<Rightarrow>
             map_option (\<lambda>s. (Inr i, call cb s w3)) (reg_dependency_snapshot (chain w3 HostView) ds))))"

definition subscription_snapshot ::
  "resolved_dependency list \<Rightarrow> bool \<Rightarrow> ('v, 'c) world \<Rightarrow> dependency_snapshot" where
  "subscription_snapshot ds registry_alive w =
    (if registry_alive then dependency_snapshot_from (host w) ds else unavailable_snapshot ds)"

subsection \<open>Lemmas\<close>

lemma put_chain_life [simp]:
  "life (put_chain v ch w) = life w" "actions (put_chain v ch w) = actions w"
  by (auto simp: put_chain_def split: reg_view.splits list.splits)

lemma put_chain_same [simp]: "put_chain v (chain w v) w = w"
  by (cases v) (auto simp: chain_def put_chain_def)

lemma chain_put:
  assumes "chain w v \<noteq> []" and "length ch = length (chain w v)"
  shows "chain (put_chain v ch w) v = ch"
proof (cases v)
  case HostView
  then show ?thesis using assms by (cases ch) (auto simp: chain_def put_chain_def)
next
  case (StagedView n)
  then have n: "n < length (stagings w)" using assms(1) by (cases "n < length (stagings w)") auto
  then obtain s h where "ch = [s, h]"
    using assms(2) StagedView by (auto simp: length_Suc_conv numeral_2_eq_2)
  then show ?thesis using StagedView n by simp
qed

lemma chain_fields [simp]:
  "chain (w\<lparr>life := m\<rparr>) v = chain w v" "chain (w\<lparr>actions := a\<rparr>) v = chain w v"
  by (simp_all add: chain_def split: reg_view.split)

lemma provide_length: "reg_provide r svc ty x repl ng = Some (res, r', ng') \<Longrightarrow> length r' = length r"
proof (induction r arbitrary: r')
  case (Cons s ps)
  show ?case
  proof (cases "committed s")
    case True
    then show ?thesis using Cons by auto
  next
    case False
    then show ?thesis
      using Cons.prems provide_error [of "s # ps"] provide_result(1) [of s ps] by (cases res) fastforce+
  qed
qed simp

lemma provide_current:
  "reg_provide r svc ty x repl ng = Some (Inr (g, old), r', ng') \<Longrightarrow> reg_is_current r' svc g"
proof (induction r arbitrary: r')
  case (Cons s ps)
  show ?case
  proof (cases "committed s")
    case True
    then show ?thesis using Cons by (auto simp: reg_is_current_def)
  next
    case False
    then show ?thesis
      using Cons.prems provide_result(1) [of s ps] by (fastforce simp: reg_is_current_def)
  qed
qed simp

lemma fold_insert_lookup:
  "fold (\<lambda>(k, x) m. bt_insert k x m) config merged = fold (\<lambda>(k, v) n. bt_insert k v n) config merged"
  by simp

definition config_field :: "string \<Rightarrow> json \<Rightarrow> json option" where
  "config_field k v = Option.bind (as_object v) (\<lambda>m. bt_get m k)"

lemma merge_intercept_get:
  assumes "json_wf v"
  shows "bt_get (merge_intercept v merged) k =
    (case config_field k v of Some x \<Rightarrow> Some x | None \<Rightarrow> bt_get merged k)"
proof (cases v)
  case (JObj config)
  then have "distinct (map fst config)" using assms by (simp add: bt_wf_def strict_sorted_iff)
  then show ?thesis using JObj by (simp add: merge_intercept_def config_field_def fold_insert_get)
qed (simp_all add: merge_intercept_def config_field_def)

lemma merge_intercepts_get:
  "\<forall>v\<in>set vs. json_wf v \<Longrightarrow> bt_get (fold merge_intercept vs merged) k =
    (case filter (\<lambda>v. config_field k v \<noteq> None) (rev vs) of [] \<Rightarrow> bt_get merged k | v # _ \<Rightarrow> config_field k v)"
proof (induction vs rule: rev_induct)
  case (snoc v vs)
  then show ?case by (auto simp: merge_intercept_get split: option.splits)
qed simp

subsection \<open>Properties\<close>

text \<open>Registering a provider is atomic with its cleanup: on an error (a closed scope, a
  strictness conflict) no registry, effect or action changes; on success the handle is current
  and the scope has gained exactly one effect, whose disposer is the removal of exactly this
  generation. Stated for the world before the callbacks run.\<close>

theorem publish_is_atomic:
  assumes "publish_service (\<lambda>_ _ w. w) cx key ty x repl w = Some (r, w')"
  shows "case r of
      Inl e \<Rightarrow> (\<forall>v. chain w' v = chain w v) \<and> scopes (life w') = scopes (life w) \<and> actions w' = actions w
    | Inr h \<Rightarrow> handle_is_current h w' \<and>
        (\<exists>c eff. scopes (life w) (cx_scope cx) = Some c \<and> sc_state c = Active
          \<and> scopes (life w') (cx_scope cx) = Some (c\<lparr>sc_effects := sc_effects c @ [eff]\<rparr>)
          \<and> actions w' = actions w @ [RemoveService (cx_view cx) (resolve cx key) (sh_generation h)]
          \<and> ef_disposer eff = length (actions w))"
proof -
  let ?svc = "resolve cx key" and ?v = "cx_view cx" and ?ng = "next_generation (life w)"
  have quiet: "deliver (\<lambda>_ _ w. w) ds u = u" for ds and u :: "('a, 'b) world"
    by (induction ds arbitrary: u) (auto simp: deliver_def)
  obtain c where c: "scopes (life w) (cx_scope cx) = Some c"
    using assms by (auto simp: publish_service_def add_effect_with_def bind_eq_Some_conv Let_def)
  show ?thesis
  proof (cases "sc_state c = Active")
    case False
    then show ?thesis using assms c
      by (auto simp: publish_service_def add_effect_with_def Let_def)
  next
    case True
    obtain r1 ch ng' where p: "reg_provide (chain w ?v) ?svc ty x repl ?ng = Some (r1, ch, ng')"
      using assms c True
      by (auto simp: publish_service_def add_effect_with_def provide_setup_def bind_eq_Some_conv Let_def)
    have ne: "chain w ?v \<noteq> []" using p by auto
    show ?thesis
    proof (cases r1)
      case (Inl e)
      then have "ch = chain w ?v" using provide_error [of "chain w ?v"] p by simp
      then show ?thesis using assms c True p Inl
        by (auto simp: publish_service_def add_effect_with_def provide_setup_def Let_def)
    next
      case (Inr a)
      obtain g old where a: "a = (g, old)" by (cases a)
      have cur: "reg_is_current ch ?svc g" using provide_current [of "chain w ?v"] p Inr a by simp
      have len: "length ch = length (chain w ?v)" using provide_length [of "chain w ?v"] p by simp
      have "chain (put_chain ?v ch w) ?v = ch" by (rule chain_put [OF ne len])
      then show ?thesis using assms c True p Inr a cur
        by (auto simp: publish_service_def add_effect_with_def provide_setup_def Let_def bind_eq_Some_conv
            notify_def quiet handle_is_current_def split: if_splits) (rule exI, rule conjI, rule refl, simp)
    qed
  qed
qed

text \<open>The cleanup of a provider removes that provider and no other: when the generation in
  place is another one (somebody replaced the service) the closure changes nothing and notifies
  nobody; when it is still in place the service is gone from that registry afterwards.\<close>

theorem cleanup_removes_own_generation:
  fixes w :: "('v, 'c) world"
  assumes "d < length (actions w)" and "actions w ! d = RemoveService HostView svc g"
    and "\<not> committed (host w)" and "run_action call d w = Some w'"
  shows "if map_option se_generation (bt_get (providers (host w)) svc) = Some g
    then \<exists>w1. providers (host w1) = bt_remove svc (providers (host w)) \<and> stagings w1 = stagings w
      \<and> \<not> reg_is_current (chain w1 HostView) svc g \<and> notify call HostView svc w1 = Some w'
    else w' = w"
proof (cases "map_option se_generation (bt_get (providers (host w)) svc) = Some g")
  case True
  let ?h = "(host w)\<lparr>providers := bt_remove svc (providers (host w)),
      expected_parent := bt_remove svc (expected_parent (host w))\<rparr>"
  have "notify call HostView svc (w\<lparr>host := ?h\<rparr>) = Some w'"
    using assms True by (auto simp: run_action_def Let_def)
  moreover have "\<not> reg_is_current (chain (w\<lparr>host := ?h\<rparr>) HostView) svc g"
    by (simp add: reg_is_current_def assms(3))
  ultimately show ?thesis using True by (auto intro!: exI [of _ "w\<lparr>host := ?h\<rparr>"])
next
  case False
  then have rm: "reg_remove_if_current (chain w HostView) svc g = (False, chain w HostView)"
    using assms(3) by (simp only: chain_simps reg_remove_if_current.simps if_False)
  have "run_action call d w = Some w"
    using assms(1,2) by (simp add: run_action_def rm del: chain_simps reg_remove_if_current.simps)
  then show ?thesis using False assms(4) by (simp only: if_False option.inject)
qed

text \<open>Intercept configurations merge shallowly and the innermost context wins: a field of
  the merged object is the field of the last object in the ancestor-to-descendant chain that
  has it, and values that are not objects contribute nothing.\<close>

theorem intercept_config_innermost_wins:
  assumes "\<forall>v\<in>set (intercept_chain cx svc). json_wf v"
  shows "config_field k (intercept_config cx svc) =
    (case filter (\<lambda>v. config_field k v \<noteq> None) (rev (intercept_chain cx svc)) of
       [] \<Rightarrow> None
     | v # _ \<Rightarrow> config_field k v)"
proof -
  have "config_field k (intercept_config cx svc) = bt_get (fold merge_intercept (intercept_chain cx svc) []) k"
    by (simp add: config_field_def intercept_config_def)
  then show ?thesis using merge_intercepts_get [OF assms, of "[]" k] by (simp split: list.splits)
qed

subsection \<open>A sample context\<close>

definition sample_world :: "(nat, nat) world" where
  "sample_world = \<lparr>host = registry_state_new, stagings = [],
     life = the (map_option snd (scope_new lifecycle_new)), actions = []\<rparr>"

definition quiet :: "(nat, nat) callbacks" where
  "quiet = (\<lambda>_ _ w. w)"

definition sample_provided :: "(nat, nat) world" where
  "sample_provided = snd (the (publish_service quiet (context_root 1) (ServiceKey ''db'' ''v1'') ''u8'' 7 False sample_world))"

theorem publish_is_atomic_witness:
  "actions sample_provided = [RemoveService HostView (ResolvedService (ServiceKey ''db'' ''v1'') RealmRoot) 2]"
proof -
  let ?p = "publish_service (\<lambda>_ _ w. w) (context_root 1) (ServiceKey ''db'' ''v1'') ''u8'' 7 False sample_world"
  have gen: "case ?p of Some (Inr h, _) \<Rightarrow> sh_generation h = 2 | _ \<Rightarrow> False" by code_simp
  then obtain h w' where p: "?p = Some (Inr h, w')" and g: "sh_generation h = 2"
    by (auto split: option.splits sum.splits)
  have "sample_provided = w'" using p by (simp add: sample_provided_def quiet_def)
  then show ?thesis
    using publish_is_atomic [OF p] g
    by (auto simp: context_root_def resolve_def sample_world_def)
qed

theorem cleanup_removes_own_generation_witness:
  "\<exists>w1. providers (host w1) = [] \<and> \<not> reg_is_current (chain w1 HostView) (ResolvedService (ServiceKey ''db'' ''v1'') RealmRoot) 2
    \<and> run_action quiet 0 sample_provided = notify quiet HostView (ResolvedService (ServiceKey ''db'' ''v1'') RealmRoot) w1"
proof -
  let ?svc = "ResolvedService (ServiceKey ''db'' ''v1'') RealmRoot"
  have pre: "0 < length (actions sample_provided)" "actions sample_provided ! 0 = RemoveService HostView ?svc 2"
    "\<not> committed (host sample_provided)"
    "map_option se_generation (bt_get (providers (host sample_provided)) ?svc) = Some 2"
    "bt_remove ?svc (providers (host sample_provided)) = []"
    "\<not> Option.is_none (run_action quiet 0 sample_provided)"
    by code_simp+
  then obtain w' where run: "run_action quiet 0 sample_provided = Some w'"
    by (cases "run_action quiet 0 sample_provided") auto
  show ?thesis
    using cleanup_removes_own_generation [OF pre(1-3) run] pre(4,5) run by auto
qed

theorem intercept_config_innermost_wins_witness:
  "config_field ''a'' (intercept_config
      (intercept (intercept (context_root 1) (ServiceKey ''s'' ''1'') (JObj [(''a'', JNull)]))
        (ServiceKey ''s'' ''1'') (JObj [(''a'', JBool True)])) (ServiceKey ''s'' ''1''))
    = Some (JBool True)"
proof -
  let ?cx = "intercept (intercept (context_root 1) (ServiceKey ''s'' ''1'') (JObj [(''a'', JNull)]))
        (ServiceKey ''s'' ''1'') (JObj [(''a'', JBool True)])"
  have chain: "intercept_chain ?cx (ServiceKey ''s'' ''1'') = [JObj [(''a'', JNull)], JObj [(''a'', JBool True)]]"
    by code_simp
  then have "\<forall>v\<in>set (intercept_chain ?cx (ServiceKey ''s'' ''1'')). json_wf v"
    by (simp add: bt_wf_def)
  from intercept_config_innermost_wins [OF this, of "''a''"] show ?thesis
    unfolding chain by (simp add: config_field_def bt_get_def)
qed

end
