(* ===== verification/Events.thy ===== *)
theory Events
  imports Lifecycle
begin

section \<open>The event bus (events.rs)\<close>

text \<open>
  The shared registry of listeners, and the five dispatch modes as coroutines: a dispatch is a
  frame that works on the snapshot it took, is suspended whenever user code runs (a callback, a
  future), and is advanced one atomic action at a time. Registrations, removals, other
  dispatches (also those a callback starts), scope operations and the returns of callbacks
  interleave freely. A payload carries the type its listeners downcast to; user closures are
  numbers; the elapsed time of a dispatch is left out.
\<close>

subsection \<open>Data\<close>

datatype dispatch_mode = Emit | Parallel | Serial | Bail | Waterfall

datatype dispatch_outcome = Completed | Bailed | FailedWith nat

record dispatch_diagnostic =
  dd_event :: string
  dd_mode :: dispatch_mode
  dd_listener_count :: nat
  dd_outcome :: dispatch_outcome

record event_options =
  prepend :: bool
  global :: bool

record event_filter =
  ft_context :: "scope_id option"
  ft_realm :: "realm_label option"

datatype listener_kind = SyncListener | AsyncListener | WaterfallListener

text \<open>\<open>ls_once\<close> is the address of the shared flag of a once listener, \<open>ls_type\<close> the payload type.\<close>

record listener =
  ls_token :: u64
  ls_owner :: scope_id
  ls_filter :: "event_filter option"
  ls_once :: "nat option"
  ls_kind :: listener_kind
  ls_type :: string
  ls_callback :: nat

record 'p payload =
  pl_type :: string
  pl_value :: 'p

type_synonym event_result = "core_error + json"

datatype dispatch_value = UnitValue | Found "json option" | Values "json list" | Value json

type_synonym dispatch_result = "core_error + dispatch_value"

text \<open>
  Where a dispatch stands, over the indices of its snapshot: at the head of its loop, between
  the swap and the removal of a claimed once listener, before the call, in the callback; in the
  poll loop of \<open>join_all\<close> at a slot, with its \<open>pending\<close> flag, and in the future of a slot.
\<close>

datatype frame_stage =
    Scan nat
  | Claimed nat
  | Invoke nat
  | Running nat
  | PollAt nat bool
  | InPoll nat bool
  | Done dispatch_result

text \<open>A future of \<open>join_all\<close> with the index of its listener: not started, started, or its result.\<close>

datatype slot = Unpolled nat | Started nat | Resolved nat event_result

text \<open>
  \<open>fr_dispatch\<close> is the frame of the \<open>waterfall_payload\<close> (or other) call this one belongs to,
  its own index unless it is a \<open>waterfall_at\<close> of a continuation; \<open>fr_results\<close> logs the results
  that the loop has seen.
\<close>

record 'p frame =
  fr_mode :: dispatch_mode
  fr_event :: string
  fr_payload :: "'p payload"
  fr_listeners :: "listener list"
  fr_dispatch :: nat
  fr_root :: bool
  fr_stage :: frame_stage
  fr_slots :: "slot list"
  fr_results :: "(nat \<times> event_result) list"

text \<open>A registration between its insertion and its effect, and then its result.\<close>

record registration =
  rg_owner :: scope_id
  rg_event :: string
  rg_token :: u64
  rg_result :: "(core_error + resource_id) option"

text \<open>
  \<open>EventBusInner\<close>, the once flags and continuations by address, the frames, the cleanup
  closures by disposer, and the log of callback invocations (dispatch, index, listener).
\<close>

record 'p event_bus =
  eb_listeners :: "(string, listener list) btree"
  eb_diagnostics :: "dispatch_diagnostic list"
  eb_next_listener :: u64
  eb_flags :: "bool list"
  eb_life :: lifecycle
  eb_frames :: "'p frame list"
  eb_continuations :: "(nat \<times> nat) option list"
  eb_registrations :: "registration list"
  eb_cleanups :: "(string \<times> u64) list"
  eb_calls :: "(nat \<times> nat \<times> listener) list"

definition event_bus_new :: "'p event_bus" where
  "event_bus_new = \<lparr>eb_listeners = [], eb_diagnostics = [], eb_next_listener = 1, eb_flags = [],
     eb_life = lifecycle_new, eb_frames = [], eb_continuations = [], eb_registrations = [],
     eb_cleanups = [], eb_calls = []\<rparr>"

definition default_filter :: event_filter where
  "default_filter = \<lparr>ft_context = None, ft_realm = None\<rparr>"

definition in_context :: "event_filter \<Rightarrow> scope_id \<Rightarrow> event_filter" where
  "in_context flt s = flt\<lparr>ft_context := Some s\<rparr>"

definition in_realm :: "event_filter \<Rightarrow> realm_label \<Rightarrow> event_filter" where
  "in_realm flt r = flt\<lparr>ft_realm := Some r\<rparr>"

subsection \<open>The registry of listeners\<close>

definition owner_active :: "lifecycle \<Rightarrow> listener \<Rightarrow> bool" where
  "owner_active m l \<longleftrightarrow> map_option sc_state (scopes m (ls_owner l)) = Some Active"

definition matches :: "lifecycle \<Rightarrow> event_filter \<Rightarrow> listener \<Rightarrow> bool" where
  "matches m flt l \<longleftrightarrow>
    owner_active m l \<and> (case ls_filter l of None \<Rightarrow> True | Some current \<Rightarrow> current = flt)"

definition entries_of :: "(string, listener list) btree \<Rightarrow> string \<Rightarrow> listener list" where
  "entries_of m event = (case bt_get m event of None \<Rightarrow> [] | Some ls \<Rightarrow> ls)"

definition remove_listener ::
  "string \<Rightarrow> u64 \<Rightarrow> (string, listener list) btree \<Rightarrow> bool \<times> (string, listener list) btree" where
  "remove_listener event token m =
    (case bt_get m event of
       None \<Rightarrow> (False, m)
     | Some entries \<Rightarrow>
         (let kept = filter (\<lambda>l. ls_token l \<noteq> token) entries in
          (length kept \<noteq> length entries,
           if kept = [] then bt_remove event m else bt_insert event kept m)))"

definition insert_listener ::
  "string \<Rightarrow> bool \<Rightarrow> listener \<Rightarrow> (string, listener list) btree \<Rightarrow> (string, listener list) btree" where
  "insert_listener event at_front l m =
    bt_adjust event [] (\<lambda>entries. if at_front then l # entries else entries @ [l]) m"

text \<open>\<open>register\<close> up to the insertion: the error, or the registration to finish.\<close>

definition register_begin ::
  "scope_id \<Rightarrow> string \<Rightarrow> event_options \<Rightarrow> event_filter \<Rightarrow> bool \<Rightarrow> listener_kind \<Rightarrow> string \<Rightarrow> nat \<Rightarrow>
    'p event_bus \<Rightarrow> ((core_error + nat) \<times> 'p event_bus) option" where
  "register_begin owner event opts flt once kind ty cb s =
    Option.bind (scopes (eb_life s) owner) (\<lambda>c.
      if sc_state c \<noteq> Active
      then Some (Inl (InvalidState ''register listener'' (sc_state c)), s)
      else
        (let token = eb_next_listener s;
             l = \<lparr>ls_token = token, ls_owner = owner,
                  ls_filter = (if global opts then None else Some flt),
                  ls_once = (if once then Some (length (eb_flags s)) else None),
                  ls_kind = kind, ls_type = ty, ls_callback = cb\<rparr>
         in Some (Inr (length (eb_registrations s)),
              s\<lparr>eb_next_listener := token + 1,
                eb_flags := (if once then eb_flags s @ [False] else eb_flags s),
                eb_listeners := insert_listener event (prepend opts) l (eb_listeners s),
                eb_registrations := eb_registrations s @
                  [\<lparr>rg_owner = owner, rg_event = event, rg_token = token, rg_result = None\<rparr>]\<rparr>)))"

text \<open>The rest of \<open>register\<close>: the effect, or the listener is taken back.\<close>

definition register_finish :: "nat \<Rightarrow> 'p event_bus \<Rightarrow> ((core_error + resource_id) \<times> 'p event_bus) option" where
  "register_finish r s =
    (if r < length (eb_registrations s) \<and> rg_result (eb_registrations s ! r) = None then
       (let g = eb_registrations s ! r in
        map_option (\<lambda>(res, m).
          (res,
           (case res of
              Inl e \<Rightarrow> s\<lparr>eb_listeners := snd (remove_listener (rg_event g) (rg_token g) (eb_listeners s))\<rparr>
            | Inr i \<Rightarrow> s\<lparr>eb_cleanups := eb_cleanups s @ [(rg_event g, rg_token g)]\<rparr>)
           \<lparr>eb_life := m, eb_registrations := (eb_registrations s)[r := g\<lparr>rg_result := Some res\<rparr>]\<rparr>))
         (add_effect (rg_owner g) (''listener:'' @ rg_event g) (length (eb_cleanups s)) (eb_life s)))
     else None)"

text \<open>\<open>ListenerHandle::remove\<close> of a finished registration, and the cleanup closure of its effect.\<close>

definition handle_remove :: "nat \<Rightarrow> 'p event_bus \<Rightarrow> (bool \<times> 'p event_bus) option" where
  "handle_remove r s =
    (if r < length (eb_registrations s) then
       (case rg_result (eb_registrations s ! r) of
          Some (Inr i) \<Rightarrow>
            (let (b, m) = remove_listener (rg_event (eb_registrations s ! r))
                            (rg_token (eb_registrations s ! r)) (eb_listeners s)
             in Some (b, s\<lparr>eb_listeners := m\<rparr>))
        | _ \<Rightarrow> None)
     else None)"

definition run_cleanup :: "disposer \<Rightarrow> 'p event_bus \<Rightarrow> 'p event_bus option" where
  "run_cleanup d s =
    (if d < length (eb_cleanups s) then
       (let (event, token) = eb_cleanups s ! d in
        Some (s\<lparr>eb_listeners := snd (remove_listener event token (eb_listeners s))\<rparr>))
     else None)"

definition event_snapshot :: "event_filter \<Rightarrow> string \<Rightarrow> 'p event_bus \<Rightarrow> listener list" where
  "event_snapshot flt event s = filter (matches (eb_life s) flt) (entries_of (eb_listeners s) event)"

subsection \<open>The logic of the modes\<close>

definition is_effective :: "json \<Rightarrow> bool" where
  "is_effective v \<longleftrightarrow> v \<noteq> JNull \<and> v \<noteq> JBool False"

definition type_mismatch :: "string \<Rightarrow> string \<Rightarrow> core_error" where
  "type_mismatch event expected = EventTypeMismatch event expected"

text \<open>Why a listener's closure cannot be entered: its kind does not fit the mode, or its downcast fails.\<close>

fun kind_error :: "dispatch_mode \<Rightarrow> string \<Rightarrow> listener_kind \<Rightarrow> core_error option" where
  "kind_error Emit event k = (if k = SyncListener then None else Some (AsyncEventListener ''emit'' event))"
| "kind_error Bail event k = (if k = SyncListener then None else Some (AsyncEventListener ''bail'' event))"
| "kind_error Waterfall event k =
    (if k = WaterfallListener then None else Some (AsyncEventListener ''waterfall'' event))"
| "kind_error _ event k =
    (if k = WaterfallListener
     then Some (AsyncEventListener ''parallel or serial'' ''waterfall listener'') else None)"

definition listener_error :: "dispatch_mode \<Rightarrow> string \<Rightarrow> listener \<Rightarrow> 'p payload \<Rightarrow> core_error option" where
  "listener_error mode event l p =
    (case kind_error mode event (ls_kind l) of
       Some e \<Rightarrow> Some e
     | None \<Rightarrow> if pl_type p = ls_type l then None else Some (type_mismatch event (ls_type l)))"

text \<open>What a sequential mode does with a listener's result: go on, or end the dispatch.\<close>

datatype verdict = GoOn | Finish dispatch_outcome dispatch_result

fun after_result :: "dispatch_mode \<Rightarrow> event_result \<Rightarrow> verdict" where
  "after_result Emit (Inl e) = Finish (FailedWith 1) (Inl e)"
| "after_result Emit (Inr v) = GoOn"
| "after_result Waterfall (Inl e) = Finish (FailedWith 1) (Inl e)"
| "after_result Waterfall (Inr v) = Finish Completed (Inr (Value v))"
| "after_result _ (Inl e) = Finish (FailedWith 1) (Inl e)"
| "after_result _ (Inr v) = (if is_effective v then Finish Bailed (Inr (Found (Some v))) else GoOn)"

text \<open>The end of the loop of a sequential mode.\<close>

fun exhausted :: "dispatch_mode \<Rightarrow> dispatch_value" where
  "exhausted Emit = UnitValue"
| "exhausted Waterfall = Value JNull"
| "exhausted _ = Found None"

text \<open>How \<open>parallel_payload\<close> sums up the results of all its futures.\<close>

fun partition_results :: "event_result list \<Rightarrow> json list \<times> core_error list" where
  "partition_results [] = ([], [])"
| "partition_results (Inr v # rs) = (let (vs, es) = partition_results rs in (v # vs, es))"
| "partition_results (Inl e # rs) = (let (vs, es) = partition_results rs in (vs, e # es))"

definition parallel_verdict :: "event_result list \<Rightarrow> dispatch_outcome \<times> dispatch_result" where
  "parallel_verdict rs =
    (let (vs, es) = partition_results rs in
     if es = [] then (Completed, Inr (Values vs)) else (FailedWith (length es), Inl (Cleanup es)))"

fun slot_index :: "slot \<Rightarrow> nat" where
  "slot_index (Unpolled i) = i"
| "slot_index (Started i) = i"
| "slot_index (Resolved i r) = i"

text \<open>\<open>results.drain(..).map(Option::unwrap)\<close>; a future without a result would be its panic.\<close>

fun drain_slots :: "slot list \<Rightarrow> event_result list option" where
  "drain_slots [] = Some []"
| "drain_slots (Resolved i r # ss) = map_option (\<lambda>rs. r # rs) (drain_slots ss)"
| "drain_slots (_ # ss) = None"

subsection \<open>Dispatching\<close>

definition event_dispatch ::
  "dispatch_mode \<Rightarrow> string \<Rightarrow> event_filter \<Rightarrow> 'p payload \<Rightarrow> 'p event_bus \<Rightarrow> nat \<times> 'p event_bus" where
  "event_dispatch mode event flt p s =
    (length (eb_frames s),
     s\<lparr>eb_frames := eb_frames s @
        [\<lparr>fr_mode = mode, fr_event = event, fr_payload = p, fr_listeners = event_snapshot flt event s,
          fr_dispatch = length (eb_frames s), fr_root = True, fr_stage = Scan 0, fr_slots = [],
          fr_results = []\<rparr>]\<rparr>)"

abbreviation put_frame :: "nat \<Rightarrow> 'p frame \<Rightarrow> 'p event_bus \<Rightarrow> 'p event_bus" where
  "put_frame f x s \<equiv> s\<lparr>eb_frames := (eb_frames s)[f := x]\<rparr>"

abbreviation at_stage :: "frame_stage \<Rightarrow> 'p frame \<Rightarrow> 'p frame" where
  "at_stage st x \<equiv> x\<lparr>fr_stage := st\<rparr>"

text \<open>\<open>record\<close>, and the end of a dispatch.\<close>

definition record_dispatch :: "'p frame \<Rightarrow> dispatch_outcome \<Rightarrow> 'p event_bus \<Rightarrow> 'p event_bus" where
  "record_dispatch x out s =
    s\<lparr>eb_diagnostics := eb_diagnostics s @
        [\<lparr>dd_event = fr_event x, dd_mode = fr_mode x,
          dd_listener_count = length (fr_listeners x), dd_outcome = out\<rparr>]\<rparr>"

definition finish_frame ::
  "nat \<Rightarrow> 'p frame \<Rightarrow> dispatch_outcome \<Rightarrow> dispatch_result \<Rightarrow> 'p event_bus \<Rightarrow> 'p event_bus" where
  "finish_frame f x out r s =
    put_frame f (at_stage (Done r) x) (if fr_root x then record_dispatch x out s else s)"

text \<open>\<open>claim_once\<close>: the swap of the flag; the winner goes on to \<open>remove_claimed\<close>.\<close>

definition swap_once :: "listener \<Rightarrow> bool list \<Rightarrow> bool \<times> bool list" where
  "swap_once l flags =
    (case ls_once l of
       None \<Rightarrow> (True, flags)
     | Some a \<Rightarrow> if flags ! a then (False, flags) else (True, flags[a := True]))"

definition scan_step :: "nat \<Rightarrow> 'p frame \<Rightarrow> nat \<Rightarrow> 'p event_bus \<Rightarrow> 'p event_bus" where
  "scan_step f x i s =
    (if i < length (fr_listeners x) then
       (let l = fr_listeners x ! i; (won, flags) = swap_once l (eb_flags s) in
        put_frame f
          (at_stage (if \<not> won then Scan (Suc i) else if ls_once l = None then Invoke i else Claimed i) x)
          (s\<lparr>eb_flags := flags\<rparr>))
     else if fr_mode x = Parallel then put_frame f (at_stage (PollAt 0 False) x) s
     else finish_frame f x Completed (Inr (exhausted (fr_mode x))) s)"

definition remove_claimed :: "nat \<Rightarrow> 'p frame \<Rightarrow> nat \<Rightarrow> 'p event_bus \<Rightarrow> 'p event_bus" where
  "remove_claimed f x i s =
    put_frame f (at_stage (Invoke i) x)
      (s\<lparr>eb_listeners := snd (remove_listener (fr_event x) (ls_token (fr_listeners x ! i)) (eb_listeners s))\<rparr>)"

text \<open>The body of the loop once the result of listener \<open>i\<close> is known.\<close>

definition result_step :: "nat \<Rightarrow> 'p frame \<Rightarrow> nat \<Rightarrow> event_result \<Rightarrow> 'p event_bus \<Rightarrow> 'p event_bus" where
  "result_step f x i r s =
    (let x' = x\<lparr>fr_results := fr_results x @ [(i, r)]\<rparr> in
     case after_result (fr_mode x) r of
       GoOn \<Rightarrow> put_frame f (at_stage (Scan (Suc i)) x') s
     | Finish out res \<Rightarrow> finish_frame f x' out res s)"

definition log_call :: "'p frame \<Rightarrow> nat \<Rightarrow> 'p event_bus \<Rightarrow> 'p event_bus" where
  "log_call x i s = s\<lparr>eb_calls := eb_calls s @ [(fr_dispatch x, i, fr_listeners x ! i)]\<rparr>"

text \<open>
  The call of a sequential mode, with its one-shot continuation in a waterfall; a parallel
  dispatch only builds the future.
\<close>

definition invoke_step :: "nat \<Rightarrow> 'p frame \<Rightarrow> nat \<Rightarrow> 'p event_bus \<Rightarrow> 'p event_bus" where
  "invoke_step f x i s =
    (if fr_mode x = Parallel
     then put_frame f (x\<lparr>fr_slots := fr_slots x @ [Unpolled i], fr_stage := Scan (Suc i)\<rparr>) s
     else case listener_error (fr_mode x) (fr_event x) (fr_listeners x ! i) (fr_payload x) of
         Some e \<Rightarrow> result_step f x i (Inl e) s
       | None \<Rightarrow>
           put_frame f (at_stage (Running i) x)
             (log_call x i
               (if fr_mode x = Waterfall
                then s\<lparr>eb_continuations := eb_continuations s @ [Some (f, Suc i)]\<rparr> else s)))"

text \<open>The poll loop of \<open>join_all\<close>; a first poll starts \<open>call_async\<close>.\<close>

definition poll_step :: "nat \<Rightarrow> 'p frame \<Rightarrow> nat \<Rightarrow> bool \<Rightarrow> 'p event_bus \<Rightarrow> 'p event_bus option" where
  "poll_step f x k pending s =
    (if k < length (fr_slots x) then
       (case fr_slots x ! k of
          Resolved i r \<Rightarrow> Some (put_frame f (at_stage (PollAt (Suc k) pending) x) s)
        | Started i \<Rightarrow> Some (put_frame f (at_stage (InPoll k pending) x) s)
        | Unpolled i \<Rightarrow>
            Some (case listener_error Parallel (fr_event x) (fr_listeners x ! i) (fr_payload x) of
                Some e \<Rightarrow>
                  put_frame f (x\<lparr>fr_slots := (fr_slots x)[k := Resolved i (Inl e)],
                    fr_stage := PollAt (Suc k) pending\<rparr>) s
              | None \<Rightarrow>
                  put_frame f (x\<lparr>fr_slots := (fr_slots x)[k := Started i], fr_stage := InPoll k pending\<rparr>)
                    (log_call x i s)))
     else if pending then Some (put_frame f (at_stage (PollAt 0 False) x) s)
     else
       map_option (\<lambda>rs. let (out, res) = parallel_verdict rs in finish_frame f x out res s)
         (drain_slots (fr_slots x)))"

text \<open>One atomic action of a dispatch; \<open>None\<close> while user code runs, or when it has returned.\<close>

definition advance :: "nat \<Rightarrow> 'p event_bus \<Rightarrow> 'p event_bus option" where
  "advance f s =
    (if f < length (eb_frames s) then
       (let x = eb_frames s ! f in
        case fr_stage x of
          Scan i \<Rightarrow> Some (scan_step f x i s)
        | Claimed i \<Rightarrow> Some (remove_claimed f x i s)
        | Invoke i \<Rightarrow> Some (invoke_step f x i s)
        | PollAt k pending \<Rightarrow> poll_step f x k pending s
        | _ \<Rightarrow> None)
     else None)"

text \<open>
  User code returns to the dispatch: a callback or an awaited future with its result, a polled
  future with \<open>None\<close> when it stays pending.
\<close>

definition resume :: "nat \<Rightarrow> event_result option \<Rightarrow> 'p event_bus \<Rightarrow> 'p event_bus option" where
  "resume f res s =
    (if f < length (eb_frames s) then
       (let x = eb_frames s ! f in
        case (fr_stage x, res) of
          (Running i, Some r) \<Rightarrow> Some (result_step f x i r s)
        | (InPoll k pending, Some r) \<Rightarrow>
            Some (put_frame f (x\<lparr>fr_slots := (fr_slots x)[k := Resolved (slot_index (fr_slots x ! k)) r],
              fr_stage := PollAt (Suc k) pending\<rparr>) s)
        | (InPoll k pending, None) \<Rightarrow> Some (put_frame f (at_stage (PollAt (Suc k) True) x) s)
        | _ \<Rightarrow> None)
     else None)"

text \<open>\<open>ErasedNext::next\<close>: the first call starts the rest of the chain as a frame of its own.\<close>

definition continue_next :: "nat \<Rightarrow> 'p payload \<Rightarrow> 'p event_bus \<Rightarrow> ((core_error + nat) \<times> 'p event_bus) option" where
  "continue_next k p s =
    (if k < length (eb_continuations s) then
       (case eb_continuations s ! k of
          None \<Rightarrow> Some (Inl WaterfallContinuationUsed, s)
        | Some (f, start) \<Rightarrow>
            Some (Inr (length (eb_frames s)),
              s\<lparr>eb_continuations := (eb_continuations s)[k := None],
                eb_frames := eb_frames s @
                  [(eb_frames s ! f)\<lparr>fr_payload := p, fr_root := False, fr_stage := Scan start,
                     fr_slots := [], fr_results := []\<rparr>]\<rparr>))
     else None)"

definition take_diagnostics :: "'p event_bus \<Rightarrow> dispatch_diagnostic list \<times> 'p event_bus" where
  "take_diagnostics s = (eb_diagnostics s, s\<lparr>eb_diagnostics := []\<rparr>)"

subsection \<open>The machine\<close>

datatype 'p event_step =
    RegisterBegin scope_id string event_options event_filter bool listener_kind string nat
  | RegisterFinish nat
  | HandleRemove nat
  | RunCleanup disposer
  | Dispatch dispatch_mode string event_filter "'p payload"
  | Advance nat
  | Resume nat "event_result option"
  | ContinueNext nat "'p payload"
  | TakeDiagnostics
  | OnLife lifecycle_step

fun event_exec :: "'p event_step \<Rightarrow> 'p event_bus \<Rightarrow> 'p event_bus option" where
  "event_exec (RegisterBegin owner event opts flt once kind ty cb) s =
    map_option snd (register_begin owner event opts flt once kind ty cb s)"
| "event_exec (RegisterFinish r) s = map_option snd (register_finish r s)"
| "event_exec (HandleRemove r) s = map_option snd (handle_remove r s)"
| "event_exec (RunCleanup d) s = run_cleanup d s"
| "event_exec (Dispatch mode event flt p) s = Some (snd (event_dispatch mode event flt p s))"
| "event_exec (Advance f) s = advance f s"
| "event_exec (Resume f r) s = resume f r s"
| "event_exec (ContinueNext k p) s = map_option snd (continue_next k p s)"
| "event_exec TakeDiagnostics s = Some (snd (take_diagnostics s))"
| "event_exec (OnLife l) s = map_option (\<lambda>m. s\<lparr>eb_life := m\<rparr>) (lifecycle_exec l (eb_life s))"

definition event_start :: "'p event_bus \<Rightarrow> bool" where
  "event_start s \<longleftrightarrow> s = event_bus_new"

abbreviation event_reach :: "'p event_bus \<Rightarrow> bool" where
  "event_reach \<equiv> reach event_start (exec_rel event_exec)"


subsection \<open>The public operations\<close>

text \<open>
  The typed and dynamic front ends of registration, for a bus view with filter \<open>flt\<close>, and of
  dispatch. Dynamic events have \<open>serde_json::Value\<close> payloads; waterfall listeners are never
  once listeners.
\<close>

definition dynamic_type :: string where
  "dynamic_type = ''serde_json::value::Value''"

definition dynamic :: "json \<Rightarrow> json payload" where
  "dynamic v = \<lparr>pl_type = dynamic_type, pl_value = v\<rparr>"

definition bus_on :: "event_filter \<Rightarrow> scope_id \<Rightarrow> string \<Rightarrow> string \<Rightarrow> event_options \<Rightarrow> nat \<Rightarrow> 'p event_step" where
  "bus_on flt owner ty key opts cb = RegisterBegin owner key opts flt False SyncListener ty cb"

definition bus_once :: "event_filter \<Rightarrow> scope_id \<Rightarrow> string \<Rightarrow> string \<Rightarrow> event_options \<Rightarrow> nat \<Rightarrow> 'p event_step" where
  "bus_once flt owner ty key opts cb = RegisterBegin owner key opts flt True SyncListener ty cb"

definition bus_on_async :: "event_filter \<Rightarrow> scope_id \<Rightarrow> string \<Rightarrow> string \<Rightarrow> event_options \<Rightarrow> nat \<Rightarrow> 'p event_step" where
  "bus_on_async flt owner ty key opts cb = RegisterBegin owner key opts flt False AsyncListener ty cb"

definition bus_once_async :: "event_filter \<Rightarrow> scope_id \<Rightarrow> string \<Rightarrow> string \<Rightarrow> event_options \<Rightarrow> nat \<Rightarrow> 'p event_step" where
  "bus_once_async flt owner ty key opts cb = RegisterBegin owner key opts flt True AsyncListener ty cb"

definition bus_on_waterfall :: "event_filter \<Rightarrow> scope_id \<Rightarrow> string \<Rightarrow> string \<Rightarrow> event_options \<Rightarrow> nat \<Rightarrow> 'p event_step" where
  "bus_on_waterfall flt owner ty key opts cb = RegisterBegin owner key opts flt False WaterfallListener ty cb"

definition bus_on_dynamic :: "event_filter \<Rightarrow> scope_id \<Rightarrow> string \<Rightarrow> event_options \<Rightarrow> nat \<Rightarrow> json event_step" where
  "bus_on_dynamic flt owner event opts cb = bus_on flt owner dynamic_type event opts cb"

definition bus_once_dynamic :: "event_filter \<Rightarrow> scope_id \<Rightarrow> string \<Rightarrow> event_options \<Rightarrow> nat \<Rightarrow> json event_step" where
  "bus_once_dynamic flt owner event opts cb = bus_once flt owner dynamic_type event opts cb"

definition bus_on_dynamic_async :: "event_filter \<Rightarrow> scope_id \<Rightarrow> string \<Rightarrow> event_options \<Rightarrow> nat \<Rightarrow> json event_step" where
  "bus_on_dynamic_async flt owner event opts cb = bus_on_async flt owner dynamic_type event opts cb"

definition bus_once_dynamic_async :: "event_filter \<Rightarrow> scope_id \<Rightarrow> string \<Rightarrow> event_options \<Rightarrow> nat \<Rightarrow> json event_step" where
  "bus_once_dynamic_async flt owner event opts cb = bus_once_async flt owner dynamic_type event opts cb"

definition bus_on_dynamic_waterfall :: "event_filter \<Rightarrow> scope_id \<Rightarrow> string \<Rightarrow> event_options \<Rightarrow> nat \<Rightarrow> json event_step" where
  "bus_on_dynamic_waterfall flt owner event opts cb = bus_on_waterfall flt owner dynamic_type event opts cb"

definition bus_dispatch :: "dispatch_mode \<Rightarrow> event_filter \<Rightarrow> string \<Rightarrow> 'p payload \<Rightarrow> 'p event_step" where
  "bus_dispatch mode flt key p = Dispatch mode key flt p"

definition bus_dispatch_dynamic :: "dispatch_mode \<Rightarrow> event_filter \<Rightarrow> string \<Rightarrow> json \<Rightarrow> json event_step" where
  "bus_dispatch_dynamic mode flt event v = bus_dispatch mode flt event (dynamic v)"

subsection \<open>The steps of one frame\<close>

text \<open>
  What the atomic actions of a dispatch do to its frame and to the once flags, as a relation:
  \<open>frame_step x fl x' fl' c\<close> takes the frame \<open>x\<close> to \<open>x'\<close>, \<open>c\<close> is the index of the listener whose
  callback it enters. All invariants are proved over its rules.
\<close>

inductive frame_step :: "'p frame \<Rightarrow> bool list \<Rightarrow> 'p frame \<Rightarrow> bool list \<Rightarrow> nat option \<Rightarrow> bool" where
  skip: "fr_stage x = Scan i \<Longrightarrow> i < length (fr_listeners x) \<Longrightarrow> ls_once (fr_listeners x ! i) = Some a \<Longrightarrow>
    fl ! a \<Longrightarrow> frame_step x fl (at_stage (Scan (Suc i)) x) fl None"
| free: "fr_stage x = Scan i \<Longrightarrow> i < length (fr_listeners x) \<Longrightarrow> ls_once (fr_listeners x ! i) = None \<Longrightarrow>
    frame_step x fl (at_stage (Invoke i) x) fl None"
| win: "fr_stage x = Scan i \<Longrightarrow> i < length (fr_listeners x) \<Longrightarrow> ls_once (fr_listeners x ! i) = Some a \<Longrightarrow>
    \<not> fl ! a \<Longrightarrow> frame_step x fl (at_stage (Claimed i) x) (fl[a := True]) None"
| to_polls: "fr_stage x = Scan i \<Longrightarrow> length (fr_listeners x) \<le> i \<Longrightarrow> fr_mode x = Parallel \<Longrightarrow>
    frame_step x fl (at_stage (PollAt 0 False) x) fl None"
| exhaust: "fr_stage x = Scan i \<Longrightarrow> length (fr_listeners x) \<le> i \<Longrightarrow> fr_mode x \<noteq> Parallel \<Longrightarrow>
    frame_step x fl (at_stage (Done (Inr (exhausted (fr_mode x)))) x) fl None"
| removed: "fr_stage x = Claimed i \<Longrightarrow> frame_step x fl (at_stage (Invoke i) x) fl None"
| build: "fr_stage x = Invoke i \<Longrightarrow> fr_mode x = Parallel \<Longrightarrow>
    frame_step x fl (x\<lparr>fr_slots := fr_slots x @ [Unpolled i], fr_stage := Scan (Suc i)\<rparr>) fl None"
| enter: "fr_stage x = Invoke i \<Longrightarrow> fr_mode x \<noteq> Parallel \<Longrightarrow>
    frame_step x fl (at_stage (Running i) x) fl (Some i)"
| go_on: "fr_stage x = Invoke i \<or> fr_stage x = Running i \<Longrightarrow> fr_mode x \<noteq> Parallel \<or> fr_stage x = Running i \<Longrightarrow>
    after_result (fr_mode x) r = GoOn \<Longrightarrow>
    frame_step x fl (x\<lparr>fr_results := fr_results x @ [(i, r)], fr_stage := Scan (Suc i)\<rparr>) fl None"
| decide: "fr_stage x = Invoke i \<or> fr_stage x = Running i \<Longrightarrow> fr_mode x \<noteq> Parallel \<or> fr_stage x = Running i \<Longrightarrow>
    after_result (fr_mode x) r = Finish out res \<Longrightarrow>
    frame_step x fl (x\<lparr>fr_results := fr_results x @ [(i, r)], fr_stage := Done res\<rparr>) fl None"
| poll_over: "fr_stage x = PollAt k p \<Longrightarrow> k < length (fr_slots x) \<Longrightarrow> fr_slots x ! k = Resolved i r \<Longrightarrow>
    frame_step x fl (at_stage (PollAt (Suc k) p) x) fl None"
| poll_again: "fr_stage x = PollAt k p \<Longrightarrow> k < length (fr_slots x) \<Longrightarrow> fr_slots x ! k = Started i \<Longrightarrow>
    frame_step x fl (at_stage (InPoll k p) x) fl None"
| poll_refuse: "fr_stage x = PollAt k p \<Longrightarrow> k < length (fr_slots x) \<Longrightarrow> fr_slots x ! k = Unpolled i \<Longrightarrow>
    frame_step x fl (x\<lparr>fr_slots := (fr_slots x)[k := Resolved i r], fr_stage := PollAt (Suc k) p\<rparr>) fl None"
| poll_enter: "fr_stage x = PollAt k p \<Longrightarrow> k < length (fr_slots x) \<Longrightarrow> fr_slots x ! k = Unpolled i \<Longrightarrow>
    frame_step x fl (x\<lparr>fr_slots := (fr_slots x)[k := Started i], fr_stage := InPoll k p\<rparr>) fl (Some i)"
| poll_round: "fr_stage x = PollAt k True \<Longrightarrow> length (fr_slots x) \<le> k \<Longrightarrow>
    frame_step x fl (at_stage (PollAt 0 False) x) fl None"
| poll_end: "fr_stage x = PollAt k False \<Longrightarrow> length (fr_slots x) \<le> k \<Longrightarrow> drain_slots (fr_slots x) = Some rs \<Longrightarrow>
    frame_step x fl (at_stage (Done (snd (parallel_verdict rs))) x) fl None"
| ready: "fr_stage x = InPoll k p \<Longrightarrow>
    frame_step x fl (x\<lparr>fr_slots := (fr_slots x)[k := Resolved (slot_index (fr_slots x ! k)) r],
      fr_stage := PollAt (Suc k) p\<rparr>) fl None"
| pending: "fr_stage x = InPoll k p \<Longrightarrow> frame_step x fl (at_stage (PollAt (Suc k) True) x) fl None"

text \<open>A dispatch step on the bus: the frame steps, the call is logged, a waterfall call gets its continuation.\<close>

definition bus_step :: "nat \<Rightarrow> 'p event_bus \<Rightarrow> 'p event_bus \<Rightarrow> bool" where
  "bus_step f s s' \<longleftrightarrow> f < length (eb_frames s) \<and>
    (\<exists>x' c. frame_step (eb_frames s ! f) (eb_flags s) x' (eb_flags s') c
      \<and> eb_frames s' = (eb_frames s)[f := x']
      \<and> eb_calls s' = eb_calls s @ (case c of None \<Rightarrow> []
          | Some i \<Rightarrow> [(fr_dispatch (eb_frames s ! f), i, fr_listeners (eb_frames s ! f) ! i)])
      \<and> eb_continuations s' = eb_continuations s @
          (case c of
             Some i \<Rightarrow>
               if fr_stage (eb_frames s ! f) = Invoke i \<and> fr_mode (eb_frames s ! f) = Waterfall
               then [Some (f, Suc i)] else []
           | None \<Rightarrow> [])
      \<and> (\<forall>event l. l \<in> set (entries_of (eb_listeners s') event) \<longrightarrow> l \<in> set (entries_of (eb_listeners s) event)))"

lemma finish_frame_fields [simp]:
  "eb_frames (finish_frame f x out r s) = (eb_frames s)[f := at_stage (Done r) x]"
  "eb_flags (finish_frame f x out r s) = eb_flags s"
  "eb_calls (finish_frame f x out r s) = eb_calls s"
  "eb_continuations (finish_frame f x out r s) = eb_continuations s"
  "eb_listeners (finish_frame f x out r s) = eb_listeners s"
  by (simp_all add: finish_frame_def record_dispatch_def)

lemma log_call_fields [simp]:
  "eb_frames (log_call x i s) = eb_frames s"
  "eb_flags (log_call x i s) = eb_flags s"
  "eb_calls (log_call x i s) = eb_calls s @ [(fr_dispatch x, i, fr_listeners x ! i)]"
  "eb_continuations (log_call x i s) = eb_continuations s"
  "eb_listeners (log_call x i s) = eb_listeners s"
  by (simp_all add: log_call_def)

lemma removed_entries: "l \<in> set (entries_of (snd (remove_listener e t m)) ev) \<Longrightarrow> l \<in> set (entries_of m ev)"
  by (auto simp: entries_of_def remove_listener_def Let_def split: option.splits if_splits)

lemma bus_stepI:
  assumes "f < length (eb_frames s)" "frame_step (eb_frames s ! f) (eb_flags s) x' (eb_flags s') None"
    "eb_frames s' = (eb_frames s)[f := x']" "eb_calls s' = eb_calls s"
    "eb_continuations s' = eb_continuations s"
    "\<And>event l. l \<in> set (entries_of (eb_listeners s') event) \<Longrightarrow> l \<in> set (entries_of (eb_listeners s) event)"
  shows "bus_step f s s'"
  unfolding bus_step_def using assms by (intro conjI exI [of _ x'] exI [of _ None]) auto

lemma scan_step_bus:
  "f < length (eb_frames s) \<Longrightarrow> eb_frames s ! f = x \<Longrightarrow> fr_stage x = Scan i \<Longrightarrow> bus_step f s (scan_step f x i s)"
  by (cases "ls_once (fr_listeners x ! i)")
    (auto simp: scan_step_def swap_once_def Let_def not_less intro!: bus_stepI intro: frame_step.intros)

lemma result_step_bus:
  assumes "f < length (eb_frames s)" "eb_frames s ! f = x"
    and "fr_stage x = Invoke i \<and> fr_mode x \<noteq> Parallel \<or> fr_stage x = Running i"
  shows "bus_step f s (result_step f x i r s)"
proof (cases "after_result (fr_mode x) r")
  case GoOn
  then have "frame_step x (eb_flags s) (x\<lparr>fr_results := fr_results x @ [(i, r)], fr_stage := Scan (Suc i)\<rparr>) (eb_flags s) None"
    using assms by (intro frame_step.go_on) auto
  then show ?thesis using assms GoOn
    by (intro bus_stepI) (auto simp: result_step_def)
next
  case (Finish out res)
  then have "frame_step x (eb_flags s) (x\<lparr>fr_results := fr_results x @ [(i, r)], fr_stage := Done res\<rparr>) (eb_flags s) None"
    using assms by (intro frame_step.decide) auto
  then show ?thesis using assms Finish
    by (intro bus_stepI) (auto simp: result_step_def)
qed

lemma invoke_step_bus:
  assumes "f < length (eb_frames s)" "eb_frames s ! f = x" "fr_stage x = Invoke i"
  shows "bus_step f s (invoke_step f x i s)"
proof (cases "fr_mode x = Parallel")
  case True
  then show ?thesis using assms
    by (auto simp: invoke_step_def intro!: bus_stepI intro: frame_step.intros)
next
  case False
  then show ?thesis
  proof (cases "listener_error (fr_mode x) (fr_event x) (fr_listeners x ! i) (fr_payload x)")
    case None
    then show ?thesis using assms False frame_step.enter [OF assms(3) False, of "eb_flags s"]
      by (auto simp: invoke_step_def bus_step_def intro!: exI [of _ "at_stage (Running i) x"] exI [of _ "Some i"])
  next
    case (Some e)
    then show ?thesis using assms False by (simp add: invoke_step_def result_step_bus)
  qed
qed

lemma poll_step_bus:
  assumes "f < length (eb_frames s)" "eb_frames s ! f = x" "fr_stage x = PollAt k p"
    and "poll_step f x k p s = Some s'"
  shows "bus_step f s s'"
proof (cases "k < length (fr_slots x)")
  case True
  show ?thesis
  proof (cases "fr_slots x ! k")
    case (Unpolled i)
    show ?thesis
    proof (cases "listener_error Parallel (fr_event x) (fr_listeners x ! i) (fr_payload x)")
      case None
      then show ?thesis using assms True Unpolled frame_step.poll_enter [OF assms(3) True Unpolled, of "eb_flags s"]
        by (auto simp: poll_step_def bus_step_def intro!: exI [of _ "Some i"] split: if_splits)
    next
      case (Some e)
      then show ?thesis using assms True Unpolled
        by (auto simp: poll_step_def intro!: bus_stepI intro: frame_step.poll_refuse)
    qed
  qed (use assms True in \<open>auto simp: poll_step_def intro!: bus_stepI intro: frame_step.intros\<close>)
next
  case False
  show ?thesis
  proof (cases p)
    case True
    then show ?thesis using assms False
      by (auto simp: poll_step_def not_less intro!: bus_stepI intro: frame_step.poll_round)
  next
    case p: False
    obtain rs where rs: "drain_slots (fr_slots x) = Some rs"
      and s': "s' = finish_frame f x (fst (parallel_verdict rs)) (snd (parallel_verdict rs)) s"
      using assms(4) False p by (auto simp: poll_step_def split_beta)
    have "frame_step x (eb_flags s) (at_stage (Done (snd (parallel_verdict rs))) x) (eb_flags s) None"
      using assms(3) False p rs by (intro frame_step.poll_end) auto
    then show ?thesis using assms(1,2) s' by (intro bus_stepI) auto
  qed
qed

lemma advance_bus: "advance f s = Some s' \<Longrightarrow> bus_step f s s'"
proof -
  assume a: "advance f s = Some s'"
  then have f: "f < length (eb_frames s)" by (simp add: advance_def split: if_splits)
  show ?thesis
  proof (cases "fr_stage (eb_frames s ! f)")
    case (Claimed i)
    then have "s' = remove_claimed f (eb_frames s ! f) i s" using a f by (simp add: advance_def)
    then show ?thesis using f frame_step.removed [OF Claimed]
      by (auto simp: remove_claimed_def intro!: bus_stepI dest: removed_entries)
  next
    case (PollAt k p)
    then show ?thesis using a f by (intro poll_step_bus) (auto simp: advance_def)
  qed (use a f in \<open>auto simp: advance_def intro: scan_step_bus invoke_step_bus\<close>)
qed

lemma resume_bus: "resume f r s = Some s' \<Longrightarrow> bus_step f s s'"
proof -
  assume a: "resume f r s = Some s'"
  then have f: "f < length (eb_frames s)" by (simp add: resume_def split: if_splits)
  show ?thesis
  proof (cases "fr_stage (eb_frames s ! f)")
    case (Running i)
    then show ?thesis using a f by (auto simp: resume_def Let_def intro: result_step_bus split: option.splits)
  next
    case (InPoll k p)
    show ?thesis
    proof (cases r)
      case None
      then show ?thesis using a f InPoll frame_step.pending [OF InPoll]
        by (auto simp: resume_def Let_def intro!: bus_stepI)
    next
      case (Some v)
      then show ?thesis using a f InPoll frame_step.ready [OF InPoll]
        by (auto simp: resume_def Let_def intro!: bus_stepI)
    qed
  qed (use a f in \<open>auto simp: resume_def\<close>)
qed

definition new_frame :: "'p event_bus \<Rightarrow> 'p frame \<Rightarrow> bool" where
  "new_frame s x \<longleftrightarrow> fr_dispatch x = length (eb_frames s) \<and> fr_stage x = Scan 0 \<and> fr_slots x = []
    \<and> fr_results x = [] \<and> (\<exists>event. set (fr_listeners x) \<subseteq> set (entries_of (eb_listeners s) event))"

definition same_runs :: "'p event_bus \<Rightarrow> 'p event_bus \<Rightarrow> bool" where
  "same_runs s s' \<longleftrightarrow> eb_calls s' = eb_calls s
    \<and> (\<forall>event l. l \<in> set (entries_of (eb_listeners s') event) \<longrightarrow> l \<in> set (entries_of (eb_listeners s) event)
        \<or> ls_once l = None \<or> (ls_once l = Some (length (eb_flags s)) \<and> length (eb_flags s) < length (eb_flags s')))"

lemma inserted_entries:
  "l' \<in> set (entries_of (insert_listener e front l m) ev) \<Longrightarrow> l' = l \<or> l' \<in> set (entries_of m ev)"
  by (auto simp: entries_of_def insert_listener_def split: if_splits option.splits)

lemma event_exec_cases:
  assumes "event_exec l s = Some s'"
  obtains (outside) bs where "same_runs s s'" "eb_frames s' = eb_frames s"
      "eb_continuations s' = eb_continuations s" "eb_flags s' = eb_flags s @ bs" "True \<notin> set bs"
    | (opened) x where "same_runs s s'" "eb_frames s' = eb_frames s @ [x]" "new_frame s x"
      "eb_continuations s' = eb_continuations s" "eb_flags s' = eb_flags s"
    | (stepped) f where "bus_step f s s'"
    | (continued) k f i p where "same_runs s s'" "k < length (eb_continuations s)"
      "eb_continuations s ! k = Some (f, i)" "eb_continuations s' = (eb_continuations s)[k := None]"
      "eb_frames s' = eb_frames s @ [(eb_frames s ! f)\<lparr>fr_payload := p, fr_root := False,
        fr_stage := Scan i, fr_slots := [], fr_results := []\<rparr>]"
      "eb_flags s' = eb_flags s"
proof (cases l)
  case (RegisterBegin owner event opts flt once kind ty cb)
  then show ?thesis using assms
    by (intro outside [of "if eb_flags s' = eb_flags s then [] else [False]"])
      (auto simp: register_begin_def Let_def same_runs_def bind_eq_Some_conv dest!: inserted_entries split: if_splits)
next
  case (RegisterFinish r)
  let ?g = "eb_registrations s ! r"
  obtain res m where res: "add_effect (rg_owner ?g) (''listener:'' @ rg_event ?g) (length (eb_cleanups s)) (eb_life s)
      = Some (res, m)"
    using assms RegisterFinish by (auto simp: register_finish_def Let_def split: if_splits)
  then show ?thesis using assms RegisterFinish
    by (intro outside [of "[]"]; cases res)
      (auto simp: register_finish_def Let_def same_runs_def dest: removed_entries split: if_splits)
next
  case (HandleRemove r)
  then show ?thesis using assms removed_entries
    by (intro outside [of "[]"])
      (auto simp: handle_remove_def same_runs_def split_beta Let_def dest: removed_entries split: if_splits option.splits sum.splits)
next
  case (RunCleanup d)
  then show ?thesis using assms
    by (intro outside [of "[]"])
      (auto simp: run_cleanup_def same_runs_def split_beta Let_def dest: removed_entries split: if_splits)
next
  case (Dispatch mode event flt p)
  then show ?thesis using assms
    by (intro opened) (auto simp: event_dispatch_def same_runs_def new_frame_def event_snapshot_def intro!: exI [of _ event])
next
  case (Advance f)
  then show ?thesis using assms by (intro stepped [of f] advance_bus) simp
next
  case (Resume f r)
  then show ?thesis using assms by (intro stepped [of f] resume_bus) simp
next
  case (ContinueNext k p)
  show ?thesis
  proof (cases "eb_continuations s ! k")
    case None
    then show ?thesis using assms ContinueNext
      by (intro outside [of "[]"]) (auto simp: continue_next_def same_runs_def split: if_splits)
  next
    case (Some fi)
    then show ?thesis using assms ContinueNext
      by (intro continued [of k "fst fi" "snd fi" p])
        (auto simp: continue_next_def same_runs_def split_beta split: if_splits)
  qed
next
  case TakeDiagnostics
  then show ?thesis using assms
    by (intro outside [of "[]"]) (auto simp: take_diagnostics_def same_runs_def)
next
  case (OnLife l')
  then show ?thesis using assms by (intro outside [of "[]"]) (auto simp: same_runs_def)
qed

end
