(* ===== verification/EventsInv.thy ===== *)
theory EventsInv
  imports Events
begin

section \<open>What every run of the event bus keeps\<close>

text \<open>
  The invariants of the machine of Events and the properties that rest on them: once listeners
  run at most once, every dispatch calls its snapshot in order, the sequential modes stop at
  the first decisive result, the parallel mode collects all results, no dispatch gets stuck;
  and registration is atomic. Each invariant is checked on the rules of \<open>frame_step\<close> and lifted
  to the machine by the case rule \<open>event_exec_cases\<close>.
\<close>

subsection \<open>Once listeners\<close>

definition hit :: "nat \<Rightarrow> listener \<Rightarrow> nat" where
  "hit a l = (if ls_once l = Some a then 1 else 0)"

fun slot_held :: "nat \<Rightarrow> listener list \<Rightarrow> slot \<Rightarrow> nat" where
  "slot_held a ls (Unpolled i) = hit a (ls ! i)"
| "slot_held a ls _ = 0"

text \<open>How many calls of listeners with the once flag \<open>a\<close> a frame has claimed and not made yet.\<close>

definition held :: "nat \<Rightarrow> 'p frame \<Rightarrow> nat" where
  "held a x =
    (case fr_stage x of
       Claimed i \<Rightarrow> hit a (fr_listeners x ! i)
     | Invoke i \<Rightarrow> hit a (fr_listeners x ! i)
     | _ \<Rightarrow> 0)
    + sum_list (map (slot_held a (fr_listeners x)) (fr_slots x))"

definition taken :: "nat \<Rightarrow> bool list \<Rightarrow> nat" where
  "taken a fl = (if a < length fl \<and> fl ! a then 1 else 0)"

definition calls_of :: "nat \<Rightarrow> 'p event_bus \<Rightarrow> nat" where
  "calls_of a s = sum_list (map (\<lambda>(d, i, l). hit a l) (eb_calls s))"

definition addresses_ok :: "nat \<Rightarrow> listener list \<Rightarrow> bool" where
  "addresses_ok n ls \<longleftrightarrow> (\<forall>l\<in>set ls. \<forall>a. ls_once l = Some a \<longrightarrow> a < n)"

definition once_inv :: "'p event_bus \<Rightarrow> bool" where
  "once_inv s \<longleftrightarrow>
    (\<forall>a. calls_of a s + sum_list (map (held a) (eb_frames s)) \<le> taken a (eb_flags s))
    \<and> (\<forall>event. addresses_ok (length (eb_flags s)) (entries_of (eb_listeners s) event))
    \<and> (\<forall>x\<in>set (eb_frames s). addresses_ok (length (eb_flags s)) (fr_listeners x))
    \<and> (\<forall>fi. Some fi \<in> set (eb_continuations s) \<longrightarrow> fst fi < length (eb_frames s))"

lemma sum_put:
  "k < length xs \<Longrightarrow> h y + c \<le> h (xs ! k) + t \<Longrightarrow>
    sum_list (map h (xs[k := y])) + c \<le> sum_list (map h xs) + (t :: nat)"
proof -
  assume k: "k < length xs" and le: "h y + c \<le> h (xs ! k) + t"
  obtain us v vs where xs: "xs = us @ v # vs" and us: "length us = k" and v: "xs ! k = v"
    using id_take_nth_drop [OF k] k by (metis length_take less_imp_le_nat min_absorb2)
  then have "xs[k := y] = us @ y # vs" by (metis list_update_length)
  then show ?thesis using le v xs by simp
qed

lemma taken_put: "a' < length fl \<Longrightarrow> \<not> fl ! a' \<Longrightarrow>
    taken a (fl[a' := True]) = taken a fl + (if a = a' then 1 else 0)"
  by (auto simp: taken_def)

lemma taken_append: "True \<notin> set bs \<Longrightarrow> taken a (fl @ bs) = taken a fl"
  by (auto simp: taken_def nth_append in_set_conv_nth)

lemma slots_put:
  assumes "k < length ss" "ss ! k = Unpolled i" "slot_held a ls y = 0"
  shows "sum_list (map (slot_held a ls) (ss[k := y])) + hit a (ls ! i) \<le> sum_list (map (slot_held a ls) ss)"
  using sum_put [OF assms(1), of "slot_held a ls" y "hit a (ls ! i)" 0] assms by simp

lemma slots_put_same:
  assumes "slot_held a ls y = 0"
  shows "sum_list (map (slot_held a ls) (ss[k := y])) \<le> sum_list (map (slot_held a ls) ss)"
proof (cases "k < length ss")
  case True
  then show ?thesis using sum_put [OF True, of "slot_held a ls" y 0 0] assms by simp
qed (simp add: list_update_beyond)

lemma frame_step_held:
  assumes "frame_step x fl x' fl' c" "addresses_ok (length fl) (fr_listeners x)"
  shows "held a x' + (case c of None \<Rightarrow> 0 | Some i \<Rightarrow> hit a (fr_listeners x ! i)) + taken a fl
    \<le> held a x + taken a fl'"
  using assms
proof (induction rule: frame_step.induct)
  case (win x i a' fl)
  then have "a' < length fl" by (auto simp: addresses_ok_def)
  then show ?case using win by (auto simp: held_def taken_put hit_def)
next
  case (poll_refuse x k p i fl r)
  then show ?case using slots_put [of k "fr_slots x" i a "fr_listeners x" "Resolved i r"]
    by (simp add: held_def)
next
  case (poll_enter x k p i fl)
  then show ?case using slots_put [of k "fr_slots x" i a "fr_listeners x" "Started i"]
    by (simp add: held_def)
next
  case (ready x k p fl r)
  then show ?case
    using slots_put_same [of a "fr_listeners x" "Resolved (slot_index (fr_slots x ! k)) r" "fr_slots x" k]
    by (simp add: held_def)
qed (auto simp: held_def hit_def)

lemma frame_step_same:
  "frame_step x fl x' fl' c \<Longrightarrow> fr_listeners x' = fr_listeners x \<and> fr_dispatch x' = fr_dispatch x
    \<and> fr_mode x' = fr_mode x \<and> length fl' = length fl"
  by (induction rule: frame_step.induct) auto

lemma addresses_mono: "addresses_ok n ls \<Longrightarrow> n \<le> n' \<Longrightarrow> addresses_ok n' ls"
  by (auto simp: addresses_ok_def)

lemma addresses_same_runs:
  assumes "same_runs s s'" "\<forall>event. addresses_ok (length (eb_flags s)) (entries_of (eb_listeners s) event)"
    and "length (eb_flags s) \<le> length (eb_flags s')"
  shows "addresses_ok (length (eb_flags s')) (entries_of (eb_listeners s') event)"
  unfolding addresses_ok_def
proof (intro ballI allI impI)
  fix l a
  assume l: "l \<in> set (entries_of (eb_listeners s') event)" and a: "ls_once l = Some a"
  have "l \<in> set (entries_of (eb_listeners s) event) \<or> ls_once l = None
      \<or> ls_once l = Some (length (eb_flags s)) \<and> length (eb_flags s) < length (eb_flags s')"
    using assms(1) l unfolding same_runs_def by blast
  then show "a < length (eb_flags s')"
  proof (elim disjE)
    assume "l \<in> set (entries_of (eb_listeners s) event)"
    then have "a < length (eb_flags s)" using assms(2) a by (auto simp: addresses_ok_def)
    then show ?thesis using assms(3) by simp
  qed (use a in auto)
qed

lemma once_step:
  assumes inv: "once_inv s" and step: "event_exec l s = Some s'"
  shows "once_inv s'"
proof -
  have sums: "calls_of a s + sum_list (map (held a) (eb_frames s)) \<le> taken a (eb_flags s)"
    and entries: "\<forall>event. addresses_ok (length (eb_flags s)) (entries_of (eb_listeners s) event)"
    and frames: "\<forall>x\<in>set (eb_frames s). addresses_ok (length (eb_flags s)) (fr_listeners x)"
    and conts: "\<forall>fi. Some fi \<in> set (eb_continuations s) \<longrightarrow> fst fi < length (eb_frames s)" for a
    using inv by (auto simp: once_inv_def)
  show ?thesis
  using step
proof (cases rule: event_exec_cases)
  case (outside bs)
  have "addresses_ok (length (eb_flags s')) (entries_of (eb_listeners s') event)" for event
    using addresses_same_runs [OF outside(1) entries] outside(4) by simp
  moreover have "addresses_ok (length (eb_flags s')) (fr_listeners x)" if "x \<in> set (eb_frames s)" for x
    using addresses_mono [OF frames [rule_format, OF that]] outside(4) by simp
  moreover have "taken a (eb_flags s') = taken a (eb_flags s)" and "calls_of a s' = calls_of a s" for a
    using outside by (simp_all add: taken_append same_runs_def calls_of_def)
  ultimately show ?thesis unfolding once_inv_def
    using sums conts outside(2,3) by simp
next
  case (opened x)
  then have "held a x = 0" for a by (auto simp: new_frame_def held_def)
  moreover have "addresses_ok (length (eb_flags s)) (fr_listeners x)"
    using opened(3) entries by (fastforce simp: new_frame_def addresses_ok_def)
  moreover have "addresses_ok (length (eb_flags s)) (entries_of (eb_listeners s') event)" for event
    using addresses_same_runs [OF opened(1) entries] opened(5) by simp
  moreover have "calls_of a s' = calls_of a s" for a
    using opened(1) by (simp add: same_runs_def calls_of_def)
  ultimately show ?thesis unfolding once_inv_def using opened(2,4,5) sums frames conts
    by (auto simp: less_Suc_eq)
next
  case (stepped f)
  let ?x = "eb_frames s ! f"
  from stepped obtain x' c where f: "f < length (eb_frames s)"
    and fs: "frame_step ?x (eb_flags s) x' (eb_flags s') c"
    and fr: "eb_frames s' = (eb_frames s)[f := x']"
    and calls: "eb_calls s' = eb_calls s @ (case c of None \<Rightarrow> [] | Some i \<Rightarrow> [(fr_dispatch ?x, i, fr_listeners ?x ! i)])"
    and cs: "set (eb_continuations s') \<subseteq> set (eb_continuations s) \<union> (\<lambda>i. Some (f, i)) ` UNIV"
    and ls: "\<forall>event l. l \<in> set (entries_of (eb_listeners s') event) \<longrightarrow> l \<in> set (entries_of (eb_listeners s) event)"
    by (auto simp: bus_step_def split: option.splits if_splits)
  have ok: "addresses_ok (length (eb_flags s)) (fr_listeners ?x)"
    using frames f by simp
  note same = frame_step_same [OF fs]
  have "calls_of a s' + sum_list (map (held a) (eb_frames s')) \<le> taken a (eb_flags s')" for a
  proof -
    let ?c = "case c of None \<Rightarrow> 0 | Some i \<Rightarrow> hit a (fr_listeners ?x ! i)"
    have "sum_list (map (held a) (eb_frames s')) + (?c + taken a (eb_flags s))
        \<le> sum_list (map (held a) (eb_frames s)) + taken a (eb_flags s')"
      unfolding fr using frame_step_held [OF fs ok, of a] by (intro sum_put f) simp
    moreover have "calls_of a s' = calls_of a s + ?c"
      by (simp add: calls_of_def calls split: option.split)
    ultimately show ?thesis using sums [of a] by linarith
  qed
  moreover have "addresses_ok (length (eb_flags s')) (fr_listeners y)" if "y \<in> set (eb_frames s')" for y
    using that frames same ok unfolding fr by (auto dest!: subsetD [OF set_update_subset_insert])
  moreover have "addresses_ok (length (eb_flags s')) (entries_of (eb_listeners s') event)" for event
    using entries ls same by (fastforce simp: addresses_ok_def)
  moreover have "fst fi < length (eb_frames s')" if "Some fi \<in> set (eb_continuations s')" for fi
  proof -
    have "Some fi \<in> set (eb_continuations s) \<or> fst fi = f" using subsetD [OF cs that] by auto
    then show ?thesis using conts f unfolding fr by (cases fi) auto
  qed
  ultimately show ?thesis by (auto simp: once_inv_def)
next
  case (continued k f i p)
  let ?y = "(eb_frames s ! f)\<lparr>fr_payload := p, fr_root := False, fr_stage := Scan i, fr_slots := [], fr_results := []\<rparr>"
  have "Some (f, i) \<in> set (eb_continuations s)" using continued(2,3) by (metis nth_mem)
  then have "f < length (eb_frames s)" using conts by fastforce
  then have "addresses_ok (length (eb_flags s)) (fr_listeners ?y)" using frames by simp
  moreover have "held a ?y = 0" for a by (simp add: held_def)
  moreover have "fst fi < length (eb_frames s)" if "Some fi \<in> set (eb_continuations s')" for fi
    using that conts subsetD [OF set_update_subset_insert, of "Some fi" "eb_continuations s" k None]
    unfolding continued(4) by (cases fi) auto
  moreover have "addresses_ok (length (eb_flags s)) (entries_of (eb_listeners s') event)" for event
    using addresses_same_runs [OF continued(1) entries] continued(6) by simp
  moreover have "calls_of a s' = calls_of a s" for a
    using continued(1) by (simp add: same_runs_def calls_of_def)
  ultimately show ?thesis unfolding once_inv_def using continued(5,6) sums frames conts
    by (auto simp: less_Suc_eq)
qed
qed

interpretation once: transition_invariant event_start "exec_rel event_exec" once_inv
proof
  show "once_inv s" if "event_start s" for s :: "'a event_bus"
    using that by (simp add: event_start_def event_bus_new_def once_inv_def calls_of_def entries_of_def addresses_ok_def)
qed (auto simp: exec_rel_def intro: once_step)


subsection \<open>The order of the calls\<close>

text \<open>The indices whose callbacks a dispatch (with all its continuations) has entered, in order.\<close>

definition called :: "nat \<Rightarrow> 'p event_bus \<Rightarrow> nat list" where
  "called d s = map (\<lambda>(d', i, l). i) (filter (\<lambda>(d', i, l). d' = d) (eb_calls s))"

text \<open>The indices a frame may still enter next, where it stands.\<close>

definition todo :: "'p frame \<Rightarrow> nat set" where
  "todo x =
    (case fr_stage x of
       Scan i \<Rightarrow> {i}
     | Claimed i \<Rightarrow> {i}
     | Invoke i \<Rightarrow> {i}
     | Running i \<Rightarrow> if fr_mode x = Waterfall then {} else {Suc i}
     | _ \<Rightarrow> {})
    \<union> {i. Unpolled i \<in> set (fr_slots x)}"

text \<open>The slots of the poll loop: in index order, polled up to the loop's position.\<close>

definition polled_to :: "nat \<Rightarrow> slot list \<Rightarrow> bool" where
  "polled_to k ss \<longleftrightarrow> (\<forall>j<length ss. \<forall>i. ss ! j = Unpolled i \<longrightarrow> k \<le> j)"

definition resolved_to :: "nat \<Rightarrow> slot list \<Rightarrow> bool" where
  "resolved_to k ss \<longleftrightarrow> (\<forall>j<length ss. j < k \<longrightarrow> (\<exists>i r. ss ! j = Resolved i r))"

definition slots_sorted :: "slot list \<Rightarrow> bool" where
  "slots_sorted ss \<longleftrightarrow> sorted_wrt (<) (map slot_index ss)"

definition shape :: "'p frame \<Rightarrow> bool" where
  "shape x \<longleftrightarrow>
    (if fr_mode x = Parallel then
       slots_sorted (fr_slots x) \<and>
       (case fr_stage x of
          Scan i \<Rightarrow> \<forall>y\<in>set (fr_slots x). slot_index y < i
        | Claimed i \<Rightarrow> \<forall>y\<in>set (fr_slots x). slot_index y < i
        | Invoke i \<Rightarrow> \<forall>y\<in>set (fr_slots x). slot_index y < i
        | Running i \<Rightarrow> False
        | PollAt k p \<Rightarrow> polled_to k (fr_slots x) \<and> (p \<or> resolved_to k (fr_slots x))
        | InPoll k p \<Rightarrow> k < length (fr_slots x) \<and> polled_to (Suc k) (fr_slots x) \<and> (p \<or> resolved_to k (fr_slots x))
        | Done r \<Rightarrow> polled_to (length (fr_slots x)) (fr_slots x))
     else fr_slots x = [] \<and> (case fr_stage x of PollAt k p \<Rightarrow> False | InPoll k p \<Rightarrow> False | _ \<Rightarrow> True))"

lemma polled_none: "polled_to (length ss) ss \<Longrightarrow> Unpolled i \<notin> set ss"
  by (auto simp: polled_to_def in_set_conv_nth)

lemma polled_put:
  "polled_to k ss \<Longrightarrow> slot_index y = slot_index (ss ! k) \<Longrightarrow> (\<And>i. y \<noteq> Unpolled i) \<Longrightarrow> polled_to (Suc k) (ss[k := y])"
  unfolding polled_to_def by (metis Suc_leI le_neq_implies_less length_list_update nth_list_update_eq nth_list_update_neq)

lemma polled_next: "polled_to k ss \<Longrightarrow> (\<And>i. ss ! k \<noteq> Unpolled i) \<Longrightarrow> polled_to (Suc k) ss"
  unfolding polled_to_def by (metis Suc_leI le_neq_implies_less)

lemma polled_any: "polled_to k ss \<Longrightarrow> length ss \<le> k \<Longrightarrow> polled_to m ss"
  by (fastforce simp: polled_to_def)

lemma resolved_next: "resolved_to k ss \<Longrightarrow> ss ! k = Resolved i r \<Longrightarrow> resolved_to (Suc k) ss"
  by (auto simp: resolved_to_def less_Suc_eq)

lemma resolved_put: "resolved_to k ss \<Longrightarrow> resolved_to (Suc k) (ss[k := Resolved i r])"
  by (auto simp: resolved_to_def less_Suc_eq nth_list_update)

lemma resolved_put_other: "resolved_to k ss \<Longrightarrow> resolved_to k (ss[k := y])"
  by (auto simp: resolved_to_def nth_list_update)

lemma slot_index_put:
  "slot_index y = slot_index (ss ! k) \<Longrightarrow> map slot_index (ss[k := y]) = map slot_index ss"
  by (metis list_update_beyond list_update_id map_update not_le)

lemma sorted_put: "slots_sorted ss \<Longrightarrow> slot_index y = slot_index (ss ! k) \<Longrightarrow> slots_sorted (ss[k := y])"
  by (simp add: slots_sorted_def slot_index_put)

lemma unpolled_put:
  assumes "Unpolled h \<in> set (ss[k := y])" "\<And>i. y \<noteq> Unpolled i"
  shows "Unpolled h \<in> set ss"
  using assms subsetD [OF set_update_subset_insert assms(1)] by auto

lemma unpolled_after:
  assumes "slots_sorted ss" "polled_to k ss" "k < length ss" "ss ! k = Unpolled i"
    and "Unpolled h \<in> set (ss[k := y])" "\<And>i. y \<noteq> Unpolled i"
  shows "i < h"
proof -
  obtain j where j: "j < length ss" "ss[k := y] ! j = Unpolled h"
    using assms(5) by (auto simp: in_set_conv_nth)
  then have "j \<noteq> k" using assms(6) by (metis nth_list_update_eq length_list_update)
  with j have h: "ss ! j = Unpolled h" and "j < length ss" by auto
  then have "k < j" using assms(2) \<open>j \<noteq> k\<close> unfolding polled_to_def by (metis le_neq_implies_less)
  then have "map slot_index ss ! k < map slot_index ss ! j"
    using assms(1) j(1) unfolding slots_sorted_def by (intro sorted_wrt_nth_less) simp_all
  then show ?thesis using assms(3,4) h j(1) by simp
qed

lemma frame_step_shape:
  "frame_step x fl x' fl' c \<Longrightarrow> shape x \<Longrightarrow> shape x'"
proof (induction rule: frame_step.induct)
  case (poll_refuse x k p i fl r)
  then show ?case
    by (auto simp: shape_def intro: sorted_put polled_put resolved_put split: if_splits)
next
  case (poll_enter x k p i fl)
  then show ?case
    by (auto simp: shape_def intro: sorted_put polled_put resolved_put_other split: if_splits)
next
  case (ready x k p fl r)
  then show ?case
    by (auto simp: shape_def polled_to_def nth_list_update intro: sorted_put resolved_put split: if_splits)
next
  case (poll_over x k p i r fl)
  then show ?case
    by (auto simp: shape_def intro: polled_next resolved_next split: if_splits)
qed (auto simp: shape_def slots_sorted_def sorted_wrt_append intro: polled_next polled_any less_SucI
    split: if_splits, auto simp: polled_to_def resolved_to_def)


text \<open>A step takes what it calls from \<open>todo\<close>, and never goes back to an earlier index.\<close>

lemma waterfall_decides [simp]: "after_result Waterfall r \<noteq> GoOn"
  by (cases r) auto

lemma frame_step_todo:
  assumes "frame_step x fl x' fl' c" "shape x"
  shows "(\<forall>h\<in>todo x'. \<exists>g\<in>todo x. g \<le> h)
    \<and> (\<forall>i. c = Some i \<longrightarrow> i \<in> todo x \<and> (\<forall>h\<in>todo x'. i < h)
        \<and> (fr_mode x = Waterfall \<longrightarrow> fr_stage x = Invoke i \<and> todo x' = {}))"
  using assms
proof (induction rule: frame_step.induct)
  case (poll_refuse x k p i fl r)
  then show ?case
    by (auto simp: todo_def dest: unpolled_put intro!: bexI)
next
  case (poll_enter x k p i fl)
  moreover have "fr_mode x = Parallel" "slots_sorted (fr_slots x)" "polled_to k (fr_slots x)"
    using poll_enter by (auto simp: shape_def split: if_splits)
  moreover have "Unpolled i \<in> set (fr_slots x)" using poll_enter by (metis nth_mem)
  ultimately show ?case
    by (auto simp: todo_def dest: unpolled_put intro: unpolled_after [where y = "Started i"])
next
  case (ready x k p fl r)
  then show ?case by (auto simp: todo_def dest: unpolled_put)
qed (auto simp: todo_def shape_def split: if_splits)

definition owner_of :: "nat \<times> nat \<Rightarrow> 'p event_bus \<Rightarrow> nat" where
  "owner_of fi s = fr_dispatch (eb_frames s ! fst fi)"

definition order_inv :: "'p event_bus \<Rightarrow> bool" where
  "order_inv s \<longleftrightarrow>
    (\<forall>x\<in>set (eb_frames s). shape x \<and> fr_dispatch x < length (eb_frames s))
    \<and> (\<forall>fi. Some fi \<in> set (eb_continuations s) \<longrightarrow> fst fi < length (eb_frames s)
        \<and> fr_mode (eb_frames s ! fst fi) = Waterfall)
    \<and> (\<forall>d. called d s \<noteq> [] \<longrightarrow> d < length (eb_frames s))
    \<and> (\<forall>d. sorted_wrt (<) (called d s))
    \<and> (\<forall>x\<in>set (eb_frames s). \<forall>h\<in>todo x. \<forall>j\<in>set (called (fr_dispatch x) s). j < h)
    \<and> (\<forall>fi. Some fi \<in> set (eb_continuations s) \<longrightarrow> (\<forall>j\<in>set (called (owner_of fi s) s). j < snd fi))"

text \<open>At most one party of a dispatch may still enter a listener: a frame, or the holder of a continuation.\<close>

definition one_head :: "'p event_bus \<Rightarrow> bool" where
  "one_head s \<longleftrightarrow>
    (\<forall>f g. f < length (eb_frames s) \<longrightarrow> g < length (eb_frames s) \<longrightarrow> f \<noteq> g \<longrightarrow>
      fr_dispatch (eb_frames s ! f) = fr_dispatch (eb_frames s ! g) \<longrightarrow>
      todo (eb_frames s ! f) = {} \<or> todo (eb_frames s ! g) = {})
    \<and> (\<forall>k l fi gj. k < length (eb_continuations s) \<longrightarrow> l < length (eb_continuations s) \<longrightarrow> k \<noteq> l \<longrightarrow>
      eb_continuations s ! k = Some fi \<longrightarrow> eb_continuations s ! l = Some gj \<longrightarrow> owner_of fi s \<noteq> owner_of gj s)
    \<and> (\<forall>fi g. Some fi \<in> set (eb_continuations s) \<longrightarrow> g < length (eb_frames s) \<longrightarrow>
      fr_dispatch (eb_frames s ! g) = owner_of fi s \<longrightarrow> todo (eb_frames s ! g) = {})"

lemma order_invD:
  assumes "order_inv s"
  shows "x \<in> set (eb_frames s) \<Longrightarrow> shape x"
    and "x \<in> set (eb_frames s) \<Longrightarrow> fr_dispatch x < length (eb_frames s)"
    and "Some fi \<in> set (eb_continuations s) \<Longrightarrow> fst fi < length (eb_frames s)"
    and "Some fi \<in> set (eb_continuations s) \<Longrightarrow> fr_mode (eb_frames s ! fst fi) = Waterfall"
    and "called d s \<noteq> [] \<Longrightarrow> d < length (eb_frames s)"
    and "sorted_wrt (<) (called d s)"
    and "x \<in> set (eb_frames s) \<Longrightarrow> h \<in> todo x \<Longrightarrow> j \<in> set (called (fr_dispatch x) s) \<Longrightarrow> j < h"
    and "Some fi \<in> set (eb_continuations s) \<Longrightarrow> j \<in> set (called (owner_of fi s) s) \<Longrightarrow> j < snd fi"
  using assms unfolding order_inv_def by blast+

lemma one_headD:
  assumes "one_head s"
  shows "f < length (eb_frames s) \<Longrightarrow> g < length (eb_frames s) \<Longrightarrow> f \<noteq> g \<Longrightarrow>
      fr_dispatch (eb_frames s ! f) = fr_dispatch (eb_frames s ! g) \<Longrightarrow>
      todo (eb_frames s ! f) = {} \<or> todo (eb_frames s ! g) = {}"
    and "k < length (eb_continuations s) \<Longrightarrow> l < length (eb_continuations s) \<Longrightarrow> k \<noteq> l \<Longrightarrow>
      eb_continuations s ! k = Some fi \<Longrightarrow> eb_continuations s ! l = Some gj \<Longrightarrow> owner_of fi s \<noteq> owner_of gj s"
    and "Some fi \<in> set (eb_continuations s) \<Longrightarrow> g < length (eb_frames s) \<Longrightarrow>
      fr_dispatch (eb_frames s ! g) = owner_of fi s \<Longrightarrow> todo (eb_frames s ! g) = {}"
  using assms unfolding one_head_def by blast+

lemma called_same: "eb_calls s' = eb_calls s \<Longrightarrow> called d s' = called d s"
  by (simp add: called_def)

lemma called_append:
  "eb_calls s' = eb_calls s @ [(d, i, l)] \<Longrightarrow> called d' s' = called d' s @ (if d' = d then [i] else [])"
  by (auto simp: called_def)

lemma order_outside:
  assumes "order_inv s" "eb_frames s' = eb_frames s" "eb_continuations s' = eb_continuations s"
    "eb_calls s' = eb_calls s"
  shows "order_inv s'"
  using assms by (simp add: order_inv_def called_def owner_of_def)

lemma head_outside:
  assumes "one_head s" "eb_frames s' = eb_frames s" "eb_continuations s' = eb_continuations s"
  shows "one_head s'"
  using assms by (simp add: one_head_def owner_of_def)

text \<open>A new frame at the end of the list.\<close>

lemma order_new:
  assumes inv: "order_inv s" "eb_frames s' = eb_frames s @ [x]" "eb_calls s' = eb_calls s"
    and conts: "set (eb_continuations s') \<subseteq> insert None (set (eb_continuations s))"
    and x: "shape x" "fr_dispatch x \<le> length (eb_frames s)"
      "\<forall>h\<in>todo x. \<forall>j\<in>set (called (fr_dispatch x) s). j < h"
  shows "order_inv s'"
proof -
  have c: "called d s' = called d s" for d using assms(3) by (rule called_same)
  have some: "Some fi \<in> set (eb_continuations s)" if "Some fi \<in> set (eb_continuations s')" for fi
    using conts that by auto
  note D = order_invD [OF inv(1)]
  have o: "owner_of fi s' = owner_of fi s" "eb_frames s' ! fst fi = eb_frames s ! fst fi"
    if "Some fi \<in> set (eb_continuations s)" for fi
    using D(3) [OF that] by (simp_all add: owner_of_def inv(2) nth_append)
  show ?thesis
    unfolding order_inv_def c
  proof (intro conjI allI impI ballI)
    show "shape y" "fr_dispatch y < length (eb_frames s')" if "y \<in> set (eb_frames s')" for y
      using that D(1,2) x inv(2) by (auto simp: less_Suc_eq le_less)
    show "j < h" if "y \<in> set (eb_frames s')" "h \<in> todo y" "j \<in> set (called (fr_dispatch y) s)" for y h j
      using that D(7) x inv(2) by auto
    show "d < length (eb_frames s')" if "called d s \<noteq> []" for d
      using D(5) [OF that] inv(2) by simp
    show "fst fi < length (eb_frames s')" "fr_mode (eb_frames s' ! fst fi) = Waterfall"
      if "Some fi \<in> set (eb_continuations s')" for fi
      using D(3,4) [OF some [OF that]] o [OF some [OF that]] inv(2) by simp_all
    show "j < snd fi" if "Some fi \<in> set (eb_continuations s')" "j \<in> set (called (owner_of fi s') s)" for fi j
      using D(8) [OF some [OF that(1)]] o [OF some [OF that(1)]] that(2) by simp
  qed (rule D(6))
qed


lemma order_stepped:
  assumes inv: "order_inv s" and head: "one_head s" and step: "bus_step f s s'"
  shows "order_inv s' \<and> one_head s'"
proof -
  let ?x = "eb_frames s ! f"
  from step obtain x' c where f: "f < length (eb_frames s)"
    and fs: "frame_step ?x (eb_flags s) x' (eb_flags s') c"
    and fr: "eb_frames s' = (eb_frames s)[f := x']"
    and calls: "eb_calls s' = eb_calls s @ (case c of None \<Rightarrow> [] | Some i \<Rightarrow> [(fr_dispatch ?x, i, fr_listeners ?x ! i)])"
    and conts: "eb_continuations s' = eb_continuations s @
        (case c of Some i \<Rightarrow> if fr_stage ?x = Invoke i \<and> fr_mode ?x = Waterfall then [Some (f, Suc i)] else [] | None \<Rightarrow> [])"
    by (auto simp: bus_step_def)
  note D = order_invD [OF inv]
  have x: "?x \<in> set (eb_frames s)" using f by simp
  note same = frame_step_same [OF fs] and shape' = frame_step_shape [OF fs D(1) [OF x]]
  have lower: "\<exists>g\<in>todo ?x. g \<le> h" if "h \<in> todo x'" for h
    using frame_step_todo [OF fs D(1) [OF x]] that by blast
  have call: "i \<in> todo ?x" "h \<in> todo x' \<Longrightarrow> i < h" "fr_mode ?x = Waterfall \<Longrightarrow> fr_stage ?x = Invoke i \<and> todo x' = {}"
    if "c = Some i" for i h
    using frame_step_todo [OF fs D(1) [OF x]] that by blast+
  have other: "todo (eb_frames s ! g) = {}"
    if "todo ?x \<noteq> {}" "g < length (eb_frames s)" "g \<noteq> f" "fr_dispatch (eb_frames s ! g) = fr_dispatch ?x" for g
    using head that f unfolding one_head_def by metis
  have free: "owner_of fi s \<noteq> fr_dispatch ?x" if "todo ?x \<noteq> {}" "Some fi \<in> set (eb_continuations s)" for fi
    using head that f unfolding one_head_def by metis
  have called': "called d s' = called d s @ (case c of Some i \<Rightarrow> if fr_dispatch ?x = d then [i] else [] | None \<Rightarrow> [])" for d
  proof (cases c)
    case None
    then show ?thesis using calls called_same [of s' s d] by simp
  next
    case (Some i)
    then show ?thesis unfolding called_def calls by (simp add: Some)
  qed
  have calls_at: "j \<in> set (called d s) \<or> (c = Some j \<and> fr_dispatch ?x = d)" if "j \<in> set (called d s')" for j d
    using that called' by (auto split: option.splits if_splits)
  have conts': "Some fi \<in> set (eb_continuations s) \<or> (\<exists>i. c = Some i \<and> fi = (f, Suc i) \<and> fr_mode ?x = Waterfall)"
    if "Some fi \<in> set (eb_continuations s')" for fi
    using that conts by (auto split: option.splits if_splits)
  have nth': "eb_frames s' ! g = (if g = f then x' else eb_frames s ! g)" for g
    using f fr by (cases "g = f") simp_all
  have dispatch': "fr_dispatch (eb_frames s' ! g) = fr_dispatch (eb_frames s ! g)" for g
    using same by (simp add: nth')
  have owner': "owner_of fi s' = owner_of fi s" for fi by (simp add: owner_of_def dispatch')
  have todo': "todo (eb_frames s ! g) \<noteq> {}" if "todo (eb_frames s' ! g) \<noteq> {}" for g
    using that lower by (auto simp: nth' split: if_splits)
  have len: "length (eb_frames s') = length (eb_frames s)" using fr by simp
  have "order_inv s'"
    unfolding order_inv_def
  proof (intro conjI allI impI ballI)
    fix y assume "y \<in> set (eb_frames s')"
    then have y: "y = x' \<or> y \<in> set (eb_frames s)" using fr subsetD [OF set_update_subset_insert] by fastforce
    then show "shape y" "fr_dispatch y < length (eb_frames s')" using D(1,2) shape' same x len by auto
    fix h j assume h: "h \<in> todo y" and j: "j \<in> set (called (fr_dispatch y) s')"
    obtain g where g: "g < length (eb_frames s)" "y = eb_frames s' ! g"
      using \<open>y \<in> set (eb_frames s')\<close> len by (metis in_set_conv_nth)
    show "j < h"
    proof (cases "g = f")
      case True
      then have "y = x'" using g nth' by simp
      then obtain g0 where "g0 \<in> todo ?x" "g0 \<le> h" using lower h by blast
      then have "j \<in> set (called (fr_dispatch ?x) s) \<Longrightarrow> j < h" using D(7) [OF x] less_le_trans by blast
      then show ?thesis using calls_at [OF j] call(2) h \<open>y = x'\<close> same by auto
    next
      case False
      then have y: "y = eb_frames s ! g" using g nth' by simp
      then have "c = Some j \<and> fr_dispatch ?x = fr_dispatch y \<Longrightarrow> todo y = {}"
        using other [OF _ g(1) False] call(1) by auto
      then show ?thesis using calls_at [OF j] h D(7) [OF _ h] y g(1) by auto
    qed
  next
    show "d < length (eb_frames s')" if "called d s' \<noteq> []" for d
      using that called' D(5) D(2) [OF x] len by (auto split: option.splits if_splits)
  next
    show "sorted_wrt (<) (called d s')" for d
      using D(6) [of d] D(7) [OF x] call(1) called'
      by (auto simp: sorted_wrt_append split: option.splits)
  next
    fix fi assume fi: "Some fi \<in> set (eb_continuations s')"
    show "fst fi < length (eb_frames s')" "fr_mode (eb_frames s' ! fst fi) = Waterfall"
      using conts' [OF fi] D(3) [of fi] D(4) [of fi] f same len by (auto simp: nth')
    fix j assume "j \<in> set (called (owner_of fi s') s')"
    then have j: "j \<in> set (called (owner_of fi s) s) \<or> (c = Some j \<and> fr_dispatch ?x = owner_of fi s)"
      using calls_at by (simp add: owner')
    from conts' [OF fi] show "j < snd fi"
    proof
      assume old: "Some fi \<in> set (eb_continuations s)"
      then show ?thesis using j D(8) [OF old, of j] free [OF _ old] call(1) [of j] by (metis empty_iff)
    next
      assume "\<exists>i. c = Some i \<and> fi = (f, Suc i) \<and> fr_mode ?x = Waterfall"
      then obtain i where i: "c = Some i" "fi = (f, Suc i)" by blast
      then have "j \<in> set (called (fr_dispatch ?x) s) \<Longrightarrow> j < i" using D(7) [OF x call(1) [OF i(1)]] by blast
      then show ?thesis using j i by (auto simp: owner_of_def)
    qed
  qed
  moreover have "one_head s'"
    unfolding one_head_def len
  proof (intro conjI allI impI)
    fix g h assume "g < length (eb_frames s)" "h < length (eb_frames s)" "g \<noteq> h"
      "fr_dispatch (eb_frames s' ! g) = fr_dispatch (eb_frames s' ! h)"
    then show "todo (eb_frames s' ! g) = {} \<or> todo (eb_frames s' ! h) = {}"
      using head todo' dispatch' unfolding one_head_def by metis
  next
    fix k l fi gj
    assume kl: "k < length (eb_continuations s')" "l < length (eb_continuations s')" "k \<noteq> l"
      "eb_continuations s' ! k = Some fi" "eb_continuations s' ! l = Some gj"
    let ?n = "length (eb_continuations s)"
    have new: "todo ?x \<noteq> {} \<and> owner_of p s = fr_dispatch ?x"
      if "\<not> m < ?n" "m < length (eb_continuations s')" "eb_continuations s' ! m = Some p" for m p
    proof (cases c)
      case (Some i)
      then have "eb_continuations s' = eb_continuations s @ [Some (f, Suc i)]"
        using conts that by (simp split: if_splits)
      then have "p = (f, Suc i)" using that by (simp add: nth_append)
      then show ?thesis using call(1) [OF Some] by (auto simp: owner_of_def)
    qed (use conts that in simp)
    have old: "Some p \<in> set (eb_continuations s) \<and> eb_continuations s ! m = Some p"
      if "m < ?n" "eb_continuations s' ! m = Some p" for m p
      using that nth_mem [of m "eb_continuations s"] unfolding conts by (simp add: nth_append)
    have one: "length (eb_continuations s') \<le> Suc ?n" using conts by (auto split: option.splits)
    show "owner_of fi s' \<noteq> owner_of gj s'"
      unfolding owner'
    proof (cases "k < ?n"; cases "l < ?n")
      assume "k < ?n" "l < ?n"
      then show "owner_of fi s \<noteq> owner_of gj s"
        using one_headD(2) [OF head _ _ kl(3)] old [of k fi] old [of l gj] kl by blast
    next
      assume "k < ?n" "\<not> l < ?n"
      then show "owner_of fi s \<noteq> owner_of gj s" using new [of l gj] old [of k fi] kl free by metis
    next
      assume "\<not> k < ?n" "l < ?n"
      then show "owner_of fi s \<noteq> owner_of gj s" using new [of k fi] old [of l gj] kl free by metis
    qed (use one kl in auto)
  next
    fix fi g assume fi: "Some fi \<in> set (eb_continuations s')" and g: "g < length (eb_frames s)"
      and d: "fr_dispatch (eb_frames s' ! g) = owner_of fi s'"
    from conts' [OF fi] show "todo (eb_frames s' ! g) = {}"
    proof
      assume "Some fi \<in> set (eb_continuations s)"
      then have "todo (eb_frames s ! g) = {}"
        using head g d unfolding one_head_def owner' dispatch' by blast
      then show ?thesis using todo' by blast
    next
      assume "\<exists>i. c = Some i \<and> fi = (f, Suc i) \<and> fr_mode ?x = Waterfall"
      then have "todo x' = {}" "todo ?x \<noteq> {}" "owner_of fi s = fr_dispatch ?x"
        using call by (auto simp: owner_of_def)
      then show ?thesis using other [of g] g d todo' [of g] by (auto simp: nth' owner' dispatch' split: if_splits)
    qed
  qed
  ultimately show ?thesis by blast
qed


lemma order_continued:
  assumes inv: "order_inv s" and head: "one_head s"
    and k: "k < length (eb_continuations s)" "eb_continuations s ! k = Some (f, i)"
    and conts: "eb_continuations s' = (eb_continuations s)[k := None]"
    and frames: "eb_frames s' = eb_frames s @ [y]" and calls: "eb_calls s' = eb_calls s"
    and y: "fr_dispatch y = fr_dispatch (eb_frames s ! f)" "fr_mode y = fr_mode (eb_frames s ! f)"
      "fr_stage y = Scan i" "fr_slots y = []"
  shows "order_inv s' \<and> one_head s'"
proof -
  note D = order_invD [OF inv]
  have fi: "Some (f, i) \<in> set (eb_continuations s)" using k by (metis nth_mem)
  then have f: "f < length (eb_frames s)" using D(3) by fastforce
  have o: "owner_of (f, i) s = fr_dispatch y" using y(1) by (simp add: owner_of_def)
  have todo: "todo y = {i}" using y(3,4) by (simp add: todo_def)
  have sub: "set (eb_continuations s') \<subseteq> insert None (set (eb_continuations s))"
    unfolding conts by (rule set_update_subset_insert)
  have owner': "owner_of p s' = owner_of p s" if "Some p \<in> set (eb_continuations s)" for p
    using D(3) [OF that] by (simp add: owner_of_def frames nth_append)
  have at: "l < length (eb_continuations s) \<and> l \<noteq> k \<and> eb_continuations s ! l = Some p"
    if "l < length (eb_continuations s')" "eb_continuations s' ! l = Some p" for l p
    using that unfolding conts by (cases "l = k") simp_all
  have "order_inv s'"
  proof (rule order_new [OF inv frames calls sub])
    show "shape y" using y D(4) [OF fi] by (simp add: shape_def)
    show "fr_dispatch y \<le> length (eb_frames s)" using D(2) [of "eb_frames s ! f"] f y(1) by simp
    show "\<forall>h\<in>todo y. \<forall>j\<in>set (called (fr_dispatch y) s). j < h" using D(8) [OF fi] o todo by simp
  qed
  moreover have "one_head s'"
    unfolding one_head_def
  proof (intro conjI allI impI)
    have quiet: "todo (eb_frames s ! g) = {}" if "g < length (eb_frames s)" "fr_dispatch (eb_frames s ! g) = fr_dispatch y" for g
      using head fi that unfolding one_head_def o [symmetric] by blast
    fix g h assume "g < length (eb_frames s')" "h < length (eb_frames s')" "g \<noteq> h"
      "fr_dispatch (eb_frames s' ! g) = fr_dispatch (eb_frames s' ! h)"
    then show "todo (eb_frames s' ! g) = {} \<or> todo (eb_frames s' ! h) = {}"
      using one_headD(1) [OF head, of g h] quiet unfolding frames by (auto simp: nth_append less_Suc_eq)
  next
    fix m l p q
    assume "m < length (eb_continuations s')" "l < length (eb_continuations s')" "m \<noteq> l"
      "eb_continuations s' ! m = Some p" "eb_continuations s' ! l = Some q"
    then have a: "m < length (eb_continuations s)" "eb_continuations s ! m = Some p"
      "l < length (eb_continuations s)" "eb_continuations s ! l = Some q" "m \<noteq> l" using at by blast+
    then have "Some p \<in> set (eb_continuations s)" "Some q \<in> set (eb_continuations s)" by (metis nth_mem)+
    then show "owner_of p s' \<noteq> owner_of q s'"
      using head a unfolding one_head_def by (metis owner')
  next
    fix p g assume p: "Some p \<in> set (eb_continuations s')" and g: "g < length (eb_frames s')"
      and d: "fr_dispatch (eb_frames s' ! g) = owner_of p s'"
    obtain l where l: "l < length (eb_continuations s)" "l \<noteq> k" "eb_continuations s ! l = Some p"
      using p at by (metis in_set_conv_nth)
    then have old: "Some p \<in> set (eb_continuations s)" by (metis nth_mem)
    have "owner_of p s \<noteq> fr_dispatch y" using head l k unfolding one_head_def o [symmetric] by metis
    then have "g < length (eb_frames s)" using g d frames owner' [OF old] by (auto simp: nth_append less_Suc_eq)
    then show "todo (eb_frames s' ! g) = {}"
      using one_headD(3) [OF head old, of g] d frames owner' [OF old] by (simp add: nth_append)
  qed
  ultimately show ?thesis by blast
qed

lemma order_step:
  assumes inv: "order_inv s \<and> one_head s" and step: "event_exec l s = Some s'"
  shows "order_inv s' \<and> one_head s'"
  using step
proof (cases rule: event_exec_cases)
  case (outside bs)
  then show ?thesis using inv order_outside head_outside by (auto simp: same_runs_def)
next
  case (opened x)
  note D = order_invD [OF inv [THEN conjunct1]]
  have none: "called (fr_dispatch x) s = []" using D(5) [of "fr_dispatch x"] opened(3) by (auto simp: new_frame_def)
  have "order_inv s'"
    using opened none inv by (intro order_new [of s s' x]) (auto simp: same_runs_def new_frame_def shape_def slots_sorted_def)
  moreover have "one_head s'"
    unfolding one_head_def
  proof (intro conjI allI impI)
    fix g h assume "g < length (eb_frames s')" "h < length (eb_frames s')" "g \<noteq> h"
      "fr_dispatch (eb_frames s' ! g) = fr_dispatch (eb_frames s' ! h)"
    then show "todo (eb_frames s' ! g) = {} \<or> todo (eb_frames s' ! h) = {}"
      using one_headD(1) [OF inv [THEN conjunct2], of g h] D(2) [OF nth_mem, of g] D(2) [OF nth_mem, of h] opened(2,3)
      by (auto simp: nth_append less_Suc_eq new_frame_def)
  next
    fix k l p q
    assume kl: "k < length (eb_continuations s')" "l < length (eb_continuations s')" "k \<noteq> l"
      "eb_continuations s' ! k = Some p" "eb_continuations s' ! l = Some q"
    then have "Some p \<in> set (eb_continuations s)" "Some q \<in> set (eb_continuations s)" using opened(4) by (metis nth_mem)+
    then have "owner_of p s' = owner_of p s" "owner_of q s' = owner_of q s"
      using D(3) opened(2) by (simp_all add: owner_of_def nth_append)
    then show "owner_of p s' \<noteq> owner_of q s'" using inv kl opened(4) unfolding one_head_def by metis
  next
    fix p g assume p: "Some p \<in> set (eb_continuations s')" and g: "g < length (eb_frames s')"
      and d: "fr_dispatch (eb_frames s' ! g) = owner_of p s'"
    have old: "Some p \<in> set (eb_continuations s)" using p opened(4) by simp
    have o: "owner_of p s' = owner_of p s" using D(3) [OF old] opened(2) by (simp add: owner_of_def nth_append)
    have "owner_of p s < length (eb_frames s)" using D(2) D(3) [OF old] by (simp add: owner_of_def)
    then have "g < length (eb_frames s)" using g d o opened(2,3) by (auto simp: nth_append less_Suc_eq new_frame_def)
    then show "todo (eb_frames s' ! g) = {}"
      using one_headD(3) [OF inv [THEN conjunct2] old, of g] d o opened(2) by (simp add: nth_append)
  qed
  ultimately show ?thesis by blast
next
  case (stepped f)
  then show ?thesis using inv order_stepped by blast
next
  case (continued k f i p)
  then show ?thesis using inv
    by (intro order_continued [OF _ _ continued(2-5)]) (auto simp: same_runs_def)
qed

interpretation order: transition_invariant event_start "exec_rel event_exec" "\<lambda>s. order_inv s \<and> one_head s"
proof
  show "order_inv s \<and> one_head s" if "event_start s" for s :: "'a event_bus"
    using that by (simp add: event_start_def event_bus_new_def order_inv_def one_head_def called_def)
qed (unfold exec_rel_def, rule order_step)


subsection \<open>The results of a dispatch\<close>

text \<open>An index is settled when its result is logged, its future is built, or its once flag is taken.\<close>

definition settled :: "bool list \<Rightarrow> 'p frame \<Rightarrow> nat \<Rightarrow> bool" where
  "settled fl x j \<longleftrightarrow> j \<in> fst ` set (fr_results x) \<or> j \<in> slot_index ` set (fr_slots x)
    \<or> (\<exists>a. ls_once (fr_listeners x ! j) = Some a \<and> a < length fl \<and> fl ! a)"

text \<open>A continuation starts in the middle of the chain, so waterfalls claim nothing here.\<close>

definition settled_upto :: "nat \<Rightarrow> bool list \<Rightarrow> 'p frame \<Rightarrow> bool" where
  "settled_upto n fl x \<longleftrightarrow> fr_mode x = Waterfall \<or> (\<forall>j<n. j < length (fr_listeners x) \<longrightarrow> settled fl x j)"

definition going :: "dispatch_mode \<Rightarrow> (nat \<times> event_result) list \<Rightarrow> bool" where
  "going mode rs \<longleftrightarrow> list_all (\<lambda>(j, r). after_result mode r = GoOn) rs"

text \<open>How a sequential dispatch ended: at its end, or at the first result that decides.\<close>

definition decided :: "bool list \<Rightarrow> 'p frame \<Rightarrow> dispatch_result \<Rightarrow> bool" where
  "decided fl x res \<longleftrightarrow>
    (going (fr_mode x) (fr_results x) \<and> res = Inr (exhausted (fr_mode x))
      \<and> settled_upto (length (fr_listeners x)) fl x)
    \<or> (\<exists>rs i r out. fr_results x = rs @ [(i, r)] \<and> going (fr_mode x) rs
      \<and> after_result (fr_mode x) r = Finish out res)"

definition outcome_ok :: "bool list \<Rightarrow> 'p frame \<Rightarrow> bool" where
  "outcome_ok fl x \<longleftrightarrow>
    (case fr_stage x of
       Scan i \<Rightarrow> going (fr_mode x) (fr_results x) \<and> settled_upto i fl x
     | Claimed i \<Rightarrow> going (fr_mode x) (fr_results x) \<and> settled_upto i fl x
     | Invoke i \<Rightarrow> going (fr_mode x) (fr_results x) \<and> settled_upto i fl x
     | Running i \<Rightarrow> going (fr_mode x) (fr_results x) \<and> settled_upto i fl x
     | PollAt k p \<Rightarrow> settled_upto (length (fr_listeners x)) fl x
     | InPoll k p \<Rightarrow> settled_upto (length (fr_listeners x)) fl x
     | Done res \<Rightarrow>
         if fr_mode x = Parallel
         then settled_upto (length (fr_listeners x)) fl x
           \<and> (\<exists>rs. drain_slots (fr_slots x) = Some rs \<and> res = snd (parallel_verdict rs))
         else decided fl x res)"

definition flags_mono :: "bool list \<Rightarrow> bool list \<Rightarrow> bool" where
  "flags_mono fl fl' \<longleftrightarrow> length fl \<le> length fl' \<and> (\<forall>a<length fl. fl ! a \<longrightarrow> fl' ! a)"

lemma settled_upto_mono: "settled_upto n fl x \<Longrightarrow> flags_mono fl fl' \<Longrightarrow> settled_upto n fl' x"
  unfolding settled_upto_def settled_def flags_mono_def by (meson less_le_trans)

lemma outcome_ok_mono: "outcome_ok fl x \<Longrightarrow> flags_mono fl fl' \<Longrightarrow> outcome_ok fl' x"
  by (auto simp: outcome_ok_def decided_def intro: settled_upto_mono split: frame_stage.splits if_splits)

lemma flags_mono_put: "flags_mono fl (fl[a := True])"
  unfolding flags_mono_def by (metis length_list_update nth_list_update_eq nth_list_update_neq order_refl)

lemma flags_mono_refl [simp]: "flags_mono fl fl"
  by (simp add: flags_mono_def)

lemma frame_step_flags: "frame_step x fl x' fl' c \<Longrightarrow> flags_mono fl fl'"
  by (induction rule: frame_step.induct) (simp_all add: flags_mono_put)

lemma settled_upto_Suc:
  "settled_upto i fl x \<Longrightarrow> settled fl x i \<Longrightarrow> settled_upto (Suc i) fl x"
  by (auto simp: settled_upto_def less_Suc_eq)

lemma settled_upto_le: "settled_upto i fl x \<Longrightarrow> length (fr_listeners x) \<le> i \<Longrightarrow> settled_upto n fl x"
  by (auto simp: settled_upto_def)

lemma settled_upto_cong:
  assumes "fr_mode x' = fr_mode x" "fr_listeners x' = fr_listeners x"
    and "fst ` set (fr_results x) \<subseteq> fst ` set (fr_results x')"
    and "slot_index ` set (fr_slots x) \<subseteq> slot_index ` set (fr_slots x')"
  shows "settled_upto n fl x \<Longrightarrow> settled_upto n fl x'"
proof -
  have "settled fl x j \<Longrightarrow> settled fl x' j" for j
    using assms(2-4) unfolding settled_def by auto
  then show "settled_upto n fl x \<Longrightarrow> settled_upto n fl x'"
    using assms(1,2) unfolding settled_upto_def by auto
qed

lemma slot_indices_put:
  assumes "slot_index y = slot_index (ss ! k)"
  shows "slot_index ` set (ss[k := y]) = slot_index ` set ss"
  using arg_cong [OF slot_index_put [of y ss k, OF assms], of set] by simp

lemma settled_stage [simp]: "settled_upto n fl (at_stage st x) = settled_upto n fl x"
  by (simp add: settled_upto_def settled_def)

lemma settled_put:
  assumes "settled_upto n fl x" "slot_index y = slot_index (fr_slots x ! k)"
  shows "settled_upto n fl (x\<lparr>fr_slots := (fr_slots x)[k := y], fr_stage := st\<rparr>)"
  by (rule settled_upto_cong [OF _ _ _ _ assms(1)]) (simp_all add: slot_indices_put [OF assms(2)])

lemma frame_step_outcome:
  assumes "frame_step x fl x' fl' c" "addresses_ok (length fl) (fr_listeners x)" "shape x" "outcome_ok fl x"
  shows "outcome_ok fl' x'"
  using assms
proof (induction rule: frame_step.induct)
  case (skip x i a fl)
  then have "settled fl x i" by (auto simp: settled_def addresses_ok_def)
  then have "settled_upto (Suc i) fl x" using skip by (intro settled_upto_Suc) (auto simp: outcome_ok_def)
  then have "settled_upto (Suc i) fl (at_stage (Scan (Suc i)) x)" by (rule settled_upto_cong [rotated 4]) simp_all
  then show ?case using skip by (simp add: outcome_ok_def)
next
  case (win x i a fl)
  have "settled_upto i fl x" using win by (simp add: outcome_ok_def)
  then have "settled_upto i (fl[a := True]) x" by (rule settled_upto_mono [OF _ flags_mono_put])
  then have "settled_upto i (fl[a := True]) (at_stage (Claimed i) x)" by (rule settled_upto_cong [rotated 4]) simp_all
  then show ?case using win by (simp add: outcome_ok_def)
next
  case (build x i fl)
  let ?x = "x\<lparr>fr_slots := fr_slots x @ [Unpolled i], fr_stage := Scan (Suc i)\<rparr>"
  have "settled_upto i fl ?x" using build by (intro settled_upto_cong [of ?x x]) (auto simp: outcome_ok_def)
  then have "settled_upto (Suc i) fl ?x" by (rule settled_upto_Suc) (simp add: settled_def)
  then show ?case using build by (simp add: outcome_ok_def)
next
  case (go_on x i r fl)
  let ?x = "x\<lparr>fr_results := fr_results x @ [(i, r)], fr_stage := Scan (Suc i)\<rparr>"
  have "settled_upto i fl ?x" using go_on by (intro settled_upto_cong [of ?x x]) (auto simp: outcome_ok_def)
  then have "settled_upto (Suc i) fl ?x" by (rule settled_upto_Suc) (simp add: settled_def)
  moreover have "going (fr_mode x) (fr_results x)" using go_on by (auto simp: outcome_ok_def)
  ultimately show ?case using go_on by (simp add: outcome_ok_def going_def)
next
  case (decide x i r out res fl)
  moreover have "fr_mode x \<noteq> Parallel" using decide by (auto simp: shape_def)
  ultimately show ?case by (auto simp: outcome_ok_def decided_def)
next
  case (poll_refuse x k p i fl r)
  then show ?case using settled_put [of _ fl x _ k] by (auto simp: outcome_ok_def)
next
  case (poll_enter x k p i fl)
  then show ?case using settled_put [of _ fl x _ k] by (auto simp: outcome_ok_def)
next
  case (ready x k p fl r)
  then show ?case using settled_put [of _ fl x _ k] by (auto simp: outcome_ok_def)
next
  case (poll_end x k rs fl)
  then have "fr_mode x = Parallel" by (auto simp: shape_def split: if_splits)
  then show ?case using poll_end by (simp add: outcome_ok_def)
next
  case (exhaust x i fl)
  then have "settled_upto (length (fr_listeners x)) fl x"
    using settled_upto_le [of i fl x] by (simp add: outcome_ok_def)
  then show ?case using exhaust by (simp add: outcome_ok_def decided_def)
next
  case (to_polls x i fl)
  then show ?case using settled_upto_le [of i fl x] by (simp add: outcome_ok_def)
qed (auto simp: outcome_ok_def)

definition outcome_inv :: "'p event_bus \<Rightarrow> bool" where
  "outcome_inv s \<longleftrightarrow> once_inv s \<and> order_inv s \<and> one_head s \<and> (\<forall>x\<in>set (eb_frames s). outcome_ok (eb_flags s) x)"

lemma outcome_step:
  assumes inv: "outcome_inv s" and step: "event_exec l s = Some s'"
  shows "outcome_inv s'"
proof -
  have 1: "once_inv s" "order_inv s" "one_head s" and ok: "\<And>x. x \<in> set (eb_frames s) \<Longrightarrow> outcome_ok (eb_flags s) x"
    using inv by (auto simp: outcome_inv_def)
  have "\<forall>x\<in>set (eb_frames s'). outcome_ok (eb_flags s') x"
    using step
  proof (cases rule: event_exec_cases)
    case (outside bs)
    then have "flags_mono (eb_flags s) (eb_flags s')" by (simp add: flags_mono_def nth_append)
    then show ?thesis using ok outside(2) outcome_ok_mono by auto
  next
    case (opened x)
    then have "outcome_ok (eb_flags s) x" by (simp add: outcome_ok_def new_frame_def going_def settled_upto_def)
    then show ?thesis using ok opened by auto
  next
    case (stepped f)
    let ?x = "eb_frames s ! f"
    from stepped obtain x' c where f: "f < length (eb_frames s)"
      and fs: "frame_step ?x (eb_flags s) x' (eb_flags s') c" and fr: "eb_frames s' = (eb_frames s)[f := x']"
      by (auto simp: bus_step_def)
    have "outcome_ok (eb_flags s') x'"
      using frame_step_outcome [OF fs] 1(1) order_invD(1) [OF 1(2), of ?x] f ok [of ?x] by (auto simp: once_inv_def)
    then show ?thesis
      using ok outcome_ok_mono [OF _ frame_step_flags [OF fs]] subsetD [OF set_update_subset_insert] unfolding fr by fastforce
  next
    case (continued k f i p)
    have "Some (f, i) \<in> set (eb_continuations s)" using continued(2,3) by (metis nth_mem)
    then have "fr_mode (eb_frames s ! f) = Waterfall" using order_invD(4) [OF 1(2)] by fastforce
    then show ?thesis using ok continued(5,6) by (auto simp: outcome_ok_def going_def settled_upto_def)
  qed
  then show ?thesis using once_step [OF 1(1) step] order_step [OF _ step] 1 by (simp add: outcome_inv_def)
qed

interpretation outcome: transition_invariant event_start "exec_rel event_exec" outcome_inv
proof
  show "outcome_inv s" if "event_start s" for s :: "'a event_bus"
    using that once.inv_init [OF that] order.inv_init [OF that]
    by (simp add: outcome_inv_def event_start_def event_bus_new_def)
qed (unfold exec_rel_def, rule outcome_step)

text \<open>A continuation that was used stays used.\<close>

definition used_le :: "'p event_bus \<Rightarrow> 'p event_bus \<Rightarrow> bool" where
  "used_le s s' \<longleftrightarrow> length (eb_continuations s) \<le> length (eb_continuations s')
    \<and> (\<forall>k<length (eb_continuations s). eb_continuations s ! k = None \<longrightarrow> eb_continuations s' ! k = None)"

lemma used_step: "event_exec l s = Some s' \<Longrightarrow> used_le s s'"
proof (cases rule: event_exec_cases, assumption)
  fix f assume "bus_step f s s'"
  then obtain cs where "eb_continuations s' = eb_continuations s @ cs" by (auto simp: bus_step_def)
  then show "used_le s s'" by (simp add: used_le_def nth_append)
next
  fix k assume "eb_continuations s' = (eb_continuations s)[k := None]"
  then show "used_le s s'" unfolding used_le_def by (metis length_list_update nth_list_update_eq nth_list_update_neq order_refl)
qed (simp_all add: used_le_def)

interpretation used: transition_monotone "exec_rel event_exec" used_le
  by unfold_locales (auto simp: used_le_def exec_rel_def dest: used_step [unfolded used_le_def])

subsection \<open>Suspension\<close>

text \<open>How many actions a dispatch can take before user code runs or it has returned.\<close>

definition distance :: "'p frame \<Rightarrow> nat" where
  "distance x =
    (let n = length (fr_listeners x); m = length (fr_slots x) in
     case fr_stage x of
       Scan i \<Rightarrow> m + 4 * (n - i) + 3
     | Claimed i \<Rightarrow> m + 4 * (n - Suc i) + 6
     | Invoke i \<Rightarrow> m + 4 * (n - Suc i) + 5
     | PollAt k p \<Rightarrow> (m - k) + (if p then m + 2 else 1)
     | _ \<Rightarrow> 0)"

text \<open>\<open>drive n\<close> runs a dispatch for at most \<open>n\<close> actions.\<close>

fun drive :: "nat \<Rightarrow> nat \<Rightarrow> 'p event_bus \<Rightarrow> 'p event_bus" where
  "drive 0 f s = s"
| "drive (Suc n) f s = (case advance f s of None \<Rightarrow> s | Some s' \<Rightarrow> drive n f s')"

definition in_user_code :: "'p frame \<Rightarrow> bool" where
  "in_user_code x \<longleftrightarrow> (case fr_stage x of Running i \<Rightarrow> True | InPoll k p \<Rightarrow> True | _ \<Rightarrow> False)"

definition returned :: "'p frame \<Rightarrow> dispatch_result option" where
  "returned x = (case fr_stage x of Done r \<Rightarrow> Some r | _ \<Rightarrow> None)"

lemma frame_step_distance:
  "frame_step x fl x' fl' c \<Longrightarrow> \<not> in_user_code x \<Longrightarrow> distance x' < distance x"
  by (induction rule: frame_step.induct) (auto simp: distance_def in_user_code_def Let_def)

lemma drain_resolved: "resolved_to (length ss) ss \<Longrightarrow> drain_slots ss \<noteq> None"
proof (induction ss)
  case (Cons a ss)
  then have "resolved_to (length ss) ss" "\<exists>i r. a = Resolved i r" by (fastforce simp: resolved_to_def)+
  then show ?case using Cons by auto
qed simp

lemma advance_total:
  assumes "shape (eb_frames s ! f)" "f < length (eb_frames s)"
    and "\<not> in_user_code (eb_frames s ! f)" "returned (eb_frames s ! f) = None"
  shows "advance f s \<noteq> None"
proof (cases "fr_stage (eb_frames s ! f)")
  case (PollAt k p)
  let ?x = "eb_frames s ! f"
  have "resolved_to k (fr_slots ?x)" if "\<not> p"
    using assms(1) PollAt that by (auto simp: shape_def split: if_splits)
  then have "drain_slots (fr_slots ?x) \<noteq> None" if "\<not> p" "\<not> k < length (fr_slots ?x)"
    using that by (intro drain_resolved) (auto simp: resolved_to_def)
  then show ?thesis using PollAt assms(2)
    by (auto simp: advance_def poll_step_def Let_def split: slot.split option.split)
qed (use assms in \<open>auto simp: advance_def in_user_code_def returned_def Let_def\<close>)


subsection \<open>Calls belong to the snapshot\<close>

definition in_range :: "'p frame \<Rightarrow> bool" where
  "in_range x \<longleftrightarrow>
    (case fr_stage x of Claimed i \<Rightarrow> i < length (fr_listeners x) | Invoke i \<Rightarrow> i < length (fr_listeners x) | _ \<Rightarrow> True)
    \<and> (\<forall>i. Unpolled i \<in> set (fr_slots x) \<longrightarrow> i < length (fr_listeners x))"

definition snapshot_inv :: "'p event_bus \<Rightarrow> bool" where
  "snapshot_inv s \<longleftrightarrow>
    (\<forall>x\<in>set (eb_frames s). in_range x \<and> fr_dispatch x < length (eb_frames s)
      \<and> fr_listeners (eb_frames s ! fr_dispatch x) = fr_listeners x)
    \<and> (\<forall>fi. Some fi \<in> set (eb_continuations s) \<longrightarrow> fst fi < length (eb_frames s))
    \<and> (\<forall>(d, i, l)\<in>set (eb_calls s). d < length (eb_frames s)
      \<and> i < length (fr_listeners (eb_frames s ! d)) \<and> l = fr_listeners (eb_frames s ! d) ! i)"

lemma frame_step_range:
  "frame_step x fl x' fl' c \<Longrightarrow> in_range x \<Longrightarrow> in_range x' \<and> (\<forall>i. c = Some i \<longrightarrow> i < length (fr_listeners x))"
proof (induction rule: frame_step.induct)
  case (poll_refuse x k p i fl r)
  then show ?case by (auto simp: in_range_def dest: unpolled_put)
next
  case (poll_enter x k p i fl)
  then have "Unpolled i \<in> set (fr_slots x)" by (metis nth_mem)
  then show ?case using poll_enter by (auto simp: in_range_def dest: unpolled_put)
next
  case (ready x k p fl r)
  then show ?case by (auto simp: in_range_def dest: unpolled_put)
qed (auto simp: in_range_def)

lemma snapshot_new:
  assumes inv: "snapshot_inv s" and frames: "eb_frames s' = eb_frames s @ [x]" and calls: "eb_calls s' = eb_calls s"
    and conts: "set (eb_continuations s') \<subseteq> insert None (set (eb_continuations s))"
    and x: "in_range x" "fr_dispatch x = length (eb_frames s)
      \<or> fr_dispatch x < length (eb_frames s) \<and> fr_listeners (eb_frames s ! fr_dispatch x) = fr_listeners x"
  shows "snapshot_inv s'"
  unfolding snapshot_inv_def
proof (intro conjI ballI allI impI)
  fix y assume "y \<in> set (eb_frames s')"
  then show "in_range y" "fr_dispatch y < length (eb_frames s')"
    "fr_listeners (eb_frames s' ! fr_dispatch y) = fr_listeners y"
    using inv x frames by (auto simp: snapshot_inv_def nth_append)
next
  fix fi assume "Some fi \<in> set (eb_continuations s')"
  then have "Some fi \<in> set (eb_continuations s)" using conts by auto
  then show "fst fi < length (eb_frames s')" using inv frames unfolding snapshot_inv_def by (metis length_append_singleton less_SucI)
next
  fix c assume "c \<in> set (eb_calls s')"
  then show "case c of (d, i, l) \<Rightarrow> d < length (eb_frames s')
      \<and> i < length (fr_listeners (eb_frames s' ! d)) \<and> l = fr_listeners (eb_frames s' ! d) ! i"
    using inv calls frames by (fastforce simp: snapshot_inv_def nth_append)
qed

lemma snapshot_step:
  assumes inv: "snapshot_inv s" and step: "event_exec l s = Some s'"
  shows "snapshot_inv s'"
  using step
proof (cases rule: event_exec_cases)
  case (outside bs)
  then show ?thesis using inv by (simp add: snapshot_inv_def same_runs_def)
next
  case (opened x)
  then show ?thesis using inv by (intro snapshot_new [of s s' x]) (auto simp: same_runs_def new_frame_def in_range_def)
next
  case (stepped f)
  let ?x = "eb_frames s ! f"
  from stepped obtain x' c where f: "f < length (eb_frames s)"
    and fs: "frame_step ?x (eb_flags s) x' (eb_flags s') c"
    and fr: "eb_frames s' = (eb_frames s)[f := x']"
    and calls: "eb_calls s' = eb_calls s @ (case c of None \<Rightarrow> [] | Some i \<Rightarrow> [(fr_dispatch ?x, i, fr_listeners ?x ! i)])"
    and cs: "set (eb_continuations s') \<subseteq> set (eb_continuations s) \<union> (\<lambda>i. Some (f, i)) ` UNIV"
    by (auto simp: bus_step_def split: option.splits if_splits)
  have x: "in_range ?x" "fr_dispatch ?x < length (eb_frames s)" "fr_listeners (eb_frames s ! fr_dispatch ?x) = fr_listeners ?x"
    using inv f by (auto simp: snapshot_inv_def)
  note same = frame_step_same [OF fs] and range = frame_step_range [OF fs x(1)]
  have listeners: "fr_listeners (eb_frames s' ! g) = fr_listeners (eb_frames s ! g)" for g
    using same f fr by (cases "g = f") simp_all
  show ?thesis
    unfolding snapshot_inv_def
  proof (intro conjI ballI allI impI)
    fix y assume "y \<in> set (eb_frames s')"
    then have "y = x' \<or> y \<in> set (eb_frames s)" using fr subsetD [OF set_update_subset_insert] by fastforce
    then show "in_range y" "fr_dispatch y < length (eb_frames s')"
      "fr_listeners (eb_frames s' ! fr_dispatch y) = fr_listeners y"
      unfolding listeners using inv x range same fr by (auto simp: snapshot_inv_def)
  next
    fix fi assume "Some fi \<in> set (eb_continuations s')"
    then have "Some fi \<in> set (eb_continuations s) \<or> fst fi = f" using cs by auto
    then show "fst fi < length (eb_frames s')" using inv f fr unfolding snapshot_inv_def by (metis length_list_update)
  next
    fix p assume "p \<in> set (eb_calls s')"
    then have "p \<in> set (eb_calls s) \<or> (\<exists>i. c = Some i \<and> p = (fr_dispatch ?x, i, fr_listeners ?x ! i))"
      using calls by (auto split: option.splits)
    then show "case p of (d, i, l) \<Rightarrow> d < length (eb_frames s')
        \<and> i < length (fr_listeners (eb_frames s' ! d)) \<and> l = fr_listeners (eb_frames s' ! d) ! i"
      unfolding listeners using inv x range fr by (auto simp: snapshot_inv_def)
  qed
next
  case (continued k f i p)
  have "Some (f, i) \<in> set (eb_continuations s)" using continued(2,3) by (metis nth_mem)
  then have "f < length (eb_frames s)" using inv unfolding snapshot_inv_def by (metis fst_conv)
  then show ?thesis using inv continued(1) nth_mem [of f "eb_frames s"] set_update_subset_insert [of "eb_continuations s" k None]
    by (intro snapshot_new [OF inv continued(5)])
      (auto simp: same_runs_def in_range_def continued(4) snapshot_inv_def)
qed

interpretation snapshot: transition_invariant event_start "exec_rel event_exec" snapshot_inv
proof
  show "snapshot_inv s" if "event_start s" for s :: "'a event_bus"
    using that by (simp add: event_start_def event_bus_new_def snapshot_inv_def)
qed (unfold exec_rel_def, rule snapshot_step)

end
