(* ===== verification/EventProps.thy ===== *)
theory EventProps
  imports EventsInv
begin

section \<open>What the event bus guarantees\<close>

text \<open>
  The properties of events.rs, from the invariants of EventsInv, and runs of the machine that
  exercise them.
\<close>

definition ineffective :: "nat \<times> event_result \<Rightarrow> bool" where
  "ineffective jr = (case snd jr of Inr v \<Rightarrow> \<not> is_effective v | Inl e \<Rightarrow> False)"

lemma going_ineffective:
  "mode = Bail \<or> mode = Serial \<Longrightarrow> going mode rs = list_all ineffective rs"
proof -
  assume m: "mode = Bail \<or> mode = Serial"
  have "(after_result mode r = GoOn) = ineffective (j, r)" for j r
    using m by (cases r) (auto simp: ineffective_def)
  then show ?thesis by (auto simp: going_def list_all_iff)
qed

lemma length_filter_hit: "length (filter (\<lambda>(d, i, l). ls_once l = Some a) cs) = sum_list (map (\<lambda>(d, i, l). hit a l) cs)"
  by (induction cs) (auto simp: hit_def)

lemma partition_ok: "partition_results rs = (vs, []) \<longleftrightarrow> rs = map Inr vs"
proof (induction rs arbitrary: vs)
  case (Cons r rs)
  then show ?case by (cases r; cases "partition_results rs"; cases vs) auto
qed auto

lemma partition_errors: "snd (partition_results rs) = concat (map (\<lambda>r. case r of Inl e \<Rightarrow> [e] | Inr v \<Rightarrow> []) rs)"
  by (induction rs rule: partition_results.induct) (auto simp: split_beta)

subsection \<open>Properties\<close>

text \<open>C9: A once listener is called at most once in the whole life of the bus, whatever dispatches,
  removals and re-entrant calls interleave with the claim of its flag.\<close>

theorem once_listeners_run_once:
  assumes "event_reach s"
  shows "length (filter (\<lambda>(d, i, l). ls_once l = Some a) (eb_calls s)) \<le> 1"
proof -
  have "calls_of a s + sum_list (map (held a) (eb_frames s)) \<le> taken a (eb_flags s)"
    using once.inv_reach [OF assms] by (simp add: once_inv_def)
  moreover have "taken a (eb_flags s) \<le> 1" by (simp add: taken_def)
  ultimately have "calls_of a s \<le> 1" by linarith
  then show ?thesis by (simp add: length_filter_hit calls_of_def)
qed

text \<open>A dispatch, a waterfall with all its continuations included, enters only listeners of the
  snapshot it took, in the order of that snapshot and each of them at most once, also when the
  polls of a parallel dispatch interleave with other work.\<close>

theorem dispatch_calls_in_snapshot_order:
  assumes "event_reach s"
  shows "sorted_wrt (<) (called d s)
    \<and> list_all (\<lambda>(d, i, l). i < length (fr_listeners (eb_frames s ! d)) \<and> l = fr_listeners (eb_frames s ! d) ! i) (eb_calls s)"
  using order.inv_reach [OF assms] snapshot.inv_reach [OF assms]
  by (auto simp: order_inv_def snapshot_inv_def list_all_iff)

text \<open>C10: \<open>bail\<close> and \<open>serial\<close> return the first effective value (neither null nor false) or the first
  error, and every result before it was an ineffective value; they return no value only when
  every listener of the snapshot gave an ineffective value or was a once listener claimed by
  somebody else.\<close>

theorem first_effective_value_wins:
  assumes "event_reach s" and "f < length (eb_frames s)"
    and "fr_mode (eb_frames s ! f) = Bail \<or> fr_mode (eb_frames s ! f) = Serial"
    and "returned (eb_frames s ! f) = Some res"
  shows "case res of
      Inl e \<Rightarrow> \<exists>rs i. fr_results (eb_frames s ! f) = rs @ [(i, Inl e)] \<and> list_all ineffective rs
    | Inr (Found (Some v)) \<Rightarrow>
        \<exists>rs i. fr_results (eb_frames s ! f) = rs @ [(i, Inr v)] \<and> is_effective v \<and> list_all ineffective rs
    | Inr (Found None) \<Rightarrow>
        list_all ineffective (fr_results (eb_frames s ! f))
        \<and> list_all (settled (eb_flags s) (eb_frames s ! f)) [0..<length (fr_listeners (eb_frames s ! f))]
    | _ \<Rightarrow> False"
proof -
  let ?x = "eb_frames s ! f"
  have "outcome_ok (eb_flags s) ?x"
    using outcome.inv_reach [OF assms(1)] assms(2) by (simp add: outcome_inv_def)
  then have "decided (eb_flags s) ?x res"
    using assms(3,4) by (auto simp: outcome_ok_def returned_def split: frame_stage.splits)
  then show ?thesis
    unfolding decided_def
  proof
    assume a: "going (fr_mode ?x) (fr_results ?x) \<and> res = Inr (exhausted (fr_mode ?x))
      \<and> settled_upto (length (fr_listeners ?x)) (eb_flags s) ?x"
    then show ?thesis using assms(3) going_ineffective
      by (auto simp: settled_upto_def list_all_iff)
  next
    assume "\<exists>rs i r out. fr_results ?x = rs @ [(i, r)] \<and> going (fr_mode ?x) rs \<and> after_result (fr_mode ?x) r = Finish out res"
    then obtain rs i r out where r: "fr_results ?x = rs @ [(i, r)]" "list_all ineffective rs"
      "after_result (fr_mode ?x) r = Finish out res"
      using assms(3) going_ineffective by blast
    show ?thesis
    proof (cases r)
      case (Inl e)
      then have "res = Inl e" using r(3) assms(3) by auto
      then show ?thesis using r Inl by auto
    next
      case (Inr v)
      then have "res = Inr (Found (Some v))" "is_effective v" using r(3) assms(3) by (auto split: if_splits)
      then show ?thesis using r Inr by auto
    qed
  qed
qed

text \<open>A parallel dispatch returns after all its futures: each listener of the snapshot has a slot
  (or was a once listener claimed elsewhere), the values are returned in listener order, and if any failed the
  errors are all reported, in listener order, whatever the order in which the futures resolved.\<close>

theorem parallel_collects_every_result:
  assumes "event_reach s" and "f < length (eb_frames s)"
    and "fr_mode (eb_frames s ! f) = Parallel" and "returned (eb_frames s ! f) = Some res"
  shows "\<exists>rs. drain_slots (fr_slots (eb_frames s ! f)) = Some rs
    \<and> sorted_wrt (<) (map slot_index (fr_slots (eb_frames s ! f)))
    \<and> list_all (settled (eb_flags s) (eb_frames s ! f)) [0..<length (fr_listeners (eb_frames s ! f))]
    \<and> (case res of
        Inr (Values vs) \<Rightarrow> rs = map Inr vs
      | Inl e \<Rightarrow> e = Cleanup (concat (map (\<lambda>r. case r of Inl e \<Rightarrow> [e] | Inr v \<Rightarrow> []) rs)) \<and> e \<noteq> Cleanup []
      | _ \<Rightarrow> False)"
proof -
  let ?x = "eb_frames s ! f"
  have inv: "outcome_ok (eb_flags s) ?x" "shape ?x"
    using outcome.inv_reach [OF assms(1)] assms(2) by (auto simp: outcome_inv_def order_inv_def)
  then obtain rs where rs: "drain_slots (fr_slots ?x) = Some rs" "res = snd (parallel_verdict rs)"
    and all: "settled_upto (length (fr_listeners ?x)) (eb_flags s) ?x"
    using assms(3,4) by (auto simp: outcome_ok_def returned_def split: frame_stage.splits)
  obtain vs es where p: "partition_results rs = (vs, es)" by (cases "partition_results rs")
  have "case res of
        Inr (Values vs) \<Rightarrow> rs = map Inr vs
      | Inl e \<Rightarrow> e = Cleanup (concat (map (\<lambda>r. case r of Inl e \<Rightarrow> [e] | Inr v \<Rightarrow> []) rs)) \<and> e \<noteq> Cleanup []
      | _ \<Rightarrow> False"
    using rs(2) p partition_ok [of rs vs] partition_errors [of rs] by (auto simp: parallel_verdict_def)
  moreover have "sorted_wrt (<) (map slot_index (fr_slots ?x))"
    using inv(2) assms(3) by (simp add: shape_def slots_sorted_def)
  moreover have "list_all (settled (eb_flags s) ?x) [0..<length (fr_listeners ?x)]"
    using all assms(3) by (auto simp: settled_upto_def list_all_iff)
  ultimately show ?thesis using rs(1) by blast
qed

text \<open>A dispatch never gets stuck and never loops on its own: driven for at most \<open>distance\<close>
  actions, it has returned or it waits for user code. In particular \<open>join_all\<close> never unwraps a
  missing result.\<close>

theorem dispatch_suspends:
  assumes "event_reach s" and "f < length (eb_frames s)"
  shows "in_user_code (eb_frames (drive (distance (eb_frames s ! f)) f s) ! f)
    \<or> returned (eb_frames (drive (distance (eb_frames s ! f)) f s) ! f) \<noteq> None"
proof -
  have "in_user_code (eb_frames (drive n f s) ! f) \<or> returned (eb_frames (drive n f s) ! f) \<noteq> None"
    if "distance (eb_frames s ! f) \<le> n" for n
    using assms that
  proof (induction n arbitrary: s)
    case 0
    have "shape (eb_frames s ! f)" using order.inv_reach [OF 0(1)] 0(2) by (auto simp: order_inv_def)
    then show ?case
      using 0 advance_total [of s f] advance_bus [of f s] frame_step_distance
      by (fastforce simp: bus_step_def)
  next
    case (Suc n)
    show ?case
    proof (cases "in_user_code (eb_frames s ! f) \<or> returned (eb_frames s ! f) \<noteq> None")
      case True
      then have "advance f s = None"
        by (auto simp: advance_def in_user_code_def returned_def Let_def split: frame_stage.splits)
      then show ?thesis using True by simp
    next
      case False
      have "shape (eb_frames s ! f)" using order.inv_reach [OF Suc(2)] Suc(3) by (auto simp: order_inv_def)
      then obtain s' where s': "advance f s = Some s'" using advance_total [of s f] False Suc(3) by auto
      then have "exec_rel event_exec s (Advance f) s'" by (simp add: exec_rel_def)
      with Suc(2) have "event_reach s'" by (rule reach_step)
      moreover have "f < length (eb_frames s')" "distance (eb_frames s' ! f) < distance (eb_frames s ! f)"
        using advance_bus [OF s'] frame_step_distance False by (auto simp: bus_step_def)
      ultimately show ?thesis using Suc(1) [of s'] Suc(4) s' by simp
    qed
  qed
  then show ?thesis by blast
qed

text \<open>The continuation of a waterfall listener works once: after a \<open>next\<close> that started the rest
  of the chain every later \<open>next\<close> on it, at any point of any run, fails with
  \<open>WaterfallContinuationUsed\<close> and changes nothing.\<close>

theorem continuation_is_one_shot:
  assumes "continue_next k p s = Some (Inr f, s1)" and "run (exec_rel event_exec) s1 ls s2"
  shows "continue_next k q s2 = Some (Inl WaterfallContinuationUsed, s2)"
proof -
  have "k < length (eb_continuations s1)" "eb_continuations s1 ! k = None"
    using assms(1) by (auto simp: continue_next_def split: if_splits option.splits)
  then show ?thesis using used.le_run [OF assms(2)] by (auto simp: used_le_def continue_next_def)
qed

text \<open>Registration is atomic: when the owner is disposed between the insertion and the
  registration of the cleanup effect, \<open>register\<close> returns the error and the listeners are as
  before; otherwise the cleanup it has registered removes exactly the new listener. The token
  is fresh and no entry is empty, as registration and removal keep it.\<close>

theorem registration_is_atomic:
  assumes start: "register_begin owner event opts flt once kind ty cb s = Some (Inr r, s1)"
    and finish: "register_finish r (s1\<lparr>eb_life := m\<rparr>) = Some (res, s2)"
    and wf: "bt_wf (eb_listeners s)" "bt_get (eb_listeners s) event \<noteq> Some []"
    and fresh: "list_all (\<lambda>l. ls_token l \<noteq> eb_next_listener s) (entries_of (eb_listeners s) event)"
  shows "case res of
      Inl e \<Rightarrow> eb_listeners s2 = eb_listeners s
    | Inr i \<Rightarrow> eb_listeners s2 \<noteq> eb_listeners s
        \<and> map_option eb_listeners (run_cleanup (length (eb_cleanups s)) s2) = Some (eb_listeners s)"
proof -
  define l where "l = \<lparr>ls_token = eb_next_listener s, ls_owner = owner,
    ls_filter = (if global opts then None else Some flt),
    ls_once = (if once then Some (length (eb_flags s)) else None),
    ls_kind = kind, ls_type = ty, ls_callback = cb\<rparr>"
  have l: "ls_token l = eb_next_listener s" by (simp add: l_def)
  have s1: "eb_listeners s1 = insert_listener event (prepend opts) l (eb_listeners s)"
      "eb_registrations s1 = eb_registrations s @ [\<lparr>rg_owner = owner, rg_event = event,
        rg_token = eb_next_listener s, rg_result = None\<rparr>]" "r = length (eb_registrations s)"
      "eb_cleanups s1 = eb_cleanups s"
    using start unfolding l_def by (auto simp: register_begin_def bind_eq_Some_conv Let_def split: if_splits)
  let ?new = "if prepend opts then l # entries_of (eb_listeners s) event else entries_of (eb_listeners s) event @ [l]"
  have filter: "filter (\<lambda>x. ls_token x \<noteq> eb_next_listener s) ?new = entries_of (eb_listeners s) event"
    using fresh l by (auto simp: list_all_iff filter_empty_conv intro: filter_True)
  have get: "bt_get (eb_listeners s1) event = Some ?new"
    unfolding s1 by (auto simp: insert_listener_def entries_of_def split: option.splits)
  have differ: "eb_listeners s1 \<noteq> eb_listeners s"
  proof
    assume "eb_listeners s1 = eb_listeners s"
    then have "entries_of (eb_listeners s) event = ?new" using get by (simp add: entries_of_def)
    then show False by (metis length_append_singleton length_Cons n_not_Suc_n)
  qed
  have wf1: "bt_wf (eb_listeners s1)" unfolding s1 insert_listener_def using wf(1) by simp
  have undo: "snd (remove_listener event (eb_next_listener s) (eb_listeners s1)) = eb_listeners s" (is "?m = _")
  proof (rule bt.extensional [OF _ wf(1)])
    show "bt_wf ?m" using wf1 by (simp add: remove_listener_def Let_def split: option.split)
    have other: "bt_get (eb_listeners s1) k = bt_get (eb_listeners s) k" if "k \<noteq> event" for k
      using that by (simp add: s1 insert_listener_def)
    show "bt_get ?m = bt_get (eb_listeners s)"
    proof
      fix k
      show "bt_get ?m k = bt_get (eb_listeners s) k"
        unfolding remove_listener_def get option.case Let_def filter snd_conv
        using wf(2) other [of k] by (cases "k = event") (auto simp: entries_of_def split: option.split)
    qed
  qed
  show ?thesis
  proof (cases res)
    case (Inl e)
    then have "eb_listeners s2 = ?m"
      using finish s1 by (auto simp: register_finish_def Let_def split: if_splits)
    then show ?thesis using undo Inl by simp
  next
    case (Inr i)
    then have "eb_listeners s2 = eb_listeners s1" "eb_cleanups s2 = eb_cleanups s @ [(event, eb_next_listener s)]"
      using finish s1 by (auto simp: register_finish_def Let_def split: if_splits)
    then show ?thesis using undo differ Inr by (simp add: run_cleanup_def)
  qed
qed


subsection \<open>Sample runs\<close>

definition plain :: event_options where
  "plain = \<lparr>prepend = False, global = False\<rparr>"

definition byte :: "nat \<Rightarrow> nat payload" where
  "byte n = \<lparr>pl_type = ''u8'', pl_value = n\<rparr>"

text \<open>One scope, a once listener and an ordinary one of the same kind.\<close>

definition setup_of :: "listener_kind \<Rightarrow> nat event_step list" where
  "setup_of kind =
    [OnLife RootScope,
     RegisterBegin 1 ''e'' plain default_filter (kind \<noteq> WaterfallListener) kind ''u8'' 10, RegisterFinish 0,
     RegisterBegin 1 ''e'' plain default_filter False kind ''u8'' 20, RegisterFinish 1]"

definition sample :: "listener_kind \<Rightarrow> nat event_step list \<Rightarrow> nat event_bus" where
  "sample kind ls = the (exec_run event_exec (setup_of kind @ ls) event_bus_new)"

lemma sample_reach:
  "\<not> Option.is_none (exec_run event_exec (setup_of kind @ ls) event_bus_new) \<Longrightarrow> event_reach (sample kind ls)"
  unfolding sample_def
  by (rule exec_run_reach [of _ "setup_of kind @ ls" event_bus_new]) (auto simp: event_start_def Option.is_none_def)

text \<open>Two dispatches that race for the once listener; the loser finds the effective value.\<close>

definition race :: "nat event_step list" where
  "race =
    [Dispatch Serial ''e'' default_filter (byte 1), Dispatch Bail ''e'' default_filter (byte 2),
     Advance 1, Advance 0, Advance 1, Advance 1, Advance 0, Advance 0,
     Resume 1 (Some (Inr JNull)), Resume 0 (Some (Inr (JBool True)))]"

text \<open>A parallel dispatch whose first future resolves last.\<close>

definition polls :: "nat event_step list" where
  "polls =
    [Dispatch Parallel ''e'' default_filter (byte 1), Advance 0, Advance 0, Advance 0, Advance 0, Advance 0, Advance 0,
     Advance 0, Resume 0 None, Advance 0, Resume 0 (Some (Inr (JBool False))), Advance 0, Advance 0,
     Resume 0 (Some (Inl Cancelled)), Advance 0, Advance 0]"

text \<open>A waterfall whose first listener hands a changed payload to the second.\<close>

definition chain_run :: "nat event_step list" where
  "chain_run =
    [Dispatch Waterfall ''e'' default_filter (byte 1), Advance 0, Advance 0]"

theorem once_listeners_run_once_witness:
  "length (filter (\<lambda>(d, i, l). ls_once l = Some 0) (eb_calls (sample SyncListener race))) \<le> 1
    \<and> map (\<lambda>(d, i, l). (d, i)) (eb_calls (sample SyncListener race)) = [(1, 0), (0, 1)]"
proof -
  have "\<not> Option.is_none (exec_run event_exec (setup_of SyncListener @ race) event_bus_new)" by code_simp
  from once_listeners_run_once [OF sample_reach [OF this], of 0]
  show ?thesis by (rule conjI) code_simp
qed

theorem dispatch_calls_in_snapshot_order_witness:
  "sorted_wrt (<) (called 0 (sample AsyncListener polls)) \<and> called 0 (sample AsyncListener polls) = [0, 1]"
proof -
  have "\<not> Option.is_none (exec_run event_exec (setup_of AsyncListener @ polls) event_bus_new)" by code_simp
  from dispatch_calls_in_snapshot_order [OF sample_reach [OF this], of 0]
  show ?thesis by (intro conjI) (simp, code_simp)
qed

theorem first_effective_value_wins_witness:
  "returned (eb_frames (sample SyncListener race) ! 0) = Some (Inr (Found (Some (JBool True))))
    \<and> (\<exists>rs i. fr_results (eb_frames (sample SyncListener race) ! 0) = rs @ [(i, Inr (JBool True))]
        \<and> is_effective (JBool True) \<and> list_all ineffective rs)"
proof -
  have run: "\<not> Option.is_none (exec_run event_exec (setup_of SyncListener @ race) event_bus_new)" by code_simp
  have 0: "0 < length (eb_frames (sample SyncListener race))" by code_simp
  have m: "fr_mode (eb_frames (sample SyncListener race) ! 0) = Serial" by code_simp
  have r: "returned (eb_frames (sample SyncListener race) ! 0) = Some (Inr (Found (Some (JBool True))))" by code_simp
  from first_effective_value_wins [OF sample_reach [OF run] 0 disjI2 [OF m] r] r show ?thesis by simp
qed

theorem parallel_collects_every_result_witness:
  "returned (eb_frames (sample AsyncListener polls) ! 0) = Some (Inl (Cleanup [Cancelled]))
    \<and> sorted_wrt (<) (map slot_index (fr_slots (eb_frames (sample AsyncListener polls) ! 0)))"
proof -
  have run: "\<not> Option.is_none (exec_run event_exec (setup_of AsyncListener @ polls) event_bus_new)" by code_simp
  have 0: "0 < length (eb_frames (sample AsyncListener polls))" by code_simp
  have m: "fr_mode (eb_frames (sample AsyncListener polls) ! 0) = Parallel" by code_simp
  have r: "returned (eb_frames (sample AsyncListener polls) ! 0) = Some (Inl (Cleanup [Cancelled]))" by code_simp
  from parallel_collects_every_result [OF sample_reach [OF run] 0 m r] r show ?thesis by blast
qed

theorem dispatch_suspends_witness:
  "in_user_code (eb_frames (drive 11 0 (sample SyncListener (take 1 race))) ! 0)"
proof -
  have run: "\<not> Option.is_none (exec_run event_exec (setup_of SyncListener @ take 1 race) event_bus_new)" by code_simp
  have 0: "0 < length (eb_frames (sample SyncListener (take 1 race)))" by code_simp
  have d: "distance (eb_frames (sample SyncListener (take 1 race)) ! 0) = 11" by code_simp
  have n: "returned (eb_frames (drive 11 0 (sample SyncListener (take 1 race))) ! 0) = None" by code_simp
  from dispatch_suspends [OF sample_reach [OF run] 0] d n show ?thesis by simp
qed

theorem continuation_is_one_shot_witness:
  "map_option fst (continue_next 0 (byte 3) (snd (the (continue_next 0 (byte 2) (sample WaterfallListener chain_run)))))
    = Some (Inl WaterfallContinuationUsed)"
proof -
  let ?s = "sample WaterfallListener chain_run"
  have "case continue_next 0 (byte 2) ?s of Some (Inr f, _) \<Rightarrow> f = 1 | _ \<Rightarrow> False" by code_simp
  then obtain f s1 where c: "continue_next 0 (byte 2) ?s = Some (Inr f, s1)"
    by (auto split: option.splits prod.splits sum.splits)
  from continuation_is_one_shot [OF c run_nil, of "byte 3"] c show ?thesis by simp
qed

theorem registration_is_atomic_witness:
  "map_option (\<lambda>(res, s2). (res, eb_listeners s2))
      (register_finish 2 ((snd (the (register_begin 1 ''e'' plain default_filter False SyncListener ''u8'' 30
        (sample SyncListener []))))\<lparr>eb_life := the (lifecycle_exec (Dispose [] 1) (eb_life (sample SyncListener [])))\<rparr>))
    = Some (Inl (InvalidState ''register effect'' Unloading), eb_listeners (sample SyncListener []))"
proof -
  let ?s = "sample SyncListener []"
  let ?b = "register_begin 1 ''e'' plain default_filter False SyncListener ''u8'' 30 ?s"
  let ?m = "the (lifecycle_exec (Dispose [] 1) (eb_life ?s))"
  have "case ?b of Some (Inr r, _) \<Rightarrow> r = 2 | _ \<Rightarrow> False" by code_simp
  then obtain s1 where b: "?b = Some (Inr 2, s1)" by (auto split: option.splits prod.splits sum.splits)
  have "case register_finish 2 ((snd (the ?b))\<lparr>eb_life := ?m\<rparr>) of
      Some (Inl e, _) \<Rightarrow> e = InvalidState ''register effect'' Unloading | _ \<Rightarrow> False" by code_simp
  then obtain s2 where f: "register_finish 2 (s1\<lparr>eb_life := ?m\<rparr>) = Some (Inl (InvalidState ''register effect'' Unloading), s2)"
    using b by (auto split: option.splits prod.splits sum.splits)
  have w: "bt_wf (eb_listeners ?s)" "bt_get (eb_listeners ?s) ''e'' \<noteq> Some []"
    "list_all (\<lambda>l. ls_token l \<noteq> eb_next_listener ?s) (entries_of (eb_listeners ?s) ''e'')"
    by (code_simp, code_simp, code_simp)
  from registration_is_atomic [OF b f w] f b show ?thesis by simp
qed

end
