(* ===== verification/Protocol.thy ===== *)
theory Protocol
  imports Json
begin

section \<open>The bridge protocol (node-bridge/protocol.rs)\<close>

text \<open>
  Frames, their validation, the wire form that the derived \<open>Serialize\<close> and \<open>Deserialize\<close>
  give them, and the length-prefixed codec. The text form of a JSON value belongs to serde_json:
  \<open>render\<close> and \<open>parse\<close> are parameters, and so is \<open>serde_msg\<close>, the wording of its errors. A
  parsed document keeps the fields of its objects as written, repeated ones included.
\<close>

subsection \<open>Errors\<close>

record remote_error =
  re_code :: string
  re_message :: message
  re_details :: "json option"

datatype bridge_error =
    Io message
  | FrameTooLarge nat nat
  | InvalidFrame message
  | ProtocolVersion string string
  | Generation u64 u64
  | QueueFull
  | Timeout
  | Handshake message
  | Disconnected message
  | BridgeCancelled
  | Remote remote_error
  | ProcessError message

definition remote_error_display :: "remote_error \<Rightarrow> message" where
  "remote_error_display e = [Text (re_code e), Text '': ''] @ re_message e"

fun bridge_error_display :: "bridge_error \<Rightarrow> message" where
  "bridge_error_display (Io m) = Text ''bridge I/O failed: '' # m"
| "bridge_error_display (FrameTooLarge announced limit) =
    [Text ''bridge frame of '', Text (dec announced), Text '' bytes exceeds '', Text (dec limit),
     Text '' byte limit'']"
| "bridge_error_display (InvalidFrame m) = Text ''invalid bridge frame: '' # m"
| "bridge_error_display (ProtocolVersion expected received) =
    [Text ''bridge protocol '', Dbg received, Text '' is incompatible with '', Dbg expected]"
| "bridge_error_display (Generation expected received) =
    [Text ''bridge generation '', Text (dec (unat received)), Text '' does not match active generation '',
     Text (dec (unat expected))]"
| "bridge_error_display QueueFull = msg ''bridge queue is full''"
| "bridge_error_display Timeout = msg ''bridge request timed out''"
| "bridge_error_display (Handshake m) = Text ''bridge handshake failed: '' # m"
| "bridge_error_display (Disconnected m) = Text ''bridge disconnected: '' # m"
| "bridge_error_display BridgeCancelled = msg ''bridge request cancelled''"
| "bridge_error_display (Remote e) = Text ''bridge peer failed: '' # remote_error_display e"
| "bridge_error_display (ProcessError m) = Text ''bridge process failed: '' # m"

definition remote_error_new :: "string \<Rightarrow> message \<Rightarrow> remote_error" where
  "remote_error_new code m = \<lparr>re_code = code, re_message = m, re_details = None\<rparr>"

definition remote_with_details :: "remote_error \<Rightarrow> json \<Rightarrow> remote_error" where
  "remote_with_details e d = e\<lparr>re_details := Some d\<rparr>"

subsection \<open>Kinds\<close>

datatype frame_kind =
    HelloFrame | ReadyFrame | ResponseFrame | ErrorFrame | CancelFrame | HeartbeatFrame | ExitFrame | LogFrame
  | PluginLoad | PluginUpdate | PluginDispose | PluginSnapshot
  | ServiceCall | ServiceProvide | ServiceRemove
  | EventSubscribe | EventEmit | EventCallback | RegistrationDispose
  | WebRouteRegister | WebRouteRemove | WebRouteInvoke | WebUpgradeRegister | WebUpgradeRemove
  | PnpmRun | PnpmOutput

fun kind_as_str :: "frame_kind \<Rightarrow> string" where
  "kind_as_str HelloFrame = ''hello''"
| "kind_as_str ReadyFrame = ''ready''"
| "kind_as_str ResponseFrame = ''response''"
| "kind_as_str ErrorFrame = ''error''"
| "kind_as_str CancelFrame = ''cancel''"
| "kind_as_str HeartbeatFrame = ''heartbeat''"
| "kind_as_str ExitFrame = ''exit''"
| "kind_as_str LogFrame = ''log''"
| "kind_as_str PluginLoad = ''plugin.load''"
| "kind_as_str PluginUpdate = ''plugin.update''"
| "kind_as_str PluginDispose = ''plugin.dispose''"
| "kind_as_str PluginSnapshot = ''plugin.snapshot''"
| "kind_as_str ServiceCall = ''service.call''"
| "kind_as_str ServiceProvide = ''service.provide''"
| "kind_as_str ServiceRemove = ''service.remove''"
| "kind_as_str EventSubscribe = ''event.subscribe''"
| "kind_as_str EventEmit = ''event.emit''"
| "kind_as_str EventCallback = ''event.callback''"
| "kind_as_str RegistrationDispose = ''registration.dispose''"
| "kind_as_str WebRouteRegister = ''web.route.register''"
| "kind_as_str WebRouteRemove = ''web.route.unregister''"
| "kind_as_str WebRouteInvoke = ''web.route.request''"
| "kind_as_str WebUpgradeRegister = ''web.upgrade.register''"
| "kind_as_str WebUpgradeRemove = ''web.upgrade.unregister''"
| "kind_as_str PnpmRun = ''pnpm.run''"
| "kind_as_str PnpmOutput = ''pnpm.output''"

definition all_kinds :: "frame_kind list" where
  "all_kinds =
    [HelloFrame, ReadyFrame, ResponseFrame, ErrorFrame, CancelFrame, HeartbeatFrame, ExitFrame, LogFrame,
     PluginLoad, PluginUpdate, PluginDispose, PluginSnapshot, ServiceCall, ServiceProvide, ServiceRemove,
     EventSubscribe, EventEmit, EventCallback, RegistrationDispose, WebRouteRegister, WebRouteRemove,
     WebRouteInvoke, WebUpgradeRegister, WebUpgradeRemove, PnpmRun, PnpmOutput]"

text \<open>The names of the derived \<open>Deserialize\<close>: the \<open>serde(rename)\<close> of every variant is its \<open>as_str\<close>.\<close>

definition kind_of_str :: "string \<Rightarrow> frame_kind option" where
  "kind_of_str s = find (\<lambda>k. kind_as_str k = s) all_kinds"

definition is_request :: "frame_kind \<Rightarrow> bool" where
  "is_request k \<longleftrightarrow> k \<in> set
    [ExitFrame, PluginLoad, PluginUpdate, PluginDispose, PluginSnapshot, ServiceCall, ServiceProvide,
     ServiceRemove, EventSubscribe, EventEmit, EventCallback, RegistrationDispose, WebRouteRegister,
     WebRouteRemove, WebRouteInvoke, WebUpgradeRegister, WebUpgradeRemove, PnpmRun]"

definition requires_request_id :: "frame_kind \<Rightarrow> bool" where
  "requires_request_id k \<longleftrightarrow> is_request k \<or> k = ResponseFrame \<or> k = ErrorFrame \<or> k = CancelFrame"

subsection \<open>Derived deserialization\<close>

text \<open>
  A struct is read from an object, each field at most once and no other field, or from an array
  of its fields in order. \<open>field_of\<close> reads a field that must not repeat.
\<close>

definition fields_once :: "string list \<Rightarrow> (string \<times> json) list \<Rightarrow> bool" where
  "fields_once names m \<longleftrightarrow> list_all (\<lambda>e. fst e \<in> set names) m \<and> distinct (map fst m)"

fun as_u64 :: "json \<Rightarrow> u64 option" where
  "as_u64 (JNum (PosInt n)) = Some n"
| "as_u64 _ = None"

text \<open>\<open>Value\<close> itself: the fields of an object go into its \<open>BTreeMap\<close>, the last of a name wins.\<close>

fun json_value :: "json \<Rightarrow> json" where
  "json_value (JArr vs) = JArr (map json_value vs)"
| "json_value (JObj m) = JObj (fold (\<lambda>(k, v) n. bt_insert k v n) (map (\<lambda>(k, v). (k, json_value v)) m) [])"
| "json_value v = v"

text \<open>\<open>Option<T>\<close>: null is \<open>None\<close>; an absent field has its default.\<close>

definition opt_field :: "(json \<Rightarrow> 'a option) \<Rightarrow> json option \<Rightarrow> 'a option option" where
  "opt_field read v =
    (case v of None \<Rightarrow> Some None | Some JNull \<Rightarrow> Some None | Some w \<Rightarrow> map_option Some (read w))"

text \<open>A unit variant is its name, or an object from its name to null.\<close>

fun kind_of_json :: "json \<Rightarrow> frame_kind option" where
  "kind_of_json (JStr s) = kind_of_str s"
| "kind_of_json (JObj [(s, JNull)]) = kind_of_str s"
| "kind_of_json _ = None"

subsection \<open>Service calls\<close>

record service_call =
  sv_service :: string
  sv_method :: string
  sv_params :: json

text \<open>
  \<open>char::is_whitespace\<close> and \<open>char::is_control\<close> over the encoded characters: \<open>plain_text\<close> holds
  of a string without either.
\<close>

definition ctl1 :: "char \<Rightarrow> bool" where
  "ctl1 c \<longleftrightarrow> byte_of c < 32 \<or> byte_of c = 127"

definition ctl2 :: "char \<Rightarrow> char \<Rightarrow> bool" where
  "ctl2 a b \<longleftrightarrow> byte_of a = 0xC2 \<and> 0x80 \<le> byte_of b \<and> byte_of b \<le> 0x9F"

fun plain_text :: "string \<Rightarrow> bool" where
  "plain_text [] = True"
| "plain_text (a # s) =
    (\<not> ws1 a \<and> \<not> ctl1 a
     \<and> (case s of
          b # s' \<Rightarrow> \<not> ws2 a b \<and> \<not> ctl2 a b \<and> (case s' of c # _ \<Rightarrow> \<not> ws3 a b c | [] \<Rightarrow> True)
        | [] \<Rightarrow> True)
     \<and> plain_text s)"

definition max_service_name_bytes :: nat where
  "max_service_name_bytes = 256"

definition service_identifier :: "string \<Rightarrow> bool" where
  "service_identifier s \<longleftrightarrow> s \<noteq> [] \<and> length s \<le> max_service_name_bytes \<and> plain_text s"

definition method_start :: "char \<Rightarrow> bool" where
  "method_start c \<longleftrightarrow> is_alpha c \<or> c = CHR ''_'' \<or> c = CHR ''$''"

definition method_byte :: "char \<Rightarrow> bool" where
  "method_byte c \<longleftrightarrow> is_alnum c \<or> c = CHR ''_'' \<or> c = CHR ''$''"

definition service_method :: "string \<Rightarrow> bool" where
  "service_method s \<longleftrightarrow> (case s of [] \<Rightarrow> False | c # cs \<Rightarrow> method_start c \<and> list_all method_byte cs)"

definition service_call_new :: "string \<Rightarrow> string \<Rightarrow> json \<Rightarrow> bridge_error + service_call" where
  "service_call_new service method params =
    (if \<not> service_identifier service
     then Inl (InvalidFrame (msg ''service.call service must be a nonblank bounded identifier''))
     else if \<not> service_method method
     then Inl (InvalidFrame (msg ''service.call method must be a valid identifier''))
     else if as_object params = None \<and> as_array params = None
     then Inl (InvalidFrame (msg ''service.call params must be a JSON object or array''))
     else Inr \<lparr>sv_service = service, sv_method = method, sv_params = params\<rparr>)"

text \<open>\<open>ServiceCallWire\<close>.\<close>

fun service_call_wire :: "json \<Rightarrow> (string \<times> string \<times> json) option" where
  "service_call_wire (JObj m) =
    (if \<not> fields_once [''service'', ''method'', ''params''] m then None
     else case (Option.bind (map_of m ''service'') as_str, Option.bind (map_of m ''method'') as_str,
                map_of m ''params'') of
       (Some s, Some t, Some p) \<Rightarrow> Some (s, t, p)
     | _ \<Rightarrow> None)"
| "service_call_wire (JArr [JStr s, JStr t, p]) = Some (s, t, p)"
| "service_call_wire _ = None"

definition service_call_parse :: "(json \<Rightarrow> message) \<Rightarrow> json \<Rightarrow> bridge_error + service_call" where
  "service_call_parse serde_msg payload =
    (case service_call_wire payload of
       None \<Rightarrow> Inl (InvalidFrame (Text ''invalid service.call payload: '' # serde_msg payload))
     | Some (s, t, p) \<Rightarrow>
         (case service_call_new s t p of
            Inl e \<Rightarrow> Inl (InvalidFrame (Text ''invalid service.call payload: '' # bridge_error_display e))
          | Inr call \<Rightarrow> Inr call))"

subsection \<open>Frames\<close>

record frame =
  protocol_version :: string
  connection_generation :: u64
  kind :: frame_kind
  request_id :: "u64 option"
  payload :: json

definition protocol_name :: string where
  "protocol_name = ''cordis.node/v1''"

definition frame_new :: "u64 \<Rightarrow> frame_kind \<Rightarrow> json \<Rightarrow> frame" where
  "frame_new g k p =
    \<lparr>protocol_version = protocol_name, connection_generation = g, kind = k, request_id = None, payload = p\<rparr>"

definition frame_request :: "u64 \<Rightarrow> u64 \<Rightarrow> frame_kind \<Rightarrow> json \<Rightarrow> frame" where
  "frame_request g i k p = (frame_new g k p)\<lparr>request_id := Some i\<rparr>"

definition frame_response :: "u64 \<Rightarrow> u64 \<Rightarrow> json \<Rightarrow> frame" where
  "frame_response g i p = frame_request g i ResponseFrame p"

text \<open>\<open>Serialize\<close> of a remote error, with the text that the symbolic message \<open>show\<close>s as.\<close>

definition remote_error_json :: "(message \<Rightarrow> string) \<Rightarrow> remote_error \<Rightarrow> json" where
  "remote_error_json show e =
    JObj ([(''code'', JStr (re_code e))]
      @ (case re_details e of None \<Rightarrow> [] | Some d \<Rightarrow> [(''details'', d)])
      @ [(''message'', JStr (show (re_message e)))])"

definition frame_error :: "(message \<Rightarrow> string) \<Rightarrow> u64 \<Rightarrow> u64 \<Rightarrow> remote_error \<Rightarrow> frame" where
  "frame_error show g i e = frame_request g i ErrorFrame (remote_error_json show e)"

definition frame_cancel :: "u64 \<Rightarrow> u64 \<Rightarrow> frame" where
  "frame_cancel g i = frame_request g i CancelFrame (JObj [(''requestId'', JNum (PosInt i))])"

definition frame_hello :: "u64 \<Rightarrow> frame" where
  "frame_hello g = frame_new g HelloFrame (JObj [])"

definition frame_ready :: "u64 \<Rightarrow> frame" where
  "frame_ready g = frame_new g ReadyFrame (JObj [])"

definition frame_validate :: "(json \<Rightarrow> message) \<Rightarrow> frame \<Rightarrow> bridge_error + unit" where
  "frame_validate serde_msg f =
    (if protocol_version f \<noteq> protocol_name
     then Inl (ProtocolVersion protocol_name (protocol_version f))
     else if connection_generation f = 0
     then Inl (InvalidFrame (msg ''connectionGeneration must be greater than zero''))
     else if requires_request_id (kind f) \<and> request_id f = None
     then Inl (InvalidFrame [Text (kind_as_str (kind f)), Text '' requires requestId''])
     else if \<not> requires_request_id (kind f) \<and> request_id f \<noteq> None
     then Inl (InvalidFrame [Text (kind_as_str (kind f)), Text '' must not carry requestId''])
     else if request_id f = Some 0
     then Inl (InvalidFrame (msg ''requestId must be greater than zero''))
     else if kind f = ServiceCall
     then try_bind (service_call_parse serde_msg (payload f)) (\<lambda>_. Inr ())
     else Inr ())"

text \<open>\<open>Deserialize\<close> of a remote error, and its fallback.\<close>

fun remote_error_wire :: "json \<Rightarrow> remote_error option" where
  "remote_error_wire (JObj m) =
    (if \<not> fields_once [''code'', ''message'', ''details''] m then None
     else case (Option.bind (map_of m ''code'') as_str, Option.bind (map_of m ''message'') as_str,
                opt_field Some (map_of m ''details'')) of
       (Some c, Some t, Some d) \<Rightarrow> Some \<lparr>re_code = c, re_message = msg t, re_details = d\<rparr>
     | _ \<Rightarrow> None)"
| "remote_error_wire (JArr [JStr c, JStr t]) = Some \<lparr>re_code = c, re_message = msg t, re_details = None\<rparr>"
| "remote_error_wire (JArr [JStr c, JStr t, d]) =
    map_option (\<lambda>x. \<lparr>re_code = c, re_message = msg t, re_details = x\<rparr>) (opt_field Some (Some d))"
| "remote_error_wire _ = None"

definition remote_error_from_payload :: "json \<Rightarrow> remote_error" where
  "remote_error_from_payload p =
    (case remote_error_wire p of
       Some e \<Rightarrow> e
     | None \<Rightarrow> remote_with_details (remote_error_new ''remote_error''
         (msg ''remote endpoint returned an invalid error payload'')) p)"

subsection \<open>The wire form of a frame\<close>

definition frame_to_json :: "frame \<Rightarrow> json" where
  "frame_to_json f =
    JObj ([(''protocolVersion'', JStr (protocol_version f)),
           (''connectionGeneration'', JNum (PosInt (connection_generation f))),
           (''kind'', JStr (kind_as_str (kind f)))]
      @ (case request_id f of None \<Rightarrow> [] | Some i \<Rightarrow> [(''requestId'', JNum (PosInt i))])
      @ [(''payload'', payload f)])"

definition frame_fields :: "json option \<Rightarrow> json option \<Rightarrow> json option \<Rightarrow> json option \<Rightarrow> json option \<Rightarrow> frame option" where
  "frame_fields v g k i p =
    (case (Option.bind v as_str, Option.bind g as_u64, Option.bind k kind_of_json, opt_field as_u64 i, p) of
       (Some v, Some g, Some k, Some i, Some p) \<Rightarrow>
         Some \<lparr>protocol_version = v, connection_generation = g, kind = k, request_id = i,
           payload = json_value p\<rparr>
     | _ \<Rightarrow> None)"

fun frame_wire :: "json \<Rightarrow> frame option" where
  "frame_wire (JObj m) =
    (if \<not> fields_once [''protocolVersion'', ''connectionGeneration'', ''kind'', ''requestId'', ''payload''] m
     then None
     else frame_fields (map_of m ''protocolVersion'') (map_of m ''connectionGeneration'') (map_of m ''kind'')
       (map_of m ''requestId'') (map_of m ''payload''))"
| "frame_wire (JArr [v, g, k, i, p]) = frame_fields (Some v) (Some g) (Some k) (Some i) (Some p)"
| "frame_wire _ = None"

subsection \<open>The codec\<close>

record frame_codec =
  max_frame_size :: nat

definition default_max_frame_size :: nat where
  "default_max_frame_size = 1024 * 1024"

definition codec_new :: "nat \<Rightarrow> bridge_error + frame_codec" where
  "codec_new n =
    (if n = 0 \<or> n > 2 ^ 32 - 1
     then Inl (InvalidFrame (msg ''max frame size must be between 1 and u32::MAX''))
     else Inr \<lparr>max_frame_size = n\<rparr>)"

definition check_size :: "frame_codec \<Rightarrow> nat \<Rightarrow> bridge_error + unit" where
  "check_size c n =
    (if n > max_frame_size c then Inl (FrameTooLarge n (max_frame_size c)) else Inr ())"

text \<open>\<open>u32::to_be_bytes\<close> and \<open>u32::from_be_bytes\<close>.\<close>

definition to_be_bytes :: "u32 \<Rightarrow> string" where
  "to_be_bytes w = map (\<lambda>k. char_of (unat (drop_bit k w) mod 256)) [24, 16, 8, 0]"

fun from_be :: "nat \<Rightarrow> string \<Rightarrow> nat" where
  "from_be acc [] = acc"
| "from_be acc (c # s) = from_be (256 * acc + byte_of c) s"

definition from_be_bytes :: "string \<Rightarrow> u32" where
  "from_be_bytes s = of_nat (from_be 0 s)"

definition decode_json ::
  "(json \<Rightarrow> message) \<Rightarrow> (string \<Rightarrow> message + json) \<Rightarrow> string \<Rightarrow> bridge_error + frame" where
  "decode_json serde_msg parse bytes =
    (case parse bytes of
       Inl m \<Rightarrow> Inl (InvalidFrame m)
     | Inr doc \<Rightarrow>
         (case frame_wire doc of
            None \<Rightarrow> Inl (InvalidFrame (serde_msg doc))
          | Some f \<Rightarrow> try_bind (frame_validate serde_msg f) (\<lambda>_. Inr f)))"

definition encode ::
  "(json \<Rightarrow> message) \<Rightarrow> (json \<Rightarrow> string) \<Rightarrow> frame_codec \<Rightarrow> frame \<Rightarrow> bridge_error + string" where
  "encode serde_msg render c f =
    try_bind (frame_validate serde_msg f) (\<lambda>_.
      let text = render (frame_to_json f) in
      try_bind (check_size c (length text)) (\<lambda>_.
        Inr (to_be_bytes (of_nat (length text)) @ text)))"

definition decode ::
  "(json \<Rightarrow> message) \<Rightarrow> (string \<Rightarrow> message + json) \<Rightarrow> frame_codec \<Rightarrow> string \<Rightarrow> bridge_error + frame" where
  "decode serde_msg parse c bytes =
    (if length bytes < 4
     then Inl (InvalidFrame (msg ''length-prefixed frame is shorter than four bytes''))
     else
       (let announced = unat (from_be_bytes (take 4 bytes)) in
        try_bind (check_size c announced) (\<lambda>_.
          if length bytes \<noteq> announced + 4
          then Inl (InvalidFrame [Text ''frame declares '', Text (dec announced), Text '' bytes but carries '',
            Text (dec (length bytes - 4))])
          else decode_json serde_msg parse (drop 4 bytes))))"

text \<open>\<open>Read::read_exact\<close> on a stream that ends after the given bytes.\<close>

definition read_exact :: "nat \<Rightarrow> string \<Rightarrow> bridge_error + string \<times> string" where
  "read_exact n s =
    (if n \<le> length s then Inr (take n s, drop n s)
     else Inl (Io (msg ''failed to fill whole buffer'')))"

text \<open>The frame and the rest of the stream.\<close>

definition read_frame ::
  "(json \<Rightarrow> message) \<Rightarrow> (string \<Rightarrow> message + json) \<Rightarrow> frame_codec \<Rightarrow> string \<Rightarrow> bridge_error + frame \<times> string" where
  "read_frame serde_msg parse c s =
    try_bind (read_exact 4 s) (\<lambda>(prefix, s1).
      let announced = unat (from_be_bytes prefix) in
      try_bind (check_size c announced) (\<lambda>_.
        try_bind (read_exact announced s1) (\<lambda>(text, s2).
          try_bind (decode_json serde_msg parse text) (\<lambda>f. Inr (f, s2)))))"

text \<open>\<open>write_frame\<close> on a writer: its \<open>write_all\<close> and \<open>flush\<close> give an error or the stream written so far.\<close>

definition write_frame ::
  "(json \<Rightarrow> message) \<Rightarrow> (json \<Rightarrow> string) \<Rightarrow> (string \<Rightarrow> 'w \<Rightarrow> message + 'w) \<Rightarrow> frame_codec \<Rightarrow> frame \<Rightarrow> 'w \<Rightarrow>
    bridge_error + 'w" where
  "write_frame serde_msg render write c f w =
    try_bind (encode serde_msg render c f) (\<lambda>bytes.
      case write bytes w of Inl m \<Rightarrow> Inl (Io m) | Inr w' \<Rightarrow> Inr w')"


subsection \<open>Lemmas\<close>

lemma kind_names: "kind_of_str (kind_as_str k) = Some k"
proof -
  have "list_all (\<lambda>k. kind_of_str (kind_as_str k) = Some k) all_kinds" by code_simp
  moreover have "k \<in> set all_kinds" by (cases k) (simp_all add: all_kinds_def)
  ultimately show ?thesis by (simp add: list_all_iff)
qed

lemma kind_as_str_inj: "kind_as_str k = kind_as_str l \<Longrightarrow> k = l"
  by (metis kind_names option.inject)

lemma fold_insert_sorted:
  "sorted_wrt (<) (map fst (n @ m)) \<Longrightarrow> fold (\<lambda>(k, v) n. bt_insert k v n) m n = n @ m"
proof (induction m arbitrary: n)
  case (Cons e m)
  obtain k v where e: "e = (k, v)" by (cases e)
  have "\<forall>x\<in>set (map fst n). x < k" using Cons.prems e by (auto simp: sorted_wrt_append)
  then have "bt_insert k v n = n @ [(k, v)]"
  proof (induction n)
    case (Cons a n)
    then show ?case by (cases a) (auto simp: less_imp_not_eq)
  qed simp
  then show ?case using Cons.IH [of "n @ [(k, v)]"] Cons.prems e by simp
qed simp

lemma json_value_wf: "json_wf v \<Longrightarrow> json_value v = v"
proof (induction v)
  case (JArr vs)
  then show ?case by (simp add: map_idI)
next
  case (JObj m)
  have "map (\<lambda>(k, v). (k, json_value v)) m = m"
    using JObj by (intro map_idI) (metis (no_types, lifting) case_prod_conv json_wf.simps(2) snds.intros surj_pair snd_conv)
  then show ?case using JObj.prems fold_insert_sorted [of "[]" m] by (simp add: bt_wf_def)
qed simp_all

lemma frame_wire_to_json: "frame_wire (frame_to_json f) = Some (f\<lparr>payload := json_value (payload f)\<rparr>)"
  by (cases "request_id f")
    (simp_all add: frame_to_json_def frame_fields_def fields_once_def opt_field_def kind_names)

lemma frame_wire_wf: "json_wf (payload f) \<Longrightarrow> frame_wire (frame_to_json f) = Some f"
  by (simp add: frame_wire_to_json json_value_wf)

text \<open>The length prefix.\<close>

lemma to_be_bytes_length [simp]: "length (to_be_bytes w) = 4"
  by (simp add: to_be_bytes_def)

lemma byte_of_char_mod: "byte_of (char_of (n mod 256)) = n mod 256"
  by simp

lemma base_256_sum:
  "n = 256 * b + r1 \<Longrightarrow> b = 256 * c + r2 \<Longrightarrow> c = 256 * d + r3 \<Longrightarrow> d' = d \<Longrightarrow>
    (d' * 256 + r3) * 65536 + r2 * 256 + r1 = (n :: nat)"
  by simp

lemma from_be_to_be: "from_be_bytes (to_be_bytes w) = w"
proof -
  let ?n = "unat w"
  have lt: "?n < 2 ^ 32" using unsigned_less [of w] by simp
  have "unat (drop_bit k w) = drop_bit k ?n" for k
    by (simp add: unsigned_drop_bit_eq take_bit_nat_eq_self [OF lt])
  then have shift: "unat (drop_bit k w) = ?n div 2 ^ k" for k
    by (simp only: drop_bit_nat_eq drop_bit_eq_div)
  have "from_be 0 (to_be_bytes w) = ((?n div 16777216 mod 256) * 256 + (?n div 65536 mod 256)) * 65536
      + (?n div 256 mod 256) * 256 + ?n mod 256"
    by (simp add: to_be_bytes_def shift algebra_simps)
  also have "\<dots> = ?n"
  proof -
    have "?n = 256 * (?n div 256) + ?n mod 256" by simp
    moreover have "?n div 256 = 256 * (?n div 65536) + ?n div 256 mod 256"
      using div_mult_mod_eq [of "?n div 256" 256] by (simp add: div_mult2_eq [symmetric] mult.commute)
    moreover have "?n div 65536 = 256 * (?n div 16777216) + ?n div 65536 mod 256"
      using div_mult_mod_eq [of "?n div 65536" 256] by (simp add: div_mult2_eq [symmetric] mult.commute)
    moreover have "?n div 16777216 mod 256 = ?n div 16777216" using lt by simp
    ultimately show ?thesis by (rule base_256_sum)
  qed
  finally show ?thesis by (simp add: from_be_bytes_def)
qed

lemma unat_length: "n \<le> 2 ^ 32 - 1 \<Longrightarrow> unat (of_nat n :: u32) = n"
  by (simp add: unsigned_of_nat take_bit_nat_eq_self)

definition codec_ok :: "frame_codec \<Rightarrow> bool" where
  "codec_ok c \<longleftrightarrow> 0 < max_frame_size c \<and> max_frame_size c \<le> 2 ^ 32 - 1"

lemma codec_new_ok: "codec_new n = Inr c \<longleftrightarrow> c = \<lparr>max_frame_size = n\<rparr> \<and> codec_ok c"
  by (auto simp: codec_new_def codec_ok_def)

lemma encode_cases:
  "encode serde_msg render c f = Inr bytes \<longleftrightarrow>
    frame_validate serde_msg f = Inr () \<and> length (render (frame_to_json f)) \<le> max_frame_size c
    \<and> bytes = to_be_bytes (of_nat (length (render (frame_to_json f)))) @ render (frame_to_json f)"
  by (auto simp: encode_def try_bind_eq_Inr check_size_def Let_def)

text \<open>The hypothesis on serde_json: the text it writes for a frame reads back as that document.\<close>

definition text_ok :: "(json \<Rightarrow> string) \<Rightarrow> (string \<Rightarrow> message + json) \<Rightarrow> frame \<Rightarrow> bool" where
  "text_ok render parse f \<longleftrightarrow> parse (render (frame_to_json f)) = Inr (frame_to_json f)"

lemma decode_json_encoded:
  assumes "text_ok render parse f" "json_wf (payload f)" "frame_validate serde_msg f = Inr ()"
  shows "decode_json serde_msg parse (render (frame_to_json f)) = Inr f"
  using assms by (simp add: decode_json_def text_ok_def frame_wire_wf)

lemma read_frame_encoded:
  assumes "codec_ok c" "encode serde_msg render c f = Inr bytes" "text_ok render parse f" "json_wf (payload f)"
  shows "read_frame serde_msg parse c (bytes @ rest) = Inr (f, rest)"
proof -
  let ?text = "render (frame_to_json f)"
  have v: "frame_validate serde_msg f = Inr ()" and n: "length ?text \<le> max_frame_size c"
    and bytes: "bytes = to_be_bytes (of_nat (length ?text)) @ ?text"
    using assms(2) by (simp_all add: encode_cases)
  have len: "unat (of_nat (length ?text) :: u32) = length ?text"
    using n assms(1) by (intro unat_length) (simp add: codec_ok_def)
  show ?thesis
    using decode_json_encoded [OF assms(3,4) v] n
    by (simp add: read_frame_def read_exact_def bytes from_be_to_be len check_size_def)
qed

text \<open>Reading several frames from a stream.\<close>

fun read_frames ::
  "(json \<Rightarrow> message) \<Rightarrow> (string \<Rightarrow> message + json) \<Rightarrow> frame_codec \<Rightarrow> nat \<Rightarrow> string \<Rightarrow>
    bridge_error + frame list \<times> string" where
  "read_frames serde_msg parse c 0 s = Inr ([], s)"
| "read_frames serde_msg parse c (Suc n) s =
    try_bind (read_frame serde_msg parse c s) (\<lambda>(f, s1).
      try_bind (read_frames serde_msg parse c n s1) (\<lambda>(fs, s2). Inr (f # fs, s2)))"

subsection \<open>Properties\<close>

text \<open>C11: A frame that the codec encodes decodes to the same frame, and its encoding is at most four
  bytes longer than the codec's limit.\<close>

theorem codec_roundtrip:
  assumes "codec_new n = Inr c" and "encode serde_msg render c f = Inr bytes"
    and "text_ok render parse f" and "json_wf (payload f)"
  shows "decode serde_msg parse c bytes = Inr f \<and> length bytes \<le> n + 4"
proof -
  let ?text = "render (frame_to_json f)"
  have c: "codec_ok c" "max_frame_size c = n" using assms(1) by (auto simp: codec_new_ok)
  have v: "frame_validate serde_msg f = Inr ()" and l: "length ?text \<le> max_frame_size c"
    and bytes: "bytes = to_be_bytes (of_nat (length ?text)) @ ?text"
    using assms(2) by (simp_all add: encode_cases)
  have "unat (of_nat (length ?text) :: u32) = length ?text"
    using l c by (intro unat_length) (simp add: codec_ok_def)
  then show ?thesis
    using decode_json_encoded [OF assms(3,4) v] l c
    by (simp add: decode_def bytes from_be_to_be check_size_def)
qed

text \<open>Framing is unambiguous: the concatenation of encoded frames reads back as exactly these
  frames, in order, and leaves what follows them in the stream untouched.\<close>

theorem stream_roundtrip:
  assumes "codec_new n = Inr c" and "try_map (encode serde_msg render c) fs = Inr chunks"
    and "list_all (\<lambda>f. text_ok render parse f \<and> json_wf (payload f)) fs"
  shows "read_frames serde_msg parse c (length fs) (concat chunks @ rest) = Inr (fs, rest)"
  using assms(2,3)
proof (induction fs arbitrary: chunks)
  case (Cons f fs)
  then obtain bytes chunks' where f: "encode serde_msg render c f = Inr bytes"
    and fs: "try_map (encode serde_msg render c) fs = Inr chunks'" and chunks: "chunks = bytes # chunks'"
    by (auto simp: try_bind_eq_Inr)
  have "codec_ok c" using assms(1) by (auto simp: codec_new_ok)
  then have "read_frame serde_msg parse c (bytes @ concat chunks' @ rest) = Inr (f, concat chunks' @ rest)"
    using f Cons.prems by (intro read_frame_encoded) auto
  then show ?case using Cons.IH [OF fs] Cons.prems by (simp add: chunks)
qed simp

text \<open>Reading is bounded: an announced size beyond the limit is refused before any of the body
  is read, and a frame that is read has consumed at most the limit and its prefix, and is valid.\<close>

theorem read_frame_bounded:
  "case read_frame serde_msg parse c s of
     Inr (f, rest) \<Rightarrow>
       (\<exists>body. s = take 4 s @ body @ rest \<and> length (take 4 s) = 4 \<and> length body \<le> max_frame_size c)
       \<and> frame_validate serde_msg f = Inr ()
   | Inl e \<Rightarrow>
       if length s < 4 then e = Io (msg ''failed to fill whole buffer'')
       else if unat (from_be_bytes (take 4 s)) > max_frame_size c
       then e = FrameTooLarge (unat (from_be_bytes (take 4 s))) (max_frame_size c)
       else True"
proof (cases "read_frame serde_msg parse c s")
  case (Inl e)
  then show ?thesis
    by (auto simp: read_frame_def read_exact_def check_size_def Let_def split: if_splits)
next
  case (Inr fr)
  obtain f rest where fr: "fr = (f, rest)" by (cases fr)
  let ?n = "unat (from_be_bytes (take 4 s))"
  have n: "4 \<le> length s" "?n \<le> max_frame_size c" "?n \<le> length (drop 4 s)" "rest = drop ?n (drop 4 s)"
    and f: "decode_json serde_msg parse (take ?n (drop 4 s)) = Inr f"
    using Inr fr
    by (auto simp: read_frame_def read_exact_def check_size_def Let_def try_bind_eq_Inr split: if_splits)
  have "s = take 4 s @ take ?n (drop 4 s) @ rest" unfolding n(4) by (simp only: append_take_drop_id)
  moreover have "length (take ?n (drop 4 s)) \<le> max_frame_size c" using n(2) by simp
  moreover have "frame_validate serde_msg f = Inr ()"
    using f by (auto simp: decode_json_def try_bind_eq_Inr split: sum.splits option.splits)
  ultimately show ?thesis using Inr fr n(1) by auto
qed

text \<open>Validation accepts exactly the frames of this protocol version and a nonzero generation
  that carry a nonzero request id when their kind correlates and none when it does not, and
  whose service calls name a bounded identifier, a method identifier and structured parameters.\<close>

theorem frame_validate_exact:
  "frame_validate serde_msg f = Inr () \<longleftrightarrow>
    protocol_version f = protocol_name \<and> connection_generation f \<noteq> 0
    \<and> (case request_id f of
         None \<Rightarrow> \<not> requires_request_id (kind f)
       | Some i \<Rightarrow> requires_request_id (kind f) \<and> i \<noteq> 0)
    \<and> (if kind f = ServiceCall
       then \<exists>s m p. service_call_wire (payload f) = Some (s, m, p) \<and> service_identifier s \<and> service_method m
         \<and> \<not> (as_object p = None \<and> as_array p = None)
       else True)"
proof -
  have "(\<exists>x. service_call_parse serde_msg p = Inr x) \<longleftrightarrow>
      (\<exists>s m q. service_call_wire p = Some (s, m, q) \<and> service_identifier s \<and> service_method m
         \<and> (as_object q \<noteq> None \<or> as_array q \<noteq> None))" for p
    by (auto simp: service_call_parse_def service_call_new_def split: option.split sum.split)
  then show ?thesis
    by (auto simp: frame_validate_def try_bind_eq_Inr split: option.split)
qed

text \<open>The wire form determines the frame: the derived deserializer inverts the derived
  serializer, for every kind and with or without a request id; object payloads come back with
  their fields in map order.\<close>

theorem frame_wire_roundtrip:
  "frame_wire (frame_to_json f) = Some (f\<lparr>payload := json_value (payload f)\<rparr>)"
  by (rule frame_wire_to_json)

subsection \<open>Samples\<close>

definition sample_frame :: frame where
  "sample_frame = frame_request 1 3 ServiceCall
    (JObj [(''method'', JStr ''run''), (''params'', JArr []), (''service'', JStr ''sessions@1'')])"

theorem codec_roundtrip_witness:
  "decode (\<lambda>_. msg ''bad'') (\<lambda>_. Inr (frame_to_json sample_frame)) \<lparr>max_frame_size = 16\<rparr>
      (map char_of [0, 0, 0, 2 :: nat] @ ''{}'') = Inr sample_frame"
proof -
  have c: "codec_new 16 = Inr \<lparr>max_frame_size = 16\<rparr>" by (simp add: codec_new_def)
  have e: "encode (\<lambda>_. msg ''bad'') (\<lambda>_. ''{}'') \<lparr>max_frame_size = 16\<rparr> sample_frame
      = Inr (map char_of [0, 0, 0, 2 :: nat] @ ''{}'')" by code_simp
  have t: "text_ok (\<lambda>_. ''{}'') (\<lambda>_. Inr (frame_to_json sample_frame)) sample_frame"
    by (simp add: text_ok_def)
  have w: "json_wf (payload sample_frame)" by code_simp
  from codec_roundtrip [OF c e t w] show ?thesis by blast
qed

theorem stream_roundtrip_witness:
  "read_frames (\<lambda>_. msg ''bad'') (\<lambda>_. Inr (frame_to_json sample_frame)) \<lparr>max_frame_size = 16\<rparr> 2
      (concat [map char_of [0, 0, 0, 2 :: nat] @ ''{}'', map char_of [0, 0, 0, 2 :: nat] @ ''{}''] @ ''tail'')
    = Inr ([sample_frame, sample_frame], ''tail'')"
proof -
  let ?bytes = "map char_of [0, 0, 0, 2 :: nat] @ ''{}''"
  have c: "codec_new 16 = Inr \<lparr>max_frame_size = 16\<rparr>" by (simp add: codec_new_def)
  have e: "encode (\<lambda>_. msg ''bad'') (\<lambda>_. ''{}'') \<lparr>max_frame_size = 16\<rparr> sample_frame = Inr ?bytes" by code_simp
  have w: "json_wf (payload sample_frame)" by code_simp
  have t: "try_map (encode (\<lambda>_. msg ''bad'') (\<lambda>_. ''{}'') \<lparr>max_frame_size = 16\<rparr>) [sample_frame, sample_frame]
      = Inr [?bytes, ?bytes]"
    by (simp only: try_map.simps e try_bind_Inr)
  have ok: "list_all (\<lambda>f. text_ok (\<lambda>_. ''{}'') (\<lambda>_. Inr (frame_to_json sample_frame)) f \<and> json_wf (payload f))
      [sample_frame, sample_frame]"
    using w by (simp add: text_ok_def)
  have "length [sample_frame, sample_frame] = 2" by simp
  then show ?thesis using stream_roundtrip [OF c t ok, of "''tail''"] by (simp only:)
qed

end
