(* ===== verification/Settle.thy ===== *)
theory Settle
  imports Prelude
begin

section \<open>Futures and \<open>all_settle\<close> (loader.rs)\<close>

text \<open>
  A future is a suspended computation that \<open>poll\<close> advances, on the state it shares with the
  rest of the system: it is pending, with what is left of it, or ready with its result. Between
  two polls the rest of the system runs, which is \<open>idle\<close>. \<open>all_settle\<close> polls a list of
  futures until all of them are ready. A wait that does not end is \<open>None\<close>. The locales state
  what the loader needs of both: an invariant of the polls holds of the results, and a wait
  whose polls make progress ends.
\<close>

type_synonym ('f, 'r, 's) poll = "'f \<Rightarrow> 's \<Rightarrow> ('f + 'r) \<times> 's"

text \<open>One index of the vectors \<open>futures\<close> and \<open>results\<close>: exactly one of the two is \<open>Some\<close>.\<close>

datatype ('f, 'r) slot = Waiting 'f | Settled 'r

definition slot_of :: "'f + 'r \<Rightarrow> ('f, 'r) slot" where
  "slot_of q = (case q of Inl f \<Rightarrow> Waiting f | Inr r \<Rightarrow> Settled r)"

lemma slot_of_simps [simp]: "slot_of (Inl f) = Waiting f" "slot_of (Inr r) = Settled r"
  by (simp_all add: slot_of_def)

text \<open>One call of the closure of \<open>poll_fn\<close>: every unsettled future is polled once, in order.\<close>

fun poll_slots :: "('f, 'r, 's) poll \<Rightarrow> ('f, 'r) slot list \<Rightarrow> 's \<Rightarrow> ('f, 'r) slot list \<times> 's" where
  "poll_slots p [] s = ([], s)"
| "poll_slots p (Settled r # xs) s = (case poll_slots p xs s of (ys, s') \<Rightarrow> (Settled r # ys, s'))"
| "poll_slots p (Waiting f # xs) s =
    (case p f s of (q, s1) \<Rightarrow>
      case poll_slots p xs s1 of (ys, s2) \<Rightarrow> (slot_of q # ys, s2))"

fun take_results :: "('f, 'r) slot list \<Rightarrow> 'r list option" where
  "take_results [] = Some []"
| "take_results (Settled r # xs) = map_option ((#) r) (take_results xs)"
| "take_results (Waiting f # xs) = None"

partial_function (option) settle_loop ::
  "('f, 'r, 's) poll \<Rightarrow> ('s \<Rightarrow> 's) \<Rightarrow> ('f, 'r) slot list \<Rightarrow> 's \<Rightarrow> ('r list \<times> 's) option" where
  "settle_loop p idle xs s =
    (case poll_slots p xs s of (ys, s1) \<Rightarrow>
      case take_results ys of
        Some rs \<Rightarrow> Some (rs, s1)
      | None \<Rightarrow> settle_loop p idle ys (idle s1))"

declare settle_loop.simps [code]

definition all_settle ::
  "('f, 'r, 's) poll \<Rightarrow> ('s \<Rightarrow> 's) \<Rightarrow> 'f list \<Rightarrow> 's \<Rightarrow> ('r list \<times> 's) option" where
  "all_settle p idle fs s = settle_loop p idle (map Waiting fs) s"

text \<open>An \<open>.await\<close>: the future is polled until it is ready.\<close>

definition await :: "('f, 'r, 's) poll \<Rightarrow> ('s \<Rightarrow> 's) \<Rightarrow> 'f \<Rightarrow> 's \<Rightarrow> ('r \<times> 's) option" where
  "await p idle f s = map_option (\<lambda>(rs, s'). (hd rs, s')) (all_settle p idle [f] s)"

lemma take_results_Some: "take_results xs = Some rs \<longleftrightarrow> xs = map Settled rs"
  by (induction xs arbitrary: rs rule: take_results.induct) auto

lemma take_results_None: "take_results xs = None \<longleftrightarrow> (\<exists>f. Waiting f \<in> set xs)"
  by (induction xs rule: take_results.induct) auto

lemma poll_slots_length: "poll_slots p xs s = (ys, s') \<Longrightarrow> length ys = length xs"
  by (induction p xs s arbitrary: ys s' rule: poll_slots.induct) (auto split: prod.splits)

subsection \<open>What an invariant of the polls says of the results\<close>

locale settle_invariant =
  fixes poll :: "('f, 'r, 's) poll"
    and idle :: "'s \<Rightarrow> 's"
    and inv :: "('f, 'r) slot list \<Rightarrow> 's \<Rightarrow> bool"
  assumes polled: "inv (xs @ Waiting f # ys) s \<Longrightarrow> poll f s = (q, s') \<Longrightarrow> inv (xs @ slot_of q # ys) s'"
    and idled: "inv xs s \<Longrightarrow> inv xs (idle s)"
begin

lemma poll_slots_inv:
  "poll_slots poll xs s = (ys, s') \<Longrightarrow> inv (us @ xs) s \<Longrightarrow> inv (us @ ys) s'"
proof (induction xs arbitrary: us ys s)
  case Nil
  then show ?case by simp
next
  case (Cons x xs)
  show ?case
  proof (cases x)
    case (Settled r)
    then show ?thesis
      using Cons.IH [of s _ "us @ [x]"] Cons.prems by (auto split: prod.splits)
  next
    case (Waiting f)
    obtain q s1 where q: "poll f s = (q, s1)" by fastforce
    then have "inv ((us @ [slot_of q]) @ xs) s1"
      using polled [of us f xs s q s1] Cons.prems(2) Waiting by simp
    then show ?thesis
      using Cons.IH [of s1 _ "us @ [slot_of q]"] Cons.prems(1) Waiting q by (auto split: prod.splits)
  qed
qed

lemma settle_loop_inv:
  assumes "settle_loop poll idle xs s = Some (rs, s')" and "inv xs s"
  shows "inv (map Settled rs) s' \<and> length rs = length xs"
proof -
  define P where "P p i xs s r \<longleftrightarrow> (p = poll \<longrightarrow> i = idle \<longrightarrow> inv xs s \<longrightarrow>
      inv (map Settled (fst r)) (snd r) \<and> length (fst r) = length xs)" for p i xs s and r :: "'r list \<times> 's"
  have "P poll idle xs s (rs, s')"
  proof (rule settle_loop.raw_induct [OF _ assms(1)])
    fix loop p i xs s and r :: "'r list \<times> 's"
    assume IH: "\<And>p i xs s r. loop p i xs s = Some r \<Longrightarrow> P p i xs s r"
      and body: "(case poll_slots p xs s of (ys, s1) \<Rightarrow>
        case take_results ys of Some rs \<Rightarrow> Some (rs, s1) | None \<Rightarrow> loop p i ys (i s1)) = Some r"
    show "P p i xs s r"
      unfolding P_def
    proof (intro impI)
      assume p: "p = poll" "i = idle" and inv: "inv xs s"
      obtain ys s1 where ys: "poll_slots poll xs s = (ys, s1)" by fastforce
      have step: "inv ys s1" "length ys = length xs"
        using poll_slots_inv [OF ys, of "[]"] inv poll_slots_length [OF ys] by simp_all
      show "inv (map Settled (fst r)) (snd r) \<and> length (fst r) = length xs"
      proof (cases "take_results ys")
        case None
        then have "loop p i ys (i s1) = Some r"
          using body ys p by simp
        then show ?thesis
          using IH [of p i ys "i s1" r] p idled [OF step(1)] step(2) by (simp add: P_def)
      next
        case (Some rs)
        then show ?thesis
          using body ys p step Some take_results_Some [of ys rs] by auto
      qed
    qed
  qed
  then show ?thesis using assms by (simp add: P_def)
qed

lemma all_settle_inv:
  "all_settle poll idle fs s = Some (rs, s') \<Longrightarrow> inv (map Waiting fs) s \<Longrightarrow>
    inv (map Settled rs) s' \<and> length rs = length fs"
  using settle_loop_inv [of "map Waiting fs" s rs s'] by (simp add: all_settle_def)

lemma await_inv:
  "await poll idle f s = Some (r, s') \<Longrightarrow> inv [Waiting f] s \<Longrightarrow> inv [Settled r] s'"
  using all_settle_inv [of "[f]" s] by (auto simp: await_def length_Suc_conv)

end

subsection \<open>Waits that end\<close>

text \<open>
  \<open>weight\<close> counts the stages a future may still go through, \<open>delay\<close> bounds how long the
  state keeps them pending in one stage; \<open>ok\<close> is a condition that the polls keep.
\<close>

fun slot_weight :: "('f \<Rightarrow> nat) \<Rightarrow> ('f, 'r) slot \<Rightarrow> nat" where
  "slot_weight w (Waiting f) = w f"
| "slot_weight w (Settled r) = 0"

locale settle_progress =
  fixes poll :: "('f, 'r, 's) poll"
    and idle :: "'s \<Rightarrow> 's"
    and weight :: "'f \<Rightarrow> nat"
    and delay :: "'s \<Rightarrow> nat"
    and ok :: "'s \<Rightarrow> bool"
  assumes weight_pos: "0 < weight f"
    and pending: "ok s \<Longrightarrow> poll f s = (Inl f', s') \<Longrightarrow>
      ok s' \<and> (weight f' < weight f \<or> weight f' = weight f \<and> delay s' \<le> delay s \<and> 0 < delay s)"
    and ready: "ok s \<Longrightarrow> poll f s = (Inr r, s') \<Longrightarrow> ok s'"
    and idle_ok: "ok s \<Longrightarrow> ok (idle s)"
    and idle_delay: "ok s \<Longrightarrow> delay (idle s) \<le> delay s - 1"
begin

definition total :: "('f, 'r) slot list \<Rightarrow> nat" where
  "total xs = sum_list (map (slot_weight weight) xs)"

lemma poll_slots_progress:
  "poll_slots poll xs s = (ys, s') \<Longrightarrow> ok s \<Longrightarrow>
    ok s' \<and> (total ys < total xs \<or>
      total ys = total xs \<and> delay s' \<le> delay s \<and> ((\<exists>f. Waiting f \<in> set xs) \<longrightarrow> 0 < delay s))"
proof (induction xs arbitrary: ys s)
  case Nil
  then show ?case by (simp add: total_def)
next
  case (Cons x xs)
  show ?case
  proof (cases x)
    case (Settled r)
    then show ?thesis
      using Cons.IH [of s] Cons.prems by (auto simp: total_def split: prod.splits)
  next
    case (Waiting f)
    obtain q s1 where q: "poll f s = (q, s1)" by fastforce
    obtain zs where zs: "poll_slots poll xs s1 = (zs, s')" "ys = slot_of q # zs"
      using Cons.prems(1) Waiting q by (auto split: prod.splits)
    have ok: "ok s1"
      using q pending [OF Cons.prems(2)] ready [OF Cons.prems(2)] by (cases q) auto
    have head: "slot_weight weight (slot_of q) < weight f \<or>
        slot_weight weight (slot_of q) = weight f \<and> delay s1 \<le> delay s \<and> 0 < delay s"
      using q pending [OF Cons.prems(2)] weight_pos by (cases q) auto
    show ?thesis
      using Cons.IH [OF zs(1) ok] head zs(2) Waiting by (auto simp: total_def)
  qed
qed

lemma settle_loop_total: "ok s \<Longrightarrow> \<exists>rs s'. settle_loop poll idle xs s = Some (rs, s') \<and> ok s'"
proof (induction "(total xs, delay s)" arbitrary: xs s rule: wf_induct_rule [OF wf_lex_prod [OF wf_less wf_less]])
  case (1 xs s)
  obtain ys s1 where ys: "poll_slots poll xs s = (ys, s1)" by fastforce
  note prog = poll_slots_progress [OF ys 1(2)]
  show ?case
  proof (cases "take_results ys")
    case (Some rs)
    then show ?thesis
      using ys prog by (simp add: settle_loop.simps [of poll idle xs s])
  next
    case None
    then obtain f where "Waiting f \<in> set ys" by (auto simp: take_results_None)
    moreover have "Waiting f \<in> set ys \<Longrightarrow> poll_slots poll xs s = (ys, s1) \<Longrightarrow> \<exists>g. Waiting g \<in> set xs" for f xs ys s
      by (induction poll xs s arbitrary: ys rule: poll_slots.induct) (auto split: prod.splits)
    ultimately have "\<exists>g. Waiting g \<in> set xs" using ys by blast
    then have "((total ys, delay (idle s1)), (total xs, delay s)) \<in> {(m, n). m < n} <*lex*> {(m, n). m < n}"
      using prog idle_delay [of s1] by auto
    then have "\<exists>rs s'. settle_loop poll idle ys (idle s1) = Some (rs, s') \<and> ok s'"
      using 1(1) prog idle_ok by blast
    then show ?thesis
      using ys None by (simp add: settle_loop.simps [of poll idle xs s])
  qed
qed

lemma all_settle_total: "ok s \<Longrightarrow> \<exists>rs s'. all_settle poll idle fs s = Some (rs, s') \<and> ok s'"
  by (simp add: all_settle_def settle_loop_total)

lemma await_total: "ok s \<Longrightarrow> \<exists>r s'. await poll idle f s = Some (r, s') \<and> ok s'"
  using all_settle_total [of s "[f]"] by (auto simp: await_def)

end

end
