(* ===== verification/Loader.thy ===== *)
theory Loader
  imports Settle EntryTree Context
begin

section \<open>Loader transactions (loader.rs)\<close>

text \<open>
  \<open>Loader::replace\<close> and the operations around it. The package resolver, the runtimes and their
  handles are code behind traits: a \<open>boundary\<close> has one function per trait method, split into
  the call that creates the future and the polls that advance it, all on the state outside the
  loader (the lifecycle store and the rest, \<open>'w\<close>). Futures and runtimes are named by numbers.
  The system carries a ledger that the code does not: how many handles the runtimes have
  handed over, for which handles \<open>dispose\<close> was called, and which errors were met.
\<close>

type_synonym 'w outside = "lifecycle \<times> 'w"

record resolved_package =
  specifier :: string
  location :: string

datatype activation_state = RtActive | RtPending

record ('w, 'h) boundary =
  kind_of :: "nat \<Rightarrow> runtime_kind"
  start_resolve :: "string \<Rightarrow> runtime_kind \<Rightarrow> 'w outside \<Rightarrow> nat \<times> 'w outside"
  poll_resolve :: "nat \<Rightarrow> 'w outside \<Rightarrow> (loader_error + resolved_package) option \<times> 'w outside"
  start_instantiate :: "nat \<Rightarrow> resolved_package \<Rightarrow> entry \<Rightarrow> ctx \<Rightarrow> config_scope \<Rightarrow> 'w outside \<Rightarrow>
    (loader_error + nat) \<times> 'w outside"
  poll_instantiate :: "nat \<Rightarrow> 'w outside \<Rightarrow> (loader_error + 'h) option \<times> 'w outside"
  start_activation :: "'h \<Rightarrow> 'w outside \<Rightarrow> nat \<times> 'w outside"
  poll_activation :: "nat \<Rightarrow> 'w outside \<Rightarrow> (loader_error + activation_state) option \<times> 'w outside"
  start_dispose :: "'h \<Rightarrow> 'w outside \<Rightarrow> nat \<times> 'w outside"
  poll_disposal :: "nat \<Rightarrow> 'w outside \<Rightarrow> (loader_error + unit) option \<times> 'w outside"
  between_polls :: "'w outside \<Rightarrow> 'w outside"

text \<open>
  The default bodies of \<open>RuntimeHandle::activation\<close> and \<open>LoaderRuntime::instantiate_configured\<close>,
  over the methods they call. A future that fails before its first await is \<open>Inl\<close>.
\<close>

definition default_activation ::
  "(nat \<Rightarrow> 's \<Rightarrow> (loader_error + unit) option \<times> 's) \<Rightarrow>
    nat \<Rightarrow> 's \<Rightarrow> (loader_error + activation_state) option \<times> 's" where
  "default_activation poll_activate f s =
    (case poll_activate f s of (r, s') \<Rightarrow> (map_option (map_sum id (\<lambda>_. RtActive)) r, s'))"

definition default_instantiate_configured ::
  "(nat \<Rightarrow> resolved_package \<Rightarrow> entry \<Rightarrow> ctx \<Rightarrow> 's \<Rightarrow> nat \<times> 's) \<Rightarrow>
    nat \<Rightarrow> resolved_package \<Rightarrow> entry \<Rightarrow> ctx \<Rightarrow> config_scope \<Rightarrow> 's \<Rightarrow> (loader_error + nat) \<times> 's" where
  "default_instantiate_configured instantiate rt pkg e cx scope s =
    (case entry_evaluate_config e scope of
       Inl err \<Rightarrow> (Inl err, s)
     | Inr e' \<Rightarrow> (case instantiate rt pkg e' cx s of (f, s') \<Rightarrow> (Inr f, s')))"

subsection \<open>State\<close>

datatype trace_event_kind =
    FiberCreated | FiberStateChanged | ServiceProvided | ServiceRemoved | ListenerAdded
  | ListenerRemoved | EventDispatched | EffectCreated | EffectDisposed | PluginErrorEvent
  | ConfigCommitted | ConfigRolledBack

record trace_event =
  te_kind :: trace_event_kind
  te_subject :: "string option"
  te_from :: "string option"
  te_to :: "string option"
  te_label :: "string option"
  te_phase :: "string option"
  te_value :: "json option"
  te_error :: "message option"

text \<open>\<open>lv_number\<close> is the ledger's name of the handle.\<close>

record 'h live_entry =
  lv_entry :: entry
  lv_handle :: 'h
  lv_number :: nat

record 'h loader =
  runtimes :: "(runtime_kind, nat) btree"
  tree :: entry_tree
  live :: "'h live_entry list"
  loader_context :: ctx
  loader_scope :: config_scope
  trace :: "trace_event list"

record 'w system =
  outside :: "'w outside"
  created :: nat
  disposals :: "nat list"
  reported :: "loader_error list"

definition on_outside :: "('w outside \<Rightarrow> 'a \<times> 'w outside) \<Rightarrow> 'w system \<Rightarrow> 'a \<times> 'w system" where
  "on_outside g s = (case g (outside s) of (x, o') \<Rightarrow> (x, s\<lparr>outside := o'\<rparr>))"

definition report :: "loader_error list \<Rightarrow> 'w system \<Rightarrow> 'w system" where
  "report es s = s\<lparr>reported := reported s @ es\<rparr>"

definition idling :: "('w, 'h) boundary \<Rightarrow> 'w system \<Rightarrow> 'w system" where
  "idling B s = s\<lparr>outside := between_polls B (outside s)\<rparr>"

text \<open>What \<open>filter_map(Result::err)\<close> keeps.\<close>

fun result_errors :: "('e + 'a) list \<Rightarrow> 'e list" where
  "result_errors [] = []"
| "result_errors (Inl e # rs) = e # result_errors rs"
| "result_errors (Inr x # rs) = result_errors rs"

fun result_values :: "('e + 'a) list \<Rightarrow> 'a list" where
  "result_values [] = []"
| "result_values (Inl e # rs) = result_values rs"
| "result_values (Inr x # rs) = x # result_values rs"

subsection \<open>Importing an entry\<close>

text \<open>The suspension points of \<open>import_entry\<close>: not polled yet, and its two awaits.\<close>

datatype import_stage = Importing entry | Resolving entry nat | Instantiating entry nat

definition in_entry :: "string \<Rightarrow> entry \<Rightarrow> loader_error \<Rightarrow> loader_error" where
  "in_entry stage e err = le_in_entry err stage (entry_id_of e) (eo_name (options e))"

fun debug_runtime_kind :: "runtime_kind \<Rightarrow> string" where
  "debug_runtime_kind Native = ''Native''"
| "debug_runtime_kind Wasm = ''Wasm''"
| "debug_runtime_kind LegacyNode = ''LegacyNode''"

definition no_runtime :: "entry \<Rightarrow> loader_error" where
  "no_runtime e = RuntimeError ''import'' (entry_id_of e) (eo_name (options e))
    [Text ''no '', Text (debug_runtime_kind (eo_runtime (options e))), Text '' runtime is registered'']"

type_synonym ('w, 'h) import_poll =
  "'w system \<Rightarrow> (import_stage + (loader_error + 'h live_entry)) \<times> 'w system"

definition import_failed :: "loader_error \<Rightarrow> ('w, 'h) import_poll" where
  "import_failed err s = (Inr (Inl err), report [err] s)"

definition instantiating :: "('w, 'h) boundary \<Rightarrow> entry \<Rightarrow> nat \<Rightarrow> ('w, 'h) import_poll" where
  "instantiating B e f s =
    (case on_outside (poll_instantiate B f) s of
       (None, s1) \<Rightarrow> (Inl (Instantiating e f), s1)
     | (Some (Inl err), s1) \<Rightarrow> import_failed (in_entry ''import'' e err) s1
     | (Some (Inr h), s1) \<Rightarrow>
         (Inr (Inr \<lparr>lv_entry = e, lv_handle = h, lv_number = created s1\<rparr>),
          s1\<lparr>created := created s1 + 1\<rparr>))"

definition resolved ::
  "('w, 'h) boundary \<Rightarrow> (runtime_kind, nat) btree \<Rightarrow> config_scope \<Rightarrow> ctx \<Rightarrow>
    entry \<Rightarrow> resolved_package \<Rightarrow> ('w, 'h) import_poll" where
  "resolved B rts scope cx e pkg s =
    (case bt_get rts (eo_runtime (options e)) of
       None \<Rightarrow> import_failed (no_runtime e) s
     | Some rt \<Rightarrow>
         (case on_outside (start_instantiate B rt pkg e cx scope) s of
            (Inl err, s1) \<Rightarrow> import_failed (in_entry ''import'' e err) s1
          | (Inr f, s1) \<Rightarrow> instantiating B e f s1))"

definition resolving ::
  "('w, 'h) boundary \<Rightarrow> (runtime_kind, nat) btree \<Rightarrow> config_scope \<Rightarrow> ctx \<Rightarrow>
    entry \<Rightarrow> nat \<Rightarrow> ('w, 'h) import_poll" where
  "resolving B rts scope cx e f s =
    (case on_outside (poll_resolve B f) s of
       (None, s1) \<Rightarrow> (Inl (Resolving e f), s1)
     | (Some (Inl err), s1) \<Rightarrow> import_failed (in_entry ''import'' e err) s1
     | (Some (Inr pkg), s1) \<Rightarrow> resolved B rts scope cx e pkg s1)"

fun import_entry ::
  "('w, 'h) boundary \<Rightarrow> (runtime_kind, nat) btree \<Rightarrow> config_scope \<Rightarrow> ctx \<Rightarrow>
    import_stage \<Rightarrow> ('w, 'h) import_poll" where
  "import_entry B rts scope cx (Importing e) s =
    (case on_outside (start_resolve B (package e) (eo_runtime (options e))) s of
       (f, s1) \<Rightarrow> resolving B rts scope cx e f s1)"
| "import_entry B rts scope cx (Resolving e f) s = resolving B rts scope cx e f s"
| "import_entry B rts scope cx (Instantiating e f) s = instantiating B e f s"

subsection \<open>Disposing and activating live entries\<close>

definition disposing :: "('w, 'h) boundary \<Rightarrow> (nat, loader_error + unit, 'w system) poll" where
  "disposing B f s =
    (case on_outside (poll_disposal B f) s of
       (None, s1) \<Rightarrow> (Inl f, s1)
     | (Some r, s1) \<Rightarrow> (Inr r, s1))"

definition dispose_one ::
  "('w, 'h) boundary \<Rightarrow> 'h live_entry \<Rightarrow> 'w system \<Rightarrow> (loader_error list \<times> 'w system) option" where
  "dispose_one B lv s =
    (case on_outside (start_dispose B (lv_handle lv)) (s\<lparr>disposals := disposals s @ [lv_number lv]\<rparr>) of
       (f, s1) \<Rightarrow>
         Option.bind (await (disposing B) (idling B) f s1) (\<lambda>(r, s2).
           case r of
             Inl err \<Rightarrow>
               (let es = [in_entry ''dispose'' (lv_entry lv) err] in Some (es, report es s2))
           | Inr _ \<Rightarrow> Some ([], s2)))"

fun dispose_each ::
  "('w, 'h) boundary \<Rightarrow> 'h live_entry list \<Rightarrow> loader_error list \<Rightarrow> 'w system \<Rightarrow>
    (loader_error list \<times> 'w system) option" where
  "dispose_each B [] errors s = Some (errors, s)"
| "dispose_each B (lv # lvs) errors s =
    Option.bind (dispose_one B lv s) (\<lambda>(es, s'). dispose_each B lvs (errors @ es) s')"

definition dispose_all ::
  "('w, 'h) boundary \<Rightarrow> 'h live_entry list \<Rightarrow> 'w system \<Rightarrow> (loader_error list \<times> 'w system) option" where
  "dispose_all B lvs s = dispose_each B (rev lvs) [] s"

definition activating :: "('w, 'h) boundary \<Rightarrow> (nat, loader_error + activation_state, 'w system) poll" where
  "activating B f s =
    (case on_outside (poll_activation B f) s of
       (None, s1) \<Rightarrow> (Inl f, s1)
     | (Some r, s1) \<Rightarrow> (Inr r, report (result_errors [r]) s1))"

text \<open>The futures of one round: the handles whose index is in the set, in the order of the entries.\<close>

fun start_activations ::
  "('w, 'h) boundary \<Rightarrow> (nat \<times> 'h live_entry) list \<Rightarrow> nat set \<Rightarrow> 'w system \<Rightarrow> nat list \<times> 'w system" where
  "start_activations B [] pending_set s = ([], s)"
| "start_activations B ((index, lv) # lvs) pending_set s =
    (if index \<in> pending_set
     then case on_outside (start_activation B (lv_handle lv)) s of (f, s1) \<Rightarrow>
       case start_activations B lvs pending_set s1 of (fs, s2) \<Rightarrow> (f # fs, s2)
     else start_activations B lvs pending_set s)"

definition activate_round ::
  "('w, 'h) boundary \<Rightarrow> 'h live_entry list \<Rightarrow> nat list \<Rightarrow> 'w system \<Rightarrow>
    ((loader_error + activation_state) list \<times> 'w system) option" where
  "activate_round B lvs pending s =
    (case start_activations B (enumerate 0 lvs) (set pending) s of
       (fs, s1) \<Rightarrow> all_settle (activating B) (idling B) fs s1)"

text \<open>The loop over a round's results: the next round's indices, \<open>progressed\<close> and the errors.\<close>

fun tally ::
  "(nat \<times> (loader_error + activation_state)) list \<Rightarrow> nat list \<times> bool \<times> loader_error list" where
  "tally [] = ([], False, [])"
| "tally ((i, r) # rest) =
    (case tally rest of (later, progressed, errors) \<Rightarrow>
      case r of
        Inr RtActive \<Rightarrow> (later, True, errors)
      | Inr RtPending \<Rightarrow> (i # later, progressed, errors)
      | Inl err \<Rightarrow> (later, progressed, err # errors))"

lemma tally_length:
  "tally rest = (later, progressed, errors) \<Longrightarrow>
    length later + (if progressed then 1 else 0) \<le> length rest"
  by (induction rest arbitrary: later progressed errors rule: tally.induct)
    (auto split: prod.splits sum.splits activation_state.splits if_splits)

function activate_loop ::
  "('w, 'h) boundary \<Rightarrow> 'h live_entry list \<Rightarrow> nat list \<Rightarrow> 'w system \<Rightarrow>
    (loader_error list \<times> 'w system) option" where
  "activate_loop B lvs pending s =
    (if pending = [] then Some ([], s)
     else Option.bind (activate_round B lvs pending s) (\<lambda>(results, s').
       case tally (zip pending results) of (later, progressed, errors) \<Rightarrow>
         if errors \<noteq> [] \<or> \<not> progressed then Some (errors, s')
         else activate_loop B lvs later s'))"
  by pat_completeness auto

termination activate_loop
proof (relation "measure (\<lambda>(B, lvs, pending, s). length pending)", goal_cases)
  case 1
  then show ?case by simp
next
  case (2 B lvs pending s)
  then show ?case by (auto dest!: tally_length [OF sym])
qed

declare activate_loop.simps [simp del]

definition activate_all ::
  "('w, 'h) boundary \<Rightarrow> 'h live_entry list \<Rightarrow> 'w system \<Rightarrow>
    ((loader_error + unit) list \<times> 'w system) option" where
  "activate_all B lvs s =
    map_option (\<lambda>(errors, s'). (map Inl errors, s')) (activate_loop B lvs [0..<length lvs] s)"

subsection \<open>The loader\<close>

text \<open>\<open>try_new\<close>: \<open>BTreeMap::insert\<close> returns the runtime it replaces; \<open>root\<close> is the scope of the
  root context.\<close>

fun register_runtimes ::
  "('w, 'h) boundary \<Rightarrow> nat list \<Rightarrow> (runtime_kind, nat) btree \<Rightarrow>
    loader_error + (runtime_kind, nat) btree" where
  "register_runtimes B [] by_kind = Inr by_kind"
| "register_runtimes B (rt # rts) by_kind =
    (let kind = kind_of B rt in
     if bt_contains by_kind kind
     then Inl (ValidationError
       [Text ''more than one runtime registered for '', Text (debug_runtime_kind kind)])
     else register_runtimes B rts (bt_insert kind rt by_kind))"

definition default_tree :: entry_tree where
  "default_tree = \<lparr>tree_entries = [], tree_groups = []\<rparr>"

definition try_new ::
  "('w, 'h) boundary \<Rightarrow> string \<Rightarrow> string \<Rightarrow> scope_id \<Rightarrow> nat list \<Rightarrow> loader_error + 'h loader" where
  "try_new B os arch root rts =
    try_bind (register_runtimes B rts []) (\<lambda>by_kind.
      Inr \<lparr>runtimes = by_kind, tree = default_tree, live = [], loader_context = context_root root,
        loader_scope = default_config_scope os arch, trace = []\<rparr>)"

definition with_context :: "'h loader \<Rightarrow> ctx \<Rightarrow> 'h loader" where
  "with_context l cx = l\<lparr>loader_context := cx\<rparr>"

definition with_config_scope :: "'h loader \<Rightarrow> config_scope \<Rightarrow> 'h loader" where
  "with_config_scope l scope = l\<lparr>loader_scope := scope\<rparr>"

definition plain_event :: "trace_event_kind \<Rightarrow> message option \<Rightarrow> trace_event" where
  "plain_event k err = \<lparr>te_kind = k, te_subject = None, te_from = None, te_to = None, te_label = None,
     te_phase = None, te_value = None, te_error = err\<rparr>"

definition trace_committed :: "'h loader \<Rightarrow> 'h loader" where
  "trace_committed l = l\<lparr>trace := trace l @ [plain_event ConfigCommitted None]\<rparr>"

definition rolled_back :: "message \<Rightarrow> 'h loader \<Rightarrow> 'h loader" where
  "rolled_back err l = l\<lparr>trace := trace l @ [plain_event ConfigRolledBack (Some err)]\<rparr>"

definition detached_context :: "'h loader \<Rightarrow> 'w system \<Rightarrow> (ctx \<times> 'w system) option" where
  "detached_context l s =
    map_option (\<lambda>(sc, m). (with_scope (loader_context l) sc, s\<lparr>outside := (m, snd (outside s))\<rparr>))
      (scope_new (fst (outside s)))"

definition import_candidates ::
  "('w, 'h) boundary \<Rightarrow> 'h loader \<Rightarrow> entry_tree \<Rightarrow> ctx \<Rightarrow> 'w system \<Rightarrow>
    ((loader_error + 'h live_entry list) \<times> 'w system) option" where
  "import_candidates B l t cx s =
    Option.bind
      (all_settle (import_entry B (runtimes l) (loader_scope l) cx) (idling B)
        (map Importing (active_entries t)) s)
      (\<lambda>(results, s1).
        let candidates = result_values results; errors = result_errors results in
        if errors = [] then Some (Inr candidates, s1)
        else Option.bind (dispose_all B candidates s1) (\<lambda>(rollback, s2).
          Some (Inl (le_transaction (le_aggregate errors) rollback), s2)))"

definition restore_committed ::
  "('w, 'h) boundary \<Rightarrow> 'h loader \<Rightarrow> ctx \<Rightarrow> 'w system \<Rightarrow>
    ((loader_error + 'h live_entry list) \<times> 'w system) option" where
  "restore_committed B l cx s =
    Option.bind (import_candidates B l (tree l) cx s) (\<lambda>(r, s1).
      case r of
        Inl err \<Rightarrow> Some (Inl err, s1)
      | Inr restored \<Rightarrow>
          Option.bind (activate_all B restored s1) (\<lambda>(activation_errors, s2).
            if activation_errors = [] then Some (Inr restored, s2)
            else Option.bind (dispose_all B restored s2) (\<lambda>(rollback, s3).
              Some (Inl (le_transaction (le_aggregate (result_errors activation_errors)) rollback), s3))))"

text \<open>It extends \<open>rollback\<close>, which it returns with the loader.\<close>

definition restore_committed_tree ::
  "('w, 'h) boundary \<Rightarrow> 'h loader \<Rightarrow> loader_error list \<Rightarrow> 'w system \<Rightarrow>
    (loader_error list \<times> 'h loader \<times> 'w system) option" where
  "restore_committed_tree B l rollback s =
    (let l = l\<lparr>live := []\<rparr> in
     Option.bind (detached_context l s) (\<lambda>(cx, s1).
     Option.bind (restore_committed B l cx s1) (\<lambda>(r, s2).
       case r of
         Inr restored \<Rightarrow> Some (rollback, l\<lparr>live := restored, loader_context := cx\<rparr>, s2)
       | Inl err \<Rightarrow> Some (collect_rollback_errors err rollback, l, s2))))"

text \<open>The shared ending of the two failing branches of \<open>replace\<close>.\<close>

definition abort_replace ::
  "('w, 'h) boundary \<Rightarrow> 'h loader \<Rightarrow> 'h live_entry list \<Rightarrow> loader_error \<Rightarrow> 'w system \<Rightarrow>
    ((loader_error + unit) \<times> 'h loader \<times> 'w system) option" where
  "abort_replace B l candidate failure s =
    Option.bind (dispose_all B candidate s) (\<lambda>(rollback, s1).
    Option.bind (restore_committed_tree B l rollback s1) (\<lambda>(rollback, l1, s2).
      let err = le_transaction failure rollback in
      Some (Inl err, rolled_back (loader_error_display err) l1, s2)))"

definition replace ::
  "('w, 'h) boundary \<Rightarrow> 'h loader \<Rightarrow> entry_tree \<Rightarrow> 'w system \<Rightarrow>
    ((loader_error + unit) \<times> 'h loader \<times> 'w system) option" where
  "replace B l t s =
    (case validate_tree t of
       Inl err \<Rightarrow> Some (Inl err, l, s)
     | Inr _ \<Rightarrow>
         Option.bind (detached_context l s) (\<lambda>(cx, s1).
         Option.bind (import_candidates B l t cx s1) (\<lambda>(r, s2).
           case r of
             Inl err \<Rightarrow> Some (Inl err, rolled_back (loader_error_display err) l, s2)
           | Inr candidate \<Rightarrow>
               Option.bind (dispose_all B (live l) s2) (\<lambda>(removal_errors, s3).
                 if removal_errors \<noteq> []
                 then abort_replace B l candidate (le_aggregate removal_errors) s3
                 else
                   let l1 = l\<lparr>live := []\<rparr> in
                   Option.bind (activate_all B candidate s3) (\<lambda>(start_errors, s4).
                     if list_ex isl start_errors
                     then abort_replace B l1 candidate (le_aggregate (result_errors start_errors)) s4
                     else Some (Inr (),
                       trace_committed (l1\<lparr>live := candidate, tree := t, loader_context := cx\<rparr>), s4))))))"

definition load ::
  "('w, 'h) boundary \<Rightarrow> 'h loader \<Rightarrow> entry_tree \<Rightarrow> 'w system \<Rightarrow>
    ((loader_error + unit) \<times> 'h loader \<times> 'w system) option" where
  "load B l t s =
    (if live l \<noteq> []
     then Some (Inl (ValidationError
       (msg ''loader already has a committed tree; use replace or update'')), l, s)
     else replace B l t s)"

definition update ::
  "('w, 'h) boundary \<Rightarrow> 'h loader \<Rightarrow> patch list \<Rightarrow> 'w system \<Rightarrow>
    ((loader_error + unit) \<times> 'h loader \<times> 'w system) option" where
  "update B l patches s =
    (case apply_all (tree l) patches of
       Inl err \<Rightarrow> Some (Inl err, l, s)
     | Inr candidate \<Rightarrow> replace B l candidate s)"

definition unload ::
  "('w, 'h) boundary \<Rightarrow> 'h loader \<Rightarrow> 'w system \<Rightarrow>
    ((loader_error + unit) \<times> 'h loader \<times> 'w system) option" where
  "unload B l s =
    Option.bind (dispose_all B (live l) s) (\<lambda>(errors, s1).
      if errors = [] then Some (Inr (), l\<lparr>live := [], tree := default_tree\<rparr>, s1)
      else Some (Inl (le_aggregate errors), l, s1))"

end
