(* ===== verification/LoaderInv.thy ===== *)
theory LoaderInv
  imports Loader "HOL-Library.Multiset"
begin

section \<open>Loader transactions: the ledger\<close>

text \<open>
  What every loader operation does to the ledger: which handles it creates, for which it calls
  \<open>dispose\<close>, and which errors it meets. The waits of the loader interpret the locales of
  Settle. The properties are in LoaderProps.
\<close>

named_theorems ledger_simps \<open>effects of the elementary steps on the ledger\<close>

abbreviation numbers :: "'h live_entry list \<Rightarrow> nat list" where
  "numbers lvs \<equiv> map lv_number lvs"

definition quiet :: "'w system \<Rightarrow> 'w system \<Rightarrow> bool" where
  "quiet s s' \<longleftrightarrow> created s' = created s \<and> disposals s' = disposals s \<and> reported s' = reported s"

lemma quiet_refl [simp]: "quiet s s"
  by (simp add: quiet_def)

lemma quiet_trans: "quiet s t \<Longrightarrow> quiet t u \<Longrightarrow> quiet s u"
  by (simp add: quiet_def)

lemma on_outside_quiet [ledger_simps]: "on_outside g s = (x, s') \<Longrightarrow> quiet s s'"
  by (auto simp: on_outside_def quiet_def split: prod.splits)

lemma idling_quiet [simp, ledger_simps]: "quiet s (idling B s)"
  by (simp add: idling_def quiet_def)

lemma idling_fields [simp]:
  "created (idling B s) = created s" "disposals (idling B s) = disposals s"
  "reported (idling B s) = reported s"
  by (simp_all add: idling_def)

lemma report_fields [simp]:
  "created (report es s) = created s" "disposals (report es s) = disposals s"
  "reported (report es s) = reported s @ es" "outside (report es s) = outside s"
  by (simp_all add: report_def)

subsection \<open>Importing\<close>

fun stage_entry :: "import_stage \<Rightarrow> entry" where
  "stage_entry (Importing e) = e"
| "stage_entry (Resolving e f) = e"
| "stage_entry (Instantiating e f) = e"

text \<open>One poll of an import: still pending, failed with one error reported, or one new handle.\<close>

fun import_effect ::
  "entry \<Rightarrow> 'w system \<Rightarrow> import_stage + (loader_error + 'h live_entry) \<Rightarrow> 'w system \<Rightarrow> bool" where
  "import_effect e s (Inl st) s' \<longleftrightarrow> stage_entry st = e \<and> quiet s s'"
| "import_effect e s (Inr (Inl err)) s' \<longleftrightarrow>
    created s' = created s \<and> disposals s' = disposals s \<and> reported s' = reported s @ [err]"
| "import_effect e s (Inr (Inr lv)) s' \<longleftrightarrow>
    lv_entry lv = e \<and> lv_number lv = created s \<and> created s' = created s + 1
    \<and> disposals s' = disposals s \<and> reported s' = reported s"

lemma import_effect_quiet: "quiet s t \<Longrightarrow> import_effect e t q s' \<Longrightarrow> import_effect e s q s'"
  by (cases q rule: sum.exhaust; cases "projr q" rule: sum.exhaust)
    (auto simp: quiet_def)

lemma import_failed_effect: "import_failed err s = (q, s') \<Longrightarrow> import_effect e s q s'"
  by (auto simp: import_failed_def)

lemma instantiating_effect: "instantiating B e f s = (q, s') \<Longrightarrow> import_effect e s q s'"
  by (auto simp: instantiating_def on_outside_def import_failed_def quiet_def split: prod.splits option.splits sum.splits)

lemma resolved_effect: "resolved B rts scope cx e pkg s = (q, s') \<Longrightarrow> import_effect e s q s'"
  by (auto simp: resolved_def split: prod.splits option.splits sum.splits
      intro: import_failed_effect
      dest!: import_failed_effect [of _ _ _ _ e] instantiating_effect on_outside_quiet import_effect_quiet)

lemma resolving_effect: "resolving B rts scope cx e f s = (q, s') \<Longrightarrow> import_effect e s q s'"
  by (auto simp: resolving_def split: prod.splits option.splits sum.splits
      dest!: import_failed_effect [of _ _ _ _ e] resolved_effect on_outside_quiet import_effect_quiet)

lemma import_entry_effect:
  "import_entry B rts scope cx st s = (q, s') \<Longrightarrow> import_effect (stage_entry st) s q s'"
  by (cases st)
    (auto split: prod.splits dest!: resolving_effect instantiating_effect on_outside_quiet
      intro: import_effect_quiet)

fun slot_results :: "('f, 'r) slot list \<Rightarrow> 'r list" where
  "slot_results [] = []"
| "slot_results (Settled r # xs) = r # slot_results xs"
| "slot_results (Waiting f # xs) = slot_results xs"

lemma slot_results_append [simp]: "slot_results (xs @ ys) = slot_results xs @ slot_results ys"
  by (induction xs rule: slot_results.induct) auto

lemma slot_results_settled [simp]: "slot_results (map Settled rs) = rs"
  by (induction rs) auto

lemma slot_results_waiting [simp]: "slot_results (map Waiting fs) = []"
  by (induction fs) auto

lemma result_append [simp]:
  "result_errors (xs @ ys) = result_errors xs @ result_errors ys"
  "result_values (xs @ ys) = result_values xs @ result_values ys"
  by (induction xs rule: result_errors.induct) auto

fun slot_for :: "(import_stage, loader_error + 'h live_entry) slot \<Rightarrow> entry \<Rightarrow> bool" where
  "slot_for (Waiting st) e \<longleftrightarrow> stage_entry st = e"
| "slot_for (Settled (Inl err)) e \<longleftrightarrow> True"
| "slot_for (Settled (Inr lv)) e \<longleftrightarrow> lv_entry lv = e"

definition import_inv ::
  "entry list \<Rightarrow> 'w system \<Rightarrow> (import_stage, loader_error + 'h live_entry) slot list \<Rightarrow> 'w system \<Rightarrow> bool" where
  "import_inv es s0 xs s \<longleftrightarrow>
    list_all2 slot_for xs es \<and> disposals s = disposals s0 \<and> created s0 \<le> created s
    \<and> mset (numbers (result_values (slot_results xs))) = mset [created s0..<created s]
    \<and> mset (reported s) = mset (reported s0) + mset (result_errors (slot_results xs))"

lemma import_inv_polled:
  assumes "import_inv es s0 (xs @ Waiting st # ys) s" and "import_effect (stage_entry st) s q s'"
  shows "import_inv es s0 (xs @ slot_of q # ys) s'"
proof -
  obtain es1 es2 where es: "es = es1 @ stage_entry st # es2" "list_all2 slot_for xs es1" "list_all2 slot_for ys es2"
    using assms(1) by (auto simp: import_inv_def list_all2_append1 list_all2_Cons1)
  show ?thesis
    using assms es
    by (cases q rule: sum.exhaust; cases "projr q" rule: sum.exhaust)
      (auto simp: import_inv_def quiet_def list_all2_appendI)
qed

interpretation importing: settle_invariant "import_entry B rts scope cx" "idling B" "import_inv es s0"
  for B rts scope cx es s0
proof unfold_locales
  show "import_inv es s0 (xs @ Waiting st # ys) s \<Longrightarrow> import_entry B rts scope cx st s = (q, s') \<Longrightarrow>
    import_inv es s0 (xs @ slot_of q # ys) s'" for xs st ys s q s'
    by (rule import_inv_polled) (auto dest: import_entry_effect)
qed (auto simp: import_inv_def)

subsection \<open>Disposing\<close>

interpretation dispose_wait: settle_invariant "disposing B" "idling B" "\<lambda>_. quiet s0"
  for B s0
proof unfold_locales
  show "quiet s0 s \<Longrightarrow> disposing B f s = (q, s') \<Longrightarrow> quiet s0 s'" for f s q s'
    by (auto simp: disposing_def split: prod.splits option.splits dest!: on_outside_quiet intro: quiet_trans)
qed (auto intro: quiet_trans)

definition disposed :: "nat list \<Rightarrow> loader_error list \<Rightarrow> 'w system \<Rightarrow> 'w system \<Rightarrow> bool" where
  "disposed ns es s s' \<longleftrightarrow>
    created s' = created s \<and> disposals s' = disposals s @ ns \<and> reported s' = reported s @ es"

lemma dispose_one_ledger: "dispose_one B lv s = Some (es, s') \<Longrightarrow> disposed [lv_number lv] es s s'"
proof -
  assume one: "dispose_one B lv s = Some (es, s')"
  let ?s = "s\<lparr>disposals := disposals s @ [lv_number lv]\<rparr>"
  obtain f s1 where start: "on_outside (start_dispose B (lv_handle lv)) ?s = (f, s1)" by fastforce
  obtain r s2 where wait: "await (disposing B) (idling B) f s1 = Some (r, s2)"
    using one start by (auto simp: dispose_one_def bind_eq_Some_conv)
  have "quiet s1 s2"
    by (rule dispose_wait.await_inv [OF wait, of s1]) simp
  then have "quiet ?s s2"
    using on_outside_quiet [OF start] quiet_trans by blast
  then show ?thesis
    using one start wait
    by (cases r) (auto simp: dispose_one_def disposed_def quiet_def Let_def)
qed

lemma dispose_each_ledger:
  "dispose_each B lvs errors s = Some (es, s') \<Longrightarrow>
    \<exists>more. es = errors @ more \<and> disposed (numbers lvs) more s s'"
proof (induction lvs arbitrary: errors s)
  case Nil
  then show ?case by (simp add: disposed_def)
next
  case (Cons lv lvs)
  then obtain e1 s1 where "dispose_one B lv s = Some (e1, s1)" "dispose_each B lvs (errors @ e1) s1 = Some (es, s')"
    by (auto simp: bind_eq_Some_conv)
  then show ?case
    using Cons.IH [of "errors @ e1" s1] dispose_one_ledger [of B lv s e1 s1]
    by (auto simp: disposed_def)
qed

lemma dispose_all_ledger:
  "dispose_all B lvs s = Some (es, s') \<Longrightarrow> disposed (rev (numbers lvs)) es s s'"
  using dispose_each_ledger [of B "rev lvs" "[]" s es s'] by (simp add: dispose_all_def rev_map)

subsection \<open>Activating\<close>

definition activating_inv ::
  "'w system \<Rightarrow> (nat, loader_error + activation_state) slot list \<Rightarrow> 'w system \<Rightarrow> bool" where
  "activating_inv s0 xs s \<longleftrightarrow>
    created s = created s0 \<and> disposals s = disposals s0
    \<and> mset (reported s) = mset (reported s0) + mset (result_errors (slot_results xs))"

interpretation activation_wait: settle_invariant "activating B" "idling B" "activating_inv s0"
  for B s0
proof unfold_locales
  show "activating_inv s0 (xs @ Waiting f # ys) s \<Longrightarrow> activating B f s = (q, s') \<Longrightarrow>
    activating_inv s0 (xs @ slot_of q # ys) s'" for xs f ys s q s'
    by (cases q rule: sum.exhaust; cases "projr q" rule: sum.exhaust)
      (auto simp: activating_def activating_inv_def quiet_def split: prod.splits option.splits dest!: on_outside_quiet)
qed (auto simp: activating_inv_def)

lemma start_activations_ledger:
  "start_activations B lvs P s = (fs, s') \<Longrightarrow>
    quiet s s' \<and> length fs = length (filter (\<lambda>(i, _). i \<in> P) lvs)"
proof (induction lvs arbitrary: fs s)
  case Nil
  then show ?case by simp
next
  case (Cons ilv lvs)
  then show ?case
    by (cases ilv) (auto split: if_splits prod.splits dest!: on_outside_quiet intro: quiet_trans)
qed

text \<open>The indices of a round: distinct positions of the entries.\<close>

definition positions :: "'a list \<Rightarrow> nat list \<Rightarrow> bool" where
  "positions lvs pending \<longleftrightarrow> distinct pending \<and> set pending \<subseteq> {..<length lvs}"

lemma positions_count:
  assumes "positions lvs pending"
  shows "length (filter (\<lambda>(i, _). i \<in> set pending) (enumerate 0 lvs)) = length pending"
proof -
  have "filter (\<lambda>(i, _). i \<in> set pending) (enumerate 0 lvs) =
      filter ((\<lambda>i. i \<in> set pending) \<circ> fst) (enumerate 0 lvs)"
    by (intro filter_cong) auto
  then have "length (filter (\<lambda>(i, _). i \<in> set pending) (enumerate 0 lvs)) =
      length (filter (\<lambda>i. i \<in> set pending) [0..<length lvs])"
    by (metis length_map filter_map map_fst_enumerate add_0)
  also have "\<dots> = card (set pending)"
  proof -
    have "set (filter (\<lambda>i. i \<in> set pending) [0..<length lvs]) = set pending"
      using assms by (auto simp: positions_def)
    then show ?thesis
      by (metis distinct_card distinct_filter distinct_upt)
  qed
  finally show ?thesis
    using assms by (simp add: positions_def distinct_card)
qed

lemma tally_later:
  "tally rest = (later, progressed, errors) \<Longrightarrow>
    set later \<subseteq> set (map fst rest) \<and> (distinct (map fst rest) \<longrightarrow> distinct later)
    \<and> errors = result_errors (map snd rest)"
proof (induction rest arbitrary: later progressed errors)
  case Nil
  then show ?case by simp
next
  case (Cons ir rest)
  obtain i r where ir: "ir = (i, r)" by (cases ir)
  obtain l p e where t: "tally rest = (l, p, e)" by (cases "tally rest")
  show ?case
    using Cons.IH [OF t] Cons.prems ir t
    by (cases r) (auto split: activation_state.splits)
qed

lemma activate_round_ledger:
  assumes "activate_round B lvs pending s = Some (results, s')" and "positions lvs pending"
  shows "length results = length pending \<and> activating_inv s (map Settled results) s'"
proof -
  obtain fs s1 where fs: "start_activations B (enumerate 0 lvs) (set pending) s = (fs, s1)" by fastforce
  then have settle: "all_settle (activating B) (idling B) fs s1 = Some (results, s')"
    using assms(1) by (simp add: activate_round_def)
  have "quiet s s1" "length fs = length pending"
    using start_activations_ledger [OF fs] positions_count [OF assms(2)] by simp_all
  moreover have "activating_inv s1 (map Settled results) s' \<and> length results = length fs"
    by (rule activation_wait.all_settle_inv [OF settle]) (simp add: activating_inv_def)
  ultimately show ?thesis
    by (auto simp: activating_inv_def quiet_def)
qed

lemma activate_loop_empty [simp]: "activate_loop B lvs [] s = Some ([], s)"
  by (simp add: activate_loop.simps [of B lvs "[]"])

lemma activate_loop_ledger:
  "activate_loop B lvs pending s = Some (errors, s') \<Longrightarrow> positions lvs pending \<Longrightarrow>
    created s' = created s \<and> disposals s' = disposals s
    \<and> mset (reported s') = mset (reported s) + mset errors"
proof (induction B lvs pending s rule: activate_loop.induct)
  case (1 B lvs pending s)
  show ?case
  proof (cases "pending = []")
    case True
    then show ?thesis using 1(2) by auto
  next
    case False
    obtain results s1 where round: "activate_round B lvs pending s = Some (results, s1)"
      using 1(2) False by (auto simp: activate_loop.simps [of B lvs pending s] bind_eq_Some_conv)
    obtain later progressed es where t: "tally (zip pending results) = (later, progressed, es)"
      by (cases "tally (zip pending results)")
    note ledger = activate_round_ledger [OF round 1(3)]
    have later: "positions lvs later" "es = result_errors results"
      using tally_later [OF t] ledger 1(3) by (auto simp: positions_def)
    show ?thesis
    proof (cases "es \<noteq> [] \<or> \<not> progressed")
      case True
      then show ?thesis
        using 1(2) False round t ledger later
        by (auto simp: activate_loop.simps [of B lvs pending s] activating_inv_def)
    next
      case stop: False
      then have "activate_loop B lvs later s1 = Some (errors, s')"
        using 1(2) False round t by (simp add: activate_loop.simps [of B lvs pending s])
      then show ?thesis
        using 1(1) [OF False round refl t [symmetric] refl stop] later ledger stop
        by (simp add: activating_inv_def)
    qed
  qed
qed

lemma result_errors_Inl [simp]: "result_errors (map Inl es) = es"
  by (induction es) auto

lemma activate_all_ledger:
  assumes "activate_all B lvs s = Some (rs, s')"
  shows "rs = map Inl (result_errors rs) \<and> created s' = created s \<and> disposals s' = disposals s
    \<and> mset (reported s') = mset (reported s) + mset (result_errors rs)"
proof -
  have "positions lvs [0..<length lvs]" by (auto simp: positions_def)
  then show ?thesis
    using assms activate_loop_ledger [of B lvs "[0..<length lvs]" s] by (auto simp: activate_all_def)
qed

subsection \<open>Transactions\<close>

definition leaves :: "loader_error list \<Rightarrow> loader_error multiset" where
  "leaves es = mset (concat (map loader_leaves es))"

lemma leaves_simps [simp]:
  "leaves [] = {#}" "leaves (e # es) = mset (loader_leaves e) + leaves es"
  "leaves (es @ fs) = leaves es + leaves fs"
  by (simp_all add: leaves_def)

lemma leaves_sum: "leaves es = sum_mset (image_mset (\<lambda>e. mset (loader_leaves e)) (mset es))"
  by (induction es) simp_all

lemma leaves_reported: "mset es = mset fs + mset gs \<Longrightarrow> leaves es = leaves fs + leaves gs"
  by (simp add: leaves_sum)

lemma leaves_aggregate [simp]: "mset (loader_leaves (le_aggregate es)) = leaves es"
  by (simp add: leaves_def loader_leaves_aggregate)

lemma leaves_transaction [simp]:
  "mset (loader_leaves (le_transaction f es)) = mset (loader_leaves f) + leaves es"
  by (simp add: leaves_def loader_leaves_transaction)

lemma concat_map_concat: "concat (map f (concat xss)) = concat (map (\<lambda>xs. concat (map f xs)) xss)"
  by (induction xss) simp_all

lemma leaves_idem [simp]: "leaves (loader_leaves e) = mset (loader_leaves e)"
proof -
  have "concat (map loader_leaves (loader_leaves e)) = loader_leaves e"
    by (induction e rule: loader_leaves.induct) (simp_all add: concat_map_concat cong: map_cong)
  then show ?thesis by (simp add: leaves_def)
qed

text \<open>What an import of \<open>es\<close> comes to: one new handle per entry, or an error that accounts for
  everything reported, with every handle it created disposed.\<close>

fun import_outcome ::
  "entry list \<Rightarrow> 'w system \<Rightarrow> loader_error + 'h live_entry list \<Rightarrow> 'w system \<Rightarrow> bool" where
  "import_outcome es s (Inr lvs) s' \<longleftrightarrow>
    map lv_entry lvs = es \<and> created s \<le> created s'
    \<and> mset (numbers lvs) = mset [created s..<created s']
    \<and> disposals s' = disposals s \<and> mset (reported s') = mset (reported s)"
| "import_outcome es s (Inl err) s' \<longleftrightarrow>
    created s \<le> created s'
    \<and> mset (disposals s') = mset (disposals s) + mset [created s..<created s']
    \<and> length (reported s) < length (reported s')
    \<and> leaves (reported s') = leaves (reported s) + mset (loader_leaves err)"

lemma length_reported: "mset es = mset fs + mset gs \<Longrightarrow> length es = length fs + length gs"
  by (metis size_mset size_union)

lemma slots_all_ok:
  "list_all2 slot_for (map Settled rs) es \<Longrightarrow> result_errors rs = [] \<Longrightarrow>
    map lv_entry (result_values rs) = es"
  by (induction rs arbitrary: es rule: result_errors.induct) (auto simp: list_all2_Cons1)

lemma import_candidates_ledger:
  assumes "import_candidates B l t cx s = Some (r, s')"
  shows "import_outcome (active_entries t) s r s'"
proof -
  let ?poll = "import_entry B (runtimes l) (loader_scope l) cx"
  obtain rs s1 where settle: "all_settle ?poll (idling B) (map Importing (active_entries t)) s = Some (rs, s1)"
    using assms by (auto simp: import_candidates_def bind_eq_Some_conv)
  have "import_inv (active_entries t) s (map Waiting (map Importing (active_entries t))) s"
    by (simp add: import_inv_def list_all2_conv_all_nth del: map_map)
  then have inv: "import_inv (active_entries t) s (map Settled rs) s1"
    using importing.all_settle_inv [OF settle] by blast
  show ?thesis
  proof (cases "result_errors rs = []")
    case True
    then show ?thesis
      using assms settle inv slots_all_ok by (auto simp: import_candidates_def import_inv_def)
  next
    case False
    then obtain rb where rb: "dispose_all B (result_values rs) s1 = Some (rb, s')"
        "r = Inl (le_transaction (le_aggregate (result_errors rs)) rb)"
      using assms settle by (auto simp: import_candidates_def bind_eq_Some_conv)
    note d = dispose_all_ledger [OF rb(1)]
    have "mset (reported s') = mset (reported s) + mset (result_errors rs @ rb)"
      using inv d by (simp add: import_inv_def disposed_def)
    then show ?thesis
      using inv d rb(2) False leaves_reported length_reported
      by (fastforce simp: import_inv_def disposed_def)
  qed
qed

lemma restore_committed_ledger:
  assumes "restore_committed B l cx s = Some (r, s')"
  shows "import_outcome (active_entries (tree l)) s r s'"
proof -
  obtain q s1 where imp: "import_candidates B l (tree l) cx s = Some (q, s1)"
    using assms by (auto simp: restore_committed_def bind_eq_Some_conv)
  note outcome = import_candidates_ledger [OF imp]
  show ?thesis
  proof (cases q)
    case (Inl err)
    then show ?thesis using assms imp outcome by (simp add: restore_committed_def)
  next
    case (Inr lvs)
    obtain errs s2 where act: "activate_all B lvs s1 = Some (errs, s2)"
      using assms imp Inr by (auto simp: restore_committed_def bind_eq_Some_conv)
    note a = activate_all_ledger [OF act]
    show ?thesis
    proof (cases "errs = []")
      case True
      then show ?thesis
        using assms imp Inr act outcome a by (auto simp: restore_committed_def)
    next
      case False
      then obtain rb where rb: "dispose_all B lvs s2 = Some (rb, s')"
          "r = Inl (le_transaction (le_aggregate (result_errors errs)) rb)"
        using assms imp Inr act by (auto simp: restore_committed_def bind_eq_Some_conv)
      note d = dispose_all_ledger [OF rb(1)]
      have "mset (reported s') = mset (reported s) + mset (result_errors errs @ rb)"
        using outcome a d Inr by (simp add: disposed_def)
      moreover have "result_errors errs \<noteq> []" using a False by auto
      ultimately show ?thesis
        using outcome a d rb(2) Inr leaves_reported length_reported
        by (fastforce simp: disposed_def)
    qed
  qed
qed

lemma detached_context_quiet: "detached_context l s = Some (cx, s') \<Longrightarrow> quiet s s'"
  by (auto simp: detached_context_def quiet_def)

definition same_config :: "'h loader \<Rightarrow> 'h loader \<Rightarrow> bool" where
  "same_config l l' \<longleftrightarrow> runtimes l' = runtimes l \<and> loader_scope l' = loader_scope l"

definition live_matches :: "'h loader \<Rightarrow> bool" where
  "live_matches l \<longleftrightarrow> live l = [] \<or> map lv_entry (live l) = active_entries (tree l)"

text \<open>Handles out of \<open>ns\<close> and new ones, all of them live or disposed once.\<close>

definition settled_handles :: "nat list \<Rightarrow> 'w system \<Rightarrow> 'h loader \<Rightarrow> 'w system \<Rightarrow> bool" where
  "settled_handles ns s l' s' \<longleftrightarrow>
    created s \<le> created s'
    \<and> mset (numbers (live l')) + mset (disposals s') = mset (disposals s) + mset ns + mset [created s..<created s']"

lemma new_handles_join:
  "a \<le> b \<Longrightarrow> b \<le> c \<Longrightarrow> mset_set {a..<b} + mset_set {b..<c} = mset_set {a..<c}" for a b c :: nat
  by (metis mset_append upt_add_eq_append le_Suc_ex mset_upt)

lemma restore_tree_ledger:
  assumes "restore_committed_tree B l rb s = Some (rb', l', s')"
  shows "same_config l l' \<and> tree l' = tree l \<and> trace l' = trace l \<and> live_matches l'
    \<and> settled_handles [] s l' s'
    \<and> (\<exists>more. rb' = rb @ more \<and> leaves (reported s') = leaves (reported s) + leaves more)
    \<and> length (reported s) \<le> length (reported s')"
proof -
  obtain cx s1 where cx: "detached_context (l\<lparr>live := []\<rparr>) s = Some (cx, s1)"
    using assms by (auto simp: restore_committed_tree_def Let_def bind_eq_Some_conv)
  then obtain r s2 where "restore_committed B (l\<lparr>live := []\<rparr>) cx s1 = Some (r, s2)"
    using assms by (auto simp: restore_committed_tree_def Let_def bind_eq_Some_conv)
  then have r: "restore_committed B (l\<lparr>live := []\<rparr>) cx s1 = Some (r, s')"
    using assms cx by (cases r) (simp_all add: restore_committed_tree_def Let_def)
  note outcome = restore_committed_ledger [OF r] and q = detached_context_quiet [OF cx]
  show ?thesis
  proof (cases r)
    case (Inl err)
    then show ?thesis
      using assms cx r outcome q
      by (auto simp: restore_committed_tree_def Let_def same_config_def live_matches_def settled_handles_def
          quiet_def collect_rollback_leaves)
  next
    case (Inr lvs)
    then have "leaves (reported s') = leaves (reported s1)" "length (reported s') = length (reported s1)"
      using outcome mset_eq_length by (auto simp: leaves_sum)
    then show ?thesis
      using assms cx r outcome q Inr
      by (auto simp: restore_committed_tree_def Let_def same_config_def live_matches_def settled_handles_def quiet_def)
  qed
qed

lemma abort_replace_ledger:
  assumes "abort_replace B l candidate failure s = Some (r, l', s')"
  shows "\<exists>err. r = Inl err \<and> same_config l l' \<and> tree l' = tree l
    \<and> trace l' = trace l @ [plain_event ConfigRolledBack (Some (loader_error_display err))]
    \<and> live_matches l' \<and> settled_handles (numbers candidate) s l' s'
    \<and> leaves (reported s') + mset (loader_leaves failure) = leaves (reported s) + mset (loader_leaves err)
    \<and> length (reported s) \<le> length (reported s')"
proof -
  obtain rb s1 where rb: "dispose_all B candidate s = Some (rb, s1)"
    using assms by (auto simp: abort_replace_def bind_eq_Some_conv)
  then obtain rb' l1 where res: "restore_committed_tree B l rb s1 = Some (rb', l1, s')"
    using assms by (auto simp: abort_replace_def Let_def bind_eq_Some_conv)
  have out: "r = Inl (le_transaction failure rb')"
      "l' = rolled_back (loader_error_display (le_transaction failure rb')) l1"
    using assms rb res by (simp_all add: abort_replace_def Let_def)
  note d = dispose_all_ledger [OF rb] and t = restore_tree_ledger [OF res]
  obtain more where more: "rb' = rb @ more" "leaves (reported s') = leaves (reported s1) + leaves more"
    using t by blast
  have "settled_handles (numbers candidate) s l' s'"
    using d t out(2) by (auto simp: settled_handles_def disposed_def rolled_back_def)
  moreover have "length (reported s) \<le> length (reported s')"
    using d t by (simp add: disposed_def)
  ultimately show ?thesis
    using d t out more
    by (auto simp: disposed_def same_config_def live_matches_def rolled_back_def)
qed

text \<open>The three ways \<open>replace\<close> ends: rejected, committed, rolled back.\<close>

definition replaced ::
  "'h loader \<Rightarrow> entry_tree \<Rightarrow> 'w system \<Rightarrow> 'h loader \<Rightarrow> 'w system \<Rightarrow> bool" where
  "replaced l t s l' s' \<longleftrightarrow>
    same_config l l' \<and> validate_tree t = Inr () \<and> tree l' = t
    \<and> map lv_entry (live l') = active_entries t
    \<and> trace l' = trace l @ [plain_event ConfigCommitted None]
    \<and> created s \<le> created s' \<and> mset (numbers (live l')) = mset [created s..<created s']
    \<and> disposals s' = disposals s @ rev (numbers (live l))
    \<and> mset (reported s') = mset (reported s)"

definition rolled ::
  "'h loader \<Rightarrow> 'w system \<Rightarrow> loader_error \<Rightarrow> 'h loader \<Rightarrow> 'w system \<Rightarrow> bool" where
  "rolled l s err l' s' \<longleftrightarrow>
    same_config l l' \<and> tree l' = tree l
    \<and> trace l' = trace l @ [plain_event ConfigRolledBack (Some (loader_error_display err))]
    \<and> (live l' = live l \<and> loader_context l' = loader_context l \<or> live_matches l')
    \<and> settled_handles (numbers (live l)) s l' s'
    \<and> length (reported s) < length (reported s')
    \<and> leaves (reported s') = leaves (reported s) + mset (loader_leaves err)"

lemma replace_cases:
  assumes "replace B l t s = Some (r, l', s')"
  obtains (rejected) err where "validate_tree t = Inl err" "r = Inl err" "l' = l" "s' = s"
  | (replaced) "r = Inr ()" "replaced l t s l' s'"
  | (rolled) err where "validate_tree t = Inr ()" "r = Inl err" "rolled l s err l' s'"
proof (cases "validate_tree t")
  case (Inl err)
  then have "r = Inl err" "l' = l" "s' = s" using assms by (simp_all add: replace_def)
  then show ?thesis by (rule that(1) [OF Inl])
next
  case (Inr u)
  obtain cx s1 where cx: "detached_context l s = Some (cx, s1)"
    using assms Inr by (auto simp: replace_def bind_eq_Some_conv)
  obtain q s2 where imp: "import_candidates B l t cx s1 = Some (q, s2)"
    using assms Inr cx by (auto simp: replace_def bind_eq_Some_conv)
  note quiet = detached_context_quiet [OF cx] and outcome = import_candidates_ledger [OF imp]
  show ?thesis
  proof (cases q)
    case (Inl err)
    then have "rolled l s err l' s'" "r = Inl err"
      using assms Inr cx imp quiet outcome
      by (auto simp: replace_def rolled_def rolled_back_def same_config_def settled_handles_def quiet_def)
    then show ?thesis using that(3) Inr by simp
  next
    case cand: (Inr cand)
    obtain rem s3 where rem: "dispose_all B (live l) s2 = Some (rem, s3)"
      using assms Inr cx imp cand by (auto simp: replace_def bind_eq_Some_conv)
    note d = dispose_all_ledger [OF rem]
    have known: "mset (reported s3) = mset (reported s) + mset rem"
      using outcome cand d quiet by (simp add: disposed_def quiet_def)
    show ?thesis
    proof (cases "rem = []")
      case False
      then have "abort_replace B l cand (le_aggregate rem) s3 = Some (r, l', s')"
        using assms Inr cx imp cand rem by (simp add: replace_def)
      note a = abort_replace_ledger [OF this]
      have "0 < length rem" and "length (reported s3) \<le> length (reported s')" using False a by auto
      then have some: "length (reported s) < length (reported s')"
        using length_reported [OF known] by linarith
      have "\<exists>err. r = Inl err \<and> rolled l s err l' s'"
        using a outcome cand d quiet some False known leaves_reported [OF known] length_reported [OF known]
        by (auto simp: rolled_def settled_handles_def disposed_def quiet_def new_handles_join ac_simps)
      then show ?thesis using that(3) Inr by auto
    next
      case True
      obtain st s4 where st: "activate_all B cand s3 = Some (st, s4)"
        using assms Inr cx imp cand rem True by (auto simp: replace_def Let_def bind_eq_Some_conv)
      note act = activate_all_ledger [OF st]
      have known': "mset (reported s4) = mset (reported s) + mset (result_errors st)"
        using known True act by simp
      show ?thesis
      proof (cases "result_errors st = []")
        case False
        moreover have "list_ex isl (map Inl es)" if "es \<noteq> []" for es :: "loader_error list"
          using that by (cases es) simp_all
        ultimately have "list_ex isl st" using act by metis
        then have "abort_replace B (l\<lparr>live := []\<rparr>) cand (le_aggregate (result_errors st)) s4 = Some (r, l', s')"
          using assms Inr cx imp cand rem True st by (simp add: replace_def Let_def)
        note a = abort_replace_ledger [OF this]
        have "0 < length (result_errors st)" and "length (reported s4) \<le> length (reported s')" using False a by auto
        then have some: "length (reported s) < length (reported s')"
          using length_reported [OF known'] by linarith
        have "\<exists>err. r = Inl err \<and> rolled l s err l' s'"
          using a outcome cand d quiet some False True act leaves_reported [OF known'] length_reported [OF known']
          by (auto simp: rolled_def same_config_def settled_handles_def disposed_def quiet_def new_handles_join ac_simps)
        then show ?thesis using that(3) Inr by auto
      next
        case none: True
        then have "st = []" using act by simp
        then have "r = Inr ()" "l' = trace_committed (l\<lparr>live := cand, tree := t, loader_context := cx\<rparr>)" "s' = s4"
          using assms Inr cx imp cand rem True st by (simp_all add: replace_def Let_def)
        moreover have "replaced l t s l' s'"
          using calculation outcome cand d quiet act none True Inr
          by (simp add: replaced_def same_config_def trace_committed_def disposed_def quiet_def)
        ultimately show ?thesis using that(2) by simp
      qed
    qed
  qed
qed

end
