(* ===== verification/LoaderProps.thy ===== *)
theory LoaderProps
  imports LoaderInv
begin

section \<open>Loader transactions: sessions, progress and properties\<close>

text \<open>
  A session is any sequence of the operations of one loader, on any boundary. The first part
  is its invariant, the second the condition under which the operations return, the third the
  properties of loader.rs's transactions.
\<close>

subsection \<open>Sessions\<close>

datatype loader_op = OpLoad entry_tree | OpUpdate "patch list" | OpReplace entry_tree | OpUnload

fun loader_call ::
  "('w, 'h) boundary \<Rightarrow> loader_op \<Rightarrow> 'h loader \<Rightarrow> 'w system \<Rightarrow>
    ((loader_error + unit) \<times> 'h loader \<times> 'w system) option" where
  "loader_call B (OpLoad t) l s = load B l t s"
| "loader_call B (OpUpdate ps) l s = update B l ps s"
| "loader_call B (OpReplace t) l s = replace B l t s"
| "loader_call B OpUnload l s = unload B l s"

definition loader_exec ::
  "('w, 'h) boundary \<Rightarrow> loader_op \<Rightarrow> 'h loader \<times> 'w system \<Rightarrow> ('h loader \<times> 'w system) option" where
  "loader_exec B op ls = map_option snd (loader_call B op (fst ls) (snd ls))"

definition loader_start :: "'h loader \<times> 'w system \<Rightarrow> bool" where
  "loader_start ls \<longleftrightarrow> (case ls of (l, s) \<Rightarrow>
    tree l = default_tree \<and> live l = [] \<and> trace l = []
    \<and> created s = 0 \<and> disposals s = [] \<and> reported s = [])"

abbreviation loader_reach :: "('w, 'h) boundary \<Rightarrow> 'h loader \<times> 'w system \<Rightarrow> bool" where
  "loader_reach B \<equiv> reach loader_start (exec_rel (loader_exec B))"

text \<open>The live entries are those of the committed tree, and no handle is lost.\<close>

definition session_inv :: "'h loader \<times> 'w system \<Rightarrow> bool" where
  "session_inv ls \<longleftrightarrow> (case ls of (l, s) \<Rightarrow>
    validate_tree (tree l) = Inr () \<and> live_matches l
    \<and> {..<created s} = set (numbers (live l)) \<union> set (disposals s))"

lemma default_tree_valid: "validate_tree default_tree = Inr ()"
  by (simp add: validate_tree_def default_tree_def)

lemma default_tree_active: "active_entries default_tree = []"
  by (simp add: active_entries_def default_tree_def)

lemma settled_handles_set:
  "settled_handles ns s l' s' \<Longrightarrow>
    created s \<le> created s' \<and>
    set (numbers (live l')) \<union> set (disposals s') = set (disposals s) \<union> set ns \<union> {created s..<created s'}"
  unfolding settled_handles_def
  by (metis set_mset_mset set_mset_union set_upt sup_assoc)

lemma upto_split: "a \<le> b \<Longrightarrow> {..<b} = {..<a} \<union> {a..<b}" for a b :: nat
  by auto

lemma replace_session:
  assumes "replace B l t s = Some (r, l', s')" and "session_inv (l, s)"
  shows "session_inv (l', s')"
  using assms(1)
proof (cases rule: replace_cases)
  case (rejected err)
  then show ?thesis using assms(2) by simp
next
  case replaced
  have all: "{..<created s'} = {..<created s} \<union> {created s..<created s'}"
    using replaced(2) by (intro upto_split) (simp add: replaced_def)
  have old: "{..<created s} = set (numbers (live l)) \<union> set (disposals s)"
    using assms(2) by (simp add: session_inv_def)
  have new: "{created s..<created s'} = set (numbers (live l'))"
    using replaced(2) unfolding replaced_def by (metis set_mset_mset set_upt)
  have gone: "set (disposals s') = set (disposals s) \<union> set (numbers (live l))"
    using replaced(2) by (simp add: replaced_def)
  have "{..<created s'} = set (numbers (live l')) \<union> set (disposals s')"
    unfolding all gone unfolding old new by (simp only: Un_ac)
  then show ?thesis
    using replaced(2) by (simp add: replaced_def session_inv_def live_matches_def)
next
  case (rolled err)
  have all: "{..<created s'} = {..<created s} \<union> {created s..<created s'}"
    using rolled(3) by (intro upto_split) (simp add: rolled_def settled_handles_def)
  have old: "{..<created s} = set (disposals s) \<union> set (numbers (live l))"
    using assms(2) by (simp add: session_inv_def Un_commute)
  have "settled_handles (numbers (live l)) s l' s'"
    using rolled(3) by (simp add: rolled_def)
  then have "{..<created s'} = set (numbers (live l')) \<union> set (disposals s')"
    unfolding all old by (metis settled_handles_set)
  moreover have "live_matches l'" "tree l' = tree l"
    using rolled(3) assms(2) by (auto simp: rolled_def session_inv_def live_matches_def)
  ultimately show ?thesis
    using assms(2) by (simp add: session_inv_def)
qed

lemma unload_cases:
  assumes "unload B l s = Some (r, l', s')"
  shows "\<exists>es. disposed (rev (numbers (live l))) es s s'
    \<and> (if es = [] then r = Inr () \<and> l' = l\<lparr>live := [], tree := default_tree\<rparr>
       else r = Inl (le_aggregate es) \<and> l' = l)"
proof -
  obtain es where "dispose_all B (live l) s = Some (es, s')"
    using assms by (auto simp: unload_def bind_eq_Some_conv split: if_splits)
  then show ?thesis
    using assms dispose_all_ledger by (fastforce simp: unload_def split: if_splits)
qed

lemma unload_session:
  "unload B l s = Some (r, l', s') \<Longrightarrow> session_inv (l, s) \<Longrightarrow> session_inv (l', s')"
  by (drule unload_cases)
    (auto simp: session_inv_def disposed_def default_tree_valid live_matches_def split: if_splits)

interpretation session: transition_invariant loader_start "exec_rel (loader_exec B)" session_inv for B
proof unfold_locales
  show "loader_start ls \<Longrightarrow> session_inv ls" for ls
    by (auto simp: loader_start_def session_inv_def live_matches_def default_tree_valid)
next
  fix B :: "('w, 'h) boundary" and ls op ls'
  assume inv: "session_inv ls" and step: "exec_rel (loader_exec B) ls op ls'"
  obtain l s l' s' where ls: "ls = (l, s)" "ls' = (l', s')" by fastforce
  obtain r where "loader_call B op l s = Some (r, l', s')"
    using step ls by (auto simp: exec_rel_def loader_exec_def)
  then show "session_inv ls'"
    using inv ls
    by (cases op)
      (auto simp: load_def update_def split: if_splits sum.splits dest: replace_session unload_session)
qed

subsection \<open>Progress\<close>

text \<open>
  A boundary whose futures end: a pending poll needs a positive \<open>delay\<close>, which the time between
  polls uses up, and every creation of a scope is covered by \<open>room\<close>, the number of scopes the
  run may still create.
\<close>

definition keeps_room ::
  "(nat \<Rightarrow> 'w outside \<Rightarrow> bool) \<Rightarrow> ('w outside \<Rightarrow> 'a \<times> 'w outside) \<Rightarrow> bool" where
  "keeps_room room g \<longleftrightarrow> (\<forall>k out. room k out \<longrightarrow> room k (snd (g out)))"

definition prompt ::
  "('w outside \<Rightarrow> nat) \<Rightarrow> (nat \<Rightarrow> 'w outside \<Rightarrow> bool) \<Rightarrow>
    ('w outside \<Rightarrow> 'a option \<times> 'w outside) \<Rightarrow> bool" where
  "prompt delay room g \<longleftrightarrow> keeps_room room g \<and>
    (\<forall>k out. room k out \<and> fst (g out) = None \<longrightarrow> delay (snd (g out)) \<le> delay out \<and> 0 < delay out)"

definition responsive ::
  "('w, 'h) boundary \<Rightarrow> ('w outside \<Rightarrow> nat) \<Rightarrow> (nat \<Rightarrow> 'w outside \<Rightarrow> bool) \<Rightarrow> bool" where
  "responsive B delay room \<longleftrightarrow>
    (\<forall>p k. keeps_room room (start_resolve B p k))
    \<and> (\<forall>f. prompt delay room (poll_resolve B f))
    \<and> (\<forall>rt p e cx sc. keeps_room room (start_instantiate B rt p e cx sc))
    \<and> (\<forall>f. prompt delay room (poll_instantiate B f))
    \<and> (\<forall>h. keeps_room room (start_activation B h))
    \<and> (\<forall>f. prompt delay room (poll_activation B f))
    \<and> (\<forall>h. keeps_room room (start_dispose B h))
    \<and> (\<forall>f. prompt delay room (poll_disposal B f))
    \<and> (\<forall>k out. room k out \<longrightarrow> room k (between_polls B out) \<and> delay (between_polls B out) \<le> delay out - 1)
    \<and> (\<forall>k m w. room (Suc k) (m, w) \<longrightarrow> (\<exists>i m'. scope_new m = Some (i, m') \<and> room k (m', w)))"

fun import_weight :: "import_stage \<Rightarrow> nat" where
  "import_weight (Importing e) = 3"
| "import_weight (Resolving e f) = 2"
| "import_weight (Instantiating e f) = 1"

locale responsive_boundary =
  fixes B :: "('w, 'h) boundary" and delay :: "'w outside \<Rightarrow> nat" and room :: "nat \<Rightarrow> 'w outside \<Rightarrow> bool"
  assumes responsive: "responsive B delay room"
begin

lemma started:
  "keeps_room room g \<Longrightarrow> on_outside g s = (x, s') \<Longrightarrow> room k (outside s) \<Longrightarrow> room k (outside s')"
  unfolding keeps_room_def on_outside_def by (cases "g (outside s)") (use snd_conv in fastforce)

lemma polled:
  "prompt delay room g \<Longrightarrow> on_outside g s = (x, s') \<Longrightarrow> room k (outside s) \<Longrightarrow>
    room k (outside s') \<and> (x = None \<longrightarrow> delay (outside s') \<le> delay (outside s) \<and> 0 < delay (outside s))"
  unfolding prompt_def keeps_room_def on_outside_def
  by (cases "g (outside s)") (use fst_conv snd_conv in fastforce)

lemma boundary_parts:
  "keeps_room room (start_resolve B p k)" "prompt delay room (poll_resolve B f)"
  "keeps_room room (start_instantiate B rt pkg e cx sc)" "prompt delay room (poll_instantiate B f)"
  "keeps_room room (start_activation B h)" "prompt delay room (poll_activation B f)"
  "keeps_room room (start_dispose B h)" "prompt delay room (poll_disposal B f)"
  using responsive by (simp_all add: responsive_def)

lemma idling_room:
  "room k (outside s) \<Longrightarrow>
    room k (outside (idling B s)) \<and> delay (outside (idling B s)) \<le> delay (outside s) - 1"
  using responsive by (cases "outside s") (simp add: responsive_def idling_def)

lemma instantiating_progress:
  assumes "instantiating B e f s = (q, s')" and "room k (outside s)"
  shows "room k (outside s') \<and> (\<forall>st. q = Inl st \<longrightarrow>
    import_weight st = 1 \<and> delay (outside s') \<le> delay (outside s) \<and> 0 < delay (outside s))"
proof -
  obtain x s1 where x: "on_outside (poll_instantiate B f) s = (x, s1)" by fastforce
  show ?thesis
    using assms x polled [OF boundary_parts(4) x assms(2)]
    by (auto simp: instantiating_def import_failed_def split: option.splits sum.splits)
qed

lemma resolved_progress:
  assumes "resolved B rts scope cx e pkg s = (q, s')" and "room k (outside s)"
  shows "room k (outside s') \<and> (\<forall>st. q = Inl st \<longrightarrow> import_weight st = 1)"
proof (cases "bt_get rts (eo_runtime (options e))")
  case None
  then show ?thesis using assms by (auto simp: resolved_def import_failed_def)
next
  case (Some rt)
  obtain x s1 where x: "on_outside (start_instantiate B rt pkg e cx scope) s = (x, s1)" by fastforce
  have "room k (outside s1)" by (rule started [OF boundary_parts(3) x assms(2)])
  then show ?thesis
    using assms(1) Some x instantiating_progress
    by (cases x) (auto simp: resolved_def import_failed_def)
qed

lemma resolving_progress:
  assumes "resolving B rts scope cx e f s = (q, s')" and "room k (outside s)"
  shows "room k (outside s') \<and> (\<forall>st. q = Inl st \<longrightarrow>
    import_weight st = 1 \<or>
    import_weight st = 2 \<and> delay (outside s') \<le> delay (outside s) \<and> 0 < delay (outside s))"
proof -
  obtain x s1 where x: "on_outside (poll_resolve B f) s = (x, s1)" by fastforce
  note p = polled [OF boundary_parts(2) x assms(2)]
  show ?thesis
  proof (cases x)
    case None
    then show ?thesis using assms(1) x p by (auto simp: resolving_def)
  next
    case (Some r)
    then show ?thesis
      using assms(1) x p resolved_progress
      by (cases r) (fastforce simp: resolving_def import_failed_def)+
  qed
qed

lemma import_entry_progress:
  assumes "import_entry B rts scope cx st s = (q, s')" and "room k (outside s)"
  shows "room k (outside s') \<and> (\<forall>st'. q = Inl st' \<longrightarrow>
    import_weight st' < import_weight st \<or>
    import_weight st' = import_weight st \<and> delay (outside s') \<le> delay (outside s) \<and> 0 < delay (outside s))"
proof (cases st)
  case (Importing e)
  obtain f s1 where f: "on_outside (start_resolve B (package e) (eo_runtime (options e))) s = (f, s1)"
    by fastforce
  have "room k (outside s1)" by (rule started [OF boundary_parts(1) f assms(2)])
  then show ?thesis
    using assms(1) Importing f resolving_progress by fastforce
next
  case (Resolving e f)
  then show ?thesis using assms resolving_progress by fastforce
next
  case (Instantiating e f)
  then show ?thesis using assms instantiating_progress by fastforce
qed

sublocale importing: settle_progress "import_entry B rts scope cx" "idling B" import_weight
  "\<lambda>s. delay (outside s)" "\<lambda>s. room k (outside s)" for rts scope cx k
proof unfold_locales
  show "0 < import_weight st" for st by (cases st) simp_all
qed (use import_entry_progress idling_room in \<open>blast+\<close>)

lemma disposing_progress:
  assumes "disposing B f s = (q, s')" and "room k (outside s)"
  shows "room k (outside s') \<and>
    (\<forall>f'. q = Inl f' \<longrightarrow> delay (outside s') \<le> delay (outside s) \<and> 0 < delay (outside s))"
proof -
  obtain x s1 where x: "on_outside (poll_disposal B f) s = (x, s1)" by fastforce
  show ?thesis
    using assms x polled [OF boundary_parts(8) x assms(2)]
    by (auto simp: disposing_def split: option.splits)
qed

sublocale disposal: settle_progress "disposing B" "idling B" "\<lambda>_. 1"
  "\<lambda>s. delay (outside s)" "\<lambda>s. room k (outside s)" for k
  by unfold_locales (use disposing_progress idling_room in \<open>(simp, blast?)+\<close>)

lemma activating_progress:
  assumes "activating B f s = (q, s')" and "room k (outside s)"
  shows "room k (outside s') \<and>
    (\<forall>f'. q = Inl f' \<longrightarrow> delay (outside s') \<le> delay (outside s) \<and> 0 < delay (outside s))"
proof -
  obtain x s1 where x: "on_outside (poll_activation B f) s = (x, s1)" by fastforce
  show ?thesis
    using assms x polled [OF boundary_parts(6) x assms(2)]
    by (auto simp: activating_def split: option.splits)
qed

sublocale activation: settle_progress "activating B" "idling B" "\<lambda>_. 1"
  "\<lambda>s. delay (outside s)" "\<lambda>s. room k (outside s)" for k
  by unfold_locales (use activating_progress idling_room in \<open>(simp, blast?)+\<close>)

lemma dispose_one_total:
  "room k (outside s) \<Longrightarrow> \<exists>es s'. dispose_one B lv s = Some (es, s') \<and> room k (outside s')"
proof -
  assume room: "room k (outside s)"
  let ?s = "s\<lparr>disposals := disposals s @ [lv_number lv]\<rparr>"
  obtain f s1 where f: "on_outside (start_dispose B (lv_handle lv)) ?s = (f, s1)" by fastforce
  have "room k (outside s1)"
    by (rule started [OF boundary_parts(7) f]) (simp add: room)
  then obtain r s2 where "await (disposing B) (idling B) f s1 = Some (r, s2)" "room k (outside s2)"
    using disposal.await_total by blast
  then show ?thesis
    using f by (cases r) (auto simp: dispose_one_def Let_def)
qed

lemma dispose_each_total:
  "room k (outside s) \<Longrightarrow> \<exists>es s'. dispose_each B lvs errors s = Some (es, s') \<and> room k (outside s')"
proof (induction lvs arbitrary: errors s)
  case Nil
  then show ?case by simp
next
  case (Cons lv lvs)
  then obtain es s1 where "dispose_one B lv s = Some (es, s1)" "room k (outside s1)"
    using dispose_one_total by blast
  then show ?case using Cons.IH by simp
qed

lemma dispose_all_total:
  "room k (outside s) \<Longrightarrow> \<exists>es s'. dispose_all B lvs s = Some (es, s') \<and> room k (outside s')"
  unfolding dispose_all_def by (rule dispose_each_total)

lemma start_activations_room:
  "start_activations B lvs P s = (fs, s') \<Longrightarrow> room k (outside s) \<Longrightarrow> room k (outside s')"
proof (induction lvs arbitrary: fs s)
  case Nil
  then show ?case by simp
next
  case (Cons ilv lvs)
  then show ?case
    using started [OF boundary_parts(5)]
    by (cases ilv) (fastforce split: if_splits prod.splits)
qed

lemma activate_loop_total:
  "room k (outside s) \<Longrightarrow> \<exists>es s'. activate_loop B lvs pending s = Some (es, s') \<and> room k (outside s')"
proof (induction "length pending" arbitrary: pending s rule: less_induct)
  case less
  show ?case
  proof (cases "pending = []")
    case True
    then show ?thesis using less.prems by simp
  next
    case False
    obtain fs s1 where fs: "start_activations B (enumerate 0 lvs) (set pending) s = (fs, s1)" by fastforce
    obtain rs s2 where "all_settle (activating B) (idling B) fs s1 = Some (rs, s2)" "room k (outside s2)"
      using activation.all_settle_total [OF start_activations_room [OF fs less.prems]] by blast
    then have rs: "activate_round B lvs pending s = Some (rs, s2)" "room k (outside s2)"
      using fs by (simp_all add: activate_round_def)
    obtain later progressed es where t: "tally (zip pending rs) = (later, progressed, es)"
      by (cases "tally (zip pending rs)")
    show ?thesis
    proof (cases "es \<noteq> [] \<or> \<not> progressed")
      case True
      then show ?thesis using False rs t by (simp add: activate_loop.simps [of B lvs pending s])
    next
      case again: False
      then have "length later < length pending" using tally_length [OF t] by auto
      then show ?thesis
        using less.hyps [OF _ rs(2)] again False rs(1) t
        by (simp add: activate_loop.simps [of B lvs pending s])
    qed
  qed
qed

lemma activate_all_total:
  "room k (outside s) \<Longrightarrow> \<exists>es s'. activate_all B lvs s = Some (es, s') \<and> room k (outside s')"
  using activate_loop_total [of k s lvs "[0..<length lvs]"] by (auto simp: activate_all_def)

lemma import_candidates_total:
  assumes "room k (outside s)"
  shows "\<exists>r s'. import_candidates B l t cx s = Some (r, s') \<and> room k (outside s')"
proof -
  obtain rs s1 where "all_settle (import_entry B (runtimes l) (loader_scope l) cx) (idling B)
      (map Importing (active_entries t)) s = Some (rs, s1)" "room k (outside s1)"
    using importing.all_settle_total [OF assms] by blast
  then show ?thesis
    using dispose_all_total [of k s1 "result_values rs"]
    by (cases "result_errors rs = []") (auto simp: import_candidates_def Let_def)
qed

lemma restore_committed_total:
  assumes "room k (outside s)"
  shows "\<exists>r s'. restore_committed B l cx s = Some (r, s') \<and> room k (outside s')"
proof -
  obtain r s1 where r: "import_candidates B l (tree l) cx s = Some (r, s1)" "room k (outside s1)"
    using import_candidates_total [OF assms] by blast
  show ?thesis
  proof (cases r)
    case (Inl err)
    then show ?thesis using r by (simp add: restore_committed_def)
  next
    case (Inr lvs)
    obtain es s2 where es: "activate_all B lvs s1 = Some (es, s2)" "room k (outside s2)"
      using activate_all_total [OF r(2)] by blast
    then show ?thesis
      using r Inr dispose_all_total [OF es(2), of lvs]
      by (cases "es = []") (auto simp: restore_committed_def)
  qed
qed

lemma detached_context_total:
  "room (Suc k) (outside s) \<Longrightarrow> \<exists>cx s'. detached_context l s = Some (cx, s') \<and> room k (outside s')"
  using responsive by (cases "outside s") (fastforce simp: responsive_def detached_context_def)

lemma abort_replace_total:
  assumes "room (Suc k) (outside s)"
  shows "\<exists>r l' s'. abort_replace B l cand failure s = Some (r, l', s')"
proof -
  obtain rb s1 where rb: "dispose_all B cand s = Some (rb, s1)" "room (Suc k) (outside s1)"
    using dispose_all_total [OF assms] by blast
  obtain cx s2 where cx: "detached_context (l\<lparr>live := []\<rparr>) s1 = Some (cx, s2)" "room k (outside s2)"
    using detached_context_total [OF rb(2)] by blast
  obtain r s3 where "restore_committed B (l\<lparr>live := []\<rparr>) cx s2 = Some (r, s3)"
    using restore_committed_total [OF cx(2)] by blast
  then show ?thesis
    using rb(1) cx(1)
    by (cases r) (simp_all add: abort_replace_def restore_committed_tree_def Let_def)
qed

lemma replace_total:
  assumes "room (Suc (Suc k)) (outside s)"
  shows "\<exists>r l' s'. replace B l t s = Some (r, l', s')"
proof (cases "validate_tree t")
  case (Inl err)
  then show ?thesis by (simp add: replace_def)
next
  case ok: (Inr u)
  obtain cx s1 where cx: "detached_context l s = Some (cx, s1)" "room (Suc k) (outside s1)"
    using detached_context_total [OF assms] by blast
  obtain r s2 where r: "import_candidates B l t cx s1 = Some (r, s2)" "room (Suc k) (outside s2)"
    using import_candidates_total [OF cx(2)] by blast
  show ?thesis
  proof (cases r)
    case (Inl err)
    then show ?thesis using ok cx r by (simp add: replace_def)
  next
    case (Inr cand)
    obtain rem s3 where rem: "dispose_all B (live l) s2 = Some (rem, s3)" "room (Suc k) (outside s3)"
      using dispose_all_total [OF r(2)] by blast
    obtain st s4 where st: "activate_all B cand s3 = Some (st, s4)" "room (Suc k) (outside s4)"
      using activate_all_total [OF rem(2)] by blast
    show ?thesis
      using ok cx(1) r(1) rem(1) st(1) Inr abort_replace_total [OF rem(2)] abort_replace_total [OF st(2)]
      by (cases "rem = []"; cases "list_ex isl st") (simp_all add: replace_def Let_def)
  qed
qed

end

text \<open>
  A boundary that queues every request and answers it once \<open>latency\<close> turns have passed, whatever
  the answers are: it is responsive while scope identifiers are left.
\<close>

datatype request =
    AskPackage string runtime_kind | AskHandle resolved_package entry | AskActive string | AskDispose string

record answers =
  resolves :: "string \<Rightarrow> runtime_kind \<Rightarrow> loader_error + resolved_package"
  instantiates :: "resolved_package \<Rightarrow> entry \<Rightarrow> loader_error + string"
  activates :: "string \<Rightarrow> loader_error + activation_state"
  disposes :: "string \<Rightarrow> loader_error + unit"

type_synonym request_queue = "(request \<times> nat) list"

definition ask :: "nat \<Rightarrow> request \<Rightarrow> request_queue outside \<Rightarrow> nat \<times> request_queue outside" where
  "ask latency req out = (length (snd out), (fst out, snd out @ [(req, latency)]))"

definition answered ::
  "(request \<Rightarrow> 'a) \<Rightarrow> nat \<Rightarrow> request_queue outside \<Rightarrow> 'a option \<times> request_queue outside" where
  "answered answer f out =
    (if f < length (snd out) \<and> 0 < snd (snd out ! f) then (None, out)
     else (Some (answer (if f < length (snd out) then fst (snd out ! f) else AskDispose [])), out))"

definition queue_boundary :: "runtime_kind \<Rightarrow> nat \<Rightarrow> answers \<Rightarrow> (request_queue, string) boundary" where
  "queue_boundary kind latency a =
    \<lparr>kind_of = \<lambda>_. kind,
     start_resolve = \<lambda>p k. ask latency (AskPackage p k),
     poll_resolve = answered (\<lambda>req. case req of AskPackage p k \<Rightarrow> resolves a p k | _ \<Rightarrow> Inl (MissingEntry [])),
     start_instantiate = \<lambda>rt p e cx sc out. (case ask latency (AskHandle p e) out of (f, out') \<Rightarrow> (Inr f, out')),
     poll_instantiate = answered (\<lambda>req. case req of AskHandle p e \<Rightarrow> instantiates a p e | _ \<Rightarrow> Inl (MissingEntry [])),
     start_activation = \<lambda>h. ask latency (AskActive h),
     poll_activation = answered (\<lambda>req. case req of AskActive h \<Rightarrow> activates a h | _ \<Rightarrow> Inl (MissingEntry [])),
     start_dispose = \<lambda>h. ask latency (AskDispose h),
     poll_disposal = answered (\<lambda>req. case req of AskDispose h \<Rightarrow> disposes a h | _ \<Rightarrow> Inl (MissingEntry [])),
     between_polls = \<lambda>out. (fst out, map (\<lambda>(req, n). (req, n - 1)) (snd out))\<rparr>"

definition queue_delay :: "request_queue outside \<Rightarrow> nat" where
  "queue_delay out = foldr max (map snd (snd out)) 0"

definition scope_room :: "nat \<Rightarrow> 'w outside \<Rightarrow> bool" where
  "scope_room k out \<longleftrightarrow>
    unat (next_scope (fst out)) + k \<le> unat u64_max \<and> unat (next_generation (fst out)) + k \<le> unat u64_max"

lemma queue_delay_le: "queue_delay (m, q) \<le> d \<longleftrightarrow> (\<forall>rn\<in>set q. snd rn \<le> d)"
  by (induction q) (auto simp: queue_delay_def)

lemma queue_delay_nth: "f < length q \<Longrightarrow> snd (q ! f) \<le> queue_delay (m, q)"
  using queue_delay_le [of m q "queue_delay (m, q)"] by simp

lemma scope_room_new:
  assumes "scope_room (Suc k) (m, w)"
  shows "\<exists>i m'. scope_new m = Some (i, m') \<and> scope_room k (m', w)"
proof -
  have "next_scope m \<noteq> u64_max" "next_generation m \<noteq> u64_max"
    using assms by (auto simp: scope_room_def)
  moreover have "unat (x + 1) = unat x + 1" if "x \<noteq> u64_max" for x :: u64
  proof -
    have "x + 1 \<noteq> 0"
    proof
      assume "x + 1 = 0"
      then show False using next_id_less [OF that] by simp
    qed
    then show ?thesis using unatSuc [of x] by (simp add: add.commute)
  qed
  ultimately show ?thesis
    using assms by (auto simp: scope_new_def next_id_def scope_room_def)
qed

interpretation queue_progress: responsive_boundary "queue_boundary kind latency a" queue_delay scope_room
  for kind latency a
proof unfold_locales
  have prompt: "prompt queue_delay scope_room (answered g f)" for g :: "request \<Rightarrow> 'x" and f
    unfolding prompt_def keeps_room_def answered_def
    by (auto dest: queue_delay_nth intro: less_le_trans)
  have between: "queue_delay (m, map (\<lambda>(req, n). (req, n - 1)) q) \<le> queue_delay (m, q) - 1" for m q
    using queue_delay_le [of m q "queue_delay (m, q)"]
    by (fastforce simp: queue_delay_le intro: diff_le_mono)
  show "responsive (queue_boundary kind latency a) queue_delay scope_room"
    using between scope_room_new
    by (auto simp: responsive_def queue_boundary_def prompt keeps_room_def ask_def scope_room_def
        split: prod.splits)
qed

subsection \<open>Properties\<close>

text \<open>C12: \<open>replace\<close> is a transaction. When it succeeds the tree is the new, valid one, the live
  entries are exactly its active entries in order, the old handles were disposed in reverse
  order and one commit is traced. When it fails the committed tree is the old one: an invalid
  tree changes nothing, any other failure is traced as a rollback and leaves the old handles,
  the old tree imported and activated again, or, when that fails too, no handle.\<close>

theorem loader_replace_transaction:
  assumes "replace B l t s = Some (r, l', s')"
  shows "case r of
      Inr _ \<Rightarrow>
        validate_tree t = Inr () \<and> tree l' = t \<and> map lv_entry (live l') = active_entries t
        \<and> disposals s' = disposals s @ rev (map lv_number (live l))
        \<and> trace l' = trace l @ [plain_event ConfigCommitted None]
    | Inl err \<Rightarrow>
        tree l' = tree l
        \<and> (if isl (validate_tree t) then validate_tree t = Inl err \<and> l' = l \<and> s' = s
           else trace l' = trace l @ [plain_event ConfigRolledBack (Some (loader_error_display err))]
             \<and> (live l' = live l \<and> loader_context l' = loader_context l
                \<or> map lv_entry (live l') = active_entries (tree l) \<or> live l' = []))"
  using assms
  by (cases rule: replace_cases)
    (auto simp: replaced_def rolled_def live_matches_def)

text \<open>C13: No handle leaks and none is disposed twice: if every handle ever created was either live
  or disposed exactly once before \<open>replace\<close>, the same holds after it, on every branch.\<close>

theorem replace_disposes_each_handle_once:
  assumes "mset (map lv_number (live l)) + mset (disposals s) = mset [0..<created s]"
    and "replace B l t s = Some (r, l', s')"
  shows "mset (map lv_number (live l')) + mset (disposals s') = mset [0..<created s']"
  using assms(2)
proof (cases rule: replace_cases)
  case (rejected err)
  then show ?thesis using assms(1) by simp
next
  case replaced
  then have "created s \<le> created s'" by (simp add: replaced_def)
  then have "mset [0..<created s'] = mset [0..<created s] + mset [created s..<created s']"
    by (simp add: new_handles_join)
  then show ?thesis
    using replaced(2) assms(1) by (simp add: replaced_def ac_simps)
next
  case (rolled err)
  then have "created s \<le> created s'" by (simp add: rolled_def settled_handles_def)
  then have "mset [0..<created s'] = mset [0..<created s] + mset [created s..<created s']"
    by (simp add: new_handles_join)
  then show ?thesis
    using rolled(3) assms(1) by (simp add: rolled_def settled_handles_def ac_simps)
qed

text \<open>C14: In every state that a sequence of loads, updates, replacements and unloads reaches, the
  committed tree is valid, the live entries are its active entries or there are none, and
  every handle the runtimes ever created is live or had its disposal called.\<close>

theorem loader_session_sound:
  assumes "loader_reach B (l, s)"
  shows "validate_tree (tree l) = Inr ()
    \<and> (live l = [] \<or> map lv_entry (live l) = active_entries (tree l))
    \<and> {..<created s} = set (map lv_number (live l)) \<union> set (disposals s)"
  using session.inv_reach [OF assms] by (simp add: session_inv_def live_matches_def)

text \<open>C15: \<open>replace\<close> loses and invents no error: it succeeds exactly when no import, disposal or
  activation of the transaction and of its restoration reported one, and otherwise the single
  failures inside the error it returns are, with multiplicity, those that were reported; an
  invalid tree is its validation error.\<close>

theorem replace_reports_every_error:
  assumes "replace B l t s = Some (r, l', s')"
  shows "case r of
      Inr _ \<Rightarrow> mset (reported s') = mset (reported s)
    | Inl err \<Rightarrow>
        if isl (validate_tree t) then validate_tree t = Inl err \<and> reported s' = reported s
        else length (reported s) < length (reported s')
          \<and> mset (concat (map loader_leaves (reported s'))) =
              mset (concat (map loader_leaves (reported s))) + mset (loader_leaves err)"
  using assms
  by (cases rule: replace_cases) (auto simp: replaced_def rolled_def leaves_def)

text \<open>C16: \<open>replace\<close> returns: if every pending future needs a delay that the time between two polls
  uses up, and identifiers for two scopes are left, the transaction and its rollback end. The
  activation rounds end by themselves, since a round that activates nothing stops them.\<close>

theorem replace_returns:
  assumes "responsive B delay room" and "room 2 (outside s)"
  shows "replace B l t s \<noteq> None"
  using responsive_boundary.replace_total [OF responsive_boundary.intro [OF assms(1)], of 0 s l t] assms(2)
  by (auto simp: numeral_2_eq_2)

subsection \<open>Witnesses\<close>

definition sample_answers :: answers where
  "sample_answers =
    \<lparr>resolves = \<lambda>p k. Inr \<lparr>specifier = p, location = ''/plugins/'' @ p\<rparr>,
     instantiates = \<lambda>p e. Inr (entry_id_of e),
     activates = \<lambda>h. if h = ''b'' then Inl (MissingEntry h) else Inr RtActive,
     disposes = \<lambda>h. if h = ''c'' then Inl (MissingEntry h) else Inr ()\<rparr>"

abbreviation sample_boundary :: "(request_queue, string) boundary" where
  "sample_boundary \<equiv> queue_boundary Native 1 sample_answers"

definition sample_loader :: "string loader" where
  "sample_loader = \<lparr>runtimes = [(Native, 0)], tree = default_tree, live = [], loader_context = context_root 0,
     loader_scope = default_config_scope ''linux'' ''x86_64'', trace = []\<rparr>"

definition sample_system :: "request_queue system" where
  "sample_system = \<lparr>outside = (lifecycle_new, []), created = 0, disposals = [], reported = []\<rparr>"

definition plain_tree :: "string list \<Rightarrow> entry_tree" where
  "plain_tree ids = \<lparr>tree_entries = map sample_entry ids, tree_groups = []\<rparr>"

definition sample_session :: "(string loader \<times> request_queue system) option" where
  "sample_session = exec_run (loader_exec sample_boundary)
    [OpLoad (plain_tree [''a'', ''d'']), OpReplace (plain_tree [''d'', ''b'']), OpUpdate [], OpUnload]
    (sample_loader, sample_system)"

lemma loader_sample_runs:
  "\<not> Option.is_none sample_session"
  "\<not> Option.is_none (replace sample_boundary sample_loader (plain_tree [''a'', ''d'']) sample_system)"
  "\<not> Option.is_none (replace sample_boundary sample_loader (plain_tree [''a'', ''b'']) sample_system)"
  by code_simp+

lemma sample_results:
  "\<not> isl (fst (the (replace sample_boundary sample_loader (plain_tree [''a'', ''d'']) sample_system)))"
  "isl (fst (the (replace sample_boundary sample_loader (plain_tree [''a'', ''b'']) sample_system)))"
  by code_simp+

lemma sample_ledger:
  "mset (map lv_number (live sample_loader)) + mset (disposals sample_system) = mset [0..<created sample_system]"
  by (simp add: sample_loader_def sample_system_def)

lemma sample_trees_valid:
  "validate_tree (plain_tree [''a'', ''d'']) = Inr ()" "validate_tree (plain_tree [''a'', ''b'']) = Inr ()"
  by code_simp+

theorem loader_replace_transaction_witness:
  "\<exists>l' s'. replace sample_boundary sample_loader (plain_tree [''a'', ''d'']) sample_system = Some (Inr (), l', s')
    \<and> map lv_entry (live l') = active_entries (plain_tree [''a'', ''d''])
    \<and> trace l' = [plain_event ConfigCommitted None]"
proof -
  obtain r l' s' where run: "replace sample_boundary sample_loader (plain_tree [''a'', ''d'']) sample_system = Some (r, l', s')"
    using loader_sample_runs(2) by (auto simp: Option.is_none_def)
  moreover have "r = Inr ()"
    using sample_results(1) run by (cases r) simp_all
  ultimately show ?thesis
    using loader_replace_transaction [OF run] by (simp add: sample_loader_def)
qed

theorem replace_disposes_each_handle_once_witness:
  "\<exists>err l' s'. replace sample_boundary sample_loader (plain_tree [''a'', ''b'']) sample_system = Some (Inl err, l', s')
    \<and> mset (map lv_number (live l')) + mset (disposals s') = mset [0..<created s']"
proof -
  obtain r l' s' where run: "replace sample_boundary sample_loader (plain_tree [''a'', ''b'']) sample_system = Some (r, l', s')"
    using loader_sample_runs(3) by (auto simp: Option.is_none_def)
  moreover obtain err where "r = Inl err"
    using sample_results(2) run by (cases r) simp_all
  ultimately show ?thesis
    using replace_disposes_each_handle_once [OF sample_ledger run] by blast
qed

theorem loader_session_sound_witness:
  "\<exists>l s. sample_session = Some (l, s) \<and> validate_tree (tree l) = Inr ()
    \<and> {..<created s} = set (map lv_number (live l)) \<union> set (disposals s)"
proof -
  obtain l s where run: "sample_session = Some (l, s)"
    using loader_sample_runs(1) by (auto simp: Option.is_none_def)
  then have "loader_reach sample_boundary (l, s)"
    unfolding sample_session_def
    by (rule exec_run_reach) (simp add: loader_start_def sample_loader_def sample_system_def)
  then show ?thesis
    using loader_session_sound [of sample_boundary l s] run by blast
qed

theorem replace_reports_every_error_witness:
  "\<exists>err l' s'. replace sample_boundary sample_loader (plain_tree [''a'', ''b'']) sample_system = Some (Inl err, l', s')
    \<and> reported s' \<noteq> []
    \<and> mset (concat (map loader_leaves (reported s'))) = mset (loader_leaves err)"
proof -
  obtain r l' s' where run: "replace sample_boundary sample_loader (plain_tree [''a'', ''b'']) sample_system = Some (r, l', s')"
    using loader_sample_runs(3) by (auto simp: Option.is_none_def)
  moreover obtain err where "r = Inl err"
    using sample_results(2) run by (cases r) simp_all
  ultimately show ?thesis
    using replace_reports_every_error [OF run] sample_trees_valid(2) by (auto simp: sample_system_def)
qed

theorem replace_returns_witness:
  "replace sample_boundary sample_loader (plain_tree [''a'', ''b'', ''c'']) sample_system \<noteq> None"
proof (rule replace_returns [OF queue_progress.responsive])
  show "scope_room 2 (outside sample_system)"
    by (simp add: scope_room_def sample_system_def lifecycle_new_def u64_max_def)
qed

end
