(* ===== verification/Watcher.thy ===== *)
theory Watcher
  imports LoaderProps
begin

section \<open>The entry tree watcher (loader.rs)\<close>

text \<open>
  \<open>EntryTreeWatcher\<close> owns a loader and follows one file. The worker is a sequence of reads of
  the file: each is an \<open>observation\<close>, what the system calls of \<open>observe_source\<close> return; the
  worker compares it with the last one and replaces the tree when it differs. The sequence ends
  with the read before \<open>stopping\<close> is seen, then the tree is unloaded.
\<close>

record watcher_options =
  poll_interval :: nat
  max_source_bytes :: u64

definition default_watcher_options :: watcher_options where
  "default_watcher_options = \<lparr>poll_interval = 100000000, max_source_bytes = 4 * 1024 * 1024\<rparr>"

definition watcher_options_check :: "watcher_options \<Rightarrow> loader_error + unit" where
  "watcher_options_check opts =
    (if poll_interval opts = 0 \<or> max_source_bytes opts = 0 \<or> max_source_bytes opts = u64_max
     then Inl (ValidationError (msg ''watch interval and source byte limit must be positive and bounded''))
     else Inr ())"

record watcher_snapshot =
  ws_tree :: entry_tree
  committed_updates :: u64
  rejected_updates :: u64
  last_error :: "loader_error option"
  running :: bool

record watcher_state =
  ws_snapshot :: watcher_snapshot
  ws_context :: ctx

text \<open>The state that \<open>start\<close> shares with the worker.\<close>

definition watcher_start_state :: "'h loader \<Rightarrow> watcher_state" where
  "watcher_start_state l =
    \<lparr>ws_snapshot = \<lparr>ws_tree = tree l, committed_updates = 0, rejected_updates = 0, last_error = None,
       running = True\<rparr>,
     ws_context = loader_context l\<rparr>"

subsection \<open>Reading the source\<close>

datatype watched_source = Present string | Unreadable message

text \<open>
  The results of the system calls of one read: \<open>metadata(path)\<close> (is it a file), \<open>open\<close>, the
  metadata of the open file (is it a file, its length), and what reading it to the end gives.
\<close>

record observation =
  ob_path :: "message + bool"
  ob_open :: "message + unit"
  ob_file :: "message + bool \<times> u64"
  ob_content :: "message + string"

definition observe_source :: "u64 \<Rightarrow> observation \<Rightarrow> watched_source" where
  "observe_source limit ob =
    (let read =
       try_bind (ob_path ob) (\<lambda>is_file.
         if \<not> is_file then Inl (msg ''watch source must be a regular file'')
         else
           try_bind (ob_open ob) (\<lambda>_.
           try_bind (ob_file ob) (\<lambda>(is_file, len).
             if \<not> is_file \<or> limit < len
             then Inl (msg ''watch source is not a regular file within its byte limit'')
             else
               try_bind (ob_content ob) (\<lambda>content.
                 let bytes = take (unat (limit + 1)) content in
                 if unat limit < length bytes then Inl (msg ''watch source exceeds its byte limit'')
                 else Inr bytes))))
     in case read of Inr bytes \<Rightarrow> Present bytes | Inl err \<Rightarrow> Unreadable err)"

subsection \<open>Applying a source\<close>

definition saturating_add :: "u64 \<Rightarrow> u64 \<Rightarrow> u64" where
  "saturating_add a b = (if a + b < a then u64_max else a + b)"

text \<open>The parsers of the standard library and of serde.\<close>

record parsers =
  from_utf8 :: "string \<Rightarrow> message + string"
  from_json :: "string \<Rightarrow> message + json"
  from_yaml :: "string \<Rightarrow> message + json"
  as_entries :: "json \<Rightarrow> message + entry list"
  as_tree :: "json \<Rightarrow> message + entry_tree"

definition source_candidate :: "parsers \<Rightarrow> watched_source \<Rightarrow> loader_error + entry_tree" where
  "source_candidate ps source =
    (case source of
       Present bytes \<Rightarrow>
         (case from_utf8 ps bytes of
            Inl m \<Rightarrow> Inl (ParseError m)
          | Inr document \<Rightarrow>
              parse_entry_tree (from_json ps) (from_yaml ps) (as_entries ps) (as_tree ps) document)
     | Unreadable err \<Rightarrow> Inl (PersistenceError err))"

definition note_outcome ::
  "loader_error + unit \<Rightarrow> 'h loader \<Rightarrow> watcher_state \<Rightarrow> watcher_state" where
  "note_outcome r l st =
    (let snap = ws_snapshot st in
     \<lparr>ws_snapshot =
        (case r of
           Inr _ \<Rightarrow> snap\<lparr>ws_tree := tree l, committed_updates := saturating_add (committed_updates snap) 1\<rparr>
         | Inl err \<Rightarrow>
             snap\<lparr>rejected_updates := saturating_add (rejected_updates snap) 1, last_error := Some err\<rparr>),
      ws_context = loader_context l\<rparr>)"

definition apply_watched_source ::
  "parsers \<Rightarrow> ('w, 'h) boundary \<Rightarrow> watched_source \<Rightarrow> 'h loader \<times> 'w system \<times> watcher_state \<Rightarrow>
    ('h loader \<times> 'w system \<times> watcher_state) option" where
  "apply_watched_source ps B source lss =
    (case lss of (l, s, st) \<Rightarrow>
      Option.bind
        (case source_candidate ps source of
           Inr t \<Rightarrow> replace B l t s
         | Inl err \<Rightarrow> Some (Inl err, l, s))
        (\<lambda>(r, l', s'). Some (l', s', note_outcome r l' st)))"

subsection \<open>The worker\<close>

text \<open>One turn of the loop that finds \<open>stopping\<close> unset after its wait.\<close>

definition watch_turn ::
  "parsers \<Rightarrow> ('w, 'h) boundary \<Rightarrow> u64 \<Rightarrow> observation \<Rightarrow>
    watched_source \<times> 'h loader \<times> 'w system \<times> watcher_state \<Rightarrow>
    (watched_source \<times> 'h loader \<times> 'w system \<times> watcher_state) option" where
  "watch_turn ps B limit ob x =
    (case x of (observed, lss) \<Rightarrow>
      let source = observe_source limit ob in
      if source \<noteq> observed
      then map_option (\<lambda>lss'. (source, lss')) (apply_watched_source ps B source lss)
      else Some (observed, lss))"

fun watch_turns ::
  "parsers \<Rightarrow> ('w, 'h) boundary \<Rightarrow> u64 \<Rightarrow> observation list \<Rightarrow>
    watched_source \<times> 'h loader \<times> 'w system \<times> watcher_state \<Rightarrow>
    (watched_source \<times> 'h loader \<times> 'w system \<times> watcher_state) option" where
  "watch_turns ps B limit [] x = Some x"
| "watch_turns ps B limit (ob # obs) x =
    Option.bind (watch_turn ps B limit ob x) (watch_turns ps B limit obs)"

definition watch_finish ::
  "('w, 'h) boundary \<Rightarrow> 'h loader \<times> 'w system \<times> watcher_state \<Rightarrow>
    ((loader_error + unit) \<times> 'h loader \<times> 'w system \<times> watcher_state) option" where
  "watch_finish B lss =
    (case lss of (l, s, st) \<Rightarrow>
      Option.bind (unload B l s) (\<lambda>(r, l', s').
        let snap = (ws_snapshot st)\<lparr>running := False, ws_tree := tree l'\<rparr>;
            snap = (case r of Inl err \<Rightarrow> snap\<lparr>last_error := Some err\<rparr> | Inr _ \<Rightarrow> snap)
        in Some (r, l', s', \<lparr>ws_snapshot = snap, ws_context = loader_context l'\<rparr>)))"

text \<open>The loop, up to and without its ending, and the whole worker.\<close>

definition watch_loop ::
  "parsers \<Rightarrow> ('w, 'h) boundary \<Rightarrow> u64 \<Rightarrow> observation \<Rightarrow> observation list \<Rightarrow> 'h loader \<Rightarrow> 'w system \<Rightarrow>
    (watched_source \<times> 'h loader \<times> 'w system \<times> watcher_state) option" where
  "watch_loop ps B limit first obs l s =
    (let observed = observe_source limit first in
     Option.bind (apply_watched_source ps B observed (l, s, watcher_start_state l)) (\<lambda>lss.
       watch_turns ps B limit obs (observed, lss)))"

definition run_entry_tree_watcher ::
  "parsers \<Rightarrow> ('w, 'h) boundary \<Rightarrow> u64 \<Rightarrow> observation \<Rightarrow> observation list \<Rightarrow> 'h loader \<Rightarrow> 'w system \<Rightarrow>
    ((loader_error + unit) \<times> 'h loader \<times> 'w system \<times> watcher_state) option" where
  "run_entry_tree_watcher ps B limit first obs l s =
    Option.bind (watch_loop ps B limit first obs l s) (\<lambda>(observed, lss). watch_finish B lss)"

subsection \<open>The handle\<close>

text \<open>\<open>worker\<close> is whether the join handle is still there; \<open>joined\<close> is what joining it gives, \<open>None\<close>
  for a panic. The flag is set and the worker notified before the join.\<close>

record watcher =
  worker :: bool
  stop_result :: "(loader_error + unit) option"
  stopping :: bool

definition watcher_stop ::
  "(loader_error + unit) option \<Rightarrow> watcher \<Rightarrow> (loader_error + unit) \<times> watcher" where
  "watcher_stop joined w =
    (case stop_result w of
       Some r \<Rightarrow> (r, w)
     | None \<Rightarrow>
         let w = w\<lparr>stopping := True\<rparr>;
             r = (if worker w
                  then (case joined of
                          Some r \<Rightarrow> r
                        | None \<Rightarrow> Inl (ValidationError (msg ''entry-tree watcher worker panicked'')))
                  else Inr ())
         in (r, w\<lparr>worker := False, stop_result := Some r\<rparr>))"

text \<open>\<open>start\<close>, once the worker is spawned: \<open>refreshed\<close> is whether the first refresh signalled.\<close>

definition watcher_start :: "bool \<Rightarrow> (loader_error + unit) option \<Rightarrow> loader_error + watcher" where
  "watcher_start refreshed joined =
    (let w = \<lparr>worker = True, stop_result = None, stopping = False\<rparr> in
     if refreshed then Inr w
     else
       (case watcher_stop joined w of
          (Inl err, _) \<Rightarrow> Inl err
        | (Inr _, _) \<Rightarrow> Inl (ValidationError (msg ''entry-tree watcher stopped during initial refresh''))))"

subsection \<open>What the snapshot says\<close>

lemma stop_idempotent: "watcher_stop joined w = (r, w') \<Longrightarrow> watcher_stop joined' w' = (r, w')"
  by (auto simp: watcher_stop_def Let_def split: option.splits)

lemma saturating_add_one: "unat a < 2 ^ 64 - 1 \<Longrightarrow> unat (saturating_add a 1) = unat a + 1"
proof -
  assume less: "unat a < 2 ^ 64 - 1"
  then have "unat (a + 1) = unat a + 1" by (simp add: unat_word_ariths)
  then show ?thesis by (simp add: saturating_add_def word_less_nat_alt)
qed

text \<open>
  What the worker should have done with a sequence of sources: each one, in order, is rejected as it
  stands or put to \<open>replace\<close>; the results, the loader and the system it leaves.
\<close>

fun follow ::
  "parsers \<Rightarrow> ('w, 'h) boundary \<Rightarrow> watched_source list \<Rightarrow> 'h loader \<Rightarrow> 'w system \<Rightarrow>
    ((loader_error + unit) list \<times> 'h loader \<times> 'w system) option" where
  "follow ps B [] l s = Some ([], l, s)"
| "follow ps B (source # sources) l s =
    Option.bind
      (case source_candidate ps source of
         Inl err \<Rightarrow> Some (Inl err, l, s)
       | Inr t \<Rightarrow> replace B l t s)
      (\<lambda>(r, l1, s1). map_option (\<lambda>(rs, l', s'). (r # rs, l', s')) (follow ps B sources l1 s1))"

text \<open>The tree of the last source that was accepted, and the last error.\<close>

fun shown :: "parsers \<Rightarrow> entry_tree \<Rightarrow> (watched_source \<times> (loader_error + unit)) list \<Rightarrow> entry_tree" where
  "shown ps t [] = t"
| "shown ps t ((source, r) # xs) =
    shown ps (case (r, source_candidate ps source) of (Inr _, Inr t') \<Rightarrow> t' | _ \<Rightarrow> t) xs"

fun last_failure :: "(loader_error + unit) list \<Rightarrow> loader_error option" where
  "last_failure [] = None"
| "last_failure (Inr _ # rs) = last_failure rs"
| "last_failure (Inl err # rs) = (case last_failure rs of None \<Rightarrow> Some err | Some later \<Rightarrow> Some later)"

definition shows_results :: "(loader_error + unit) list \<Rightarrow> 'h loader \<Rightarrow> watcher_state \<Rightarrow> bool" where
  "shows_results rs l st \<longleftrightarrow>
    ws_tree (ws_snapshot st) = tree l \<and> ws_context st = loader_context l \<and> running (ws_snapshot st)
    \<and> unat (committed_updates (ws_snapshot st)) = length (filter (\<lambda>r. \<not> isl r) rs)
    \<and> unat (rejected_updates (ws_snapshot st)) = length (filter isl rs)
    \<and> last_error (ws_snapshot st) = last_failure rs"

lemma last_failure_append:
  "last_failure (rs @ [r]) = (case r of Inl err \<Rightarrow> Some err | Inr _ \<Rightarrow> last_failure rs)"
  by (induction rs rule: last_failure.induct) (auto split: sum.splits option.splits)

lemma replace_error_tree: "replace B l t s = Some (Inl err, l', s') \<Longrightarrow> tree l' = tree l"
  by (erule replace_cases) (auto simp: rolled_def)

lemma replace_ok_tree: "replace B l t s = Some (Inr u, l', s') \<Longrightarrow> tree l' = t"
  by (erule replace_cases) (auto simp: replaced_def)

lemma note_outcome_shows:
  assumes "shows_results rs l st" and "length rs < 2 ^ 64 - 1" and "isl r \<Longrightarrow> tree l' = tree l"
  shows "shows_results (rs @ [r]) l' (note_outcome r l' st)"
proof -
  have "length (filter P rs) < 2 ^ 64 - 1" for P
    using length_filter_le [of P rs] assms(2) by linarith
  then show ?thesis
    using assms(1,3) by (cases r) (simp_all add: shows_results_def note_outcome_def Let_def saturating_add_one last_failure_append)
qed

lemma apply_source_follows:
  assumes "apply_watched_source ps B source (l, s, st) = Some (l', s', st')"
    and "shows_results rs l st" and "length rs < 2 ^ 64 - 1"
  shows "\<exists>r. follow ps B [source] l s = Some ([r], l', s') \<and> shows_results (rs @ [r]) l' st'"
proof (cases "source_candidate ps source")
  case (Inl err)
  then show ?thesis
    using assms note_outcome_shows [OF assms(2,3), of "Inl err" l] by (auto simp: apply_watched_source_def)
next
  case (Inr t)
  then obtain r where run: "replace B l t s = Some (r, l', s')" "st' = note_outcome r l' st"
    using assms(1) by (auto simp: apply_watched_source_def bind_eq_Some_conv)
  have "isl r \<Longrightarrow> tree l' = tree l" using run(1) by (cases r) (auto dest: replace_error_tree)
  then show ?thesis
    using note_outcome_shows [OF assms(2,3), of r l'] run Inr by auto
qed

lemma follow_append:
  assumes "follow ps B xs l s = Some (rs, l1, s1)" and "follow ps B ys l1 s1 = Some (rs', l', s')"
  shows "follow ps B (xs @ ys) l s = Some (rs @ rs', l', s')"
  using assms
proof (induction xs arbitrary: l s rs)
  case (Cons x xs)
  then show ?case by (cases "source_candidate ps x") (auto simp: bind_eq_Some_conv)
qed simp

lemma changes_first: "remdups_adj (x # xs) = x # tl (remdups_adj (x # xs))"
  by (metis hd_remdups_adj list.collapse list.sel(1) remdups_adj_Nil_iff list.distinct(1))

lemma watch_turns_follow:
  assumes "watch_turns ps B limit obs (observed, l, s, st) = Some (observed', l', s', st')"
    and "shows_results rs l st" and "length rs + length obs < 2 ^ 64"
  shows "\<exists>rs'. follow ps B (tl (remdups_adj (observed # map (observe_source limit) obs))) l s = Some (rs', l', s')
    \<and> shows_results (rs @ rs') l' st' \<and> observed' = last (observed # map (observe_source limit) obs)"
  using assms
proof (induction obs arbitrary: observed l s st rs)
  case Nil
  then show ?case by simp
next
  case (Cons ob obs)
  let ?source = "observe_source limit ob"
  show ?case
  proof (cases "?source = observed")
    case True
    then show ?thesis
      using Cons.IH [of observed l s st rs] Cons.prems by (auto simp: watch_turn_def)
  next
    case False
    obtain l1 s1 st1 where turn: "apply_watched_source ps B ?source (l, s, st) = Some (l1, s1, st1)"
        "watch_turns ps B limit obs (?source, l1, s1, st1) = Some (observed', l', s', st')"
      using Cons.prems(1) False by (auto simp: watch_turn_def bind_eq_Some_conv Let_def)
    obtain r where r: "follow ps B [?source] l s = Some ([r], l1, s1)" "shows_results (rs @ [r]) l1 st1"
      using apply_source_follows [OF turn(1) Cons.prems(2)] Cons.prems(3) by auto
    obtain rs' where rs': "follow ps B (tl (remdups_adj (?source # map (observe_source limit) obs))) l1 s1 = Some (rs', l', s')"
        "shows_results ((rs @ [r]) @ rs') l' st'" "observed' = last (?source # map (observe_source limit) obs)"
      using Cons.IH [OF turn(2) r(2)] Cons.prems(3) by auto
    have "tl (remdups_adj (observed # map (observe_source limit) (ob # obs)))
        = [?source] @ tl (remdups_adj (?source # map (observe_source limit) obs))"
      using False changes_first [of ?source "map (observe_source limit) obs"] by simp
    then show ?thesis using follow_append [OF r(1) rs'(1)] rs'(2,3) by (intro exI [of _ "r # rs'"]) simp
  qed
qed

lemma follow_shown:
  "follow ps B sources l s = Some (rs, l', s') \<Longrightarrow> length rs = length sources \<and> tree l' = shown ps (tree l) (zip sources rs)"
proof (induction sources arbitrary: l s rs)
  case (Cons source sources)
  then obtain r l1 s1 rs1 where step: "(case source_candidate ps source of
        Inl err \<Rightarrow> Some (Inl err, l, s) | Inr t \<Rightarrow> replace B l t s) = Some (r, l1, s1)"
      and rest: "follow ps B sources l1 s1 = Some (rs1, l', s')" and rs: "rs = r # rs1"
    by (auto simp: bind_eq_Some_conv)
  have "tree l1 = (case (r, source_candidate ps source) of (Inr _, Inr t') \<Rightarrow> t' | _ \<Rightarrow> tree l)"
    using step by (cases r; cases "source_candidate ps source") (auto dest: replace_error_tree replace_ok_tree)
  then show ?case using Cons.IH [OF rest] rs by simp
qed simp

lemma follow_session: "follow ps B sources l s = Some (rs, l', s') \<Longrightarrow> session_inv (l, s) \<Longrightarrow> session_inv (l', s')"
proof (induction sources arbitrary: l s rs)
  case (Cons source sources)
  then show ?case
    by (cases "source_candidate ps source") (auto simp: bind_eq_Some_conv dest: replace_session)
qed simp

lemma watch_loop_follows:
  assumes "watch_loop ps B limit first obs l s = Some (observed, l', s', st)" and "length obs < 2 ^ 64 - 2"
  shows "\<exists>rs. follow ps B (remdups_adj (map (observe_source limit) (first # obs))) l s = Some (rs, l', s')
    \<and> shows_results rs l' st \<and> observed = observe_source limit (last (first # obs))"
proof -
  let ?first = "observe_source limit first"
  obtain l1 s1 st1 where lss: "apply_watched_source ps B ?first (l, s, watcher_start_state l) = Some (l1, s1, st1)"
      "watch_turns ps B limit obs (?first, l1, s1, st1) = Some (observed, l', s', st)"
    using assms(1) by (auto simp: watch_loop_def Let_def bind_eq_Some_conv)
  have "shows_results [] l (watcher_start_state l)" by (simp add: shows_results_def watcher_start_state_def)
  then obtain r where r: "follow ps B [?first] l s = Some ([r], l1, s1)" "shows_results [r] l1 st1"
    using apply_source_follows [OF lss(1), of "[]"] by auto
  obtain rs where rs: "follow ps B (tl (remdups_adj (?first # map (observe_source limit) obs))) l1 s1 = Some (rs, l', s')"
      "shows_results ([r] @ rs) l' st" "observed = last (?first # map (observe_source limit) obs)"
    using watch_turns_follow [OF lss(2) r(2)] assms(2) by auto
  have "remdups_adj (map (observe_source limit) (first # obs))
      = [?first] @ tl (remdups_adj (?first # map (observe_source limit) obs))"
    using changes_first [of ?first "map (observe_source limit) obs"] by simp
  then show ?thesis
    using follow_append [OF r(1) rs(1)] rs(2,3) last_map [of "first # obs" "observe_source limit"]
    by (intro exI [of _ "r # rs"]) simp
qed

text \<open>C17: The watcher follows its source: what it does to the loader is exactly to put each change of the
  source between two reads, in order and once, to the parser and to \<open>replace\<close>; a source that is read again
  unchanged is not retried. At every moment the loader's tree is that of the last change that was
  accepted, and the snapshot shows this tree, its context, how many changes were committed and rejected, and
  the last error.\<close>

theorem watcher_follows_source:
  assumes "watch_loop ps B limit first obs l s = Some (observed, l', s', st)" and "length obs < 2 ^ 64 - 2"
  shows "\<exists>rs. follow ps B (remdups_adj (map (observe_source limit) (first # obs))) l s = Some (rs, l', s')
    \<and> tree l' = shown ps (tree l) (zip (remdups_adj (map (observe_source limit) (first # obs))) rs)
    \<and> ws_tree (ws_snapshot st) = tree l' \<and> ws_context st = loader_context l' \<and> running (ws_snapshot st)
    \<and> unat (committed_updates (ws_snapshot st)) = length (filter (\<lambda>r. \<not> isl r) rs)
    \<and> unat (rejected_updates (ws_snapshot st)) = length (filter isl rs)
    \<and> last_error (ws_snapshot st) = last_failure rs
    \<and> observed = observe_source limit (last (first # obs))"
  using watch_loop_follows [OF assms] follow_shown unfolding shows_results_def by metis

text \<open>When the worker ends without an error it has unloaded the tree: no handle is live, and every
  handle that the runtimes created while it ran, or before, had its disposal called.\<close>

theorem watcher_stop_unloads:
  assumes "run_entry_tree_watcher ps B limit first obs l s = Some (Inr (), l', s', st)"
    and "session_inv (l, s)" and "length obs < 2 ^ 64 - 2"
  shows "live l' = [] \<and> ws_tree (ws_snapshot st) = default_tree \<and> \<not> running (ws_snapshot st)
    \<and> {..<created s'} = set (disposals s')"
proof -
  obtain observed l1 s1 st1 where loop: "watch_loop ps B limit first obs l s = Some (observed, l1, s1, st1)"
      and fin: "watch_finish B (l1, s1, st1) = Some (Inr (), l', s', st)"
    using assms(1) by (auto simp: run_entry_tree_watcher_def bind_eq_Some_conv)
  obtain rs where "follow ps B (remdups_adj (map (observe_source limit) (first # obs))) l s = Some (rs, l1, s1)"
    using watch_loop_follows [OF loop assms(3)] by blast
  then have inv: "session_inv (l1, s1)" using assms(2) by (rule follow_session)
  have un: "unload B l1 s1 = Some (Inr (), l', s')" "ws_tree (ws_snapshot st) = tree l'" "\<not> running (ws_snapshot st)"
    using fin by (auto simp: watch_finish_def bind_eq_Some_conv Let_def split: sum.splits)
  then show ?thesis
    using unload_cases [OF un(1)] unload_session [OF un(1) inv]
    by (auto simp: session_inv_def split: if_splits)
qed

subsection \<open>Witnesses\<close>

definition sample_parsers :: parsers where
  "sample_parsers = \<lparr>from_utf8 = Inr, from_json = \<lambda>document. Inr (JArr (map (\<lambda>c. JStr [c]) document)),
     from_yaml = \<lambda>_. Inl [],
     as_entries = \<lambda>v. (case v of JArr vs \<Rightarrow> Inr (map (\<lambda>v. case v of JStr i \<Rightarrow> sample_entry i | _ \<Rightarrow> sample_entry []) vs)
                         | _ \<Rightarrow> Inl []),
     as_tree = \<lambda>_. Inl []\<rparr>"

definition read_of :: "string \<Rightarrow> observation" where
  "read_of content = \<lparr>ob_path = Inr True, ob_open = Inr (), ob_file = Inr (True, of_nat (length content)),
     ob_content = Inr content\<rparr>"

abbreviation sample_reads :: "observation list" where
  "sample_reads \<equiv> [read_of ''ad'', read_of ''ab'', read_of ''abcde'', read_of ''d'', read_of ''d'']"

lemma sample_watch_runs:
  "\<not> Option.is_none (watch_loop sample_parsers sample_boundary 4 (read_of ''ad'') sample_reads
     sample_loader sample_system)"
  "map_option (isl \<circ> fst) (run_entry_tree_watcher sample_parsers sample_boundary 4 (read_of ''ad'')
     sample_reads sample_loader sample_system) = Some False"
  by code_simp+

lemma sample_session_inv: "session_inv (sample_loader, sample_system)"
  by (simp add: session_inv_def sample_loader_def sample_system_def live_matches_def default_tree_valid)

lemma sample_follows:
  "map_option fst (follow sample_parsers sample_boundary
      (remdups_adj (map (observe_source 4) (read_of ''ad'' # sample_reads))) sample_loader sample_system) =
    Some [Inr (), Inl (MissingEntry ''b''),
      Inl (PersistenceError (msg ''watch source is not a regular file within its byte limit'')), Inr ()]"
  by code_simp

lemma sample_shown:
  "map (eo_id \<circ> options) (tree_entries (shown sample_parsers default_tree
      (zip (remdups_adj (map (observe_source 4) (read_of ''ad'' # sample_reads)))
        [Inr (), Inl (MissingEntry ''b''),
         Inl (PersistenceError (msg ''watch source is not a regular file within its byte limit'')), Inr ()]))) = [''d'']"
  by code_simp

theorem watcher_follows_source_witness:
  "\<exists>observed l' s' st.
    watch_loop sample_parsers sample_boundary 4 (read_of ''ad'') sample_reads sample_loader sample_system
      = Some (observed, l', s', st)
    \<and> map (eo_id \<circ> options) (tree_entries (ws_tree (ws_snapshot st))) = [''d'']
    \<and> unat (committed_updates (ws_snapshot st)) = 2 \<and> unat (rejected_updates (ws_snapshot st)) = 2"
proof -
  obtain observed l' s' st where run: "watch_loop sample_parsers sample_boundary 4 (read_of ''ad'') sample_reads
      sample_loader sample_system = Some (observed, l', s', st)"
    using sample_watch_runs(1) by (auto simp: Option.is_none_def)
  have short: "length sample_reads < 2 ^ 64 - 2" by simp
  note w = watcher_follows_source [OF run short]
  have start: "tree sample_loader = default_tree" by (simp add: sample_loader_def)
  show ?thesis
    using w sample_follows sample_shown run unfolding start by (elim exE conjE) (auto simp del: map_map)
qed

theorem watcher_stop_unloads_witness:
  "\<exists>l' s' st.
    run_entry_tree_watcher sample_parsers sample_boundary 4 (read_of ''ad'') sample_reads sample_loader sample_system
      = Some (Inr (), l', s', st)
    \<and> live l' = [] \<and> {..<created s'} = set (disposals s')"
proof -
  obtain r l' s' st where run: "run_entry_tree_watcher sample_parsers sample_boundary 4 (read_of ''ad'') sample_reads
      sample_loader sample_system = Some (r, l', s', st)" "\<not> isl r"
    using sample_watch_runs(2) by auto
  then have "r = Inr ()" by (cases r) simp_all
  then show ?thesis
    using watcher_stop_unloads [OF _ sample_session_inv] run(1) by (fastforce simp del: One_nat_def)
qed

end
