(* ===== verification/Threads.thy ===== *)
theory Threads
  imports Prelude
begin

section \<open>Threads over a shared state\<close>

text \<open>
  Code that runs on several threads and shares state behind locks: a thread is the list of the
  atomic actions it still has to perform, an action works on the shared state in one lock
  section and says which actions follow it and which threads it spawns. An action that waits
  has no effect until its input is there. The locales carry measures and invariants of the
  actions over to every interleaving.
\<close>

type_synonym ('i, 'a, 'c) effect = "'i \<Rightarrow> 'a \<Rightarrow> 'c \<Rightarrow> ('a list \<times> 'a list list \<times> 'c) option"

definition thread_step ::
  "('i, 'a, 'c) effect \<Rightarrow> nat \<Rightarrow> 'i \<Rightarrow> 'c \<times> 'a list list \<Rightarrow> ('c \<times> 'a list list) option" where
  "thread_step eff t i s =
    (case s of (c, ths) \<Rightarrow>
      if t < length ths then
        (case ths ! t of
           [] \<Rightarrow> None
         | a # rest \<Rightarrow>
             map_option (\<lambda>(acts, spawned, c'). (c', ths[t := acts @ rest] @ spawned)) (eff i a c))
      else None)"

lemma thread_step_cases:
  assumes "thread_step eff t i (c, ths) = Some (c', ths')"
  obtains a rest acts spawned where "t < length ths" "ths ! t = a # rest"
    "eff i a c = Some (acts, spawned, c')" "ths' = ths[t := acts @ rest] @ spawned"
  using assms by (auto simp: thread_step_def split: list.splits if_splits)

text \<open>What holds of every pending action.\<close>

definition all_acts :: "('a \<Rightarrow> bool) \<Rightarrow> 'a list list \<Rightarrow> bool" where
  "all_acts P ths \<longleftrightarrow> (\<forall>th\<in>set ths. \<forall>a\<in>set th. P a)"

lemma all_acts_simps [simp]:
  "all_acts P []" "all_acts P (th # ths) \<longleftrightarrow> (\<forall>a\<in>set th. P a) \<and> all_acts P ths"
  "all_acts P (ths @ us) \<longleftrightarrow> all_acts P ths \<and> all_acts P us"
  by (auto simp: all_acts_def)

lemma all_acts_head: "all_acts P ths \<Longrightarrow> t < length ths \<Longrightarrow> ths ! t = a # rest \<Longrightarrow> P a"
  by (metis all_acts_def list.set_intros(1) nth_mem)

lemma all_acts_put:
  assumes "all_acts P ths" and "t < length ths" and "ths ! t = a # rest"
    and "\<And>a. P a \<Longrightarrow> Q a" and "\<forall>a\<in>set acts. Q a"
  shows "all_acts Q (ths[t := acts @ rest])"
proof -
  have "\<forall>a\<in>set rest. Q a"
    using assms nth_mem [OF assms(2)] unfolding all_acts_def by fastforce
  moreover have "\<forall>th\<in>set ths. \<forall>a\<in>set th. Q a"
    using assms(1,4) by (auto simp: all_acts_def)
  ultimately show ?thesis
    using set_update_subset_insert [of ths t "acts @ rest"] assms(5) unfolding all_acts_def by fastforce
qed

subsection \<open>Measures\<close>

definition weigh :: "('a \<Rightarrow> nat) \<Rightarrow> 'a list \<Rightarrow> nat" where
  "weigh w acts = sum_list (map w acts)"

definition total :: "('a \<Rightarrow> nat) \<Rightarrow> 'a list list \<Rightarrow> nat" where
  "total w ths = sum_list (map (weigh w) ths)"

lemma weigh_simps [simp]:
  "weigh w [] = 0" "weigh w (a # as) = w a + weigh w as" "weigh w (as @ bs) = weigh w as + weigh w bs"
  by (simp_all add: weigh_def)

lemma total_simps [simp]:
  "total w [] = 0" "total w (th # ths) = weigh w th + total w ths"
  "total w (ths @ us) = total w ths + total w us"
  by (simp_all add: total_def)

lemma total_update:
  "t < length ths \<Longrightarrow> total w (ths[t := th]) + weigh w (ths ! t) = total w ths + weigh w th"
  by (induction ths arbitrary: t) (auto simp: nth_Cons split: nat.splits)

lemma total_ge: "th \<in> set ths \<Longrightarrow> weigh w th \<le> total w ths"
  by (induction ths) auto

lemma weigh_ge: "a \<in> set th \<Longrightarrow> w a \<le> weigh w th"
  by (induction th) auto

lemma total_zero: "total w ths = 0 \<longleftrightarrow> (\<forall>th\<in>set ths. \<forall>a\<in>set th. w a = 0)"
  by (induction ths) (auto simp: weigh_def)

lemma total_step:
  assumes "t < length ths" and "ths ! t = a # rest"
  shows "total w (ths[t := acts @ rest] @ spawned) + w a = total w ths + weigh w acts + total w spawned"
  using total_update [OF assms(1), of w "acts @ rest"] assms(2) by simp

text \<open>What an action adds to the core and hands on is what it weighed, or less.\<close>

locale thread_bound =
  fixes eff :: "('i, 'a, 'c) effect" and core :: "'c \<Rightarrow> nat" and w :: "'a \<Rightarrow> nat" and ok :: "'c \<Rightarrow> 'a \<Rightarrow> bool"
  assumes bound: "ok c a \<Longrightarrow> eff i a c = Some (acts, spawned, c') \<Longrightarrow>
      core c' + weigh w acts + total w spawned \<le> core c + w a"
begin

lemma step_bound:
  assumes "all_acts (ok c) ths" and "thread_step eff t i (c, ths) = Some (c', ths')"
  shows "core c' + total w ths' \<le> core c + total w ths"
  using assms(2)
proof (cases rule: thread_step_cases)
  case (1 a rest acts spawned)
  then show ?thesis
    using total_step [OF 1(1,2), of w acts spawned] bound [OF all_acts_head [OF assms(1) 1(1,2)] 1(3)]
    by simp
qed

end

locale thread_conserved = thread_bound +
  assumes conserved: "ok c a \<Longrightarrow> eff i a c = Some (acts, spawned, c') \<Longrightarrow>
      core c + w a \<le> core c' + weigh w acts + total w spawned"
begin

lemma step_conserved:
  assumes "all_acts (ok c) ths" and "thread_step eff t i (c, ths) = Some (c', ths')"
  shows "core c' + total w ths' = core c + total w ths"
  using assms(2)
proof (cases rule: thread_step_cases)
  case (1 a rest acts spawned)
  then show ?thesis
    using total_step [OF 1(1,2), of w acts spawned] all_acts_head [OF assms(1) 1(1,2)]
      bound [OF _ 1(3)] conserved [OF _ 1(3)]
    by fastforce
qed

end

text \<open>What is counted at most once.\<close>

lemma distinct_counted: "(\<And>x. length (filter (\<lambda>y. y = x) xs) \<le> 1) \<Longrightarrow> distinct xs"
proof (induction xs)
  case Nil
  then show ?case by simp
next
  case (Cons a xs)
  have none: "filter (\<lambda>y. y = a) xs = []" using Cons.prems [of a] by simp
  have "length (filter (\<lambda>y. y = x) xs) \<le> 1" for x
    using Cons.prems [of x] by (simp split: if_splits)
  then have "distinct xs" by (rule Cons.IH)
  moreover have "a \<notin> set xs" using none by (auto simp: filter_empty_conv)
  ultimately show ?case by simp
qed

text \<open>What enters the system through a source is in the core or with an action.\<close>

locale thread_balance =
  fixes eff :: "('i, 'a, 'c) effect" and core :: "'c \<Rightarrow> nat" and src :: "'c \<Rightarrow> nat" and w :: "'a \<Rightarrow> nat"
    and ok :: "'c \<Rightarrow> 'a \<Rightarrow> bool"
  assumes balance: "ok c a \<Longrightarrow> eff i a c = Some (acts, spawned, c') \<Longrightarrow>
      core c' + weigh w acts + total w spawned + src c = core c + w a + src c'"
begin

lemma step_balance:
  assumes "all_acts (ok c) ths" and "thread_step eff t i (c, ths) = Some (c', ths')"
    and "core c + total w ths = src c"
  shows "core c' + total w ths' = src c'"
  using assms(2)
proof (cases rule: thread_step_cases)
  case (1 a rest acts spawned)
  then show ?thesis
    using total_step [OF 1(1,2), of w acts spawned] balance [OF all_acts_head [OF assms(1) 1(1,2)] 1(3)] assms(3)
    by simp
qed

end

text \<open>While something is needed, some action or the core keeps it.\<close>

locale thread_guard =
  fixes eff :: "('i, 'a, 'c) effect" and need :: "'c \<Rightarrow> bool" and core :: "'c \<Rightarrow> nat" and w :: "'a \<Rightarrow> nat"
    and ok :: "'c \<Rightarrow> 'a \<Rightarrow> bool"
  assumes guard: "ok c a \<Longrightarrow> eff i a c = Some (acts, spawned, c') \<Longrightarrow> need c' \<Longrightarrow>
      need c \<and> core c + w a \<le> core c' + weigh w acts + total w spawned
      \<or> 1 \<le> core c' + weigh w acts + total w spawned"
begin

lemma step_guard:
  assumes "all_acts (ok c) ths" and "thread_step eff t i (c, ths) = Some (c', ths')"
    and "need c \<Longrightarrow> 1 \<le> core c + total w ths" and "need c'"
  shows "1 \<le> core c' + total w ths'"
  using assms(2)
proof (cases rule: thread_step_cases)
  case (1 a rest acts spawned)
  have "w a \<le> weigh w (ths ! t)" by (rule weigh_ge) (simp add: 1(2))
  also have "\<dots> \<le> total w ths" by (rule total_ge) (simp add: 1(1))
  finally have "w a \<le> total w ths" .
  then show ?thesis
    using total_step [OF 1(1,2), of w acts spawned] guard [OF all_acts_head [OF assms(1) 1(1,2)] 1(3) assms(4)]
      assms(3) 1(4)
    by fastforce
qed

end

text \<open>Work that every action uses up: the actions alone do not run for ever.\<close>

locale thread_progress =
  fixes eff :: "('i, 'a, 'c) effect" and core :: "'c \<Rightarrow> nat" and w :: "'a \<Rightarrow> nat"
  assumes progress: "eff i a c = Some (acts, spawned, c') \<Longrightarrow>
      core c' + weigh w acts + total w spawned < core c + w a"
begin

lemma step_progress:
  assumes "thread_step eff t i (c, ths) = Some (c', ths')"
  shows "core c' + total w ths' < core c + total w ths"
  using assms
proof (cases rule: thread_step_cases)
  case (1 a rest acts spawned)
  then show ?thesis
    using total_step [OF 1(1,2), of w acts spawned] progress [OF 1(3)] by simp
qed

end

subsection \<open>Invariants\<close>

text \<open>An invariant of the shared state with what every pending action may rely on.\<close>

locale thread_invariant =
  fixes eff :: "('i, 'a, 'c) effect" and inv :: "'c \<Rightarrow> bool" and rely :: "'c \<Rightarrow> 'a \<Rightarrow> bool"
  assumes inv_step: "inv c \<Longrightarrow> rely c a \<Longrightarrow> eff i a c = Some (acts, spawned, c') \<Longrightarrow>
      inv c' \<and> (\<forall>b\<in>set acts. rely c' b) \<and> all_acts (rely c') spawned"
    and rely_stable: "inv c \<Longrightarrow> rely c a \<Longrightarrow> eff i a c = Some (acts, spawned, c') \<Longrightarrow> rely c b \<Longrightarrow> rely c' b"
begin

lemma step_inv:
  assumes "inv c" and "all_acts (rely c) ths" and "thread_step eff t i (c, ths) = Some (c', ths')"
  shows "inv c' \<and> all_acts (rely c') ths'"
  using assms(3)
proof (cases rule: thread_step_cases)
  case (1 a rest acts spawned)
  have head: "rely c a" by (rule all_acts_head [OF assms(2) 1(1,2)])
  note here = inv_step [OF assms(1) head 1(3)]
  have "all_acts (rely c') (ths[t := acts @ rest])"
    by (rule all_acts_put [OF assms(2) 1(1,2)])
      (use rely_stable [OF assms(1) head 1(3)] here in blast)+
  then show ?thesis using here 1(4) by simp
qed

end

end
