(* ===== verification/Bridge.thy ===== *)
theory Bridge
  imports Threads Protocol
begin

section \<open>The bridge client (supervisor.rs)\<close>

text \<open>
  \<open>ClientInner\<close> and \<open>BridgeClient\<close>: the connection state, the bounded outgoing queue, the
  pending requests and the callbacks, shared by the callers' threads, the reader with its
  dispatcher, the writer and the threads that serve cancellable requests. An action is one lock
  section or one channel operation; \<open>None\<close> is an action that has to wait. Callbacks and
  closures are numbers, calls of them are logged; what a handler returns, when a timeout
  elapses and what the transport reads are inputs.
\<close>

subsection \<open>State\<close>

record client_config =
  max_frame_size :: nat
  queue_capacity :: nat
  handshake_timeout :: nat
  request_timeout :: nat
  shutdown_timeout :: nat

text \<open>\<open>Default\<close>, with durations in milliseconds.\<close>

definition default_client_config :: client_config where
  "default_client_config = \<lparr>max_frame_size = default_max_frame_size, queue_capacity = 64,
     handshake_timeout = 30000, request_timeout = 5000, shutdown_timeout = 5000\<rparr>"

definition client_codec :: "client_config \<Rightarrow> bridge_error + frame_codec" where
  "client_codec cfg =
    (if queue_capacity cfg = 0
     then Inl (InvalidFrame (msg ''bridge queue capacity must be greater than zero''))
     else codec_new (max_frame_size cfg))"

definition max_bridge_request_id :: u64 where
  "max_bridge_request_id = 9007199254740991"

definition max_pending_requests :: nat where
  "max_pending_requests = 4096"

datatype connection_state = StHandshaking | StReady | StDisconnected bridge_error

datatype connection_status = StatusHandshaking | StatusReady | StatusDisconnected

datatype outbound = OutFrame frame | OutClose

type_synonym reply = "bridge_error + json"

text \<open>What the client did, as far as others see it: calls of callbacks and results of operations.\<close>

datatype client_call =
    CalledHandler nat frame
  | CalledCancel nat frame
  | CalledDisconnect nat bridge_error
  | CalledLog nat json

datatype outcome =
    Began nat "bridge_error + u64"
  | Waited nat reply
  | CancelledRequest u64 bool
  | Finished "bridge_error + unit"

text \<open>
  \<open>ClientInner\<close>. A reply channel is a number; \<open>senders\<close> are the channels whose sender exists,
  \<open>delivered\<close> what was sent, \<open>wire\<close> the frames the writer wrote, \<open>was_ready\<close> says that the
  connection has been ready.
\<close>

record client =
  cl_generation :: u64
  cl_config :: client_config
  cl_state :: connection_state
  outgoing :: "outbound list"
  pending :: "(u64, nat) btree"
  next_request_id :: u64
  cl_handler :: "nat option"
  on_disconnect :: "nat option"
  error_context :: "nat option"
  on_log :: "nat option"
  extensions :: "(string, unit) btree"
  last_heartbeat :: nat
  cancellable :: "(u64, bool) btree"
  reader_up :: bool
  writer_up :: bool
  senders :: "nat list"
  delivered :: "(nat \<times> reply) list"
  wire :: "frame list"
  calls :: "client_call list"
  outcomes :: "outcome list"
  was_ready :: bool

definition client_from_io :: "u64 \<Rightarrow> client_config \<Rightarrow> bridge_error + client" where
  "client_from_io generation cfg =
    (if generation = 0
     then Inl (InvalidFrame (msg ''connection generation must be greater than zero''))
     else try_bind (client_codec cfg) (\<lambda>codec.
       Inr \<lparr>cl_generation = generation, cl_config = cfg, cl_state = StHandshaking, outgoing = [],
         pending = [], next_request_id = 1, cl_handler = None, on_disconnect = None,
         error_context = None, on_log = None, extensions = [], last_heartbeat = 0, cancellable = [],
         reader_up = True, writer_up = True, senders = [], delivered = [], wire = [], calls = [],
         outcomes = [], was_ready = False\<rparr>))"

definition client_status :: "client \<Rightarrow> connection_status" where
  "client_status c =
    (case cl_state c of
       StHandshaking \<Rightarrow> StatusHandshaking
     | StReady \<Rightarrow> StatusReady
     | StDisconnected e \<Rightarrow> StatusDisconnected)"

definition state_error :: "client \<Rightarrow> bridge_error option" where
  "state_error c = (case cl_state c of StDisconnected e \<Rightarrow> Some e | _ \<Rightarrow> None)"

definition require_ready :: "client \<Rightarrow> bridge_error + unit" where
  "require_ready c =
    (case cl_state c of
       StReady \<Rightarrow> Inr ()
     | StHandshaking \<Rightarrow> Inl (Handshake (msg ''hello/ready must complete before requests''))
     | StDisconnected e \<Rightarrow> Inl e)"

definition supports_extension :: "string \<Rightarrow> client \<Rightarrow> bool" where
  "supports_extension name c \<longleftrightarrow> bt_contains (extensions c) name"

subsection \<open>Actions\<close>

text \<open>A request of a caller: its reply channel, and whether the caller waits for it at once.\<close>

record bridge_call =
  bc_kind :: frame_kind
  bc_payload :: json
  bc_reply :: nat
  bc_wait :: bool

text \<open>What follows a send, and what follows \<open>resolve_pending\<close>.\<close>

datatype send_use = SendPlain | SendHello | SendRequest u64 bridge_call | SendQuiet

datatype resolve_use = ByPeer | ByCancel u64 | ByTimeout u64 nat | ByCancelFrame frame | ByFailedSend

datatype act =
    RequestReady bridge_call
  | TakeId bridge_call
  | InsertPending u64 bridge_call
  | SendCheck frame send_use
  | TrySend frame send_use
  | Resolve u64 reply resolve_use
  | Deliver nat reply
  | DisContext bridge_error
  | DisState bridge_error
  | DisPending bridge_error
  | CallDisconnect nat bridge_error
  | ReadPrior nat
  | StoreDisconnect nat "bridge_error option"
  | StoreHandler nat
  | StoreLog nat
  | StoreContext nat
  | Receive u64 nat
  | TryReceive nat
  | HandshakeStatus
  | HandshakeWait
  | NotifyReady frame_kind json
  | TryClose
  | WriterExit
  | Dispatch frame
  | MarkReady json
  | Beat
  | CallLog json
  | DispatchRequest frame
  | Acquire frame
  | LookupHandler frame bool
  | AwaitHandler frame bool
  | AwaitCancel
  | Release u64
  | CancelRequest frame
  | CallCancel frame
  | Return outcome

text \<open>The actions that follow, the threads spawned and the new state.\<close>

type_synonym client_step = "act list \<times> act list list \<times> client"

abbreviation goes_on :: "act list \<Rightarrow> client \<Rightarrow> client_step" where
  "goes_on acts c \<equiv> (acts, [], c)"

subsection \<open>Sending and disconnecting\<close>

definition sent :: "send_use \<Rightarrow> bridge_error + unit \<Rightarrow> act list" where
  "sent use r =
    (case use of
       SendPlain \<Rightarrow> [Return (Finished r)]
     | SendQuiet \<Rightarrow> []
     | SendHello \<Rightarrow> (case r of Inr _ \<Rightarrow> [HandshakeWait] | Inl e \<Rightarrow> [Return (Finished (Inl e))])
     | SendRequest i call \<Rightarrow>
         (case r of
            Inr _ \<Rightarrow>
              (if bc_wait call then [Receive i (bc_reply call)]
               else [Return (Began (bc_reply call) (Inr i))])
          | Inl e \<Rightarrow>
              [Resolve i (Inl e) ByFailedSend, Return (Began (bc_reply call) (Inl e))]))"

definition send_check :: "frame \<Rightarrow> send_use \<Rightarrow> client \<Rightarrow> client_step" where
  "send_check f use c =
    (case state_error c of
       Some e \<Rightarrow> goes_on (sent use (Inl e)) c
     | None \<Rightarrow> goes_on [TrySend f use] c)"

definition try_send :: "frame \<Rightarrow> send_use \<Rightarrow> client \<Rightarrow> client_step" where
  "try_send f use c =
    (if \<not> writer_up c
     then let e = Disconnected (msg ''writer thread stopped'') in goes_on (DisContext e # sent use (Inl e)) c
     else if queue_capacity (cl_config c) \<le> length (outgoing c) then goes_on (sent use (Inl QueueFull)) c
     else goes_on (sent use (Inr ())) (c\<lparr>outgoing := outgoing c @ [OutFrame f]\<rparr>))"

text \<open>\<open>disconnect\<close>: the error context, the state with the handler's clone, the pending requests.\<close>

definition disconnect_context :: "(nat \<Rightarrow> bridge_error \<Rightarrow> bridge_error) \<Rightarrow> bridge_error \<Rightarrow> client \<Rightarrow> client_step" where
  "disconnect_context contexts e c =
    goes_on [DisState (case error_context c of Some k \<Rightarrow> contexts k e | None \<Rightarrow> e)] c"

definition disconnect_state :: "bridge_error \<Rightarrow> client \<Rightarrow> client_step" where
  "disconnect_state e c =
    (case cl_state c of
       StDisconnected _ \<Rightarrow> goes_on [] c
     | _ \<Rightarrow>
         goes_on (DisPending e # (case on_disconnect c of Some h \<Rightarrow> [CallDisconnect h e] | None \<Rightarrow> []))
           (c\<lparr>cl_state := StDisconnected e\<rparr>))"

definition disconnect_pending :: "bridge_error \<Rightarrow> client \<Rightarrow> client_step" where
  "disconnect_pending e c = goes_on (map (\<lambda>(i, ch). Deliver ch (Inl e)) (pending c)) (c\<lparr>pending := []\<rparr>)"

definition log_call :: "client_call \<Rightarrow> client \<Rightarrow> client" where
  "log_call x c = c\<lparr>calls := calls c @ [x]\<rparr>"

subsection \<open>Requests\<close>

text \<open>\<open>resolve_pending\<close>: the entry is removed under the lock, the reply is sent after it.\<close>

definition resolved_use :: "resolve_use \<Rightarrow> u64 \<Rightarrow> bool \<Rightarrow> act list" where
  "resolved_use use generation found =
    (case use of
       ByPeer \<Rightarrow> []
     | ByFailedSend \<Rightarrow> []
     | ByCancel i \<Rightarrow>
         (if found then [SendCheck (frame_cancel generation i) SendQuiet] else [])
         @ [Return (CancelledRequest i found)]
     | ByTimeout i ch \<Rightarrow>
         (if found
          then [SendCheck (frame_cancel generation i) SendQuiet, Return (Waited ch (Inl Timeout))]
          else [TryReceive ch])
     | ByCancelFrame f \<Rightarrow> (if found then [] else [CancelRequest f]))"

definition resolve_pending :: "u64 \<Rightarrow> reply \<Rightarrow> resolve_use \<Rightarrow> client \<Rightarrow> client_step" where
  "resolve_pending i r use c =
    (case bt_get (pending c) i of
       Some ch \<Rightarrow>
         goes_on (Deliver ch r # resolved_use use (cl_generation c) True) (c\<lparr>pending := bt_remove i (pending c)\<rparr>)
     | None \<Rightarrow> goes_on (resolved_use use (cl_generation c) False) c)"

definition deliver_reply :: "nat \<Rightarrow> reply \<Rightarrow> client \<Rightarrow> client" where
  "deliver_reply ch r c =
    c\<lparr>delivered := delivered c @ [(ch, r)], senders := filter ((\<noteq>) ch) (senders c)\<rparr>"

definition request_ready :: "bridge_call \<Rightarrow> client \<Rightarrow> client_step" where
  "request_ready call c =
    (if \<not> is_request (bc_kind call)
     then goes_on [Return (Began (bc_reply call)
       (Inl (InvalidFrame [Text (kind_as_str (bc_kind call)), Text '' is not a request operation''])))] c
     else
       (case require_ready c of
          Inl e \<Rightarrow> goes_on [Return (Began (bc_reply call) (Inl e))] c
        | Inr _ \<Rightarrow> goes_on [TakeId call] c))"

definition take_id :: "bridge_call \<Rightarrow> client \<Rightarrow> client_step" where
  "take_id call c =
    (let i = next_request_id c in
     if unat i + 2 \<le> unat max_bridge_request_id
     then goes_on [InsertPending i call] (c\<lparr>next_request_id := i + 2\<rparr>)
     else goes_on [Return (Began (bc_reply call) (Inl (InvalidFrame (msg ''bridge request ids exhausted''))))] c)"

definition pending_limit :: "client_config \<Rightarrow> nat" where
  "pending_limit cfg = min max_pending_requests (max (queue_capacity cfg) 1 * 64)"

definition insert_pending :: "u64 \<Rightarrow> bridge_call \<Rightarrow> client \<Rightarrow> client_step" where
  "insert_pending i call c =
    (if pending_limit (cl_config c) \<le> length (pending c)
     then goes_on [Return (Began (bc_reply call) (Inl QueueFull))] c
     else
       goes_on [SendCheck (frame_request (cl_generation c) i (bc_kind call) (bc_payload call)) (SendRequest i call)]
         (c\<lparr>pending := bt_insert i (bc_reply call) (pending c), senders := bc_reply call # senders c\<rparr>))"

text \<open>\<open>BridgeRequest::wait\<close>: a received reply, a sender that is gone, or nothing yet.\<close>

definition receive :: "nat \<Rightarrow> client \<Rightarrow> client_step option" where
  "receive ch c =
    (case map_of (delivered c) ch of
       Some r \<Rightarrow> Some (goes_on [Return (Waited ch r)] c)
     | None \<Rightarrow>
         if ch \<in> set (senders c) then None
         else Some (goes_on [Return (Waited ch (Inl
           (case state_error c of
              Some e \<Rightarrow> e
            | None \<Rightarrow> Disconnected (msg ''response channel closed''))))] c))"

definition try_receive :: "nat \<Rightarrow> client \<Rightarrow> client_step" where
  "try_receive ch c =
    goes_on [Return (Waited ch (case map_of (delivered c) ch of Some r \<Rightarrow> r | None \<Rightarrow> Inl Timeout))] c"

subsection \<open>The handshake\<close>

definition handshake_status :: "client \<Rightarrow> client_step" where
  "handshake_status c =
    (case cl_state c of
       StReady \<Rightarrow> goes_on [Return (Finished (Inr ()))] c
     | StDisconnected e \<Rightarrow> goes_on [Return (Finished (Inl e))] c
     | StHandshaking \<Rightarrow> goes_on [SendCheck (frame_hello (cl_generation c)) SendHello] c)"

definition handshake_wait :: "client \<Rightarrow> client_step option" where
  "handshake_wait c =
    (case cl_state c of
       StReady \<Rightarrow> Some (goes_on [Return (Finished (Inr ()))] c)
     | StDisconnected e \<Rightarrow> Some (goes_on [Return (Finished (Inl e))] c)
     | StHandshaking \<Rightarrow> None)"

fun string_set :: "json list \<Rightarrow> (string, unit) btree option" where
  "string_set [] = Some []"
| "string_set (JStr s # vs) = map_option (bt_insert s ()) (string_set vs)"
| "string_set (v # vs) = None"

definition ready_capabilities :: "json \<Rightarrow> bridge_error + (string, unit) btree" where
  "ready_capabilities p =
    (case as_object p of
       None \<Rightarrow> Inl (Handshake (msg ''ready payload must be an object''))
     | Some obj \<Rightarrow>
         (case bt_get obj ''capabilities'' of
            None \<Rightarrow> Inr []
          | Some v \<Rightarrow>
              (case as_array v of
                 Some vs \<Rightarrow>
                   (case string_set vs of
                      Some caps \<Rightarrow> Inr caps
                    | None \<Rightarrow> Inl (Handshake (msg ''ready capabilities must be strings'')))
               | None \<Rightarrow> Inl (Handshake (msg ''ready capabilities must be an array'')))))"

definition mark_ready :: "json \<Rightarrow> client \<Rightarrow> client_step" where
  "mark_ready p c =
    (case ready_capabilities p of
       Inl e \<Rightarrow> goes_on [DisContext e] c
     | Inr caps \<Rightarrow>
         goes_on []
           (if cl_state c = StHandshaking
            then c\<lparr>extensions := caps, cl_state := StReady, was_ready := True\<rparr> else c))"

subsection \<open>Notifications\<close>

text \<open>\<open>heartbeat\<close> is \<open>notify\<close> of an empty heartbeat.\<close>

definition notify_ready :: "frame_kind \<Rightarrow> json \<Rightarrow> client \<Rightarrow> client_step" where
  "notify_ready k p c =
    (if is_request k \<or> k = ResponseFrame \<or> k = ErrorFrame \<or> k = CancelFrame
     then goes_on [Return (Finished (Inl (InvalidFrame
       [Text (kind_as_str k), Text '' is not a notification operation''])))] c
     else
       (case require_ready c of
          Inl e \<Rightarrow> goes_on [Return (Finished (Inl e))] c
        | Inr _ \<Rightarrow> goes_on [SendCheck (frame_new (cl_generation c) k p) SendPlain] c))"

text \<open>The end of \<open>close\<close>: a full queue or a stopped writer is ignored.\<close>

definition try_close :: "client \<Rightarrow> client" where
  "try_close c =
    (if writer_up c \<and> length (outgoing c) < queue_capacity (cl_config c)
     then c\<lparr>outgoing := outgoing c @ [OutClose]\<rparr> else c)"

subsection \<open>Dispatching what the peer sends\<close>

text \<open>\<open>request_id.expect(...)\<close> on a validated frame; the codec has checked that it is there.\<close>

definition frame_id :: "frame \<Rightarrow> u64" where
  "frame_id f = (case request_id f of Some i \<Rightarrow> i | None \<Rightarrow> 0)"

definition dispatched :: "frame \<Rightarrow> act" where
  "dispatched f =
    (case kind f of
       ReadyFrame \<Rightarrow> MarkReady (payload f)
     | HeartbeatFrame \<Rightarrow> Beat
     | LogFrame \<Rightarrow> CallLog (payload f)
     | ResponseFrame \<Rightarrow> Resolve (frame_id f) (Inr (payload f)) ByPeer
     | ErrorFrame \<Rightarrow> Resolve (frame_id f) (Inl (Remote (remote_error_from_payload (payload f)))) ByPeer
     | CancelFrame \<Rightarrow> Resolve (frame_id f) (Inl BridgeCancelled) (ByCancelFrame f)
     | _ \<Rightarrow> DispatchRequest f)"

definition dispatch :: "frame \<Rightarrow> client \<Rightarrow> client_step" where
  "dispatch f c =
    (let k = kind f in
     case cl_state c of
       StDisconnected _ \<Rightarrow> goes_on [] c
     | st \<Rightarrow>
         if st = StHandshaking \<and> k \<noteq> ReadyFrame \<and> k \<noteq> LogFrame
         then goes_on [DisContext (Handshake
           [Text ''received '', Text (kind_as_str k), Text '' instead of ready''])] c
         else if st \<noteq> StHandshaking \<and> (k = HelloFrame \<or> k = ReadyFrame)
         then goes_on [DisContext (Handshake
           [Text ''received duplicate '', Text (kind_as_str k), Text '' after ready''])] c
         else goes_on [dispatched f] c)"

definition is_cancellable :: "frame_kind \<Rightarrow> bool" where
  "is_cancellable k \<longleftrightarrow> k = PnpmRun \<or> k = ServiceCall \<or> k = ServiceProvide"

definition dispatch_request :: "frame \<Rightarrow> client \<Rightarrow> client_step" where
  "dispatch_request f c =
    (if cl_state c \<noteq> StReady
     then goes_on [DisContext (Handshake
       [Text ''received '', Text (kind_as_str (kind f)), Text '' before ready''])] c
     else if is_cancellable (kind f) then goes_on [Acquire f] c
     else goes_on [LookupHandler f True] c)"

text \<open>\<open>respond_request\<close>; \<open>show\<close> is the text of a symbolic message.\<close>

definition response_frame :: "(message \<Rightarrow> string) \<Rightarrow> u64 \<Rightarrow> frame \<Rightarrow> reply \<Rightarrow> frame" where
  "response_frame show generation f r =
    (case r of
       Inr p \<Rightarrow> frame_response generation (frame_id f) p
     | Inl (Remote e) \<Rightarrow> frame_error show generation (frame_id f) e
     | Inl e \<Rightarrow>
         frame_error show generation (frame_id f) (remote_error_new ''bridge_error'' (bridge_error_display e)))"

definition respond :: "(message \<Rightarrow> string) \<Rightarrow> frame \<Rightarrow> reply \<Rightarrow> client \<Rightarrow> client_step" where
  "respond show f r c = goes_on [SendCheck (response_frame show (cl_generation c) f r) SendQuiet] c"

text \<open>A permit is taken on the dispatcher's thread; the thread it spawns drops it at its end.\<close>

definition acquire :: "(message \<Rightarrow> string) \<Rightarrow> frame \<Rightarrow> client \<Rightarrow> client_step" where
  "acquire show f c =
    (if queue_capacity (cl_config c) \<le> length (cancellable c) then respond show f (Inl QueueFull) c
     else ([], [[LookupHandler f False, Release (frame_id f)]],
       c\<lparr>cancellable := bt_insert (frame_id f) False (cancellable c)\<rparr>))"

definition lookup_handler :: "(message \<Rightarrow> string) \<Rightarrow> frame \<Rightarrow> bool \<Rightarrow> client \<Rightarrow> client_step" where
  "lookup_handler show f inline c =
    (case cl_handler c of
       None \<Rightarrow> respond show f (Inl (Remote (remote_error_new ''unsupported_request''
         [Text ''no Rust handler is registered for '', Text (kind_as_str (kind f))]))) c
     | Some h \<Rightarrow> goes_on [AwaitHandler f inline] (log_call (CalledHandler h f) c))"

definition cancel_request :: "frame \<Rightarrow> client \<Rightarrow> client_step" where
  "cancel_request f c =
    (case bt_get (cancellable c) (frame_id f) of
       Some False \<Rightarrow> goes_on [CallCancel f] (c\<lparr>cancellable := bt_insert (frame_id f) True (cancellable c)\<rparr>)
     | _ \<Rightarrow> goes_on [] c)"

definition call_cancel :: "frame \<Rightarrow> client \<Rightarrow> client_step" where
  "call_cancel f c =
    (case cl_handler c of
       None \<Rightarrow> goes_on [] c
     | Some h \<Rightarrow> ([], [[AwaitCancel]], log_call (CalledCancel h f) c))"

subsection \<open>The effect of an action\<close>

record client_env =
  show_message :: "message \<Rightarrow> string"
  context_of :: "nat \<Rightarrow> bridge_error \<Rightarrow> bridge_error"

datatype input = Go | Elapsed | Answer reply | Panicked | At nat

fun run_act :: "client_env \<Rightarrow> act \<Rightarrow> client \<Rightarrow> client_step option" where
  "run_act env (RequestReady call) c = Some (request_ready call c)"
| "run_act env (TakeId call) c = Some (take_id call c)"
| "run_act env (InsertPending i call) c = Some (insert_pending i call c)"
| "run_act env (SendCheck f use) c = Some (send_check f use c)"
| "run_act env (TrySend f use) c = Some (try_send f use c)"
| "run_act env (Resolve i r use) c = Some (resolve_pending i r use c)"
| "run_act env (Deliver ch r) c = Some (goes_on [] (deliver_reply ch r c))"
| "run_act env (DisContext e) c = Some (disconnect_context (context_of env) e c)"
| "run_act env (DisState e) c = Some (disconnect_state e c)"
| "run_act env (DisPending e) c = Some (disconnect_pending e c)"
| "run_act env (CallDisconnect h e) c = Some (goes_on [] (log_call (CalledDisconnect h e) c))"
| "run_act env (ReadPrior h) c = Some (goes_on [StoreDisconnect h (state_error c)] c)"
| "run_act env (StoreDisconnect h prior) c =
    Some (goes_on (case prior of Some e \<Rightarrow> [CallDisconnect h e] | None \<Rightarrow> []) (c\<lparr>on_disconnect := Some h\<rparr>))"
| "run_act env (StoreHandler h) c = Some (goes_on [] (c\<lparr>cl_handler := Some h\<rparr>))"
| "run_act env (StoreLog h) c = Some (goes_on [] (c\<lparr>on_log := Some h\<rparr>))"
| "run_act env (StoreContext h) c = Some (goes_on [] (c\<lparr>error_context := Some h\<rparr>))"
| "run_act env (Receive i ch) c = receive ch c"
| "run_act env (TryReceive ch) c = Some (try_receive ch c)"
| "run_act env HandshakeStatus c = Some (handshake_status c)"
| "run_act env HandshakeWait c = handshake_wait c"
| "run_act env (NotifyReady k p) c = Some (notify_ready k p c)"
| "run_act env TryClose c = Some (goes_on [] (try_close c))"
| "run_act env WriterExit c = Some (goes_on [] (c\<lparr>writer_up := False\<rparr>))"
| "run_act env (Dispatch f) c = Some (dispatch f c)"
| "run_act env (MarkReady p) c = Some (mark_ready p c)"
| "run_act env (CallLog p) c =
    Some (goes_on [] (case on_log c of Some h \<Rightarrow> log_call (CalledLog h p) c | None \<Rightarrow> c))"
| "run_act env (DispatchRequest f) c = Some (dispatch_request f c)"
| "run_act env (Acquire f) c = Some (acquire (show_message env) f c)"
| "run_act env (LookupHandler f inline) c = Some (lookup_handler (show_message env) f inline c)"
| "run_act env (Release i) c = Some (goes_on [] (c\<lparr>cancellable := bt_remove i (cancellable c)\<rparr>))"
| "run_act env (CancelRequest f) c = Some (cancel_request f c)"
| "run_act env (CallCancel f) c = Some (call_cancel f c)"
| "run_act env (Return out) c = Some (goes_on [] (c\<lparr>outcomes := outcomes c @ [out]\<rparr>))"
| "run_act env _ c = None"

text \<open>A wait whose timeout has elapsed; a handler that returned or panicked; the clock.\<close>

fun elapsed_act :: "act \<Rightarrow> client \<Rightarrow> client_step option" where
  "elapsed_act (Receive i ch) c = Some (goes_on [Resolve i (Inl BridgeCancelled) (ByTimeout i ch)] c)"
| "elapsed_act HandshakeWait c =
    (if cl_state c = StHandshaking
     then Some (goes_on [Return (Finished (Inl (Handshake (msg ''timed out waiting for ready''))))] c)
     else None)"
| "elapsed_act _ c = None"

fun answer_act :: "client_env \<Rightarrow> reply \<Rightarrow> act \<Rightarrow> client \<Rightarrow> client_step option" where
  "answer_act env r (AwaitHandler f inline) c = Some (respond (show_message env) f r c)"
| "answer_act env r AwaitCancel c = Some (goes_on [] c)"
| "answer_act env r _ c = None"

text \<open>A panic on the dispatcher's thread ends it, and the reader notices.\<close>

fun panic_act :: "act \<Rightarrow> client \<Rightarrow> client_step option" where
  "panic_act (AwaitHandler f inline) c =
    Some (if inline then goes_on [DisContext (Disconnected (msg ''dispatcher thread stopped''))] (c\<lparr>reader_up := False\<rparr>)
          else goes_on [] c)"
| "panic_act AwaitCancel c = Some (goes_on [] c)"
| "panic_act _ c = None"

fun clock_act :: "nat \<Rightarrow> act \<Rightarrow> client \<Rightarrow> client_step option" where
  "clock_act now Beat c = Some (goes_on [] (c\<lparr>last_heartbeat := now\<rparr>))"
| "clock_act now _ c = None"

definition client_effect :: "client_env \<Rightarrow> (input, act, client) effect" where
  "client_effect env i a c =
    (case i of
       Go \<Rightarrow> run_act env a c
     | Elapsed \<Rightarrow> elapsed_act a c
     | Answer r \<Rightarrow> answer_act env r a c
     | Panicked \<Rightarrow> panic_act a c
     | At now \<Rightarrow> clock_act now a c)"

subsection \<open>The machine\<close>

text \<open>
  Thread 0 is the reader with its dispatcher: the reader waits until the dispatcher is done with
  a frame. Thread 1 is the writer. Every call of a client operation is a thread of its own; the
  reply channel of a request is the number of the thread that began it.
\<close>

datatype client_op =
    OpBegin frame_kind json
  | OpRequest frame_kind json
  | OpWait u64 nat
  | OpCancel u64
  | OpDrop u64
  | OpHandshake
  | OpNotify frame_kind json
  | OpHeartbeat
  | OpClose
  | OpSetHandler nat
  | OpSetLog nat
  | OpSetDisconnect nat
  | OpSetContext nat

fun op_acts :: "client_op \<Rightarrow> nat \<Rightarrow> act list" where
  "op_acts (OpBegin k p) t = [RequestReady \<lparr>bc_kind = k, bc_payload = p, bc_reply = t, bc_wait = False\<rparr>]"
| "op_acts (OpRequest k p) t = [RequestReady \<lparr>bc_kind = k, bc_payload = p, bc_reply = t, bc_wait = True\<rparr>]"
| "op_acts (OpWait i ch) t = [Receive i ch]"
| "op_acts (OpCancel i) t = [Resolve i (Inl BridgeCancelled) (ByCancel i)]"
| "op_acts (OpDrop i) t = [Resolve i (Inl BridgeCancelled) (ByCancel i)]"
| "op_acts OpHandshake t = [HandshakeStatus]"
| "op_acts (OpNotify k p) t = [NotifyReady k p]"
| "op_acts OpHeartbeat t = [NotifyReady HeartbeatFrame JNull]"
| "op_acts OpClose t = [DisContext (Disconnected (msg ''client closed'')), TryClose]"
| "op_acts (OpSetHandler h) t = [StoreHandler h]"
| "op_acts (OpSetLog h) t = [StoreLog h]"
| "op_acts (OpSetDisconnect h) t = [ReadPrior h]"
| "op_acts (OpSetContext h) t = [StoreContext h]"

datatype client_label =
    Call client_op
  | Step nat input
  | ReadNext "bridge_error + frame"
  | WriteNext "bridge_error option"

type_synonym bridge = "client \<times> act list list"

definition read_next :: "bridge_error + frame \<Rightarrow> bridge \<Rightarrow> bridge option" where
  "read_next r s =
    (case s of (c, ths) \<Rightarrow>
      case ths of
        [] # rest \<Rightarrow>
          if \<not> reader_up c then None
          else
            (case r of
               Inl e \<Rightarrow> Some (c\<lparr>reader_up := False\<rparr>, [DisContext e] # rest)
             | Inr f \<Rightarrow>
                 if connection_generation f = cl_generation c then Some (c, [Dispatch f] # rest)
                 else Some (c\<lparr>reader_up := False\<rparr>,
                   [DisContext (Generation (cl_generation c) (connection_generation f))] # rest))
      | _ \<Rightarrow> None)"

definition write_next :: "bridge_error option \<Rightarrow> bridge \<Rightarrow> bridge option" where
  "write_next fault s =
    (case s of (c, ths) \<Rightarrow>
      case (ths, outgoing c) of
        (dispatcher # [] # rest, m # ms) \<Rightarrow>
          if \<not> writer_up c then None
          else
            (case m of
               OutClose \<Rightarrow> Some (c\<lparr>outgoing := ms, writer_up := False\<rparr>, ths)
             | OutFrame f \<Rightarrow>
                 (case fault of
                    None \<Rightarrow> Some (c\<lparr>outgoing := ms, wire := wire c @ [f]\<rparr>, ths)
                  | Some e \<Rightarrow> Some (c\<lparr>outgoing := ms\<rparr>, dispatcher # [DisContext e, WriterExit] # rest)))
      | _ \<Rightarrow> None)"

fun bridge_exec :: "client_env \<Rightarrow> client_label \<Rightarrow> bridge \<Rightarrow> bridge option" where
  "bridge_exec env (Call op) s = Some (fst s, snd s @ [op_acts op (length (snd s))])"
| "bridge_exec env (Step t i) s = thread_step (client_effect env) t i s"
| "bridge_exec env (ReadNext r) s = read_next r s"
| "bridge_exec env (WriteNext fault) s = write_next fault s"

definition bridge_start :: "u64 \<Rightarrow> client_config \<Rightarrow> bridge \<Rightarrow> bool" where
  "bridge_start generation cfg s \<longleftrightarrow> client_from_io generation cfg = Inr (fst s) \<and> snd s = [[], []]"

abbreviation bridge_reach :: "client_env \<Rightarrow> u64 \<Rightarrow> client_config \<Rightarrow> bridge \<Rightarrow> bool" where
  "bridge_reach env generation cfg \<equiv> reach (bridge_start generation cfg) (exec_rel (bridge_exec env))"

end
