(* ===== verification/BridgeInv.thy ===== *)
theory BridgeInv
  imports Bridge
begin

section \<open>The bridge client: invariants\<close>

text \<open>
  Reply channels and request identifiers are tokens that the actions hand on, so that none is
  used twice and none is lost; what is sent before the connection is ready; the bounds of the
  queues; what is left to do after a disconnection. The properties are in BridgeProps.
\<close>

named_theorems client_defs \<open>the definitions of the actions\<close>

lemmas [client_defs] =
  request_ready_def take_id_def insert_pending_def send_check_def try_send_def sent_def
  resolve_pending_def resolved_use_def deliver_reply_def disconnect_context_def disconnect_state_def
  disconnect_pending_def log_call_def receive_def try_receive_def handshake_status_def
  handshake_wait_def mark_ready_def notify_ready_def try_close_def dispatch_def dispatch_request_def
  respond_def acquire_def lookup_handler_def cancel_request_def call_cancel_def Let_def

lemmas client_splits = if_splits option.splits sum.splits connection_state.splits send_use.splits resolve_use.splits bool.splits

lemma dispatched_cases:
  obtains "dispatched f = MarkReady (payload f)" "kind f = ReadyFrame"
  | "dispatched f = Beat"
  | "dispatched f = CallLog (payload f)" "kind f = LogFrame"
  | x use where "dispatched f = Resolve (frame_id f) x use" "use = ByPeer \<or> use = ByCancelFrame f"
  | "dispatched f = DispatchRequest f" "kind f \<noteq> LogFrame" "kind f \<noteq> ReadyFrame"
  by (cases "kind f") (auto simp: dispatched_def)

lemma client_effect_cases:
  assumes "client_effect env i a c = Some r"
  obtains (go) "run_act env a c = Some r"
    | (timeout) i ch where "a = Receive i ch" "r = goes_on [Resolve i (Inl BridgeCancelled) (ByTimeout i ch)] c"
    | (late) x where "a = HandshakeWait" "r = goes_on [Return (Finished x)] c"
    | (answered) f inline x where "a = AwaitHandler f inline" "r = respond (show_message env) f x c"
    | (cancelled) "a = AwaitCancel" "r = goes_on [] c"
    | (panicked) f where "a = AwaitHandler f True"
        "r = goes_on [DisContext (Disconnected (msg ''dispatcher thread stopped''))] (c\<lparr>reader_up := False\<rparr>)"
    | (worker) f where "a = AwaitHandler f False" "r = goes_on [] c"
    | (beat) now where "a = Beat" "r = goes_on [] (c\<lparr>last_heartbeat := now\<rparr>)"
proof (cases i)
  case Go
  then show ?thesis using assms go by (simp add: client_effect_def)
next
  case Elapsed
  then show ?thesis using assms timeout late
    by (cases a) (auto simp: client_effect_def split: if_splits)
next
  case (Answer x)
  then show ?thesis using assms answered cancelled
    by (cases a) (auto simp: client_effect_def split: if_splits)
next
  case Panicked
  then show ?thesis using assms panicked worker cancelled
    by (cases a) (auto simp: client_effect_def split: if_splits)
next
  case (At now)
  then show ?thesis using assms beat
    by (cases a) (auto simp: client_effect_def split: if_splits)
qed

subsection \<open>Reply channels\<close>

text \<open>How often a channel is pending, and was served.\<close>

definition uses :: "nat \<Rightarrow> (u64, nat) btree \<Rightarrow> nat" where
  "uses ch m = length (filter (\<lambda>x. snd x = ch) m)"

lemma uses_simps [simp]: "uses ch [] = 0" "uses ch (x # m) = (if snd x = ch then 1 else 0) + uses ch m"
  by (simp_all add: uses_def)

lemma uses_insert: "uses ch (bt_insert i ch' m) \<le> uses ch m + (if ch' = ch then 1 else 0)"
  by (induction m) auto

lemma uses_remove: "bt_get m i = Some ch' \<Longrightarrow> uses ch (bt_remove i m) + (if ch' = ch then 1 else 0) \<le> uses ch m"
proof (induction m)
  case Nil
  then show ?case by simp
next
  case (Cons x m)
  have "uses ch (bt_remove i m) \<le> uses ch m" by (induction m) (auto simp: bt_remove_def)
  then show ?case
    using Cons by (cases x) (auto simp: bt_get_def bt_remove_def split: if_splits)
qed

definition replies :: "nat \<Rightarrow> client \<Rightarrow> nat" where
  "replies ch c = length (filter (\<lambda>x. fst x = ch) (delivered c))"

fun holds_channel :: "nat \<Rightarrow> act \<Rightarrow> nat" where
  "holds_channel ch (RequestReady call) = (if bc_reply call = ch then 1 else 0)"
| "holds_channel ch (TakeId call) = (if bc_reply call = ch then 1 else 0)"
| "holds_channel ch (InsertPending i call) = (if bc_reply call = ch then 1 else 0)"
| "holds_channel ch (Deliver ch' r) = (if ch' = ch then 1 else 0)"
| "holds_channel ch _ = 0"

lemma weigh_deliveries:
  "weigh (holds_channel ch) (map (\<lambda>(i, ch'). Deliver ch' r) m) = uses ch m"
  by (induction m) auto

lemma holds_dispatched [simp]: "holds_channel ch (dispatched f) = 0"
  by (rule dispatched_cases [of f]) auto

lemma run_act_channels:
  assumes "run_act env a c = Some (acts, spawned, c')"
  shows "uses ch (pending c') + replies ch c' + weigh (holds_channel ch) acts + total (holds_channel ch) spawned
    \<le> uses ch (pending c) + replies ch c + holds_channel ch a"
proof (cases a)
  case (InsertPending i call)
  then show ?thesis
    using assms uses_insert [of ch i "bc_reply call" "pending c"]
    by (auto simp: client_defs replies_def split: if_splits)
next
  case (Resolve i r use)
  then show ?thesis
    using assms uses_remove [of "pending c" i _ ch]
    by (cases "bt_get (pending c) i") (auto simp: client_defs replies_def split: client_splits)
next
  case (DisPending e)
  then show ?thesis
    using assms by (auto simp: client_defs replies_def weigh_deliveries)
qed (use assms in \<open>auto simp: client_defs replies_def split: client_splits\<close>)

lemma client_effect_channels:
  assumes "client_effect env i a c = Some (acts, spawned, c')"
  shows "uses ch (pending c') + replies ch c' + weigh (holds_channel ch) acts + total (holds_channel ch) spawned
    \<le> uses ch (pending c) + replies ch c + holds_channel ch a"
  using assms
  by (cases rule: client_effect_cases) (auto simp: respond_def replies_def dest: run_act_channels [of env a c _ _ _ ch])

interpretation channels: thread_bound "client_effect env" "\<lambda>c. uses ch (pending c) + replies ch c"
    "holds_channel ch" "\<lambda>_ _. True"
  for env ch
  using client_effect_channels by unfold_locales (simp add: add.assoc)

subsection \<open>Request identifiers\<close>

definition keys :: "u64 \<Rightarrow> (u64, 'v) btree \<Rightarrow> nat" where
  "keys i m = length (filter (\<lambda>x. fst x = i) m)"

lemma keys_simps [simp]: "keys i [] = 0" "keys i (x # m) = (if fst x = i then 1 else 0) + keys i m"
  by (simp_all add: keys_def)

lemma keys_insert: "keys i (bt_insert j v m) \<le> keys i m + (if j = i then 1 else 0)"
  by (induction m) auto

lemma keys_remove: "keys i (bt_remove j m) \<le> keys i m"
  by (induction m) (auto simp: bt_remove_def)

lemma keys_get: "keys i m = 0 \<longleftrightarrow> bt_get m i = None"
  by (induction m) (auto simp: bt_get_def)

definition unissued :: "u64 \<Rightarrow> client \<Rightarrow> nat" where
  "unissued j c = (if next_request_id c \<le> j then 1 else 0)"

lemma unissued_next:
  assumes "unat (next_request_id c) + 2 \<le> unat max_bridge_request_id"
  shows "unissued j (c\<lparr>next_request_id := next_request_id c + 2\<rparr>) + (if next_request_id c = j then 1 else 0)
    \<le> unissued j c"
proof -
  have "unat (next_request_id c + 2) = unat (next_request_id c) + 2"
    using assms by (simp add: unat_word_ariths max_bridge_request_id_def)
  then show ?thesis by (auto simp: unissued_def word_le_nat_alt)
qed

fun inserts :: "u64 \<Rightarrow> act \<Rightarrow> nat" where
  "inserts j (InsertPending i call) = (if i = j then 1 else 0)"
| "inserts j _ = 0"

lemma inserts_dispatched [simp]: "inserts j (dispatched f) = 0"
  by (rule dispatched_cases [of f]) auto

lemma inserts_deliveries [simp]: "weigh (inserts j) (map (\<lambda>(i, ch). Deliver ch r) m) = 0"
  by (induction m) auto

lemma run_act_ids:
  assumes "run_act env a c = Some (acts, spawned, c')"
  shows "keys j (pending c') + unissued j c' + weigh (inserts j) acts + total (inserts j) spawned
    \<le> keys j (pending c) + unissued j c + inserts j a"
proof (cases a)
  case (InsertPending i call)
  then show ?thesis
    using assms keys_insert [of j i "bc_reply call" "pending c"]
    by (auto simp: client_defs unissued_def split: if_splits)
next
  case (TakeId call)
  then show ?thesis
    using assms unissued_next [of c j]
    by (auto simp: client_defs split: if_splits)
next
  case (Resolve i r use)
  then show ?thesis
    using assms keys_remove [of j i "pending c"]
    by (cases "bt_get (pending c) i") (auto simp: client_defs unissued_def split: client_splits)
qed (use assms in \<open>auto simp: client_defs unissued_def split: client_splits\<close>)

lemma client_effect_ids:
  assumes "client_effect env i a c = Some (acts, spawned, c')"
  shows "keys j (pending c') + unissued j c' + weigh (inserts j) acts + total (inserts j) spawned
    \<le> keys j (pending c) + unissued j c + inserts j a"
  using assms
  by (cases rule: client_effect_cases) (auto simp: respond_def unissued_def dest: run_act_ids [of env a c _ _ _ j])

interpretation ids: thread_bound "client_effect env" "\<lambda>c. keys j (pending c) + unissued j c" "inserts j" "\<lambda>_ _. True"
  for env j
  using client_effect_ids by unfold_locales (simp add: add.assoc)

text \<open>The request frames that carry an identifier: queued, written or about to be sent.\<close>

definition requests :: "u64 \<Rightarrow> frame \<Rightarrow> nat" where
  "requests j f = (if is_request (kind f) \<and> request_id f = Some j then 1 else 0)"

fun out_requests :: "u64 \<Rightarrow> outbound \<Rightarrow> nat" where
  "out_requests j (OutFrame f) = requests j f"
| "out_requests j OutClose = 0"

definition emitted :: "u64 \<Rightarrow> client \<Rightarrow> nat" where
  "emitted j c = sum_list (map (out_requests j) (outgoing c)) + sum_list (map (requests j) (wire c))"

fun emits :: "u64 \<Rightarrow> act \<Rightarrow> nat" where
  "emits j (InsertPending i call) = (if i = j then 1 else 0)"
| "emits j (SendCheck f use) = requests j f"
| "emits j (TrySend f use) = requests j f"
| "emits j _ = 0"

lemma emits_dispatched [simp]: "emits j (dispatched f) = 0"
  by (rule dispatched_cases [of f]) auto

lemma emits_deliveries [simp]: "weigh (emits j) (map (\<lambda>(i, ch). Deliver ch r) m) = 0"
  by (induction m) auto

lemma plain_frames [simp]:
  "requests j (frame_hello g) = 0" "requests j (frame_cancel g i) = 0"
  "requests j (response_frame show g f r) = 0"
  "\<not> is_request k \<Longrightarrow> requests j (frame_new g k p) = 0"
  "requests j (frame_request g i k p) = (if i = j \<and> is_request k then 1 else 0)"
  by (auto simp: requests_def frame_hello_def frame_cancel_def frame_request_def frame_new_def
      response_frame_def frame_response_def frame_error_def is_request_def split: sum.splits bridge_error.splits)

lemma run_act_emits:
  assumes "run_act env a c = Some (acts, spawned, c')"
  shows "emitted j c' + unissued j c' + weigh (emits j) acts + total (emits j) spawned
    \<le> emitted j c + unissued j c + emits j a"
proof (cases a)
  case (TakeId call)
  then show ?thesis
    using assms unissued_next [of c j]
    by (auto simp: client_defs emitted_def split: if_splits)
qed (use assms in \<open>auto simp: client_defs unissued_def emitted_def split: client_splits\<close>)

lemma client_effect_emits:
  assumes "client_effect env i a c = Some (acts, spawned, c')"
  shows "emitted j c' + unissued j c' + weigh (emits j) acts + total (emits j) spawned
    \<le> emitted j c + unissued j c + emits j a"
  using assms
  by (cases rule: client_effect_cases)
    (auto simp: respond_def unissued_def emitted_def dest: run_act_emits [of env a c _ _ _ j])

interpretation frames: thread_bound "client_effect env" "\<lambda>c. emitted j c + unissued j c" "emits j" "\<lambda>_ _. True"
  for env j
  using client_effect_emits by unfold_locales (simp add: add.assoc)

end
