(* ===== verification/BridgeRuns.thy ===== *)
theory BridgeRuns
  imports BridgeInv
begin

section \<open>The bridge client: runs\<close>

text \<open>
  The invariant of the shared state with what pending actions rely on, the measures of
  BridgeInv over whole runs, what keeps a request from being stranded, and the work that is
  left to the threads.
\<close>

subsection \<open>What the actions rely on\<close>

fun is_down :: "connection_state \<Rightarrow> bool" where
  "is_down (StDisconnected e) = True"
| "is_down _ = False"

abbreviation disconnected :: "client \<Rightarrow> bool" where
  "disconnected c \<equiv> is_down (cl_state c)"

lemma state_error_down [simp]: "disconnected c \<Longrightarrow> \<exists>e. state_error c = Some e"
  by (cases "cl_state c") (auto simp: state_error_def)

lemma state_error_None: "state_error c = None \<longleftrightarrow> \<not> disconnected c"
  by (cases "cl_state c") (auto simp: state_error_def)

definition request_ok :: "u64 \<Rightarrow> frame \<Rightarrow> bool" where
  "request_ok g f \<longleftrightarrow> connection_generation f = g
    \<and> (is_request (kind f) \<longrightarrow>
        (case request_id f of None \<Rightarrow> False | Some i \<Rightarrow> odd (unat i) \<and> i \<le> max_bridge_request_id))"

fun out_frames :: "outbound list \<Rightarrow> frame list" where
  "out_frames [] = []"
| "out_frames (OutFrame f # ms) = f # out_frames ms"
| "out_frames (OutClose # ms) = out_frames ms"

lemma out_frames_append [simp]: "out_frames (xs @ ys) = out_frames xs @ out_frames ys"
  by (induction xs rule: out_frames.induct) auto

definition sent_frames :: "client \<Rightarrow> frame list" where
  "sent_frames c = wire c @ out_frames (outgoing c)"

definition known :: "nat \<Rightarrow> client \<Rightarrow> bool" where
  "known ch c \<longleftrightarrow> ch \<in> set (senders c) \<or> 1 \<le> replies ch c"

definition begun :: "nat \<Rightarrow> client \<Rightarrow> bool" where
  "begun ch c \<longleftrightarrow> (\<exists>i. Began ch (Inr i) \<in> set (outcomes c))"

definition client_inv :: "u64 \<Rightarrow> client_config \<Rightarrow> client \<Rightarrow> bool" where
  "client_inv g cfg c \<longleftrightarrow>
    cl_generation c = g \<and> cl_config c = cfg
    \<and> odd (unat (next_request_id c)) \<and> next_request_id c \<le> max_bridge_request_id
    \<and> length (outgoing c) \<le> queue_capacity cfg
    \<and> length (pending c) \<le> pending_limit cfg
    \<and> length (cancellable c) \<le> queue_capacity cfg
    \<and> bt_wf (pending c) \<and> bt_wf (cancellable c)
    \<and> (cl_state c = StReady \<longrightarrow> was_ready c) \<and> (cl_state c = StHandshaking \<longrightarrow> \<not> was_ready c)
    \<and> (\<not> was_ready c \<longrightarrow> pending c = [] \<and> next_request_id c = 1 \<and> (\<forall>f\<in>set (sent_frames c). kind f = HelloFrame))
    \<and> (\<forall>f\<in>set (sent_frames c). request_ok g f)
    \<and> (\<forall>ch. begun ch c \<longrightarrow> known ch c)"

fun client_rely :: "u64 \<Rightarrow> client \<Rightarrow> act \<Rightarrow> bool" where
  "client_rely g c (TakeId call) \<longleftrightarrow> was_ready c"
| "client_rely g c (InsertPending i call) \<longleftrightarrow> was_ready c \<and> odd (unat i) \<and> i \<le> max_bridge_request_id"
| "client_rely g c (SendCheck f use) \<longleftrightarrow> request_ok g f \<and> (was_ready c \<or> kind f = HelloFrame)
    \<and> (case use of SendRequest i call \<Rightarrow> known (bc_reply call) c | _ \<Rightarrow> True)"
| "client_rely g c (TrySend f use) \<longleftrightarrow> request_ok g f \<and> (was_ready c \<or> kind f = HelloFrame)
    \<and> (case use of SendRequest i call \<Rightarrow> known (bc_reply call) c | _ \<Rightarrow> True)"
| "client_rely g c (DispatchRequest f) \<longleftrightarrow> was_ready c"
| "client_rely g c (Acquire f) \<longleftrightarrow> was_ready c"
| "client_rely g c (LookupHandler f inline) \<longleftrightarrow> was_ready c"
| "client_rely g c (AwaitHandler f inline) \<longleftrightarrow> was_ready c"
| "client_rely g c (Return out) \<longleftrightarrow> (case out of Began ch (Inr i) \<Rightarrow> known ch c | _ \<Rightarrow> True)"
| "client_rely g c (StoreDisconnect h prior) \<longleftrightarrow> prior = None \<or> disconnected c"
| "client_rely g c _ \<longleftrightarrow> True"

lemma known_deliver: "known ch c \<Longrightarrow> known ch (deliver_reply ch' r c)"
  by (auto simp: known_def deliver_reply_def replies_def)

text \<open>What stays true once it is.\<close>

lemma run_act_mono:
  assumes "run_act env a c = Some (acts, spawned, c')"
  shows "(was_ready c \<longrightarrow> was_ready c') \<and> (disconnected c \<longrightarrow> disconnected c') \<and> (known ch c \<longrightarrow> known ch c')
    \<and> cl_generation c' = cl_generation c \<and> cl_config c' = cl_config c"
proof (cases a)
  case (Deliver ch' r)
  then show ?thesis
    using assms known_deliver [of ch c ch' r]
    by (auto simp: deliver_reply_def)
qed (use assms in \<open>auto simp: client_defs known_def replies_def split: client_splits\<close>)

lemma client_effect_mono:
  assumes "client_effect env i a c = Some (acts, spawned, c')"
  shows "(was_ready c \<longrightarrow> was_ready c') \<and> (disconnected c \<longrightarrow> disconnected c') \<and> (known ch c \<longrightarrow> known ch c')
    \<and> cl_generation c' = cl_generation c \<and> cl_config c' = cl_config c"
  using assms
proof (cases rule: client_effect_cases)
  case go
  then show ?thesis by (rule run_act_mono)
qed (auto simp: respond_def known_def replies_def)

lemma rely_stable:
  assumes "client_effect env i a c = Some (acts, spawned, c')" and "client_rely g c b"
  shows "client_rely g c' b"
proof -
  note mono = client_effect_mono [OF assms(1)]
  show ?thesis
    using assms(2) mono
    by (cases b) (auto split: send_use.splits outcome.splits sum.splits)
qed

lemma request_ok_frames [simp]:
  "request_ok g (frame_hello g)" "request_ok g (frame_cancel g i)"
  "request_ok g (response_frame show g f r)"
  "\<not> is_request k \<Longrightarrow> request_ok g (frame_new g k p)"
  "request_ok g (frame_request g i k p) \<longleftrightarrow> (is_request k \<longrightarrow> odd (unat i) \<and> i \<le> max_bridge_request_id)"
  "kind (frame_hello g) = HelloFrame"
  by (auto simp: request_ok_def frame_hello_def frame_cancel_def frame_request_def frame_new_def
      response_frame_def frame_response_def frame_error_def is_request_def split: sum.splits bridge_error.splits)

lemma bt_get_nonempty: "bt_get m i = Some v \<Longrightarrow> m \<noteq> []"
  by auto

lemma is_down_simps:
  "\<not> is_down st \<longleftrightarrow> st = StHandshaking \<or> st = StReady"
  by (cases st) auto

lemma require_ready_ok: "require_ready c = Inr u \<longleftrightarrow> cl_state c = StReady"
  by (cases "cl_state c") (auto simp: require_ready_def)

lemma rely_dispatched:
  "was_ready c \<or> kind f = ReadyFrame \<or> kind f = LogFrame \<Longrightarrow> client_rely g c (dispatched f)"
  by (rule dispatched_cases [of f]) auto

lemma run_act_rely:
  assumes "run_act env a c = Some (acts, spawned, c')" and "client_inv g cfg c" and "client_rely g c a"
  shows "(\<forall>b\<in>set acts. client_rely g c' b) \<and> all_acts (client_rely g c') spawned"
proof -
  have gen: "cl_generation c = g" and ready: "cl_state c = StReady \<Longrightarrow> was_ready c"
    and none: "pending c \<noteq> [] \<Longrightarrow> was_ready c"
    and ids: "odd (unat (next_request_id c))" "next_request_id c \<le> max_bridge_request_id"
    using assms(2) by (auto simp: client_inv_def)
  show ?thesis
  proof (cases a)
    case (InsertPending i call)
    then show ?thesis
      using assms(1,3) gen by (auto simp: insert_pending_def known_def split: if_splits)
  next
    case (Resolve i r use)
    then show ?thesis
      using assms(1) none [OF bt_get_nonempty] gen
      by (cases "bt_get (pending c) i")
        (auto simp: resolve_pending_def resolved_use_def split: resolve_use.splits if_splits)
  next
    case (Dispatch f)
    then show ?thesis
      using assms(1) ready
      by (cases "cl_state c") (auto simp: dispatch_def Let_def rely_dispatched split: if_splits)
  next
    case (DisState e)
    then show ?thesis
      using assms(1) by (auto simp: disconnect_state_def split: connection_state.splits option.splits)
  next
    case (ReadPrior h)
    then show ?thesis
      using assms(1) by (auto simp: state_error_def split: connection_state.splits)
  next
    case (SendCheck f use)
    then show ?thesis
      using assms(1,3) by (auto simp: send_check_def sent_def split: option.splits send_use.splits)
  next
    case (TrySend f use)
    then show ?thesis
      using assms(1,3)
      by (cases use) (auto simp: try_send_def sent_def known_def replies_def Let_def split: if_splits)
  qed (use assms(1,3) gen ready ids in \<open>auto simp: client_defs require_ready_ok
      split: if_splits option.splits sum.splits connection_state.splits bool.splits\<close>)
qed

lemma bt_insert_length: "length (bt_insert k v m) \<le> Suc (length m)"
  by (induction m) auto

lemma bt_insert_present: "bt_wf m \<Longrightarrow> bt_get m k = Some w \<Longrightarrow> length (bt_insert k v m) \<le> length m"
proof (induction m)
  case Nil
  then show ?case by simp
next
  case (Cons e m)
  have "fst e < k" if "map_of m k = Some w"
    using that Cons.prems(1) map_of_SomeD [OF that] by (auto simp: bt_wf_def)
  then show ?case
    using Cons by (cases e) (auto simp: bt_get_def bt_wf_def split: if_splits)
qed

lemma bt_remove_length: "length (bt_remove k m) \<le> length m"
  by (simp add: bt_remove_def)

lemma next_id_odd:
  assumes "odd (unat (i :: u64))" and "unat i + 2 \<le> unat max_bridge_request_id"
  shows "odd (unat (i + 2)) \<and> i + 2 \<le> max_bridge_request_id"
proof -
  have "unat (i + 2) = unat i + 2"
    using assms(2) by (simp add: unat_word_ariths max_bridge_request_id_def)
  then show ?thesis using assms by (simp add: word_le_nat_alt)
qed

lemma known_fields [simp]:
  "known ch (c\<lparr>next_request_id := n\<rparr>) = known ch c" "known ch (c\<lparr>outgoing := ms\<rparr>) = known ch c"
  "known ch (c\<lparr>pending := m\<rparr>) = known ch c" "known ch (c\<lparr>cl_state := st\<rparr>) = known ch c"
  "known ch (c\<lparr>cancellable := cs\<rparr>) = known ch c" "known ch (c\<lparr>outcomes := os\<rparr>) = known ch c"
  "known ch (c\<lparr>wire := fs\<rparr>) = known ch c" "known ch (c\<lparr>was_ready := b\<rparr>) = known ch c"
  "known ch (c\<lparr>extensions := ex\<rparr>) = known ch c" "known ch (c\<lparr>writer_up := b\<rparr>) = known ch c"
  "known ch (c\<lparr>reader_up := b\<rparr>) = known ch c"
  by (simp_all add: known_def replies_def)

lemma begun_fields [simp]:
  "begun ch (c\<lparr>next_request_id := n\<rparr>) = begun ch c" "begun ch (c\<lparr>outgoing := ms\<rparr>) = begun ch c"
  "begun ch (c\<lparr>pending := m\<rparr>) = begun ch c" "begun ch (c\<lparr>cl_state := st\<rparr>) = begun ch c"
  "begun ch (c\<lparr>cancellable := cs\<rparr>) = begun ch c" "begun ch (c\<lparr>wire := fs\<rparr>) = begun ch c"
  "begun ch (c\<lparr>was_ready := b\<rparr>) = begun ch c" "begun ch (c\<lparr>extensions := ex\<rparr>) = begun ch c"
  "begun ch (c\<lparr>writer_up := b\<rparr>) = begun ch c" "begun ch (c\<lparr>reader_up := b\<rparr>) = begun ch c"
  "begun ch (c\<lparr>senders := ss\<rparr>) = begun ch c"
  by (simp_all add: begun_def)

lemma begun_outcome:
  "begun ch (c\<lparr>outcomes := outcomes c @ [out]\<rparr>) \<longleftrightarrow> begun ch c \<or> (\<exists>i. out = Began ch (Inr i))"
  by (auto simp: begun_def)

lemma known_insert [simp]:
  "known ch (c\<lparr>pending := m, senders := ch' # senders c\<rparr>) \<longleftrightarrow> ch = ch' \<or> known ch c"
  by (auto simp: known_def replies_def)

text \<open>The callbacks, the logs and the liveness of the threads do not matter.\<close>

lemma client_inv_fields [simp]:
  "client_inv g cfg (c\<lparr>calls := xs\<rparr>) = client_inv g cfg c"
  "client_inv g cfg (c\<lparr>on_disconnect := h\<rparr>) = client_inv g cfg c"
  "client_inv g cfg (c\<lparr>cl_handler := h\<rparr>) = client_inv g cfg c"
  "client_inv g cfg (c\<lparr>on_log := h\<rparr>) = client_inv g cfg c"
  "client_inv g cfg (c\<lparr>error_context := h\<rparr>) = client_inv g cfg c"
  "client_inv g cfg (c\<lparr>last_heartbeat := n\<rparr>) = client_inv g cfg c"
  "client_inv g cfg (c\<lparr>writer_up := b\<rparr>) = client_inv g cfg c"
  "client_inv g cfg (c\<lparr>reader_up := b\<rparr>) = client_inv g cfg c"
  by (simp_all add: client_inv_def sent_frames_def known_def replies_def begun_def)

lemma deliver_inv: "client_inv g cfg c \<Longrightarrow> client_inv g cfg (deliver_reply ch r c)"
  using known_deliver [of _ c ch r]
  by (simp add: client_inv_def sent_frames_def begun_def) (simp add: deliver_reply_def)

lemmas client_inv_unfold = client_inv_def sent_frames_def

lemma next_inv:
  assumes "client_inv g cfg c" and "was_ready c"
    and "unat (next_request_id c) + 2 \<le> unat max_bridge_request_id"
  shows "client_inv g cfg (c\<lparr>next_request_id := next_request_id c + 2\<rparr>)"
  using assms next_id_odd [of "next_request_id c"] by (simp add: client_inv_unfold)

lemma insert_inv:
  assumes "client_inv g cfg c" and "was_ready c" and "length (pending c) < pending_limit cfg"
  shows "client_inv g cfg (c\<lparr>pending := bt_insert i ch (pending c), senders := ch # senders c\<rparr>)"
  using assms bt_insert_length [of i ch "pending c"] by (simp add: client_inv_unfold)

lemma outgoing_inv:
  assumes "client_inv g cfg c" and "length (outgoing c) < queue_capacity cfg"
    and "\<forall>f\<in>set (out_frames [m]). request_ok g f \<and> (was_ready c \<or> kind f = HelloFrame)"
  shows "client_inv g cfg (c\<lparr>outgoing := outgoing c @ [m]\<rparr>)"
  using assms by (simp add: client_inv_unfold) blast

lemma unpend_inv: "client_inv g cfg c \<Longrightarrow> client_inv g cfg (c\<lparr>pending := bt_remove i (pending c)\<rparr>)"
  using bt_remove_length [of i "pending c"] bt_remove_length [of i "[] :: (u64, nat) btree"]
  by (simp add: client_inv_unfold)

lemma clear_inv: "client_inv g cfg c \<Longrightarrow> client_inv g cfg (c\<lparr>pending := []\<rparr>)"
  by (simp add: client_inv_unfold)

lemma down_inv: "client_inv g cfg c \<Longrightarrow> client_inv g cfg (c\<lparr>cl_state := StDisconnected e\<rparr>)"
  by (simp add: client_inv_unfold)

lemma ready_inv:
  "client_inv g cfg c \<Longrightarrow> client_inv g cfg (c\<lparr>extensions := ex, cl_state := StReady, was_ready := True\<rparr>)"
  by (simp add: client_inv_unfold)

lemma cancellable_inv:
  "client_inv g cfg c \<Longrightarrow> bt_wf m \<Longrightarrow> length m \<le> queue_capacity cfg \<Longrightarrow> client_inv g cfg (c\<lparr>cancellable := m\<rparr>)"
  by (simp add: client_inv_unfold)

lemma outcome_inv:
  "client_inv g cfg c \<Longrightarrow> (\<And>ch i. out = Began ch (Inr i) \<Longrightarrow> known ch c) \<Longrightarrow>
    client_inv g cfg (c\<lparr>outcomes := outcomes c @ [out]\<rparr>)"
  by (auto simp: client_inv_unfold begun_outcome)

lemma run_act_inv:
  assumes "run_act env a c = Some (acts, spawned, c')" and "client_inv g cfg c" and "client_rely g c a"
  shows "client_inv g cfg c'"
proof -
  have cfg: "cl_config c = cfg" and wf: "bt_wf (cancellable c)"
    and room: "length (cancellable c) \<le> queue_capacity cfg"
    using assms(2) by (simp_all add: client_inv_def)
  show ?thesis
  proof (cases a)
    case (TakeId call)
    then show ?thesis
      using assms next_inv [OF assms(2)] by (auto simp: take_id_def Let_def split: if_splits)
  next
    case (InsertPending i call)
    then show ?thesis
      using assms insert_inv [OF assms(2)] cfg by (auto simp: insert_pending_def split: if_splits)
  next
    case (TrySend f use)
    then show ?thesis
      using assms outgoing_inv [OF assms(2), of "OutFrame f"] cfg
      by (auto simp: try_send_def Let_def split: if_splits)
  next
    case (Resolve i r use)
    then show ?thesis
      using assms(1,2) unpend_inv [OF assms(2)] by (auto simp: resolve_pending_def split: option.splits)
  next
    case (DisState e)
    then show ?thesis
      using assms(1,2) down_inv [OF assms(2)] by (auto simp: disconnect_state_def split: connection_state.splits)
  next
    case (DisPending e)
    then show ?thesis using assms(1) clear_inv [OF assms(2)] by (auto simp: disconnect_pending_def)
  next
    case (Deliver ch r)
    then show ?thesis using assms(1) deliver_inv [OF assms(2)] by auto
  next
    case (MarkReady p)
    then show ?thesis
      using assms(1,2) ready_inv [OF assms(2)] by (auto simp: mark_ready_def split: sum.splits if_splits)
  next
    case TryClose
    then show ?thesis
      using assms(1,2) outgoing_inv [OF assms(2), of OutClose] cfg by (auto simp: try_close_def)
  next
    case (Acquire f)
    then show ?thesis
      using assms(1,2) cancellable_inv [OF assms(2)] bt_insert_length [of "frame_id f" False "cancellable c"] cfg wf
      by (auto simp: acquire_def respond_def split: if_splits)
  next
    case (Release i)
    then show ?thesis
      using assms(1) cancellable_inv [OF assms(2)] bt_remove_length [of i "cancellable c"] wf room by auto
  next
    case (CancelRequest f)
    then show ?thesis
      using assms(1,2) cancellable_inv [OF assms(2)] bt_insert_present [OF wf, of "frame_id f" _ True] wf room
      by (cases "bt_get (cancellable c) (frame_id f)")
        (auto simp: cancel_request_def split: bool.splits)
  next
    case (Return out)
    then show ?thesis
      using assms(1,3) outcome_inv [OF assms(2), of out] by (auto split: outcome.splits sum.splits)
  qed (use assms(1,2) in \<open>auto simp: client_defs
      split: if_splits option.splits sum.splits connection_state.splits bool.splits send_use.splits\<close>)
qed

lemma client_effect_inv:
  assumes "client_effect env i a c = Some (acts, spawned, c')" and "client_inv g cfg c" and "client_rely g c a"
  shows "client_inv g cfg c' \<and> (\<forall>b\<in>set acts. client_rely g c' b) \<and> all_acts (client_rely g c') spawned"
  using assms(1)
proof (cases rule: client_effect_cases)
  case go
  then show ?thesis using run_act_inv run_act_rely assms(2,3) by blast
next
  case (answered f inline x)
  then show ?thesis
    using assms(2,3) by (auto simp: respond_def client_inv_def)
qed (use assms(2) in \<open>auto split: outcome.splits sum.splits\<close>)

interpretation shared: thread_invariant "client_effect env" "client_inv g cfg" "client_rely g"
  for env g cfg
  using client_effect_inv rely_stable by unfold_locales blast+

subsection \<open>Runs of the machine\<close>

text \<open>A read or a write of the transport: what it changes and the thread it gives work to.\<close>

definition io_change :: "client \<Rightarrow> client \<Rightarrow> bool" where
  "io_change c c' \<longleftrightarrow> c' = c \<or> c' = c\<lparr>reader_up := False\<rparr>
    \<or> (\<exists>ms. outgoing c = OutClose # ms \<and> c' = c\<lparr>outgoing := ms, writer_up := False\<rparr>)
    \<or> (\<exists>f ms. outgoing c = OutFrame f # ms \<and>
        (c' = c\<lparr>outgoing := ms\<rparr> \<or> c' = c\<lparr>outgoing := ms, wire := wire c @ [f]\<rparr>))"

definition io_acts :: "act list \<Rightarrow> bool" where
  "io_acts acts \<longleftrightarrow> acts = [] \<or> (\<exists>f. acts = [Dispatch f]) \<or> (\<exists>e. acts = [DisContext e])
    \<or> (\<exists>e. acts = [DisContext e, WriterExit])"

lemma read_next_cases:
  assumes "read_next r (c, ths) = Some (c', ths')"
  obtains rest x where "ths = [] # rest" "ths' = [x] # rest" "c' = c \<or> c' = c\<lparr>reader_up := False\<rparr>"
    "(\<exists>f. x = Dispatch f) \<or> (\<exists>e. x = DisContext e)"
  using assms by (auto simp: read_next_def split: list.splits if_splits sum.splits)

lemma write_next_cases:
  assumes "write_next fault (c, ths) = Some (c', ths')"
  obtains (closed) d rest ms where "ths = d # [] # rest" "outgoing c = OutClose # ms"
      "c' = c\<lparr>outgoing := ms, writer_up := False\<rparr>" "ths' = ths"
  | (wrote) d rest f ms where "ths = d # [] # rest" "outgoing c = OutFrame f # ms"
      "c' = c\<lparr>outgoing := ms, wire := wire c @ [f]\<rparr>" "ths' = ths"
  | (failed) d rest f ms e where "ths = d # [] # rest" "outgoing c = OutFrame f # ms"
      "c' = c\<lparr>outgoing := ms\<rparr>" "ths' = d # [DisContext e, WriterExit] # rest"
proof -
  from assms obtain d rest m ms where w: "ths = d # [] # rest" "outgoing c = m # ms" "writer_up c"
    by (cases ths; cases "tl ths"; cases "hd (tl ths)"; cases "outgoing c")
      (simp_all add: write_next_def split: if_splits)
  show thesis
  proof (cases m)
    case OutClose
    then show ?thesis using closed [of d rest ms] assms w by (simp add: write_next_def)
  next
    case (OutFrame f)
    show ?thesis
    proof (cases fault)
      case None
      then have "c' = c\<lparr>outgoing := ms, wire := wire c @ [f]\<rparr> \<and> ths' = ths"
        using assms w OutFrame unfolding write_next_def by simp
      then show ?thesis using wrote w(1,2) OutFrame by blast
    next
      case (Some e)
      then have "c' = c\<lparr>outgoing := ms\<rparr> \<and> ths' = d # [DisContext e, WriterExit] # rest"
        using assms w OutFrame unfolding write_next_def by simp
      then show ?thesis using failed w(1,2) OutFrame by blast
    qed
  qed
qed

lemma bridge_exec_cases:
  assumes "bridge_exec env l (c, ths) = Some (c', ths')"
  obtains (call) op where "l = Call op" "c' = c" "ths' = ths @ [op_acts op (length ths)]"
  | (step) t i where "l = Step t i" "thread_step (client_effect env) t i (c, ths) = Some (c', ths')"
  | (io) t acts where "\<And>op. l \<noteq> Call op" "t < length ths" "ths ! t = []" "ths' = ths[t := acts]"
      "io_acts acts" "io_change c c'"
proof (cases l)
  case (Call op)
  then show ?thesis using assms call by simp
next
  case (Step t i)
  then show ?thesis using assms step by simp
next
  case (ReadNext r)
  then have "read_next r (c, ths) = Some (c', ths')" using assms by simp
  then show ?thesis
  proof (cases rule: read_next_cases)
    case (1 rest x)
    have "io_acts [x]" using 1(4) by (auto simp: io_acts_def)
    moreover have "io_change c c'" using 1(3) by (auto simp: io_change_def)
    ultimately show ?thesis using io [of 0 "[x]"] 1(1,2) ReadNext by simp
  qed
next
  case (WriteNext fault)
  then have "write_next fault (c, ths) = Some (c', ths')" using assms by simp
  then show ?thesis
  proof (cases rule: write_next_cases)
    case (closed d rest ms)
    have "io_change c c'" using closed(2,3) unfolding io_change_def by blast
    then show ?thesis using io [of 1 "[]"] closed(1,4) WriteNext by (simp add: io_acts_def)
  next
    case (wrote d rest f ms)
    have "io_change c c'" using wrote(2,3) unfolding io_change_def by blast
    then show ?thesis using io [of 1 "[]"] wrote(1,4) WriteNext by (simp add: io_acts_def)
  next
    case (failed d rest f ms e)
    have "io_change c c'" using failed(2,3) unfolding io_change_def by blast
    then show ?thesis
      using io [of 1 "[DisContext e, WriterExit]"] failed(1,4) WriteNext by (simp add: io_acts_def)
  qed
qed

lemma total_idle: "t < length ths \<Longrightarrow> ths ! t = [] \<Longrightarrow> total w (ths[t := acts]) = total w ths + weigh w acts"
  using total_update [of t ths w acts] by simp

text \<open>A measure of the actions over a step of the machine: only new calls may add to it.\<close>

lemma bridge_measure:
  assumes "bridge_exec env l (c, ths) = Some (c', ths')"
    and "thread_bound (client_effect env) core w (\<lambda>_ _. True)"
    and "io_change c c' \<Longrightarrow> core c' \<le> core c" and "\<And>acts. io_acts acts \<Longrightarrow> weigh w acts = 0"
  shows "core c' + total w ths' \<le>
    core c + total w ths + (case l of Call op \<Rightarrow> weigh w (op_acts op (length ths)) | _ \<Rightarrow> 0)"
  using assms(1)
proof (cases rule: bridge_exec_cases)
  case (call op)
  then show ?thesis by simp
next
  case (step t i)
  then show ?thesis
    using thread_bound.step_bound [OF assms(2) _ step(2)] by (simp add: all_acts_def)
next
  case (io t acts)
  then show ?thesis
    using assms(3,4) total_idle [of t ths w acts] by simp
qed

lemma io_weights [simp]:
  assumes "io_acts acts"
  shows "weigh (holds_channel ch) acts = 0" "weigh (inserts j) acts = 0" "weigh (emits j) acts = 0"
  using assms by (auto simp: io_acts_def)

lemma io_client:
  assumes "io_change c c'"
  shows "pending c' = pending c" "replies ch c' = replies ch c" "unissued j c' = unissued j c"
    "emitted j c' \<le> emitted j c" "cl_state c' = cl_state c" "senders c' = senders c" "outcomes c' = outcomes c"
    "calls c' = calls c" "on_disconnect c' = on_disconnect c" "was_ready c' = was_ready c"
    "known ch c' = known ch c"
  using assms by (auto simp: io_change_def replies_def unissued_def emitted_def known_def)

lemma popped_inv:
  assumes "client_inv g cfg c" and "outgoing c = m # ms"
  shows "client_inv g cfg (c\<lparr>outgoing := ms\<rparr>)"
  using assms by (cases m) (simp_all add: client_inv_unfold)

lemma wrote_inv:
  assumes "client_inv g cfg c" and "outgoing c = OutFrame f # ms"
  shows "client_inv g cfg (c\<lparr>outgoing := ms, wire := wire c @ [f]\<rparr>)"
  using assms by (simp add: client_inv_unfold)

lemma io_inv:
  assumes "io_change c c'" and "client_inv g cfg c"
  shows "client_inv g cfg c'"
proof -
  consider "c' = c" | "c' = c\<lparr>reader_up := False\<rparr>"
    | m ms where "outgoing c = m # ms" "c' = c\<lparr>outgoing := ms\<rparr> \<or> c' = c\<lparr>outgoing := ms, writer_up := False\<rparr>"
    | f ms where "outgoing c = OutFrame f # ms" "c' = c\<lparr>outgoing := ms, wire := wire c @ [f]\<rparr>"
    using assms(1) unfolding io_change_def by blast
  then show ?thesis
    using assms(2) popped_inv [OF assms(2)] wrote_inv [OF assms(2)] by cases auto
qed

lemma io_rely: "io_change c c' \<Longrightarrow> client_rely g c a \<Longrightarrow> client_rely g c' a"
  by (cases a) (auto simp: io_client split: send_use.splits outcome.splits sum.splits)

definition bridge_inv :: "u64 \<Rightarrow> client_config \<Rightarrow> bridge \<Rightarrow> bool" where
  "bridge_inv g cfg s \<longleftrightarrow> (case s of (c, ths) \<Rightarrow>
    client_inv g cfg c \<and> all_acts (client_rely g c) ths
    \<and> (\<forall>ch. uses ch (pending c) + replies ch c + total (holds_channel ch) ths \<le> (if ch < length ths then 1 else 0))
    \<and> (\<forall>j. keys j (pending c) + unissued j c + total (inserts j) ths \<le> 1)
    \<and> (\<forall>j. emitted j c + unissued j c + total (emits j) ths \<le> 1))"

lemma op_acts_weights [simp]:
  "weigh (inserts j) (op_acts op t) = 0" "weigh (emits j) (op_acts op t) = 0"
  by (cases op; simp)+

lemma op_acts_channel: "weigh (holds_channel ch) (op_acts op t) \<le> (if ch = t then 1 else 0)"
  by (cases op) simp_all

lemma op_acts_rely: "\<forall>a\<in>set (op_acts op t). client_rely g c a"
  by (cases op) auto

lemma length_grows: "bridge_exec env l (c, ths) = Some (c', ths') \<Longrightarrow> length ths \<le> length ths'"
  by (erule bridge_exec_cases) (auto elim: thread_step_cases)

lemma bridge_inv_step:
  assumes "bridge_exec env l (c, ths) = Some (c', ths')" and "bridge_inv g cfg (c, ths)"
  shows "bridge_inv g cfg (c', ths')"
proof -
  have inv: "client_inv g cfg c" "all_acts (client_rely g c) ths"
    and ch: "\<And>ch. uses ch (pending c) + replies ch c + total (holds_channel ch) ths \<le> (if ch < length ths then 1 else 0)"
    and ids: "\<And>j. keys j (pending c) + unissued j c + total (inserts j) ths \<le> 1"
    and ems: "\<And>j. emitted j c + unissued j c + total (emits j) ths \<le> 1"
    using assms(2) by (auto simp: bridge_inv_def)
  have "client_inv g cfg c' \<and> all_acts (client_rely g c') ths'"
    using assms(1)
  proof (cases rule: bridge_exec_cases)
    case (call op)
    then show ?thesis using inv op_acts_rely by simp
  next
    case (step t i)
    then show ?thesis using shared.step_inv [OF inv step(2)] by blast
  next
    case (io t acts)
    have "\<forall>a\<in>set acts. client_rely g c' a" using io(5) by (auto simp: io_acts_def)
    then have "all_acts (client_rely g c') ths'"
      using inv(2) io_rely [OF io(6)] set_update_subset_insert [of ths t acts] io(4) unfolding all_acts_def by fastforce
    then show ?thesis using io_inv [OF io(6) inv(1)] by simp
  qed
  moreover have "uses ch (pending c') + replies ch c' + total (holds_channel ch) ths' \<le> (if ch < length ths' then 1 else 0)" for ch
  proof -
    have m: "uses ch (pending c') + replies ch c' + total (holds_channel ch) ths' \<le>
        uses ch (pending c) + replies ch c + total (holds_channel ch) ths
        + (case l of Call op \<Rightarrow> weigh (holds_channel ch) (op_acts op (length ths)) | _ \<Rightarrow> 0)"
      by (rule bridge_measure [OF assms(1) channels.thread_bound_axioms]) (simp_all add: io_client)
    show ?thesis
    proof (cases l)
      case (Call op)
      then have "length ths' = Suc (length ths)" using assms(1) by auto
      then show ?thesis
        using m ch [of ch] op_acts_channel [of ch op "length ths"] Call by (simp split: if_splits)
    qed (use m ch [of ch] length_grows [OF assms(1)] in \<open>simp_all split: if_splits\<close>)
  qed
  moreover have "keys j (pending c') + unissued j c' + total (inserts j) ths' \<le> 1" for j
  proof -
    have "keys j (pending c') + unissued j c' + total (inserts j) ths' \<le>
        keys j (pending c) + unissued j c + total (inserts j) ths
        + (case l of Call op \<Rightarrow> weigh (inserts j) (op_acts op (length ths)) | _ \<Rightarrow> 0)"
      by (rule bridge_measure [OF assms(1) ids.thread_bound_axioms]) (simp_all add: io_client)
    then show ?thesis using ids [of j] by (cases l) simp_all
  qed
  moreover have "emitted j c' + unissued j c' + total (emits j) ths' \<le> 1" for j
  proof -
    have "emitted j c' + unissued j c' + total (emits j) ths' \<le>
        emitted j c + unissued j c + total (emits j) ths
        + (case l of Call op \<Rightarrow> weigh (emits j) (op_acts op (length ths)) | _ \<Rightarrow> 0)"
      by (rule bridge_measure [OF assms(1) frames.thread_bound_axioms]) (simp_all add: io_client)
    then show ?thesis using ems [of j] by (cases l) simp_all
  qed
  ultimately show ?thesis by (simp add: bridge_inv_def)
qed


lemma bridge_start_client:
  assumes "bridge_start g cfg (c, ths)"
  shows "client_from_io g cfg = Inr c" "ths = [[], []]" "0 < queue_capacity cfg"
  using assms by (auto simp: bridge_start_def client_from_io_def client_codec_def split: if_splits)

lemma fresh_inv: "client_from_io g cfg = Inr c \<Longrightarrow> client_inv g cfg c"
  by (auto simp: client_from_io_def client_inv_def sent_frames_def begun_def max_bridge_request_id_def
      bt_wf_def try_bind_eq_Inr split: if_splits)

lemma bridge_start_inv: "bridge_start g cfg s \<Longrightarrow> bridge_inv g cfg s"
proof (cases s)
  case (Pair c ths)
  assume start: "bridge_start g cfg s"
  then have "client_from_io g cfg = Inr c" "ths = [[], []]"
    using bridge_start_client Pair by auto
  moreover from this(1) have "pending c = []" "delivered c = []" "outgoing c = []" "wire c = []"
    by (auto simp: client_from_io_def try_bind_eq_Inr split: if_splits)
  ultimately show ?thesis
    using fresh_inv Pair by (auto simp: bridge_inv_def replies_def emitted_def unissued_def)
qed

interpretation bridge: transition_invariant "bridge_start g cfg" "exec_rel (bridge_exec env)" "bridge_inv g cfg"
  for g cfg env
  using bridge_start_inv bridge_inv_step by unfold_locales (auto simp: exec_rel_def)

subsection \<open>Nobody waits for ever\<close>

text \<open>Pending actions that will take a request out of the pending ones after a disconnection.\<close>

fun drains :: "u64 \<Rightarrow> act \<Rightarrow> nat" where
  "drains j (DisPending e) = 1"
| "drains j (SendCheck f (SendRequest i call)) = (if i = j then 1 else 0)"
| "drains j (Resolve i r use) = (if i = j then 1 else 0)"
| "drains j _ = 0"

lemma bt_get_remove_other: "bt_get (bt_remove i m) j = (if i = j then None else bt_get m j)"
  by simp

definition stranded :: "u64 \<Rightarrow> client \<Rightarrow> bool" where
  "stranded j c \<longleftrightarrow> disconnected c \<and> bt_get (pending c) j \<noteq> None"

lemma run_act_drains:
  assumes "run_act env a c = Some (acts, spawned, c')" and "stranded j c'"
  shows "stranded j c \<and> drains j a \<le> weigh (drains j) acts + total (drains j) spawned
    \<or> 1 \<le> weigh (drains j) acts + total (drains j) spawned"
proof (cases a)
  case (SendCheck f use)
  then show ?thesis
    using assms
    by (cases use) (auto simp: send_check_def sent_def stranded_def state_error_None split: option.splits)
next
  case (Resolve i r use)
  then show ?thesis
    using assms
    by (cases "bt_get (pending c) i") (auto simp: resolve_pending_def stranded_def split: if_splits)
next
  case (TrySend f use)
  then show ?thesis
    using assms by (auto simp: try_send_def stranded_def Let_def split: if_splits)
qed (use assms in \<open>auto simp: client_defs stranded_def split: client_splits\<close>)

lemma client_effect_drains:
  assumes "client_effect env i a c = Some (acts, spawned, c')" and "stranded j c'"
  shows "stranded j c \<and> drains j a \<le> weigh (drains j) acts + total (drains j) spawned
    \<or> 1 \<le> weigh (drains j) acts + total (drains j) spawned"
  using assms(1)
proof (cases rule: client_effect_cases)
  case go
  then show ?thesis using run_act_drains assms(2) by blast
qed (use assms(2) in \<open>auto simp: respond_def stranded_def\<close>)

interpretation drain: thread_guard "client_effect env" "stranded j" "\<lambda>_. 0" "drains j" "\<lambda>_ _. True"
  for env j
  using client_effect_drains by unfold_locales fastforce

text \<open>A sender is in the pending requests or on its way to deliver.\<close>

fun delivers :: "nat \<Rightarrow> act \<Rightarrow> nat" where
  "delivers ch (Deliver ch' r) = (if ch' = ch then 1 else 0)"
| "delivers ch _ = 0"

fun fresh_key :: "client \<Rightarrow> act \<Rightarrow> bool" where
  "fresh_key c (InsertPending i call) \<longleftrightarrow> bt_get (pending c) i = None"
| "fresh_key c (Resolve i r use) \<longleftrightarrow> bt_wf (pending c)"
| "fresh_key c _ \<longleftrightarrow> True"

lemma weigh_delivers [simp]:
  "weigh (delivers ch) (map (\<lambda>(i, ch'). Deliver ch' r) m) = uses ch m"
  by (induction m) auto

lemma uses_insert_fresh:
  "bt_get m i = None \<Longrightarrow> uses ch (bt_insert i ch' m) = uses ch m + (if ch' = ch then 1 else 0)"
  by (induction m) (auto simp: bt_get_def split: if_splits)

lemma uses_remove_wf:
  assumes "bt_wf m" and "bt_get m i = Some ch'"
  shows "uses ch m = uses ch (bt_remove i m) + (if ch' = ch then 1 else 0)"
  using assms
proof (induction m)
  case Nil
  then show ?case by simp
next
  case (Cons x m)
  have wf: "bt_wf m" using Cons.prems(1) by (simp add: bt_wf_def)
  show ?case
  proof (cases "fst x = i")
    case True
    then have "bt_get m i = None"
      using Cons.prems(1) by (force simp: bt_wf_def bt_get_def map_of_eq_None_iff)
    then have "bt_remove i m = m" by (rule bt.remove_absent [OF wf])
    then show ?thesis using True Cons.prems(2) by (cases x) (auto simp: bt_remove_def bt_get_def)
  next
    case False
    then have "bt_get m i = Some ch'" using Cons.prems(2) by (cases x) (simp add: bt_get_def)
    then show ?thesis using Cons.IH [OF wf] False by (auto simp: bt_remove_def)
  qed
qed

lemma run_act_delivers:
  assumes "run_act env a c = Some (acts, spawned, c')" and "fresh_key c a" and "ch \<in> set (senders c')"
  shows "ch \<in> set (senders c) \<and> uses ch (pending c) + delivers ch a
      \<le> uses ch (pending c') + weigh (delivers ch) acts + total (delivers ch) spawned
    \<or> 1 \<le> uses ch (pending c') + weigh (delivers ch) acts + total (delivers ch) spawned"
proof (cases a)
  case (InsertPending i call)
  then show ?thesis
    using assms uses_insert_fresh [of "pending c" i ch "bc_reply call"]
    by (auto simp: insert_pending_def split: if_splits)
next
  case (Resolve i r use)
  then show ?thesis
    using assms uses_remove_wf [of "pending c" i _ ch]
    by (cases "bt_get (pending c) i") (auto simp: resolve_pending_def)
next
  case (Deliver ch' r)
  then show ?thesis using assms by (auto simp: deliver_reply_def)
next
  case (DisPending e)
  then show ?thesis using assms by (auto simp: disconnect_pending_def)
qed (use assms in \<open>auto simp: client_defs split: client_splits\<close>)

lemma client_effect_delivers:
  assumes "client_effect env i a c = Some (acts, spawned, c')" and "fresh_key c a" and "ch \<in> set (senders c')"
  shows "ch \<in> set (senders c) \<and> uses ch (pending c) + delivers ch a
      \<le> uses ch (pending c') + weigh (delivers ch) acts + total (delivers ch) spawned
    \<or> 1 \<le> uses ch (pending c') + weigh (delivers ch) acts + total (delivers ch) spawned"
  using assms(1)
proof (cases rule: client_effect_cases)
  case go
  then show ?thesis using run_act_delivers assms(2,3) by blast
qed (use assms(3) in \<open>auto simp: respond_def\<close>)

interpretation deliver: thread_guard "client_effect env" "\<lambda>c. ch \<in> set (senders c)" "\<lambda>c. uses ch (pending c)"
    "delivers ch" fresh_key
  for env ch
  using client_effect_delivers by unfold_locales blast


text \<open>What a thread may still do after an action that can wait is to give a permit back.\<close>

fun plain :: "act \<Rightarrow> bool" where
  "plain (RequestReady call) = False"
| "plain (TakeId call) = False"
| "plain (InsertPending i call) = False"
| "plain (SendCheck f use) = (use = SendPlain \<or> use = SendQuiet)"
| "plain (TrySend f use) = (use = SendPlain \<or> use = SendQuiet)"
| "plain (Receive i ch) = False"
| "plain HandshakeStatus = False"
| "plain HandshakeWait = False"
| "plain (Dispatch f) = False"
| "plain Beat = False"
| "plain (DispatchRequest f) = False"
| "plain (LookupHandler f inline) = False"
| "plain (AwaitHandler f inline) = False"
| "plain AwaitCancel = False"
| "plain _ = True"

fun tidy :: "act list \<Rightarrow> bool" where
  "tidy [] \<longleftrightarrow> True"
| "tidy (a # rest) \<longleftrightarrow> (\<forall>b\<in>set rest. plain b) \<and> (plain a \<or> (\<forall>b\<in>set rest. \<exists>i. b = Release i))"

lemma tidy_plain: "\<forall>b\<in>set th. plain b \<Longrightarrow> tidy th"
  by (cases th) auto

lemma run_act_tidy:
  assumes "run_act env a c = Some (acts, spawned, c')"
  shows "((\<forall>b\<in>set acts. plain b) \<or> \<not> plain a \<and> (\<exists>b. acts = [b])) \<and> (\<forall>th\<in>set spawned. tidy th)"
proof (cases a)
  case (SendCheck f use)
  then show ?thesis
    using assms by (cases use) (auto simp: send_check_def sent_def split: option.splits)
next
  case (TrySend f use)
  then show ?thesis
    using assms by (cases use) (auto simp: try_send_def sent_def Let_def split: if_splits)
next
  case (Resolve i r use)
  then show ?thesis
    using assms by (cases use) (auto simp: resolve_pending_def resolved_use_def split: option.splits)
next
  case (DisState e)
  then show ?thesis
    using assms by (auto simp: disconnect_state_def split: connection_state.splits option.splits)
next
  case (DisPending e)
  then show ?thesis using assms by (auto simp: disconnect_pending_def)
next
  case (Dispatch f)
  then show ?thesis
    using assms by (auto simp: dispatch_def Let_def split: connection_state.splits if_splits)
qed (use assms in \<open>auto simp: client_defs split: client_splits\<close>)

lemma client_effect_tidy:
  assumes "client_effect env i a c = Some (acts, spawned, c')"
  shows "((\<forall>b\<in>set acts. plain b) \<or> \<not> plain a \<and> (\<exists>b. acts = [b])) \<and> (\<forall>th\<in>set spawned. tidy th)"
  using assms
proof (cases rule: client_effect_cases)
  case go
  then show ?thesis by (rule run_act_tidy)
qed (auto simp: respond_def)

lemma tidy_step:
  assumes "thread_step (client_effect env) t i (c, ths) = Some (c', ths')" and "\<forall>th\<in>set ths. tidy th"
  shows "\<forall>th\<in>set ths'. tidy th"
  using assms(1)
proof (cases rule: thread_step_cases)
  case (1 a rest acts spawned)
  note eff = client_effect_tidy [OF 1(3)]
  have "tidy (a # rest)" using assms(2) nth_mem [OF 1(1)] 1(2) by auto
  then have "(\<forall>b\<in>set (acts @ rest). plain b) \<or> (\<exists>b. acts = [b] \<and> tidy (b # rest))"
    using eff by auto
  then have "tidy (acts @ rest)" using tidy_plain by auto
  then show ?thesis
    using eff assms(2) 1(4) set_update_subset_insert [of ths t "acts @ rest"] by fastforce
qed

lemma tidy_io: "io_acts acts \<Longrightarrow> tidy acts"
  by (auto simp: io_acts_def)

lemma tidy_op: "tidy (op_acts op t)"
  by (cases op) auto

definition settling :: "bridge \<Rightarrow> bool" where
  "settling s \<longleftrightarrow> (case s of (c, ths) \<Rightarrow>
    (\<forall>th\<in>set ths. tidy th)
    \<and> (\<forall>j. stranded j c \<longrightarrow> 1 \<le> total (drains j) ths)
    \<and> (\<forall>ch. ch \<in> set (senders c) \<longrightarrow> 1 \<le> uses ch (pending c) + total (delivers ch) ths))"

lemma all_fresh:
  assumes "bridge_inv g cfg (c, ths)"
  shows "all_acts (fresh_key c) ths"
proof -
  have "fresh_key c a" if "th \<in> set ths" "a \<in> set th" for th a
  proof (cases a)
    case (InsertPending i call)
    have "inserts i a \<le> total (inserts i) ths"
      using weigh_ge [OF that(2), of "inserts i"] total_ge [OF that(1), of "inserts i"] by simp
    then have "keys i (pending c) = 0"
      using assms InsertPending by (auto simp: bridge_inv_def dest: spec [of _ i])
    then show ?thesis using InsertPending by (simp add: keys_get)
  qed (use assms in \<open>simp_all add: bridge_inv_def client_inv_def\<close>)
  then show ?thesis by (auto simp: all_acts_def)
qed

lemma settling_step:
  assumes "bridge_exec env l (c, ths) = Some (c', ths')" and "bridge_inv g cfg (c, ths)" and "settling (c, ths)"
  shows "settling (c', ths')"
  using assms(1)
proof (cases rule: bridge_exec_cases)
  case (call op)
  then show ?thesis using assms(3) tidy_op by (auto simp: settling_def trans_le_add1)
next
  case (step t i)
  have tidied: "\<forall>th\<in>set ths. tidy th"
    and drained: "\<And>j. stranded j c \<Longrightarrow> 1 \<le> 0 + total (drains j) ths"
    and sending: "\<And>ch. ch \<in> set (senders c) \<Longrightarrow> 1 \<le> uses ch (pending c) + total (delivers ch) ths"
    using assms(3) by (auto simp: settling_def)
  have any: "all_acts (\<lambda>_. True) ths" by (simp add: all_acts_def)
  show ?thesis
    using tidy_step [OF step(2) tidied] drain.step_guard [OF any step(2) drained]
      deliver.step_guard [OF all_fresh [OF assms(2)] step(2) sending]
    by (simp add: settling_def)
next
  case (io t acts)
  have "\<forall>th\<in>set ths'. tidy th"
    using assms(3) io(4) tidy_io [OF io(5)] set_update_subset_insert [of ths t acts]
    unfolding settling_def by fastforce
  moreover have more: "total w ths \<le> total w ths'" for w
    using total_idle [OF io(2,3), of w acts] io(4) by simp
  have "1 \<le> total (drains j) ths'" if "stranded j c'" for j
  proof -
    have "1 \<le> total (drains j) ths"
      using assms(3) that io_client(1,5) [OF io(6)] by (simp add: settling_def stranded_def)
    then show ?thesis using more by (rule order_trans)
  qed
  moreover have "1 \<le> uses ch (pending c') + total (delivers ch) ths'" if "ch \<in> set (senders c')" for ch
  proof -
    have "1 \<le> uses ch (pending c') + total (delivers ch) ths"
      using assms(3) that io_client(1,6) [OF io(6)] by (simp add: settling_def)
    then show ?thesis using more [of "delivers ch"] by linarith
  qed
  ultimately show ?thesis by (simp add: settling_def)
qed

lemma settling_start: "bridge_start g cfg s \<Longrightarrow> settling s"
  using bridge_start_client [of g cfg "fst s" "snd s"]
  by (cases s) (auto simp: settling_def stranded_def client_from_io_def try_bind_eq_Inr split: if_splits)

interpretation settles: transition_invariant "bridge_start g cfg" "exec_rel (bridge_exec env)"
    "\<lambda>s. bridge_inv g cfg s \<and> settling s"
  for g cfg env
  using bridge_start_inv settling_start bridge_inv_step settling_step
  by unfold_locales (auto simp: exec_rel_def)


subsection \<open>The work that is left\<close>

fun send_work :: "send_use \<Rightarrow> nat" where
  "send_work SendPlain = 6"
| "send_work SendHello = 7"
| "send_work (SendRequest i call) = 14"
| "send_work SendQuiet = 5"

fun act_work :: "act \<Rightarrow> nat" where
  "act_work (RequestReady call) = 20"
| "act_work (TakeId call) = 19"
| "act_work (InsertPending i call) = 18"
| "act_work (SendCheck f use) = Suc (send_work use)"
| "act_work (TrySend f use) = send_work use"
| "act_work (Resolve i r use) = 8"
| "act_work (DisContext e) = 4"
| "act_work (DisState e) = 3"
| "act_work (ReadPrior h) = 3"
| "act_work (StoreDisconnect h prior) = 2"
| "act_work (Receive i ch) = 9"
| "act_work (TryReceive ch) = 2"
| "act_work HandshakeStatus = 9"
| "act_work HandshakeWait = 2"
| "act_work (NotifyReady k p) = 8"
| "act_work (Dispatch f) = 13"
| "act_work (MarkReady p) = 5"
| "act_work (DispatchRequest f) = 11"
| "act_work (Acquire f) = 10"
| "act_work (LookupHandler f inline) = 8"
| "act_work (AwaitHandler f inline) = 7"
| "act_work (CancelRequest f) = 3"
| "act_work (CallCancel f) = 2"
| "act_work _ = 1"

definition client_work :: "client \<Rightarrow> nat" where
  "client_work c = 2 * length (pending c)"

lemma dispatched_work: "act_work (dispatched f) \<le> 11"
  by (rule dispatched_cases [of f]) auto

lemma remove_shorter: "bt_get m i = Some v \<Longrightarrow> length (bt_remove i m) < length m"
  by (auto simp: bt_remove_def bt_get_def intro!: length_filter_less dest: map_of_SomeD)

lemma deliveries_work: "weigh act_work (map (\<lambda>(i, ch). Deliver ch r) m) = length m"
  by (induction m) auto

lemma run_act_work:
  assumes "run_act env a c = Some (acts, spawned, c')"
  shows "client_work c' + weigh act_work acts + total act_work spawned < client_work c + act_work a"
proof (cases a)
  case (InsertPending i call)
  then show ?thesis
    using assms bt_insert_length [of i "bc_reply call" "pending c"]
    by (auto simp: insert_pending_def client_work_def split: if_splits)
next
  case (Resolve i r use)
  then show ?thesis
    using assms remove_shorter [of "pending c" i]
    by (cases "bt_get (pending c) i"; cases use)
      (auto simp: resolve_pending_def resolved_use_def client_work_def dest!: remove_shorter)
next
  case (SendCheck f use)
  then show ?thesis
    using assms
    by (cases use) (auto simp: send_check_def sent_def client_work_def split: option.splits)
next
  case (TrySend f use)
  then show ?thesis
    using assms
    by (cases use) (auto simp: try_send_def sent_def client_work_def Let_def split: if_splits)
next
  case (DisPending e)
  then show ?thesis
    using assms by (auto simp: disconnect_pending_def client_work_def deliveries_work)
next
  case (Dispatch f)
  then show ?thesis
    using assms dispatched_work [of f]
    by (auto simp: dispatch_def client_work_def Let_def split: connection_state.splits if_splits)
qed (use assms in \<open>auto simp: client_defs client_work_def split: client_splits\<close>)

lemma client_effect_work:
  assumes "client_effect env i a c = Some (acts, spawned, c')"
  shows "client_work c' + weigh act_work acts + total act_work spawned < client_work c + act_work a"
  using assms
proof (cases rule: client_effect_cases)
  case go
  then show ?thesis by (rule run_act_work)
qed (auto simp: respond_def client_work_def)

interpretation work: thread_progress "client_effect env" client_work act_work
  for env
  using client_effect_work by unfold_locales

end
