(* ===== verification/BridgeProps.thy ===== *)
theory BridgeProps
  imports BridgeRuns
begin

section \<open>The bridge client: properties\<close>

text \<open>
  What the client promises its callers and its peer in every interleaving of calls, timeouts,
  reads and writes: a reply settles once, nobody waits for ever after a disconnection, nothing
  but a hello is sent before the connection is ready, request identifiers are not reused, the
  queues are bounded. Sample runs at the end are the witnesses.
\<close>

subsection \<open>Consequences of the invariants\<close>

lemma reached:
  assumes "bridge_reach env g cfg (c, ths)"
  shows "bridge_inv g cfg (c, ths)" "settling (c, ths)"
  using settles.inv_reach [OF assms] by simp_all

lemma uses_zero: "uses ch m = 0 \<longleftrightarrow> ch \<notin> snd ` set m"
  by (auto simp: uses_def filter_empty_conv)

lemma replies_zero: "replies ch c = 0 \<longleftrightarrow> ch \<notin> fst ` set (delivered c)"
  by (auto simp: replies_def filter_empty_conv)

lemma channel_bound:
  assumes "bridge_inv g cfg (c, ths)"
  shows "uses ch (pending c) + replies ch c + total (holds_channel ch) ths \<le> 1"
  using assms by (auto simp: bridge_inv_def split: if_splits dest!: spec [of _ ch])

lemma settled_once:
  assumes "bridge_inv g cfg (c, ths)"
  shows "distinct (map fst (delivered c))" "distinct (map snd (pending c))"
    "fst ` set (delivered c) \<inter> snd ` set (pending c) = {}"
proof -
  have "length (filter (\<lambda>y. y = ch) (map fst (delivered c))) \<le> 1" for ch
    using channel_bound [OF assms, of ch] by (simp add: filter_map comp_def replies_def)
  then show "distinct (map fst (delivered c))" by (rule distinct_counted)
  have "length (filter (\<lambda>y. y = ch) (map snd (pending c))) \<le> 1" for ch
    using channel_bound [OF assms, of ch] by (simp add: filter_map comp_def uses_def)
  then show "distinct (map snd (pending c))" by (rule distinct_counted)
  have "uses ch (pending c) = 0 \<or> replies ch c = 0" for ch
    using channel_bound [OF assms, of ch] by linarith
  then show "fst ` set (delivered c) \<inter> snd ` set (pending c) = {}"
    by (auto simp: uses_zero replies_zero)
qed

text \<open>A thread that waits for the code of a handler or for the clock.\<close>

fun outside_act :: "act \<Rightarrow> bool" where
  "outside_act (AwaitHandler f inline) = True"
| "outside_act AwaitCancel = True"
| "outside_act Beat = True"
| "outside_act _ = False"

definition at_rest :: "client_env \<Rightarrow> bridge \<Rightarrow> bool" where
  "at_rest env s \<longleftrightarrow> list_all (\<lambda>t. Option.is_none (thread_step (client_effect env) t Go s)) [0..<length (snd s)]"

lemma run_act_waits:
  "run_act env a c = None \<Longrightarrow> outside_act a \<or> (\<exists>i ch. a = Receive i ch \<and> ch \<in> set (senders c))
    \<or> a = HandshakeWait \<and> \<not> disconnected c"
  by (cases a) (auto simp: receive_def handshake_wait_def split: option.splits if_splits connection_state.splits)

lemma run_act_waits_head: "run_act env a c = None \<Longrightarrow> \<not> plain a"
  by (cases a) (auto simp: receive_def handshake_wait_def)

lemma at_rest_thread:
  assumes "at_rest env (c, ths)" and "th \<in> set ths" and "th = a # rest"
  shows "run_act env a c = None"
proof -
  obtain t where "t < length ths" "ths ! t = th" using assms(2) by (auto simp: in_set_conv_nth)
  moreover from this(1) have "thread_step (client_effect env) t Go (c, ths) = None"
    using assms(1) by (auto simp: at_rest_def list_all_iff Option.is_none_def)
  ultimately show ?thesis
    using assms(3) by (simp add: thread_step_def client_effect_def)
qed

lemma resting_weights:
  assumes "at_rest env (c, ths)" and "settling (c, ths)"
  shows "total (drains j) ths = 0" "total (delivers ch) ths = 0"
proof -
  have "drains j b = 0 \<and> delivers ch b = 0" if th: "th \<in> set ths" and b: "b \<in> set th" for th b
  proof -
    obtain a rest where split: "th = a # rest" using b by (cases th) auto
    have none: "run_act env a c = None" by (rule at_rest_thread [OF assms(1) th split])
    have "tidy th" using assms(2) th by (simp add: settling_def)
    then have "\<forall>b\<in>set rest. \<exists>i. b = Release i"
      using run_act_waits_head [OF none] split by simp
    moreover have "drains j a = 0 \<and> delivers ch a = 0"
      using none by (cases a) auto
    ultimately show ?thesis using b split by auto
  qed
  then show "total (drains j) ths = 0" "total (delivers ch) ths = 0"
    by (auto simp: total_zero)
qed

lemma rest_settled:
  assumes "bridge_reach env g cfg (c, ths)" and "disconnected c" and "at_rest env (c, ths)"
  shows "pending c = []" "senders c = []"
proof -
  note inv = reached [OF assms(1)]
  have gone: "bt_get (pending c) j = None" for j
    using resting_weights(1) [OF assms(3) inv(2), of j] inv(2) assms(2)
    by (auto simp: settling_def stranded_def)
  show none: "pending c = []"
    using gone [of "fst (hd (pending c))"] by (cases "pending c") (auto simp: bt_get_def)
  have "ch \<notin> set (senders c)" for ch
    using resting_weights(2) [OF assms(3) inv(2), of ch] inv(2) none by (auto simp: settling_def)
  then show "senders c = []" by (cases "senders c") auto
qed


lemma emitted_frames: "emitted j c = length (filter (\<lambda>f. is_request (kind f) \<and> request_id f = Some j) (sent_frames c))"
proof -
  have "sum_list (map (requests j) fs) = length (filter (\<lambda>f. is_request (kind f) \<and> request_id f = Some j) fs)" for fs
    by (induction fs) (auto simp: requests_def)
  moreover have "sum_list (map (out_requests j) ms) = sum_list (map (requests j) (out_frames ms))" for ms
    by (induction ms rule: out_frames.induct) auto
  ultimately show ?thesis by (simp add: emitted_def sent_frames_def)
qed

lemma request_ids_once:
  assumes "bridge_inv g cfg (c, ths)"
  shows "distinct (map request_id (filter (\<lambda>f. is_request (kind f)) (sent_frames c)))"
proof (rule distinct_counted)
  have ok: "\<forall>f\<in>set (sent_frames c). request_ok g f"
    using assms by (simp add: bridge_inv_def client_inv_def)
  show "length (filter (\<lambda>y. y = r) (map request_id (filter (\<lambda>f. is_request (kind f)) (sent_frames c)))) \<le> 1" for r
  proof (cases r)
    case None
    have "filter (\<lambda>f. is_request (kind f) \<and> request_id f = None) (sent_frames c) = []"
      using ok by (fastforce simp: filter_empty_conv request_ok_def split: option.splits)
    then show ?thesis using None by (simp add: filter_map comp_def conj_commute)
  next
    case (Some j)
    have "emitted j c \<le> 1" using assms by (auto simp: bridge_inv_def dest!: spec [of _ j])
    then show ?thesis using Some by (simp add: filter_map comp_def emitted_frames conj_commute)
  qed
qed

subsection \<open>The disconnect handler\<close>

definition told :: "nat \<Rightarrow> client \<Rightarrow> nat" where
  "told h c = length (filter (\<lambda>x. case x of CalledDisconnect h' e \<Rightarrow> h' = h | _ \<Rightarrow> False) (calls c))"

definition armed :: "nat \<Rightarrow> client \<Rightarrow> nat" where
  "armed h c = (if \<not> disconnected c \<and> on_disconnect c = Some h then 1 else 0)"

fun tells :: "nat \<Rightarrow> act \<Rightarrow> nat" where
  "tells h (ReadPrior h') = (if h' = h then 1 else 0)"
| "tells h (StoreDisconnect h' prior) = (if h' = h then 1 else 0)"
| "tells h (CallDisconnect h' e) = (if h' = h then 1 else 0)"
| "tells h _ = 0"

lemma tells_dispatched [simp]: "tells h (dispatched f) = 0"
  by (rule dispatched_cases [of f]) auto

lemma tells_deliveries [simp]: "weigh (tells h) (map (\<lambda>(i, ch). Deliver ch r) m) = 0"
  by (induction m) auto

lemma told_fields [simp]:
  "told h (c\<lparr>next_request_id := x0\<rparr>) = told h c"
  "told h (c\<lparr>outgoing := x1\<rparr>) = told h c"
  "told h (c\<lparr>pending := x2\<rparr>) = told h c"
  "told h (c\<lparr>cancellable := x3\<rparr>) = told h c"
  "told h (c\<lparr>outcomes := x4\<rparr>) = told h c"
  "told h (c\<lparr>wire := x5\<rparr>) = told h c"
  "told h (c\<lparr>was_ready := x6\<rparr>) = told h c"
  "told h (c\<lparr>extensions := x7\<rparr>) = told h c"
  "told h (c\<lparr>writer_up := x8\<rparr>) = told h c"
  "told h (c\<lparr>reader_up := x9\<rparr>) = told h c"
  "told h (c\<lparr>senders := x10\<rparr>) = told h c"
  "told h (c\<lparr>delivered := x11\<rparr>) = told h c"
  "told h (c\<lparr>cl_handler := x12\<rparr>) = told h c"
  "told h (c\<lparr>on_log := x13\<rparr>) = told h c"
  "told h (c\<lparr>error_context := x14\<rparr>) = told h c"
  "told h (c\<lparr>last_heartbeat := x15\<rparr>) = told h c"
  "told h (c\<lparr>cl_state := x16\<rparr>) = told h c"
  "told h (c\<lparr>on_disconnect := x17\<rparr>) = told h c"
  by (simp_all add: told_def)

lemma armed_fields [simp]:
  "armed h (c\<lparr>next_request_id := x0\<rparr>) = armed h c"
  "armed h (c\<lparr>outgoing := x1\<rparr>) = armed h c"
  "armed h (c\<lparr>pending := x2\<rparr>) = armed h c"
  "armed h (c\<lparr>cancellable := x3\<rparr>) = armed h c"
  "armed h (c\<lparr>outcomes := x4\<rparr>) = armed h c"
  "armed h (c\<lparr>wire := x5\<rparr>) = armed h c"
  "armed h (c\<lparr>was_ready := x6\<rparr>) = armed h c"
  "armed h (c\<lparr>extensions := x7\<rparr>) = armed h c"
  "armed h (c\<lparr>writer_up := x8\<rparr>) = armed h c"
  "armed h (c\<lparr>reader_up := x9\<rparr>) = armed h c"
  "armed h (c\<lparr>senders := x10\<rparr>) = armed h c"
  "armed h (c\<lparr>delivered := x11\<rparr>) = armed h c"
  "armed h (c\<lparr>cl_handler := x12\<rparr>) = armed h c"
  "armed h (c\<lparr>on_log := x13\<rparr>) = armed h c"
  "armed h (c\<lparr>error_context := x14\<rparr>) = armed h c"
  "armed h (c\<lparr>last_heartbeat := x15\<rparr>) = armed h c"
  "armed h (c\<lparr>calls := x16\<rparr>) = armed h c"
  by (simp_all add: armed_def)

lemma told_call [simp]:
  "told h (c\<lparr>calls := calls c @ [x]\<rparr>) = told h c + (case x of CalledDisconnect h' e \<Rightarrow> if h' = h then 1 else 0 | _ \<Rightarrow> 0)"
  by (auto simp: told_def split: client_call.splits)

lemma run_act_tells:
  assumes "run_act env a c = Some (acts, spawned, c')" and "client_rely g c a"
  shows "told h c' + armed h c' + weigh (tells h) acts + total (tells h) spawned \<le> told h c + armed h c + tells h a"
proof (cases a)
  case (CallDisconnect h' e)
  then show ?thesis using assms by (auto simp: log_call_def)
next
  case (DisState e)
  then show ?thesis
    using assms by (auto simp: disconnect_state_def armed_def split: connection_state.splits option.splits)
next
  case (StoreDisconnect h' prior)
  then show ?thesis using assms by (auto simp: armed_def split: option.splits)
next
  case (MarkReady p)
  then show ?thesis
    using assms by (cases "cl_state c") (auto simp: mark_ready_def armed_def split: sum.splits)
qed (use assms in \<open>auto simp: client_defs split: client_splits\<close>)

lemma client_effect_tells:
  assumes "client_effect env i a c = Some (acts, spawned, c')" and "client_rely g c a"
  shows "told h c' + armed h c' + weigh (tells h) acts + total (tells h) spawned \<le> told h c + armed h c + tells h a"
  using assms(1)
proof (cases rule: client_effect_cases)
  case go
  then show ?thesis using run_act_tells assms(2) by blast
qed (auto simp: respond_def told_def armed_def)

interpretation tells: thread_bound "client_effect env" "\<lambda>c. told h c + armed h c" "tells h" "client_rely g"
  for env h g
  using client_effect_tells by unfold_locales (simp add: add.assoc)

text \<open>How often a handler was registered.\<close>

definition registrations :: "nat \<Rightarrow> client_label list \<Rightarrow> nat" where
  "registrations h ls = length (filter (\<lambda>l. l = Call (OpSetDisconnect h)) ls)"

lemma tells_op: "weigh (tells h) (op_acts op t) = (if op = OpSetDisconnect h then 1 else 0)"
  by (cases op) auto

lemma tells_step:
  assumes "bridge_exec env l (c, ths) = Some (c', ths')" and "bridge_inv g cfg (c, ths)"
  shows "told h c' + armed h c' + total (tells h) ths' \<le>
    told h c + armed h c + total (tells h) ths + registrations h [l]"
  using assms(1)
proof (cases rule: bridge_exec_cases)
  case (call op)
  then show ?thesis by (simp add: registrations_def tells_op)
next
  case (step t i)
  have "all_acts (client_rely g c) ths" using assms(2) by (simp add: bridge_inv_def)
  from tells.step_bound [OF this step(2)] show ?thesis by (simp add: trans_le_add1)
next
  case (io t acts)
  have "weigh (tells h) acts = 0" using io(5) by (auto simp: io_acts_def)
  then show ?thesis
    using total_idle [OF io(2,3), of "tells h" acts] io(4) io_client [OF io(6)] by (simp add: told_def armed_def)
qed

lemma tells_run:
  assumes "exec_run (bridge_exec env) ls (c, ths) = Some (c', ths')" and "bridge_inv g cfg (c, ths)"
  shows "told h c' + armed h c' + total (tells h) ths' \<le>
    told h c + armed h c + total (tells h) ths + registrations h ls"
  using assms
proof (induction ls arbitrary: c ths)
  case Nil
  then show ?case by simp
next
  case (Cons l ls)
  then obtain d us where first: "bridge_exec env l (c, ths) = Some (d, us)"
    and more: "exec_run (bridge_exec env) ls (d, us) = Some (c', ths')"
    by (auto split: option.splits)
  have "registrations h (l # ls) = registrations h [l] + registrations h ls"
    by (simp add: registrations_def)
  then show ?case
    using Cons.IH [OF more bridge_inv_step [OF first Cons.prems(2)]] tells_step [OF first Cons.prems(2), of h]
    by linarith
qed

subsection \<open>Steps of the threads\<close>

definition bridge_work :: "bridge \<Rightarrow> nat" where
  "bridge_work s = client_work (fst s) + total act_work (snd s)"

lemma steps_bounded:
  "exec_run (bridge_exec env) (map (\<lambda>(t, i). Step t i) ls) s = Some s' \<Longrightarrow> length ls + bridge_work s' \<le> bridge_work s"
proof (induction ls arbitrary: s)
  case Nil
  then show ?case by simp
next
  case (Cons l ls)
  obtain t i where l: "l = (t, i)" by (cases l)
  then obtain u where first: "thread_step (client_effect env) t i s = Some u"
    and more: "exec_run (bridge_exec env) (map (\<lambda>(t, i). Step t i) ls) u = Some s'"
    using Cons.prems by (auto split: option.splits)
  have "bridge_work u < bridge_work s"
    using work.step_progress [of env t i "fst s" "snd s" "fst u" "snd u"] first by (simp add: bridge_work_def)
  then show ?case using Cons.IH [OF more] by simp
qed

lemma rest_reachable: "\<exists>ts s'. exec_run (bridge_exec env) (map (\<lambda>t. Step t Go) ts) s = Some s' \<and> at_rest env s'"
proof (induction "bridge_work s" arbitrary: s rule: less_induct)
  case less
  show ?case
  proof (cases "at_rest env s")
    case True
    then show ?thesis by (intro exI [of _ "[]"]) simp
  next
    case False
    then obtain t u where first: "thread_step (client_effect env) t Go s = Some u"
      by (auto simp: at_rest_def list_all_iff Option.is_none_def)
    have "bridge_work u < bridge_work s"
      using work.step_progress [of env t Go "fst s" "snd s" "fst u" "snd u"] first by (simp add: bridge_work_def)
    from less [OF this] obtain ts s' where "exec_run (bridge_exec env) (map (\<lambda>t. Step t Go) ts) u = Some s' \<and> at_rest env s'"
      by blast
    then show ?thesis using first by (intro exI [of _ "t # ts"] exI [of _ s']) simp
  qed
qed

text \<open>The connection state only moves forward, and the first error stays.\<close>

definition moves_on :: "bridge \<Rightarrow> bridge \<Rightarrow> bool" where
  "moves_on s s' \<longleftrightarrow> (\<forall>e. cl_state (fst s) = StDisconnected e \<longrightarrow> cl_state (fst s') = StDisconnected e)
    \<and> (cl_state (fst s) = StReady \<longrightarrow> cl_state (fst s') \<noteq> StHandshaking)"

lemma run_act_moves:
  assumes "run_act env a c = Some (acts, spawned, c')"
  shows "cl_state c' = cl_state c \<or> cl_state c = StHandshaking \<or> cl_state c = StReady \<and> disconnected c'"
  by (cases a) (use assms in \<open>auto simp: client_defs deliver_reply_def split: client_splits\<close>)

lemma client_effect_moves:
  assumes "client_effect env i a c = Some (acts, spawned, c')"
  shows "cl_state c' = cl_state c \<or> cl_state c = StHandshaking \<or> cl_state c = StReady \<and> disconnected c'"
  using assms
proof (cases rule: client_effect_cases)
  case go
  then show ?thesis by (rule run_act_moves)
qed (auto simp: respond_def)

lemma bridge_moves:
  assumes "bridge_exec env l (c, ths) = Some (c', ths')"
  shows "cl_state c' = cl_state c \<or> cl_state c = StHandshaking \<or> cl_state c = StReady \<and> disconnected c'"
  using assms
proof (cases rule: bridge_exec_cases)
  case (step t i)
  from step(2) show ?thesis by (cases rule: thread_step_cases) (rule client_effect_moves)
qed (auto simp: io_client)

interpretation onward: transition_monotone "exec_rel (bridge_exec env)" moves_on
  for env
proof
  show "moves_on s s' \<Longrightarrow> moves_on s' u \<Longrightarrow> moves_on s u" for s s' u
    by (cases "cl_state (fst s')") (auto simp: moves_on_def)
  show "exec_rel (bridge_exec env) s l s' \<Longrightarrow> moves_on s s'" for s l s'
    using bridge_moves [of env l "fst s" "snd s" "fst s'" "snd s'"]
    by (auto simp: moves_on_def exec_rel_def)
qed (simp add: moves_on_def)


subsection \<open>The properties\<close>

text \<open>C19: In every interleaving a reply channel is settled at most once: no two replies are
  delivered to it, no two pending requests share it, and a channel that has its reply is not
  pending any more.\<close>

theorem bridge_replies_once:
  assumes "bridge_reach env g cfg (c, ths)"
  shows "distinct (map fst (delivered c)) \<and> distinct (map snd (pending c))
    \<and> fst ` set (delivered c) \<inter> snd ` set (pending c) = {}"
  using settled_once [OF reached(1) [OF assms]] by blast

text \<open>C18: After a disconnection nobody waits for ever: once the threads that can run have run, no
  request is pending, every request that was begun has a reply, and the only threads left wait
  for the code of a handler or for the clock.\<close>

theorem bridge_disconnect_settles:
  assumes "bridge_reach env g cfg (c, ths)" and "client_status c = StatusDisconnected"
    and "at_rest env (c, ths)"
  shows "pending c = [] \<and> (\<forall>ch i. Began ch (Inr i) \<in> set (outcomes c) \<longrightarrow> ch \<in> fst ` set (delivered c))
    \<and> list_all (\<lambda>th. th = [] \<or> outside_act (hd th)) ths"
proof -
  have down: "disconnected c"
    using assms(2) by (cases "cl_state c") (simp_all add: client_status_def)
  note settled = rest_settled [OF assms(1) down assms(3)]
  have "ch \<in> fst ` set (delivered c)" if "Began ch (Inr i) \<in> set (outcomes c)" for ch i
  proof -
    have "known ch c"
      using reached(1) [OF assms(1)] that by (auto simp: bridge_inv_def client_inv_def begun_def)
    then have "replies ch c \<noteq> 0" using settled(2) by (simp add: known_def)
    then show ?thesis by (simp add: replies_zero)
  qed
  moreover have "th = [] \<or> outside_act (hd th)" if "th \<in> set ths" for th
    using run_act_waits [OF at_rest_thread [OF assms(3) that]] settled(2) down by (cases th) auto
  ultimately show ?thesis using settled(1) by (auto simp: list_all_iff)
qed

text \<open>C20: The threads do not run for ever on their own: from every state the steps of the threads are
  at most as many as its work, whatever their order and their inputs, and they can be taken until
  every thread waits.\<close>

theorem bridge_steps_end:
  "(\<forall>ls s'. exec_run (bridge_exec env) (map (\<lambda>(t, i). Step t i) ls) s = Some s' \<longrightarrow> length ls \<le> bridge_work s)
    \<and> (\<exists>ts s'. exec_run (bridge_exec env) (map (\<lambda>t. Step t Go) ts) s = Some s' \<and> at_rest env s')"
  using steps_bounded [of env _ s] rest_reachable [of env s] by fastforce

text \<open>As long as the connection is handshaking, nothing but hello frames of its generation has been
  queued or written, and no request is pending.\<close>

theorem bridge_handshake_gate:
  assumes "bridge_reach env g cfg (c, ths)" and "client_status c = StatusHandshaking"
  shows "list_all (\<lambda>f. kind f = HelloFrame \<and> connection_generation f = g) (sent_frames c) \<and> pending c = []"
proof -
  have "cl_state c = StHandshaking"
    using assms(2) by (cases "cl_state c") (simp_all add: client_status_def)
  then show ?thesis
    using reached(1) [OF assms(1)] by (simp add: bridge_inv_def client_inv_def request_ok_def list_all_iff)
qed

text \<open>The request frames that a connection queues and writes carry its generation and pairwise
  different identifiers, odd and at most \<open>2 ^ 53 - 1\<close>.\<close>

theorem bridge_request_ids:
  assumes "bridge_reach env g cfg (c, ths)"
  shows "distinct (map request_id (filter (\<lambda>f. is_request (kind f)) (sent_frames c)))
    \<and> list_all (\<lambda>f. connection_generation f = g \<and> (if is_request (kind f)
        then \<exists>i. request_id f = Some i \<and> odd (unat i) \<and> i \<le> max_bridge_request_id else True)) (sent_frames c)"
proof -
  have "\<forall>f\<in>set (sent_frames c). request_ok g f"
    using reached(1) [OF assms] by (simp add: bridge_inv_def client_inv_def)
  then show ?thesis
    using request_ids_once [OF reached(1) [OF assms]]
    by (fastforce simp: list_all_iff request_ok_def split: option.splits)
qed

text \<open>The outgoing queue, the pending requests and the permits of cancellable requests stay within
  the configured bounds.\<close>

theorem bridge_bounds:
  assumes "bridge_reach env g cfg (c, ths)"
  shows "length (outgoing c) \<le> queue_capacity cfg \<and> length (pending c) \<le> pending_limit cfg
    \<and> length (cancellable c) \<le> queue_capacity cfg"
  using reached(1) [OF assms] by (simp add: bridge_inv_def client_inv_def)

text \<open>The first disconnect error is the one that stays, and a connection that was ready never
  handshakes again.\<close>

theorem bridge_first_error_stays:
  assumes "exec_run (bridge_exec env) ls s = Some s'"
  shows "(cl_state (fst s) = StDisconnected e \<longrightarrow> cl_state (fst s') = StDisconnected e)
    \<and> (cl_state (fst s) = StReady \<longrightarrow> cl_state (fst s') \<noteq> StHandshaking)"
  using onward.le_run [OF exec_run_run [OF assms]] by (auto simp: moves_on_def)

text \<open>A disconnect handler is called at most as often as it was registered.\<close>

theorem bridge_tells_once:
  assumes "bridge_start g cfg s" and "exec_run (bridge_exec env) ls s = Some (c, ths)"
  shows "told h c \<le> registrations h ls"
proof -
  obtain d us where s: "s = (d, us)" by (cases s)
  have start: "client_from_io g cfg = Inr d" "us = [[], []]"
    using bridge_start_client [of g cfg d us] assms(1) s by auto
  have "told h d = 0" "armed h d = 0"
    using start(1) by (auto simp: client_from_io_def try_bind_eq_Inr told_def armed_def split: if_splits)
  then show ?thesis
    using tells_run [of env ls d us c ths g cfg h] assms(2) bridge_start_inv [OF assms(1)] s start(2) by simp
qed


subsection \<open>Sample runs\<close>

definition sample_config :: client_config where
  "sample_config = \<lparr>max_frame_size = 64, queue_capacity = 2, handshake_timeout = 1, request_timeout = 1,
     shutdown_timeout = 1\<rparr>"

definition sample_client :: client where
  "sample_client = \<lparr>cl_generation = 1, cl_config = sample_config, cl_state = StHandshaking, outgoing = [],
     pending = [], next_request_id = 1, cl_handler = None, on_disconnect = None, error_context = None,
     on_log = None, extensions = [], last_heartbeat = 0, cancellable = [], reader_up = True,
     writer_up = True, senders = [], delivered = [], wire = [], calls = [], outcomes = [],
     was_ready = False\<rparr>"

lemma sample_bridge_start: "bridge_start 1 sample_config (sample_client, [[], []])"
  by (simp add: bridge_start_def client_from_io_def client_codec_def codec_new_def sample_config_def
      sample_client_def)

definition sample_env :: client_env where
  "sample_env = \<lparr>show_message = (\<lambda>m. ''error''), context_of = (\<lambda>k e. e)\<rparr>"

definition steps_of :: "nat \<Rightarrow> nat \<Rightarrow> client_label list" where
  "steps_of t n = replicate n (Step t Go)"

text \<open>The handshake; a request that waits and one that does not; the loss of the connection.\<close>

definition sample_handshake :: "client_label list" where
  "sample_handshake = Call OpHandshake # steps_of 2 3 @ [WriteNext None,
     ReadNext (Inr (frame_new 1 ReadyFrame (JObj [])))] @ steps_of 0 2 @ steps_of 2 2"

definition sample_requests :: "client_label list" where
  "sample_requests = Call (OpRequest ServiceCall JNull) # steps_of 3 5 @ [WriteNext None]
     @ Call (OpBegin ServiceCall JNull) # steps_of 4 6"

definition sample_loss :: "client_label list" where
  "sample_loss = ReadNext (Inl (Disconnected (msg ''end of file''))) # steps_of 0 5 @ steps_of 3 2"

definition bridge_run :: "client_label list \<Rightarrow> bridge option" where
  "bridge_run ls = exec_run (bridge_exec sample_env) ls (sample_client, [[], []])"

lemma bridge_run_reach: "bridge_run ls = Some s \<Longrightarrow> bridge_reach sample_env 1 sample_config s"
  unfolding bridge_run_def by (erule exec_run_reach) (rule sample_bridge_start)

text \<open>\<open>take_id\<close> on words, to evaluate it.\<close>

lemma take_id_code [code]:
  "take_id call c =
    (let i = next_request_id c in
     if i \<le> 9007199254740989
     then goes_on [InsertPending i call] (c\<lparr>next_request_id := i + 2\<rparr>)
     else goes_on [Return (Began (bc_reply call) (Inl (InvalidFrame (msg ''bridge request ids exhausted''))))] c)"
  by (simp add: take_id_def Let_def word_le_nat_alt max_bridge_request_id_def)

definition bridge_holds :: "client_label list \<Rightarrow> (client \<Rightarrow> act list list \<Rightarrow> bool) \<Rightarrow> bool" where
  "bridge_holds ls P = (case bridge_run ls of Some (c, ths) \<Rightarrow> P c ths | None \<Rightarrow> False)"

lemma bridge_holdsE:
  assumes "bridge_holds ls P"
  obtains c ths where "bridge_run ls = Some (c, ths)" "P c ths"
  using assms by (auto simp: bridge_holds_def split: option.splits)

lemma sample_hello: "bridge_holds (take 5 sample_handshake)
    (\<lambda>c ths. client_status c = StatusHandshaking \<and> length (sent_frames c) = 1)"
  by code_simp

lemma sample_waiting: "bridge_holds (sample_handshake @ sample_requests)
    (\<lambda>c ths. map snd (pending c) = [3, 4] \<and> map request_id (sent_frames c) = [None, Some 1, Some 3])"
  by code_simp

lemma sample_lost: "bridge_holds (sample_handshake @ sample_requests @ sample_loss)
    (\<lambda>c ths. map fst (delivered c) = [3, 4] \<and> client_status c = StatusDisconnected
      \<and> at_rest sample_env (c, ths) \<and> Began 4 (Inr 3) \<in> set (outcomes c)
      \<and> Waited 3 (Inl (Disconnected (msg ''end of file''))) \<in> set (outcomes c))"
  by code_simp


theorem bridge_replies_once_witness:
  "\<exists>c ths. bridge_run (sample_handshake @ sample_requests @ sample_loss) = Some (c, ths)
    \<and> map fst (delivered c) = [3, 4] \<and> distinct (map fst (delivered c))
    \<and> fst ` set (delivered c) \<inter> snd ` set (pending c) = {}"
proof -
  obtain c ths where run: "bridge_run (sample_handshake @ sample_requests @ sample_loss) = Some (c, ths)"
    and facts: "map fst (delivered c) = [3, 4] \<and> client_status c = StatusDisconnected
      \<and> at_rest sample_env (c, ths) \<and> Began 4 (Inr 3) \<in> set (outcomes c)
      \<and> Waited 3 (Inl (Disconnected (msg ''end of file''))) \<in> set (outcomes c)"
    by (rule bridge_holdsE [OF sample_lost])
  from bridge_replies_once [OF bridge_run_reach [OF run]] show ?thesis
    using run facts by (intro exI [of _ c] exI [of _ ths]) simp
qed

theorem bridge_disconnect_settles_witness:
  "\<exists>c ths. bridge_run (sample_handshake @ sample_requests @ sample_loss) = Some (c, ths)
    \<and> Began 4 (Inr 3) \<in> set (outcomes c) \<and> pending c = [] \<and> 4 \<in> fst ` set (delivered c)"
proof -
  obtain c ths where run: "bridge_run (sample_handshake @ sample_requests @ sample_loss) = Some (c, ths)"
    and facts: "map fst (delivered c) = [3, 4] \<and> client_status c = StatusDisconnected
      \<and> at_rest sample_env (c, ths) \<and> Began 4 (Inr 3) \<in> set (outcomes c)
      \<and> Waited 3 (Inl (Disconnected (msg ''end of file''))) \<in> set (outcomes c)"
    by (rule bridge_holdsE [OF sample_lost])
  from facts have down: "client_status c = StatusDisconnected" and rest: "at_rest sample_env (c, ths)"
    and begun: "Began 4 (Inr 3) \<in> set (outcomes c)"
    by blast+
  have "pending c = []" "4 \<in> fst ` set (delivered c)"
    using bridge_disconnect_settles [OF bridge_run_reach [OF run] down rest] begun by blast+
  then show ?thesis using run begun by (intro exI [of _ c] exI [of _ ths]) simp
qed

theorem bridge_steps_end_witness:
  "\<exists>ts s'. exec_run (bridge_exec sample_env) (map (\<lambda>t. Step t Go) ts) (sample_client, [[], [], [HandshakeStatus]])
      = Some s' \<and> at_rest sample_env s'"
  using bridge_steps_end [of sample_env "(sample_client, [[], [], [HandshakeStatus]])"] by blast

theorem bridge_handshake_gate_witness:
  "\<exists>c ths. bridge_run (take 5 sample_handshake) = Some (c, ths) \<and> length (sent_frames c) = 1
    \<and> list_all (\<lambda>f. kind f = HelloFrame \<and> connection_generation f = 1) (sent_frames c)"
proof -
  obtain c ths where run: "bridge_run (take 5 sample_handshake) = Some (c, ths)"
    and facts: "client_status c = StatusHandshaking \<and> length (sent_frames c) = 1"
    by (rule bridge_holdsE [OF sample_hello])
  from bridge_handshake_gate [OF bridge_run_reach [OF run] conjunct1 [OF facts]] show ?thesis
    using run facts by (intro exI [of _ c] exI [of _ ths]) simp
qed

theorem bridge_request_ids_witness:
  "\<exists>c ths. bridge_run (sample_handshake @ sample_requests) = Some (c, ths)
    \<and> map request_id (sent_frames c) = [None, Some 1, Some 3]
    \<and> distinct (map request_id (filter (\<lambda>f. is_request (kind f)) (sent_frames c)))"
proof -
  obtain c ths where run: "bridge_run (sample_handshake @ sample_requests) = Some (c, ths)"
    and facts: "map snd (pending c) = [3, 4] \<and> map request_id (sent_frames c) = [None, Some 1, Some 3]"
    by (rule bridge_holdsE [OF sample_waiting])
  from bridge_request_ids [OF bridge_run_reach [OF run]] show ?thesis
    using run facts by (intro exI [of _ c] exI [of _ ths]) simp
qed

theorem bridge_bounds_witness:
  "\<exists>c ths. bridge_run (sample_handshake @ sample_requests) = Some (c, ths)
    \<and> map snd (pending c) = [3, 4] \<and> length (pending c) \<le> pending_limit sample_config"
proof -
  obtain c ths where run: "bridge_run (sample_handshake @ sample_requests) = Some (c, ths)"
    and facts: "map snd (pending c) = [3, 4] \<and> map request_id (sent_frames c) = [None, Some 1, Some 3]"
    by (rule bridge_holdsE [OF sample_waiting])
  from bridge_bounds [OF bridge_run_reach [OF run]] show ?thesis
    using run facts by (intro exI [of _ c] exI [of _ ths]) simp
qed

text \<open>A second failure after the first: closing a connection that was lost.\<close>

definition sample_close :: "client_label list" where
  "sample_close = Call OpClose # steps_of 5 3"

lemma sample_closed: "bridge_holds (sample_handshake @ sample_requests @ sample_loss)
    (\<lambda>c ths. cl_state c = StDisconnected (Disconnected (msg ''end of file''))
      \<and> \<not> Option.is_none (exec_run (bridge_exec sample_env) sample_close (c, ths)))"
  by code_simp

theorem bridge_first_error_stays_witness:
  "\<exists>s s'. bridge_run (sample_handshake @ sample_requests @ sample_loss) = Some s
    \<and> exec_run (bridge_exec sample_env) sample_close s = Some s'
    \<and> cl_state (fst s') = StDisconnected (Disconnected (msg ''end of file''))"
proof -
  obtain c ths where run: "bridge_run (sample_handshake @ sample_requests @ sample_loss) = Some (c, ths)"
    and first: "cl_state c = StDisconnected (Disconnected (msg ''end of file''))
      \<and> \<not> Option.is_none (exec_run (bridge_exec sample_env) sample_close (c, ths))"
    by (rule bridge_holdsE [OF sample_closed])
  then obtain s' where close: "exec_run (bridge_exec sample_env) sample_close (c, ths) = Some s'"
    by (auto simp: Option.is_none_def)
  have "cl_state (fst s') = StDisconnected (Disconnected (msg ''end of file''))"
    using bridge_first_error_stays [OF close] first by simp
  then show ?thesis using run close by (intro exI [of _ "(c, ths)"] exI [of _ s']) simp
qed

text \<open>A handler that was registered before the connection is lost, and one in between.\<close>

definition sample_told :: "client_label list" where
  "sample_told = sample_handshake @ [Call (OpSetDisconnect 7), Step 3 Go, Step 3 Go,
     ReadNext (Inl (Disconnected (msg ''end of file'')))] @ steps_of 0 4"

definition sample_untold :: "client_label list" where
  "sample_untold = sample_handshake @ [Call (OpSetDisconnect 7), Step 3 Go,
     ReadNext (Inl (Disconnected (msg ''end of file'')))] @ steps_of 0 3 @ [Step 3 Go]"

lemma sample_tells: "bridge_holds sample_told (\<lambda>c ths. told 7 c = 1)"
  by code_simp

theorem bridge_tells_once_witness:
  "\<exists>c ths. bridge_run sample_told = Some (c, ths) \<and> told 7 c = 1 \<and> told 7 c \<le> registrations 7 sample_told"
  using sample_tells
proof (rule bridge_holdsE)
  fix c ths
  assume "bridge_run sample_told = Some (c, ths)" and "told 7 c = 1"
  moreover from this(1) have "told 7 c \<le> registrations 7 sample_told"
    unfolding bridge_run_def by (rule bridge_tells_once [OF sample_bridge_start])
  ultimately show ?thesis by blast
qed

text \<open>A disconnect handler may never be called: when the connection is lost after
  \<open>set_disconnect_handler\<close> has read the prior error and before it stores the handler, neither side
  calls it, although it is registered, the connection is lost and no thread has anything left to do.\<close>

theorem bridge_handler_not_told:
  "case bridge_run sample_untold of
     Some (c, ths) \<Rightarrow> client_status c = StatusDisconnected \<and> on_disconnect c = Some 7
       \<and> at_rest sample_env (c, ths) \<and> told 7 c = 0
   | None \<Rightarrow> False"
  by code_simp

text \<open>The permits do not bound the threads that serve cancellable requests: requests in flight with
  the same identifier share one entry of \<open>cancellable_requests\<close>, so that with room for two a peer has
  three threads serve it, of which one entry is counted.\<close>

theorem bridge_permits_shared:
  "case bridge_run (sample_handshake
       @ concat (replicate 3 (ReadNext (Inr (frame_request 1 7 ServiceCall JNull)) # steps_of 0 3))) of
     Some (c, ths) \<Rightarrow> queue_capacity (cl_config c) = 2 \<and> cancellable c = [(7, False)]
       \<and> length (filter (\<lambda>th. Release 7 \<in> set th) ths) = 3
   | None \<Rightarrow> False"
  by code_simp

end
