(* ===== verification/Stderr.thy ===== *)
theory Stderr
  imports Protocol
begin

section \<open>What a host writes to its standard error (supervisor.rs)\<close>

text \<open>
  \<open>StartupStderr\<close>: the first bytes of the host's standard error are kept, and appended to the
  error of a start that fails, as text that cannot leave its line. The decoder is
  \<open>String::from_utf8_lossy\<close>, the text functions are \<open>trim\<close> and \<open>escape_default\<close> on the
  characters' code points.
\<close>

definition max_startup_stderr_bytes :: nat where
  "max_startup_stderr_bytes = 4 * 1024"

record stderr_state =
  captured :: "nat list"
  finished :: bool

definition stderr_fresh :: stderr_state where
  "stderr_fresh = \<lparr>captured = [], finished = False\<rparr>"

text \<open>The reads of the capturing thread: some bytes, the end, an interruption, or another error.\<close>

datatype stderr_read = ReadBytes "nat list" | ReadInterrupted | ReadFailed

fun capture :: "stderr_read list \<Rightarrow> stderr_state \<Rightarrow> stderr_state" where
  "capture [] st = st"
| "capture (ReadInterrupted # rs) st = capture rs st"
| "capture (ReadFailed # rs) st = st\<lparr>finished := True\<rparr>"
| "capture (ReadBytes bs # rs) st =
    (if bs = [] then st\<lparr>finished := True\<rparr>
     else capture rs (st\<lparr>captured := captured st @ take (max_startup_stderr_bytes - length (captured st)) bs\<rparr>))"

subsection \<open>Lossy decoding\<close>

definition continuation :: "nat \<Rightarrow> bool" where
  "continuation b \<longleftrightarrow> 128 \<le> b \<and> b \<le> 191"

text \<open>The bytes that may follow a leading byte, and how many bytes its character has.\<close>

definition second_ok :: "nat \<Rightarrow> nat \<Rightarrow> bool" where
  "second_ok b c \<longleftrightarrow>
    (if b = 224 then 160 \<le> c \<and> c \<le> 191
     else if b = 237 then 128 \<le> c \<and> c \<le> 159
     else if b = 240 then 144 \<le> c \<and> c \<le> 191
     else if b = 244 then 128 \<le> c \<and> c \<le> 143
     else continuation c)"

definition utf8_width :: "nat \<Rightarrow> nat" where
  "utf8_width b =
    (if b < 128 then 1 else if 194 \<le> b \<and> b \<le> 223 then 2 else if 224 \<le> b \<and> b \<le> 239 then 3
     else if 240 \<le> b \<and> b \<le> 244 then 4 else 0)"

definition replacement :: nat where
  "replacement = 65533"

text \<open>The next character and how many bytes it takes; the longest prefix of an invalid sequence counts
  as one replacement character.\<close>

fun utf8_next :: "nat list \<Rightarrow> nat \<times> nat" where
  "utf8_next [] = (replacement, 0)"
| "utf8_next (b # bs) =
    (if utf8_width b = 1 then (b, 1)
     else if utf8_width b = 0 \<or> bs = [] \<or> \<not> second_ok b (bs ! 0) then (replacement, 1)
     else if utf8_width b = 2 then ((b - 192) * 64 + (bs ! 0 - 128), 2)
     else if length bs < 2 \<or> \<not> continuation (bs ! 1) then (replacement, 2)
     else if utf8_width b = 3 then ((b - 224) * 4096 + (bs ! 0 - 128) * 64 + (bs ! 1 - 128), 3)
     else if length bs < 3 \<or> \<not> continuation (bs ! 2) then (replacement, 3)
     else ((b - 240) * 262144 + (bs ! 0 - 128) * 4096 + (bs ! 1 - 128) * 64 + (bs ! 2 - 128), 4))"

lemma utf8_next_advances: "0 < snd (utf8_next (b # bs))"
  by (simp add: Let_def)

function from_utf8_lossy :: "nat list \<Rightarrow> nat list" where
  "from_utf8_lossy [] = []"
| "from_utf8_lossy (b # bs) =
    (case utf8_next (b # bs) of (c, n) \<Rightarrow> c # from_utf8_lossy (drop n (b # bs)))"
  by pat_completeness auto
termination
proof (relation "measure length")
  fix b bs c n
  assume "(c, n) = utf8_next (b # bs)"
  then have "0 < n" using utf8_next_advances [of b bs] by (metis snd_conv)
  then show "(drop n (b # bs), b # bs) \<in> measure length" by simp
qed simp

subsection \<open>Text\<close>

definition white_space :: "nat \<Rightarrow> bool" where
  "white_space c \<longleftrightarrow> 9 \<le> c \<and> c \<le> 13 \<or> c = 32 \<or> c = 133 \<or> c = 160 \<or> c = 5760 \<or> 8192 \<le> c \<and> c \<le> 8202
    \<or> c = 8232 \<or> c = 8233 \<or> c = 8239 \<or> c = 8287 \<or> c = 12288"

definition trim_text :: "nat list \<Rightarrow> nat list" where
  "trim_text cs = rev (dropWhile white_space (rev (dropWhile white_space cs)))"

definition hex_digit :: "nat \<Rightarrow> char" where
  "hex_digit n = (if n < 10 then char_of (48 + n) else char_of (87 + n))"

fun hex_text :: "nat \<Rightarrow> string" where
  "hex_text n = (if n < 16 then [hex_digit n] else hex_text (n div 16) @ [hex_digit (n mod 16)])"

declare hex_text.simps [simp del]

definition escape_char :: "nat \<Rightarrow> string" where
  "escape_char c =
    (if c = 9 then [char_of (92 :: nat), CHR ''t'']
     else if c = 13 then [char_of (92 :: nat), CHR ''r'']
     else if c = 10 then [char_of (92 :: nat), CHR ''n'']
     else if c = 39 \<or> c = 34 \<or> c = 92 then [char_of (92 :: nat), char_of c]
     else if 32 \<le> c \<and> c \<le> 126 then [char_of c]
     else [char_of (92 :: nat), CHR ''u'', CHR ''{''] @ hex_text c @ [CHR ''}''])"

definition diagnostic_text :: "nat list \<Rightarrow> string" where
  "diagnostic_text bytes = concat (map escape_char (trim_text (from_utf8_lossy bytes)))"

text \<open>\<open>attach\<close>, with what has been captured when the wait for the end is over.\<close>

definition attach :: "stderr_state \<Rightarrow> bridge_error \<Rightarrow> bridge_error" where
  "attach st e =
    (let diagnostic = diagnostic_text (captured st);
         more = (\<lambda>m. m @ [Text ''; host stderr: '', Text diagnostic]) in
     if diagnostic = [] then e
     else
       (case e of
          Io m \<Rightarrow> Io (more m)
        | InvalidFrame m \<Rightarrow> InvalidFrame (more m)
        | Handshake m \<Rightarrow> Handshake (more m)
        | Disconnected m \<Rightarrow> Disconnected (more m)
        | ProcessError m \<Rightarrow> ProcessError (more m)
        | e \<Rightarrow> e))"

subsection \<open>Bounded and printable\<close>

text \<open>What the host wrote until its output ended.\<close>

fun written :: "stderr_read list \<Rightarrow> nat list" where
  "written [] = []"
| "written (ReadInterrupted # rs) = written rs"
| "written (ReadFailed # rs) = []"
| "written (ReadBytes bs # rs) = (if bs = [] then [] else bs @ written rs)"

lemma capture_output:
  "length (captured st) \<le> max_startup_stderr_bytes \<Longrightarrow>
    captured (capture rs st) = captured st @ take (max_startup_stderr_bytes - length (captured st)) (written rs)"
proof (induction rs st rule: capture.induct)
  case (4 bs rs st)
  show ?case
  proof (cases "bs = []")
    case True
    then show ?thesis by simp
  next
    case False
    let ?room = "max_startup_stderr_bytes - length (captured st)"
    have "captured (capture (ReadBytes bs # rs) st) =
        captured st @ take ?room bs @ take (?room - length bs) (written rs)"
    proof -
      have "max_startup_stderr_bytes - (length (captured st) + min (length bs) ?room) = ?room - length bs"
        by (simp add: min_def)
      then show ?thesis using 4 False by simp
    qed
    then show ?thesis using False by simp
  qed
qed simp_all

definition printable :: "char \<Rightarrow> bool" where
  "printable ch \<longleftrightarrow> 32 \<le> (of_char ch :: nat) \<and> (of_char ch :: nat) \<le> 126"

lemma printable_code: "32 \<le> n \<Longrightarrow> n \<le> 126 \<Longrightarrow> printable (char_of (n :: nat))"
  by (simp add: printable_def)

lemma printable_hex: "list_all printable (hex_text n)"
proof (induction n rule: hex_text.induct)
  case (1 n)
  have "printable (hex_digit d)" if "d < 16" for d
    using that printable_code [of "48 + d"] printable_code [of "87 + d"] by (simp add: hex_digit_def)
  then show ?case using 1 by (subst hex_text.simps) simp
qed

lemma printable_escape: "list_all printable (escape_char c)"
proof -
  have "printable (char_of (92 :: nat))" by (rule printable_code) simp_all
  moreover have "printable (CHR ''t'')" "printable (CHR ''r'')" "printable (CHR ''n'')" "printable (CHR ''u'')"
    "printable (CHR ''{'')" "printable (CHR ''}'')"
    by (simp_all add: printable_def)
  ultimately show ?thesis
    using printable_code [of c] printable_hex [of c] by (auto simp: escape_char_def)
qed

lemma printable_diagnostic: "list_all printable (diagnostic_text bytes)"
  using printable_escape by (auto simp: diagnostic_text_def list_all_iff)

text \<open>The diagnostic that a failed start appends to its error comes from the first 4096 bytes that the
  host wrote to its standard error, however they are cut into reads, and is printable ASCII text; the
  error reads as before with at most this diagnostic after it.\<close>

theorem startup_diagnostic_contained:
  "captured (capture rs stderr_fresh) = take 4096 (written rs)
    \<and> list_all printable (diagnostic_text (take 4096 (written rs)))
    \<and> (\<exists>tail. bridge_error_display (attach (capture rs stderr_fresh) e) = bridge_error_display e @ tail
        \<and> set tail \<subseteq> {Text ''; host stderr: '', Text (diagnostic_text (take 4096 (written rs)))})"
proof -
  have out: "captured (capture rs stderr_fresh) = take 4096 (written rs)"
    using capture_output [of stderr_fresh rs] by (simp add: stderr_fresh_def max_startup_stderr_bytes_def)
  moreover have "\<exists>tail. bridge_error_display (attach st e) = bridge_error_display e @ tail
      \<and> set tail \<subseteq> {Text ''; host stderr: '', Text (diagnostic_text (captured st))}" for st
    by (cases e) (auto simp: attach_def Let_def)
  ultimately show ?thesis using printable_diagnostic by metis
qed

end
