(* ===== verification/Supervisor.thy ===== *)
theory Supervisor
  imports Bridge Stderr
begin

section \<open>The Node supervisor (supervisor.rs)\<close>

text \<open>
  \<open>NodeSupervisor\<close>: one host process per profile, its generations, the cleanups that a
  generation's exit runs, shutdown and drop. Threads are the callers of its operations and the
  disconnect handlers of its clients; an action is one lock section or one call of the client,
  the process or the operating system, whose results are inputs. Of a client the supervisor
  sees the connection state and the disconnect handler, which the client calls once, in the
  thread that disconnects it.
\<close>

subsection \<open>The command\<close>

record host_command =
  program :: string
  args :: "string list"
  env_vars :: "(string \<times> string) list"
  cwd :: "string option"

definition host_command_new :: "string \<Rightarrow> host_command" where
  "host_command_new p = \<lparr>program = p, args = [], env_vars = [], cwd = None\<rparr>"

definition host_command_arg :: "string \<Rightarrow> host_command \<Rightarrow> host_command" where
  "host_command_arg a cmd = cmd\<lparr>args := args cmd @ [a]\<rparr>"

definition host_command_env :: "string \<Rightarrow> string \<Rightarrow> host_command \<Rightarrow> host_command" where
  "host_command_env k v cmd = cmd\<lparr>env_vars := env_vars cmd @ [(k, v)]\<rparr>"

definition host_command_current_dir :: "string \<Rightarrow> host_command \<Rightarrow> host_command" where
  "host_command_current_dir d cmd = cmd\<lparr>cwd := Some d\<rparr>"

text \<open>
  \<open>resolve_program\<close> on Unix: the number of a path's components, the directories of \<open>PATH\<close> if it
  is set, joining and the test for a file are the standard library's and the system's.
\<close>

fun search_path :: "(string \<Rightarrow> string \<Rightarrow> string) \<Rightarrow> (string \<Rightarrow> bool) \<Rightarrow> string \<Rightarrow> string list \<Rightarrow> string option" where
  "search_path join is_file p [] = None"
| "search_path join is_file p (d # ds) =
    (if is_file (join d p) then Some (join d p) else search_path join is_file p ds)"

definition resolve_program ::
  "(string \<Rightarrow> nat) \<Rightarrow> string list option \<Rightarrow> (string \<Rightarrow> string \<Rightarrow> string) \<Rightarrow> (string \<Rightarrow> bool) \<Rightarrow>
    string \<Rightarrow> bridge_error + string" where
  "resolve_program components path join is_file p =
    (if components p \<noteq> 1 then Inr p
     else
       (case path of
          None \<Rightarrow> Inl (ProcessError (msg ''PATH is required to resolve the Node host''))
        | Some ds \<Rightarrow>
            (case search_path join is_file p ds of
               Some candidate \<Rightarrow> Inr candidate
             | None \<Rightarrow> Inl (ProcessError [Text ''could not resolve Node host '', Dbg p]))))"

subsection \<open>State\<close>

record active_process =
  ap_generation :: u64
  ap_child :: nat

text \<open>A spawned process, with its client's connection once there is a client.\<close>

record child =
  child_generation :: u64
  has_client :: bool
  conn :: connection_state
  handler_stored :: bool

datatype sup_result =
    Started "bridge_error + nat"
  | Registered "bridge_error + unit"
  | Stopped "bridge_error + unit"

text \<open>
  \<open>NodeSupervisor\<close> with \<open>SupervisorState\<close>. Cleanups are numbers. \<open>registered\<close>, \<open>cleaned\<close> and
  \<open>reaped\<close> record which cleanups were accepted and run and which processes were terminated and
  waited for.
\<close>

record supervisor =
  sup_config :: client_config
  next_generation :: u64
  active :: "active_process option"
  cleanups :: "(u64, nat list) btree"
  children :: "child list"
  dropped :: bool
  registered :: "nat list"
  cleaned :: "nat list"
  reaped :: "nat list"
  results :: "sup_result list"

definition supervisor_new :: "client_config \<Rightarrow> bridge_error + supervisor" where
  "supervisor_new cfg =
    try_bind (client_codec cfg) (\<lambda>codec.
      Inr \<lparr>sup_config = cfg, next_generation = 1, active = None, cleanups = [], children = [],
        dropped = False, registered = [], cleaned = [], reaped = [], results = []\<rparr>)"

definition supervisor_generation :: "supervisor \<Rightarrow> u64 option" where
  "supervisor_generation s = map_option ap_generation (active s)"

definition supervisor_client :: "supervisor \<Rightarrow> nat option" where
  "supervisor_client s = map_option ap_child (active s)"

definition conn_error :: "child \<Rightarrow> bridge_error option" where
  "conn_error ch = (case conn ch of StDisconnected e \<Rightarrow> Some e | _ \<Rightarrow> None)"

definition at_child :: "nat \<Rightarrow> (child \<Rightarrow> child) \<Rightarrow> supervisor \<Rightarrow> supervisor" where
  "at_child n f s = s\<lparr>children := (children s)[n := f (children s ! n)]\<rparr>"

subsection \<open>Actions\<close>

datatype sup_act =
    StartCheck
  | TakeGeneration
  | SpawnHost u64
  | AttachTree u64 nat
  | TakePipes u64 nat
  | MakeClient u64 nat
  | ReadPriorError u64 nat
  | StoreOnDisconnect u64 nat "bridge_error option"
  | InstallProcess u64 nat
  | AwaitHandshake u64 nat
  | AttachStderr bridge_error
  | ReleaseGeneration u64
  | CloseClient nat
  | TerminateProcess nat
  | RunCleanup nat
  | RegisterCleanup u64 nat
  | TakeForShutdown
  | AwaitExit nat "nat list"
  | AwaitReap nat "nat list" "bridge_error option"
  | TakeForDrop
  | Result sup_result

datatype sup_input = Go | Outcome "bridge_error + unit" | Exited | DeadlinePassed | Captured stderr_state

type_synonym sup_step = "sup_act list \<times> sup_act list list \<times> supervisor"

abbreviation continues :: "sup_act list \<Rightarrow> supervisor \<Rightarrow> sup_step" where
  "continues acts s \<equiv> (acts, [], s)"

subsection \<open>Starting a host\<close>

definition start_check :: "supervisor \<Rightarrow> sup_step" where
  "start_check s =
    (if active s \<noteq> None
     then continues [Result (Started (Inl (ProcessError
       (msg ''a Node host is already active for this profile''))))] s
     else continues [TakeGeneration] s)"

definition take_next_generation :: "supervisor \<Rightarrow> sup_step" where
  "take_next_generation s =
    (let g = next_generation s in
     if g = - 1
     then continues [Result (Started (Inl (ProcessError (msg ''connection generations exhausted''))))] s
     else continues [SpawnHost g] (s\<lparr>next_generation := g + 1\<rparr>))"

text \<open>\<open>resolve_program\<close> and \<open>spawn\<close> fail without a child.\<close>

definition spawn_host :: "u64 \<Rightarrow> bridge_error + unit \<Rightarrow> supervisor \<Rightarrow> sup_step" where
  "spawn_host g r s =
    (case r of
       Inl e \<Rightarrow> continues [Result (Started (Inl e))] s
     | Inr _ \<Rightarrow>
         continues [AttachTree g (length (children s))]
           (s\<lparr>children := children s @
             [\<lparr>child_generation = g, has_client = False, conn = StHandshaking, handler_stored = False\<rparr>]\<rparr>))"

text \<open>A child that cannot be used is terminated before the error is returned.\<close>

definition give_up :: "nat \<Rightarrow> bridge_error \<Rightarrow> supervisor \<Rightarrow> sup_step" where
  "give_up n e s = continues [TerminateProcess n, Result (Started (Inl e))] s"

definition attach_tree :: "u64 \<Rightarrow> nat \<Rightarrow> bridge_error + unit \<Rightarrow> supervisor \<Rightarrow> sup_step" where
  "attach_tree g n r s = (case r of Inl e \<Rightarrow> give_up n e s | Inr _ \<Rightarrow> continues [TakePipes g n] s)"

definition not_piped :: "string \<Rightarrow> bridge_error" where
  "not_piped name = ProcessError [Text (''Node host '' @ name @ '' was not piped'')]"

definition take_pipes :: "u64 \<Rightarrow> nat \<Rightarrow> bridge_error + unit \<Rightarrow> supervisor \<Rightarrow> sup_step option" where
  "take_pipes g n r s =
    (case r of
       Inl e \<Rightarrow>
         if e \<in> set (map not_piped [''stdin'', ''stdout'', ''stderr'']) then Some (give_up n e s) else None
     | Inr _ \<Rightarrow> Some (continues [MakeClient g n] s))"

definition make_client :: "u64 \<Rightarrow> nat \<Rightarrow> supervisor \<Rightarrow> sup_step" where
  "make_client g n s =
    (case client_from_io g (sup_config s) of
       Inl e \<Rightarrow> give_up n e s
     | Inr _ \<Rightarrow> continues [ReadPriorError g n] (at_child n (\<lambda>ch. ch\<lparr>has_client := True\<rparr>) s))"

definition read_prior_error :: "u64 \<Rightarrow> nat \<Rightarrow> supervisor \<Rightarrow> sup_step" where
  "read_prior_error g n s = continues [StoreOnDisconnect g n (conn_error (children s ! n))] s"

definition store_on_disconnect :: "u64 \<Rightarrow> nat \<Rightarrow> bridge_error option \<Rightarrow> supervisor \<Rightarrow> sup_step" where
  "store_on_disconnect g n prior s =
    continues ((case prior of Some e \<Rightarrow> [ReleaseGeneration g] | None \<Rightarrow> []) @ [InstallProcess g n])
      (at_child n (\<lambda>ch. ch\<lparr>handler_stored := True\<rparr>) s)"

definition install_process :: "u64 \<Rightarrow> nat \<Rightarrow> supervisor \<Rightarrow> sup_step" where
  "install_process g n s =
    (if active s \<noteq> None
     then continues [CloseClient n, TerminateProcess n, Result (Started (Inl (ProcessError
       (msg ''a Node host became active while starting this profile''))))] s
     else continues [AwaitHandshake g n] (s\<lparr>active := Some \<lparr>ap_generation = g, ap_child = n\<rparr>\<rparr>))"

text \<open>The handshake succeeds only while the connection is ready.\<close>

definition await_handshake :: "u64 \<Rightarrow> nat \<Rightarrow> bridge_error + unit \<Rightarrow> supervisor \<Rightarrow> sup_step option" where
  "await_handshake g n r s =
    (case r of
       Inl e \<Rightarrow> Some (continues [ReleaseGeneration g, AttachStderr e] s)
     | Inr _ \<Rightarrow>
         if conn (children s ! n) = StReady then Some (continues [Result (Started (Inr n))] s) else None)"

subsection \<open>Releasing a generation\<close>

text \<open>\<open>take_generation\<close>, and what \<open>release_generation\<close> does with what it took.\<close>

definition cleanups_of :: "u64 \<Rightarrow> supervisor \<Rightarrow> nat list" where
  "cleanups_of g s = (case bt_get (cleanups s) g of Some ks \<Rightarrow> ks | None \<Rightarrow> [])"

definition taken :: "u64 \<Rightarrow> supervisor \<Rightarrow> supervisor" where
  "taken g s = s\<lparr>active := None, cleanups := bt_remove g (cleanups s)\<rparr>"

definition take_generation :: "u64 \<Rightarrow> supervisor \<Rightarrow> (active_process \<times> nat list \<times> supervisor) option" where
  "take_generation g s =
    (case active s of
       Some p \<Rightarrow> if ap_generation p \<noteq> g then None else Some (p, cleanups_of g s, taken g s)
     | None \<Rightarrow> None)"

definition released :: "nat \<Rightarrow> nat list \<Rightarrow> sup_act list" where
  "released n ks = CloseClient n # TerminateProcess n # map RunCleanup ks"

definition release_generation :: "u64 \<Rightarrow> supervisor \<Rightarrow> sup_step" where
  "release_generation g s =
    (case take_generation g s of
       None \<Rightarrow> continues [] s
     | Some (p, ks, s') \<Rightarrow> continues (released (ap_child p) ks) s')"

text \<open>\<open>BridgeClient::close\<close>: the first disconnection calls the handler in the same thread.\<close>

definition close_client :: "nat \<Rightarrow> supervisor \<Rightarrow> sup_step" where
  "close_client n s =
    (let ch = children s ! n in
     case conn ch of
       StDisconnected _ \<Rightarrow> continues [] s
     | _ \<Rightarrow>
         continues (if handler_stored ch then [ReleaseGeneration (child_generation ch)] else [])
           (at_child n (\<lambda>ch. ch\<lparr>conn := StDisconnected (Disconnected (msg ''client closed''))\<rparr>) s))"

definition terminate_process :: "nat \<Rightarrow> supervisor \<Rightarrow> supervisor" where
  "terminate_process n s = s\<lparr>reaped := reaped s @ [n]\<rparr>"

definition register_cleanup :: "u64 \<Rightarrow> nat \<Rightarrow> supervisor \<Rightarrow> sup_step" where
  "register_cleanup g k s =
    (let expected = (case active s of Some p \<Rightarrow> ap_generation p | None \<Rightarrow> 0) in
     case active s of
       None \<Rightarrow> continues [Result (Registered (Inl (Generation expected g)))] s
     | Some p \<Rightarrow>
         if ap_generation p \<noteq> g then continues [Result (Registered (Inl (Generation expected g)))] s
         else
           (case conn_error (children s ! ap_child p) of
              Some e \<Rightarrow> continues [Result (Registered (Inl e))] s
            | None \<Rightarrow>
                continues [Result (Registered (Inr ()))]
                  (s\<lparr>cleanups := bt_insert g (cleanups_of g s @ [k]) (cleanups s),
                     registered := registered s @ [k]\<rparr>)))"

subsection \<open>Shutdown and drop\<close>

definition take_for_shutdown :: "supervisor \<Rightarrow> sup_step" where
  "take_for_shutdown s =
    (case active s of
       None \<Rightarrow> continues [Result (Stopped (Inr ()))] s
     | Some p \<Rightarrow> continues [AwaitExit (ap_child p) (cleanups_of (ap_generation p) s)] (taken (ap_generation p) s))"

definition exit_requested :: "nat \<Rightarrow> nat list \<Rightarrow> bridge_error + unit \<Rightarrow> supervisor \<Rightarrow> sup_step" where
  "exit_requested n ks r s =
    continues [AwaitReap n ks (case r of Inl e \<Rightarrow> Some e | Inr _ \<Rightarrow> None)] s"

text \<open>\<open>wait_for_exit\<close>, which polls the child until it has exited, fails or the deadline has passed.\<close>

fun wait_for_exit :: "sup_input \<Rightarrow> (bridge_error + bool) option" where
  "wait_for_exit Exited = Some (Inr True)"
| "wait_for_exit DeadlinePassed = Some (Inr False)"
| "wait_for_exit (Outcome (Inl e)) = Some (Inl e)"
| "wait_for_exit _ = None"

definition shutdown_result :: "bridge_error option \<Rightarrow> bridge_error + bool \<Rightarrow> bridge_error + unit" where
  "shutdown_result exit_error exited =
    (case exited of
       Inl e \<Rightarrow> Inl e
     | Inr True \<Rightarrow> Inr ()
     | Inr False \<Rightarrow>
         Inl (case exit_error of
                Some e \<Rightarrow> e
              | None \<Rightarrow> ProcessError (msg ''Node host did not exit before the shutdown deadline'')))"

definition await_reap :: "nat \<Rightarrow> nat list \<Rightarrow> bridge_error option \<Rightarrow> sup_input \<Rightarrow> supervisor \<Rightarrow> sup_step option" where
  "await_reap n ks exit_error i s =
    map_option (\<lambda>exited.
      continues (released n ks @ [Result (Stopped (shutdown_result exit_error exited))]) s)
      (wait_for_exit i)"

definition take_for_drop :: "supervisor \<Rightarrow> sup_step" where
  "take_for_drop s =
    (case active s of
       None \<Rightarrow> continues [] s
     | Some p \<Rightarrow> continues (released (ap_child p) (cleanups_of (ap_generation p) s)) (taken (ap_generation p) s))"

subsection \<open>The machine\<close>

fun sup_go :: "sup_act \<Rightarrow> supervisor \<Rightarrow> sup_step option" where
  "sup_go StartCheck s = Some (start_check s)"
| "sup_go TakeGeneration s = Some (take_next_generation s)"
| "sup_go (MakeClient g n) s = Some (make_client g n s)"
| "sup_go (ReadPriorError g n) s = Some (read_prior_error g n s)"
| "sup_go (StoreOnDisconnect g n prior) s = Some (store_on_disconnect g n prior s)"
| "sup_go (InstallProcess g n) s = Some (install_process g n s)"
| "sup_go (ReleaseGeneration g) s = Some (release_generation g s)"
| "sup_go (CloseClient n) s = Some (close_client n s)"
| "sup_go (TerminateProcess n) s = Some (continues [] (terminate_process n s))"
| "sup_go (RunCleanup k) s = Some (continues [] (s\<lparr>cleaned := cleaned s @ [k]\<rparr>))"
| "sup_go (RegisterCleanup g k) s = Some (register_cleanup g k s)"
| "sup_go TakeForShutdown s = Some (take_for_shutdown s)"
| "sup_go TakeForDrop s = Some (take_for_drop s)"
| "sup_go (Result r) s = Some (continues [] (s\<lparr>results := results s @ [r]\<rparr>))"
| "sup_go _ s = None"

fun sup_outcome :: "bridge_error + unit \<Rightarrow> sup_act \<Rightarrow> supervisor \<Rightarrow> sup_step option" where
  "sup_outcome r (SpawnHost g) s = Some (spawn_host g r s)"
| "sup_outcome r (AttachTree g n) s = Some (attach_tree g n r s)"
| "sup_outcome r (TakePipes g n) s = take_pipes g n r s"
| "sup_outcome r (AwaitHandshake g n) s = await_handshake g n r s"
| "sup_outcome r (AwaitExit n ks) s = Some (exit_requested n ks r s)"
| "sup_outcome r _ s = None"

definition sup_effect :: "(sup_input, sup_act, supervisor) effect" where
  "sup_effect i a s =
    (case a of
       AwaitReap n ks exit_error \<Rightarrow> await_reap n ks exit_error i s
     | AttachStderr e \<Rightarrow>
         (case i of Captured st \<Rightarrow> Some (continues [Result (Started (Inl (attach st e)))] s) | _ \<Rightarrow> None)
     | _ \<Rightarrow> (case i of Go \<Rightarrow> sup_go a s | Outcome r \<Rightarrow> sup_outcome r a s | _ \<Rightarrow> None))"

datatype sup_op = OpStart | OpRegister u64 nat | OpShutdown

fun sup_op_acts :: "sup_op \<Rightarrow> sup_act list" where
  "sup_op_acts OpStart = [StartCheck]"
| "sup_op_acts (OpRegister g k) = [RegisterCleanup g k]"
| "sup_op_acts OpShutdown = [TakeForShutdown]"

text \<open>
  A host's client becomes ready or is lost on its own. The drop of the supervisor excludes its
  operations, as its borrows do; the handlers of its clients may be running.
\<close>

datatype sup_label =
    SupCall sup_op
  | SupDrop
  | SupStep nat sup_input
  | HostReady nat
  | HostLost nat bridge_error

type_synonym supervision = "supervisor \<times> sup_act list list"

fun borrowed :: "sup_act \<Rightarrow> bool" where
  "borrowed (ReleaseGeneration g) = False"
| "borrowed (CloseClient n) = False"
| "borrowed (TerminateProcess n) = False"
| "borrowed (RunCleanup k) = False"
| "borrowed _ = True"

definition host_ready :: "nat \<Rightarrow> supervision \<Rightarrow> supervision option" where
  "host_ready n s =
    (case s of (sv, ths) \<Rightarrow>
      if n < length (children sv) \<and> has_client (children sv ! n) \<and> conn (children sv ! n) = StHandshaking
      then Some (at_child n (\<lambda>ch. ch\<lparr>conn := StReady\<rparr>) sv, ths) else None)"

definition host_lost :: "nat \<Rightarrow> bridge_error \<Rightarrow> supervision \<Rightarrow> supervision option" where
  "host_lost n e s =
    (case s of (sv, ths) \<Rightarrow>
      let ch = children sv ! n in
      if n < length (children sv) \<and> has_client ch \<and> conn_error ch = None
      then Some (at_child n (\<lambda>ch. ch\<lparr>conn := StDisconnected e\<rparr>) sv,
        ths @ (if handler_stored ch then [[ReleaseGeneration (child_generation ch)]] else []))
      else None)"

fun sup_exec :: "sup_label \<Rightarrow> supervision \<Rightarrow> supervision option" where
  "sup_exec (SupCall op) s = (if dropped (fst s) then None else Some (fst s, snd s @ [sup_op_acts op]))"
| "sup_exec SupDrop s =
    (if dropped (fst s) \<or> \<not> list_all (list_all (\<lambda>a. \<not> borrowed a)) (snd s) then None
     else Some ((fst s)\<lparr>dropped := True\<rparr>, snd s @ [[TakeForDrop]]))"
| "sup_exec (SupStep t i) s = thread_step sup_effect t i s"
| "sup_exec (HostReady n) s = host_ready n s"
| "sup_exec (HostLost n e) s = host_lost n e s"

definition sup_start :: "client_config \<Rightarrow> supervision \<Rightarrow> bool" where
  "sup_start cfg s \<longleftrightarrow> supervisor_new cfg = Inr (fst s) \<and> snd s = []"

abbreviation sup_reach :: "client_config \<Rightarrow> supervision \<Rightarrow> bool" where
  "sup_reach cfg \<equiv> reach (sup_start cfg) (exec_rel sup_exec)"

end
