(* ===== verification/SupervisorProps.thy ===== *)
theory SupervisorProps
  imports Supervisor
begin

section \<open>The Node supervisor: properties\<close>

text \<open>
  Every host process is owned by the supervisor, by one thread that is about to terminate it, or
  has been terminated once; every accepted cleanup is held, about to run, or has run; a lost host
  is released; generations are not reused. Sample runs at the end are the witnesses.
\<close>

named_theorems sup_defs \<open>the definitions of the actions\<close>

lemmas [sup_defs] =
  start_check_def take_next_generation_def spawn_host_def give_up_def attach_tree_def take_pipes_def
  make_client_def read_prior_error_def store_on_disconnect_def install_process_def await_handshake_def
  release_generation_def take_generation_def close_client_def register_cleanup_def
  take_for_shutdown_def exit_requested_def await_reap_def take_for_drop_def Let_def

lemmas sup_splits = if_splits option.splits sum.splits connection_state.splits

lemma sup_effect_cases:
  assumes "sup_effect i a s = Some r"
  obtains (go) "sup_go a s = Some r"
  | (outcome) x where "sup_outcome x a s = Some r"
  | (attached) e st where "a = AttachStderr e" "r = continues [Result (Started (Inl (attach st e)))] s"
  | (reap) n ks exit_error x where "a = AwaitReap n ks exit_error"
      "r = continues (released n ks @ [Result (Stopped (shutdown_result exit_error x))]) s"
proof (cases a)
  case (AwaitReap n ks exit_error)
  then show ?thesis using assms reap by (auto simp: sup_effect_def await_reap_def)
next
  case (AttachStderr e)
  then show ?thesis using assms attached by (auto simp: sup_effect_def split: sup_input.splits)
qed (use assms go outcome in \<open>auto simp: sup_effect_def split: sup_input.splits\<close>)

text \<open>What every act may do to the state.\<close>

lemma children_at_child [simp]:
  "length (children (at_child n f s)) = length (children s)"
  "active (at_child n f s) = active s" "cleanups (at_child n f s) = cleanups s"
  "next_generation (at_child n f s) = next_generation s" "reaped (at_child n f s) = reaped s"
  "registered (at_child n f s) = registered s" "cleaned (at_child n f s) = cleaned s"
  by (simp_all add: at_child_def)

lemma nth_at_child:
  "m < length (children s) \<Longrightarrow> children (at_child n f s) ! m = (if m = n then f (children s ! m) else children s ! m)"
  by (auto simp: at_child_def nth_list_update)

lemma released_weights:
  "weigh w (released n ks) = w (CloseClient n) + w (TerminateProcess n) + sum_list (map (\<lambda>k. w (RunCleanup k)) ks)"
  by (simp add: released_def weigh_def comp_def)

lemma released_all: "(\<forall>b\<in>set (released n ks). P b) \<longleftrightarrow>
    P (CloseClient n) \<and> P (TerminateProcess n) \<and> (\<forall>k\<in>set ks. P (RunCleanup k))"
  by (auto simp: released_def)

subsection \<open>Generations\<close>

definition issued :: "u64 \<Rightarrow> supervisor \<Rightarrow> nat" where
  "issued j s = length (filter (\<lambda>ch. child_generation ch = j) (children s)) + (if next_generation s \<le> j then 1 else 0)"

fun spawns :: "u64 \<Rightarrow> sup_act \<Rightarrow> nat" where
  "spawns j (SpawnHost g) = (if g = j then 1 else 0)"
| "spawns j _ = 0"

lemma generations_at_child:
  "(\<And>ch. child_generation (f ch) = child_generation ch) \<Longrightarrow>
    map child_generation (children (at_child n f s)) = map child_generation (children s)"
  using list_update_id [of "map child_generation (children s)" n]
  by (cases "n < length (children s)") (simp_all add: at_child_def map_update list_update_beyond)

lemma issued_generations:
  "issued j s = length (filter (\<lambda>g. g = j) (map child_generation (children s))) + (if next_generation s \<le> j then 1 else 0)"
  by (simp add: issued_def filter_map comp_def)

lemma issued_at_child [simp]:
  "(\<And>ch. child_generation (f ch) = child_generation ch) \<Longrightarrow> issued j (at_child n f s) = issued j s"
  by (simp add: issued_generations generations_at_child)

lemma issued_fields [simp]:
  "issued j (s\<lparr>active := x1\<rparr>) = issued j s" "issued j (s\<lparr>cleanups := x2\<rparr>) = issued j s"
  "issued j (s\<lparr>registered := x3\<rparr>) = issued j s" "issued j (s\<lparr>cleaned := x4\<rparr>) = issued j s"
  "issued j (s\<lparr>reaped := x5\<rparr>) = issued j s" "issued j (s\<lparr>results := x6\<rparr>) = issued j s"
  "issued j (taken g s) = issued j s" "issued j (terminate_process n s) = issued j s"
  "issued j (s\<lparr>children := children s @ [ch]\<rparr>) = issued j s + (if child_generation ch = j then 1 else 0)"
  by (simp_all add: issued_def taken_def terminate_process_def)

lemma issued_next:
  assumes "next_generation s \<noteq> - 1"
  shows "issued j (s\<lparr>next_generation := next_generation s + 1\<rparr>) + (if next_generation s = j then 1 else 0) \<le> issued j s"
proof -
  have "1 + next_generation s \<noteq> 0"
    using assms by (metis add.commute eq_neg_iff_add_eq_0)
  then have "unat (next_generation s + 1) = Suc (unat (next_generation s))"
    using unatSuc [of "next_generation s"] by (simp add: add.commute)
  then have "next_generation s < next_generation s + 1" by (simp add: word_less_nat_alt)
  then show ?thesis by (auto simp: issued_def)
qed

lemma sup_effect_issued:
  assumes "sup_effect i a s = Some (acts, spawned, s')"
  shows "issued j s' + weigh (spawns j) acts + total (spawns j) spawned \<le> issued j s + spawns j a"
  using assms
proof (cases rule: sup_effect_cases)
  case go
  then show ?thesis
    using issued_next [of s j]
    by (cases a) (auto simp: sup_defs released_weights split: sup_splits)
next
  case (outcome x)
  then show ?thesis
    by (cases a) (auto simp: sup_defs split: sup_splits)
qed (auto simp: released_weights)


interpretation issuing: thread_bound sup_effect "issued j" "spawns j" "\<lambda>_ _. True"
  for j
  using sup_effect_issued by unfold_locales (simp add: add.assoc)

subsection \<open>Owning a process\<close>

text \<open>
  A process that is not spawned yet, the active one, one that a thread is about to terminate or to
  make active, one that was terminated: exactly one of these, and once.
\<close>

definition active_is :: "nat \<Rightarrow> supervisor \<Rightarrow> nat" where
  "active_is n s = (case active s of Some p \<Rightarrow> if ap_child p = n then 1 else 0 | None \<Rightarrow> 0)"

definition owned :: "nat \<Rightarrow> supervisor \<Rightarrow> nat" where
  "owned n s = (if length (children s) \<le> n then 1 else 0) + active_is n s + length (filter (\<lambda>m. m = n) (reaped s))"

fun holds_process :: "nat \<Rightarrow> sup_act \<Rightarrow> nat" where
  "holds_process n (AttachTree g m) = (if m = n then 1 else 0)"
| "holds_process n (TakePipes g m) = (if m = n then 1 else 0)"
| "holds_process n (MakeClient g m) = (if m = n then 1 else 0)"
| "holds_process n (ReadPriorError g m) = (if m = n then 1 else 0)"
| "holds_process n (StoreOnDisconnect g m prior) = (if m = n then 1 else 0)"
| "holds_process n (InstallProcess g m) = (if m = n then 1 else 0)"
| "holds_process n (TerminateProcess m) = (if m = n then 1 else 0)"
| "holds_process n (AwaitExit m ks) = (if m = n then 1 else 0)"
| "holds_process n (AwaitReap m ks e) = (if m = n then 1 else 0)"
| "holds_process n _ = 0"

lemma owned_fields [simp]:
  "owned n (s\<lparr>next_generation := x1\<rparr>) = owned n s" "owned n (s\<lparr>cleanups := x2\<rparr>) = owned n s"
  "owned n (s\<lparr>registered := x3\<rparr>) = owned n s" "owned n (s\<lparr>cleaned := x4\<rparr>) = owned n s"
  "owned n (s\<lparr>results := x5\<rparr>) = owned n s" "owned n (at_child m f s) = owned n s"
  "owned n (terminate_process m s) = owned n s + (if m = n then 1 else 0)"
  by (simp_all add: owned_def active_is_def terminate_process_def at_child_def)

lemma owned_spawned [simp]:
  "owned n (s\<lparr>children := children s @ [ch]\<rparr>) + (if length (children s) = n then 1 else 0) = owned n s"
  by (auto simp: owned_def active_is_def)

lemma owned_install [simp]:
  "active s = None \<Longrightarrow> owned n (s\<lparr>active := Some \<lparr>ap_generation = g, ap_child = m\<rparr>\<rparr>) = owned n s + (if m = n then 1 else 0)"
  by (auto simp: owned_def active_is_def)

lemma owned_taken [simp]:
  "active s = Some p \<Longrightarrow> owned n (taken g s) + (if ap_child p = n then 1 else 0) = owned n s"
  by (auto simp: owned_def active_is_def taken_def)

lemma sup_effect_owned:
  assumes "sup_effect i a s = Some (acts, spawned, s')"
  shows "owned n s' + weigh (holds_process n) acts + total (holds_process n) spawned = owned n s + holds_process n a"
  using assms
proof (cases rule: sup_effect_cases)
  case go
  then show ?thesis
    using owned_taken [of s _ n]
    by (cases a) (auto simp: sup_defs released_weights split: sup_splits)
next
  case (outcome x)
  then show ?thesis
    using owned_spawned [of n s]
    by (cases a) (auto simp: sup_defs split: sup_splits)
qed (auto simp: released_weights)

interpretation owning: thread_conserved sup_effect "owned n" "holds_process n" "\<lambda>_ _. True"
  for n
  using sup_effect_owned [of _ _ _ _ _ _ n] by unfold_locales (simp_all add: add.assoc)

subsection \<open>The state\<close>

definition active_ok :: "supervisor \<Rightarrow> active_process \<Rightarrow> bool" where
  "active_ok s p \<longleftrightarrow> ap_child p < length (children s)
    \<and> child_generation (children s ! ap_child p) = ap_generation p
    \<and> handler_stored (children s ! ap_child p) \<and> has_client (children s ! ap_child p)"

definition sup_inv :: "supervisor \<Rightarrow> bool" where
  "sup_inv s \<longleftrightarrow>
    (case active s of
       None \<Rightarrow> cleanups s = []
     | Some p \<Rightarrow> active_ok s p \<and> (cleanups s = [] \<or> (\<exists>ks. cleanups s = [(ap_generation p, ks)])))"

definition is_child :: "u64 \<Rightarrow> nat \<Rightarrow> supervisor \<Rightarrow> bool" where
  "is_child g n s \<longleftrightarrow> n < length (children s) \<and> child_generation (children s ! n) = g"

fun sup_rely :: "supervisor \<Rightarrow> sup_act \<Rightarrow> bool" where
  "sup_rely s (AttachTree g n) \<longleftrightarrow> is_child g n s"
| "sup_rely s (TakePipes g n) \<longleftrightarrow> is_child g n s"
| "sup_rely s (MakeClient g n) \<longleftrightarrow> is_child g n s"
| "sup_rely s (ReadPriorError g n) \<longleftrightarrow> is_child g n s \<and> has_client (children s ! n)"
| "sup_rely s (StoreOnDisconnect g n prior) \<longleftrightarrow> is_child g n s \<and> has_client (children s ! n)"
| "sup_rely s (InstallProcess g n) \<longleftrightarrow>
    is_child g n s \<and> has_client (children s ! n) \<and> handler_stored (children s ! n)"
| "sup_rely s (AwaitHandshake g n) \<longleftrightarrow> is_child g n s"
| "sup_rely s _ \<longleftrightarrow> True"

text \<open>Children only gain: a client, a handler; their generation stays.\<close>

definition grows :: "child \<Rightarrow> child \<Rightarrow> bool" where
  "grows ch ch' \<longleftrightarrow> child_generation ch' = child_generation ch \<and> (has_client ch \<longrightarrow> has_client ch')
    \<and> (handler_stored ch \<longrightarrow> handler_stored ch')"

definition children_grow :: "supervisor \<Rightarrow> supervisor \<Rightarrow> bool" where
  "children_grow s s' \<longleftrightarrow> length (children s) \<le> length (children s')
    \<and> (\<forall>n < length (children s). grows (children s ! n) (children s' ! n))"

lemma grow_same: "children s' = children s \<Longrightarrow> children_grow s s'"
  by (simp add: children_grow_def grows_def)

lemma grow_spawned: "children_grow s (s\<lparr>children := children s @ [ch]\<rparr>)"
  by (simp add: children_grow_def grows_def nth_append)

lemma grow_child: "(\<And>ch. grows ch (f ch)) \<Longrightarrow> children_grow s (at_child n f s)"
  by (auto simp: children_grow_def nth_at_child) (simp add: grows_def)

lemma grows_simps [simp]:
  "grows ch (ch\<lparr>has_client := True\<rparr>)" "grows ch (ch\<lparr>handler_stored := True\<rparr>)" "grows ch (ch\<lparr>conn := x\<rparr>)"
  by (simp_all add: grows_def)

lemma children_fields [simp]:
  "children (taken g s) = children s" "children (terminate_process n s) = children s"
  "cleanups (terminate_process n s) = cleanups s"
  "active (terminate_process n s) = active s" "active (taken g s) = None"
  by (simp_all add: taken_def terminate_process_def)

lemma sup_effect_grows:
  assumes "sup_effect i a s = Some (acts, spawned, s')"
  shows "children_grow s s'"
  using assms
proof (cases rule: sup_effect_cases)
  case go
  then show ?thesis
    by (cases a) (auto simp: sup_defs grow_same grow_child split: sup_splits)
next
  case (outcome x)
  then show ?thesis
    by (cases a) (auto simp: sup_defs grow_same grow_spawned split: sup_splits)
qed (auto simp: grow_same)

lemma grown_child: "is_child g n s \<Longrightarrow> children_grow s s' \<Longrightarrow> is_child g n s'"
  by (auto simp: is_child_def children_grow_def grows_def)

lemma grown_active: "active_ok s p \<Longrightarrow> children_grow s s' \<Longrightarrow> active_ok s' p"
  by (auto simp: active_ok_def children_grow_def grows_def)

lemma sup_rely_stable: "children_grow s s' \<Longrightarrow> sup_rely s a \<Longrightarrow> sup_rely s' a"
  using grown_child [of _ _ s s']
  by (cases a) (auto simp: is_child_def children_grow_def grows_def)

text \<open>Steps that leave the active process and its cleanups keep the invariant.\<close>

lemma sup_inv_kept:
  "sup_inv s \<Longrightarrow> children_grow s s' \<Longrightarrow> active s' = active s \<Longrightarrow> cleanups s' = cleanups s \<Longrightarrow> sup_inv s'"
  using grown_active [of s _ s'] by (auto simp: sup_inv_def split: option.splits)

lemma sup_inv_taken: "sup_inv s \<Longrightarrow> active s = Some p \<Longrightarrow> sup_inv (taken (ap_generation p) s)"
  by (auto simp: sup_inv_def taken_def bt_remove_def)

lemma sup_inv_installed:
  assumes "sup_inv s" and "active s = None" and "is_child g n s"
    and "has_client (children s ! n)" "handler_stored (children s ! n)"
  shows "sup_inv (s\<lparr>active := Some \<lparr>ap_generation = g, ap_child = n\<rparr>\<rparr>)"
  using assms by (simp add: sup_inv_def active_ok_def is_child_def)

lemma sup_inv_registered:
  assumes "sup_inv s" and "active s = Some p"
  shows "sup_inv (s\<lparr>cleanups := bt_insert (ap_generation p) ks (cleanups s), registered := x\<rparr>)"
  using assms by (auto simp: sup_inv_def active_ok_def)

lemma sup_effect_inv:
  assumes "sup_effect i a s = Some (acts, spawned, s')" and "sup_inv s" and "sup_rely s a"
  shows "sup_inv s'"
proof (cases "active s' = active s \<and> cleanups s' = cleanups s")
  case True
  then show ?thesis using sup_inv_kept [OF assms(2) sup_effect_grows [OF assms(1)]] by blast
next
  case False
  from assms(1) show ?thesis
  proof (cases rule: sup_effect_cases)
    case go
    then show ?thesis
      using False assms(2,3) sup_inv_taken [OF assms(2)] sup_inv_installed [OF assms(2)]
        sup_inv_registered [OF assms(2)]
      by (cases a) (auto simp: sup_defs split: sup_splits)
  next
    case (outcome x)
    then show ?thesis using False by (cases a) (auto simp: sup_defs split: sup_splits)
  qed (use False in auto)
qed

lemma released_rely [simp]: "b \<in> set (released n ks) \<Longrightarrow> sup_rely s b"
  by (auto simp: released_def)

lemma sup_effect_rely:
  assumes "sup_effect i a s = Some (acts, spawned, s')" and "sup_inv s" and "sup_rely s a"
  shows "(\<forall>b\<in>set acts. sup_rely s' b) \<and> all_acts (sup_rely s') spawned"
  using assms(1)
proof (cases rule: sup_effect_cases)
  case go
  then show ?thesis
    using assms(3)
    by (cases a) (auto simp: sup_defs released_all is_child_def nth_at_child split: sup_splits)
next
  case (outcome x)
  then show ?thesis
    using assms(3)
    by (cases a) (auto simp: sup_defs is_child_def nth_append split: sup_splits)
qed (auto simp: released_all)

interpretation state: thread_invariant sup_effect sup_inv sup_rely
  using sup_effect_inv sup_effect_rely sup_rely_stable [OF sup_effect_grows] by unfold_locales blast+


subsection \<open>Cleanups\<close>

definition occurs :: "nat \<Rightarrow> nat list \<Rightarrow> nat" where
  "occurs k ks = length (filter (\<lambda>x. x = k) ks)"

lemma occurs_simps [simp]:
  "occurs k [] = 0" "occurs k (x # xs) = (if x = k then 1 else 0) + occurs k xs"
  "occurs k (xs @ ys) = occurs k xs + occurs k ys"
  by (simp_all add: occurs_def)

definition held :: "nat \<Rightarrow> (u64, nat list) btree \<Rightarrow> nat" where
  "held k m = sum_list (map (\<lambda>x. occurs k (snd x)) m)"

lemma held_simps [simp]: "held k [] = 0" "held k (x # m) = occurs k (snd x) + held k m"
  by (simp_all add: held_def)

definition kept :: "nat \<Rightarrow> supervisor \<Rightarrow> nat" where
  "kept k s = held k (cleanups s) + occurs k (cleaned s)"

fun runs_cleanup :: "nat \<Rightarrow> sup_act \<Rightarrow> nat" where
  "runs_cleanup k (RunCleanup k') = (if k' = k then 1 else 0)"
| "runs_cleanup k (AwaitExit n ks) = occurs k ks"
| "runs_cleanup k (AwaitReap n ks e) = occurs k ks"
| "runs_cleanup k _ = 0"

lemma released_cleanups [simp]: "weigh (runs_cleanup k) (released n ks) = occurs k ks"
  by (simp add: released_weights) (induction ks; simp)

lemma kept_fields [simp]:
  "kept k (s\<lparr>next_generation := x1\<rparr>) = kept k s" "kept k (s\<lparr>active := x2\<rparr>) = kept k s"
  "kept k (s\<lparr>children := x3\<rparr>) = kept k s" "kept k (s\<lparr>results := x4\<rparr>) = kept k s"
  "kept k (at_child n f s) = kept k s" "kept k (terminate_process n s) = kept k s"
  "kept k (s\<lparr>cleaned := cleaned s @ [k']\<rparr>) = kept k s + (if k' = k then 1 else 0)"
  by (simp_all add: kept_def terminate_process_def at_child_def)

lemma kept_taken:
  assumes "sup_inv s" and "active s = Some p"
  shows "kept k (taken (ap_generation p) s) + occurs k (cleanups_of (ap_generation p) s) = kept k s"
  using assms by (auto simp: kept_def taken_def sup_inv_def cleanups_of_def bt_remove_def bt_get_def)

lemma kept_registered:
  assumes "sup_inv s" and "active s = Some p"
  shows "kept k (s\<lparr>cleanups := bt_insert (ap_generation p) (cleanups_of (ap_generation p) s @ [k']) (cleanups s),
      registered := x\<rparr>) = kept k s + (if k' = k then 1 else 0)"
  using assms by (auto simp: kept_def sup_inv_def cleanups_of_def bt_get_def)

lemma registered_fields [simp]:
  "registered (taken g s) = registered s" "registered (terminate_process n s) = registered s"
  by (simp_all add: taken_def terminate_process_def)

lemma sup_effect_cleanups:
  assumes "sup_inv s" and "sup_effect i a s = Some (acts, spawned, s')"
  shows "kept k s' + weigh (runs_cleanup k) acts + total (runs_cleanup k) spawned + occurs k (registered s)
    = kept k s + runs_cleanup k a + occurs k (registered s')"
  using assms(2)
proof (cases rule: sup_effect_cases)
  case go
  then show ?thesis
    using kept_taken [OF assms(1), of _ k] kept_registered [OF assms(1), of _ k]
    by (cases a) (auto simp: sup_defs split: sup_splits)
next
  case (outcome x)
  then show ?thesis
    by (cases a) (auto simp: sup_defs split: sup_splits)
qed auto

interpretation cleaning: thread_balance sup_effect "kept k" "\<lambda>s. occurs k (registered s)" "runs_cleanup k" "\<lambda>s _. sup_inv s"
  for k
  using sup_effect_cleanups by unfold_locales blast

subsection \<open>A lost host\<close>

text \<open>The active process of a generation whose connection is lost.\<close>

definition abandoned :: "u64 \<Rightarrow> supervisor \<Rightarrow> bool" where
  "abandoned j s \<longleftrightarrow> (case active s of
     Some p \<Rightarrow> ap_generation p = j \<and> conn_error (children s ! ap_child p) \<noteq> None
   | None \<Rightarrow> False)"

fun releases :: "u64 \<Rightarrow> sup_act \<Rightarrow> nat" where
  "releases j (ReleaseGeneration g) = (if g = j then 1 else 0)"
| "releases j (AwaitHandshake g n) = (if g = j then 1 else 0)"
| "releases j _ = 0"

definition one_generation :: "supervisor \<Rightarrow> bool" where
  "one_generation s \<longleftrightarrow> distinct (map child_generation (children s))"

definition release_ok :: "supervisor \<Rightarrow> sup_act \<Rightarrow> bool" where
  "release_ok s a \<longleftrightarrow> sup_inv s \<and> sup_rely s a \<and> one_generation s"

lemma same_child:
  assumes "one_generation s" and "is_child g m s" and "is_child g n s"
  shows "m = n"
  using assms nth_eq_iff_index_eq [of "map child_generation (children s)" m n]
  by (simp add: one_generation_def is_child_def)

lemma abandoned_fields [simp]:
  "abandoned j (s\<lparr>next_generation := x1\<rparr>) = abandoned j s" "abandoned j (s\<lparr>cleanups := x2\<rparr>) = abandoned j s"
  "abandoned j (s\<lparr>registered := x3\<rparr>) = abandoned j s" "abandoned j (s\<lparr>results := x4\<rparr>) = abandoned j s"
  "abandoned j (s\<lparr>cleaned := x5\<rparr>) = abandoned j s" "abandoned j (terminate_process n s) = abandoned j s"
  "\<not> abandoned j (taken g s)"
  by (simp_all add: abandoned_def terminate_process_def taken_def split: option.splits)

lemma abandoned_spawned:
  "sup_inv s \<Longrightarrow> abandoned j (s\<lparr>children := children s @ [ch]\<rparr>) = abandoned j s"
  by (auto simp: abandoned_def sup_inv_def active_ok_def nth_append split: option.splits)

lemma abandoned_at_child:
  assumes "sup_inv s" and "\<And>ch. conn (f ch) = conn ch"
  shows "abandoned j (at_child n f s) = abandoned j s"
  using assms
  by (auto simp: abandoned_def sup_inv_def active_ok_def nth_at_child conn_error_def split: option.splits)

lemma abandoned_closed:
  assumes "sup_inv s" and "abandoned j (at_child n f s)" and "\<not> abandoned j s"
  shows "handler_stored (children s ! n) \<and> child_generation (children s ! n) = j"
proof -
  obtain p where p: "active s = Some p" "ap_generation p = j"
    using assms(2) by (auto simp: abandoned_def split: option.splits)
  then have ok: "active_ok s p" using assms(1) by (simp add: sup_inv_def)
  have "ap_child p = n"
    using assms(2,3) p ok by (auto simp: abandoned_def nth_at_child active_ok_def split: if_splits)
  then show ?thesis using ok p by (simp add: active_ok_def)
qed

lemma sup_effect_releases:
  assumes "release_ok s a" and "sup_effect i a s = Some (acts, spawned, s')" and "abandoned j s'"
  shows "abandoned j s \<and> releases j a \<le> weigh (releases j) acts + total (releases j) spawned
    \<or> 1 \<le> weigh (releases j) acts + total (releases j) spawned"
proof -
  have inv: "sup_inv s" and rely: "sup_rely s a" and one: "one_generation s"
    using assms(1) by (simp_all add: release_ok_def)
  from assms(2) show ?thesis
  proof (cases rule: sup_effect_cases)
    case go
    show ?thesis
    proof (cases a)
      case (ReleaseGeneration g)
      then show ?thesis
        using go assms(3) by (auto simp: sup_defs abandoned_def released_weights split: sup_splits)
    next
      case (CloseClient n)
      show ?thesis
      proof (cases "abandoned j s")
        case False
        then show ?thesis
          using go assms(3) CloseClient abandoned_closed [OF inv, of j n]
          by (auto simp: sup_defs split: sup_splits)
      qed (use go CloseClient in \<open>auto simp: sup_defs split: sup_splits\<close>)
    next
      case (InstallProcess g n)
      then show ?thesis using go assms(3) by (auto simp: sup_defs abandoned_def split: sup_splits)
    next
      case (MakeClient g n)
      then show ?thesis
        using go assms(3) abandoned_at_child [OF inv] by (auto simp: sup_defs split: sup_splits)
    next
      case (StoreOnDisconnect g n prior)
      then show ?thesis
        using go assms(3) abandoned_at_child [OF inv] by (auto simp: sup_defs split: sup_splits)
    qed (use go assms(3) in \<open>auto simp: sup_defs released_weights split: sup_splits\<close>)
  next
    case (outcome x)
    show ?thesis
    proof (cases a)
      case (AwaitHandshake g n)
      show ?thesis
      proof (cases x)
        case (Inl e)
        then show ?thesis
          using outcome AwaitHandshake assms(3) by (auto simp: sup_defs)
      next
        case (Inr u)
        then have ready: "conn (children s ! n) = StReady" and same: "s' = s"
          using outcome AwaitHandshake by (auto simp: sup_defs split: if_splits)
        obtain p where p: "active s = Some p" "ap_generation p = j" "conn_error (children s ! ap_child p) \<noteq> None"
          using assms(3) same by (auto simp: abandoned_def split: option.splits)
        have "is_child j (ap_child p) s" "is_child g n s"
          using inv p rely AwaitHandshake by (auto simp: sup_inv_def active_ok_def is_child_def)
        then have "g \<noteq> j" using same_child [OF one, of j "ap_child p" n] p(3) ready by (auto simp: conn_error_def)
        then show ?thesis using AwaitHandshake assms(3) same by simp
      qed
    qed (use outcome assms(3) abandoned_spawned [OF inv] in \<open>auto simp: sup_defs split: sup_splits\<close>)
  qed (use assms(3) in \<open>auto simp: released_weights\<close>)
qed

interpretation releasing: thread_guard sup_effect "abandoned j" "\<lambda>_. 0" "releases j" release_ok
  for j
  using sup_effect_releases by unfold_locales fastforce


subsection \<open>Drop\<close>

text \<open>Once the supervisor is being dropped no operation runs, and what is active will be taken.\<close>

definition drop_ok :: "supervisor \<Rightarrow> sup_act \<Rightarrow> bool" where
  "drop_ok s a \<longleftrightarrow> (dropped s \<longrightarrow> \<not> borrowed a \<or> a = TakeForDrop)"

fun drops :: "sup_act \<Rightarrow> nat" where
  "drops TakeForDrop = 1"
| "drops _ = 0"

lemma dropped_fields [simp]:
  "dropped (at_child n f s) = dropped s" "dropped (taken g s) = dropped s" "dropped (terminate_process n s) = dropped s"
  by (simp_all add: at_child_def taken_def terminate_process_def)

lemma sup_effect_dropped:
  assumes "sup_effect i a s = Some (acts, spawned, s')"
  shows "dropped s' = dropped s"
  using assms
proof (cases rule: sup_effect_cases)
  case go
  then show ?thesis by (cases a) (auto simp: sup_defs split: sup_splits)
next
  case (outcome x)
  then show ?thesis by (cases a) (auto simp: sup_defs split: sup_splits)
qed auto

lemma released_unborrowed [simp]: "b \<in> set (released n ks) \<Longrightarrow> \<not> borrowed b"
  by (auto simp: released_def)

lemma released_drops [simp]: "weigh drops (released n ks) = 0"
  by (simp add: released_weights)

lemma sup_effect_drop_ok:
  assumes "sup_effect i a s = Some (acts, spawned, s')" and "drop_ok s a"
  shows "(\<forall>b\<in>set acts. drop_ok s' b) \<and> all_acts (drop_ok s') spawned"
proof (cases "dropped s")
  case False
  then show ?thesis
    using sup_effect_dropped [OF assms(1)] by (simp add: drop_ok_def all_acts_def)
next
  case True
  then have quiet: "\<not> borrowed a \<or> a = TakeForDrop" using assms(2) by (simp add: drop_ok_def)
  from assms(1) show ?thesis
  proof (cases rule: sup_effect_cases)
    case go
    then show ?thesis
      using quiet by (cases a) (auto simp: sup_defs drop_ok_def split: sup_splits)
  next
    case (outcome x)
    then show ?thesis using quiet by (cases a) auto
  qed (use quiet in auto)
qed

interpretation dropping: thread_invariant sup_effect "\<lambda>_. True" drop_ok
proof
  show "drop_ok s' b" if "sup_effect i a s = Some (acts, spawned, s')" "drop_ok s b"
    for s a i acts spawned s' b
    using that sup_effect_dropped by (simp add: drop_ok_def)
qed (use sup_effect_drop_ok in blast)

lemma sup_effect_drops:
  assumes "drop_ok s a" and "sup_effect i a s = Some (acts, spawned, s')" and "dropped s' \<and> active s' \<noteq> None"
  shows "(dropped s \<and> active s \<noteq> None) \<and> drops a \<le> weigh drops acts + total drops spawned"
proof -
  have quiet: "dropped s" "\<not> borrowed a \<or> a = TakeForDrop"
    using assms sup_effect_dropped [OF assms(2)] by (simp_all add: drop_ok_def)
  from assms(2) show ?thesis
  proof (cases rule: sup_effect_cases)
    case go
    then show ?thesis
      using quiet assms(3) by (cases a) (auto simp: sup_defs split: sup_splits)
  next
    case (outcome x)
    then show ?thesis using quiet by (cases a) auto
  qed (use quiet in auto)
qed

interpretation drop_guard: thread_guard sup_effect "\<lambda>s. dropped s \<and> active s \<noteq> None" "\<lambda>_. 0" drops drop_ok
  using sup_effect_drops by unfold_locales fastforce

subsection \<open>The machine\<close>

definition machine_inv :: "supervision \<Rightarrow> bool" where
  "machine_inv m \<longleftrightarrow> (case m of (s, ths) \<Rightarrow>
    sup_inv s \<and> all_acts (sup_rely s) ths \<and> all_acts (drop_ok s) ths
    \<and> (\<forall>j. issued j s + total (spawns j) ths \<le> 1)
    \<and> (\<forall>n. owned n s + total (holds_process n) ths = 1)
    \<and> (\<forall>k. kept k s + total (runs_cleanup k) ths = occurs k (registered s))
    \<and> (\<forall>j. abandoned j s \<longrightarrow> 1 \<le> total (releases j) ths)
    \<and> (dropped s \<and> active s \<noteq> None \<longrightarrow> 1 \<le> total drops ths))"

lemma generations_distinct:
  assumes "machine_inv (s, ths)"
  shows "one_generation s"
proof -
  have "length (filter (\<lambda>g. g = j) (map child_generation (children s))) \<le> 1" for j
    using assms by (auto simp: machine_inv_def issued_generations dest!: spec [of _ j])
  then show ?thesis unfolding one_generation_def by (rule distinct_counted)
qed

lemma supervisor_fresh:
  "supervisor_new cfg = Inr s \<Longrightarrow> s = \<lparr>sup_config = cfg, next_generation = 1, active = None, cleanups = [],
    children = [], dropped = False, registered = [], cleaned = [], reaped = [], results = []\<rparr>"
  by (auto simp: supervisor_new_def try_bind_eq_Inr)

lemma machine_start: "sup_start cfg m \<Longrightarrow> machine_inv m"
  by (cases m) (auto simp: sup_start_def machine_inv_def sup_inv_def issued_def owned_def active_is_def kept_def
      abandoned_def dest!: supervisor_fresh)

text \<open>A step of a thread.\<close>

lemma machine_step:
  assumes "machine_inv (s, ths)" and "thread_step sup_effect t i (s, ths) = Some (s', ths')"
  shows "machine_inv (s', ths')"
proof -
  have inv: "sup_inv s" "all_acts (sup_rely s) ths" and dr: "all_acts (drop_ok s) ths"
    and iss: "\<And>j. issued j s + total (spawns j) ths \<le> 1"
    and own: "\<And>n. owned n s + total (holds_process n) ths = 1"
    and cln: "\<And>k. kept k s + total (runs_cleanup k) ths = occurs k (registered s)"
    and aba: "\<And>j. abandoned j s \<Longrightarrow> 1 \<le> 0 + total (releases j) ths"
    and drp: "dropped s \<and> active s \<noteq> None \<Longrightarrow> 1 \<le> 0 + total drops ths"
    using assms(1) by (auto simp: machine_inv_def)
  have any: "all_acts (\<lambda>_. True) ths" and invs: "all_acts (\<lambda>_. sup_inv s) ths"
    using inv(1) by (simp_all add: all_acts_def)
  have rel: "all_acts (release_ok s) ths"
    using inv generations_distinct [OF assms(1)] by (simp add: all_acts_def release_ok_def)
  have "sup_inv s' \<and> all_acts (sup_rely s') ths'" by (rule state.step_inv [OF inv assms(2)])
  moreover have "all_acts (drop_ok s') ths'" using dropping.step_inv [OF TrueI dr assms(2)] by simp
  moreover have "issued j s' + total (spawns j) ths' \<le> 1" for j
    using issuing.step_bound [OF any assms(2), of j] iss [of j] by simp
  moreover have "owned n s' + total (holds_process n) ths' = 1" for n
    using owning.step_conserved [OF any assms(2), of n] own [of n] by simp
  moreover have "kept k s' + total (runs_cleanup k) ths' = occurs k (registered s')" for k
    by (rule cleaning.step_balance [OF invs assms(2) cln])
  moreover have "1 \<le> total (releases j) ths'" if "abandoned j s'" for j
    using releasing.step_guard [OF rel assms(2) aba that] by simp
  moreover have "1 \<le> total drops ths'" if "dropped s' \<and> active s' \<noteq> None"
    using drop_guard.step_guard [OF dr assms(2) drp that] by simp
  ultimately show ?thesis by (simp add: machine_inv_def)
qed

text \<open>A call, the drop, and what a host does on its own.\<close>

lemma op_weights [simp]:
  "weigh (spawns j) (sup_op_acts op) = 0" "weigh (holds_process n) (sup_op_acts op) = 0"
  "weigh (runs_cleanup k) (sup_op_acts op) = 0" "weigh (releases j) (sup_op_acts op) = 0"
  "weigh drops (sup_op_acts op) = 0" "b \<in> set (sup_op_acts op) \<Longrightarrow> sup_rely s b"
  by (cases op; simp)+

lemma machine_call: "machine_inv (s, ths) \<Longrightarrow> \<not> dropped s \<Longrightarrow> machine_inv (s, ths @ [sup_op_acts op])"
  by (simp add: machine_inv_def drop_ok_def)

lemma dropped_rely [simp]: "sup_rely (s\<lparr>dropped := True\<rparr>) a = sup_rely s a"
  by (cases a) (auto simp: is_child_def)

lemma dropped_keeps [simp]:
  "sup_inv (s\<lparr>dropped := True\<rparr>) = sup_inv s"
  "issued j (s\<lparr>dropped := True\<rparr>) = issued j s" "owned n (s\<lparr>dropped := True\<rparr>) = owned n s"
  "kept k (s\<lparr>dropped := True\<rparr>) = kept k s" "abandoned j (s\<lparr>dropped := True\<rparr>) = abandoned j s"
  by (auto simp: sup_inv_def active_ok_def issued_def owned_def active_is_def kept_def abandoned_def
      split: option.splits)

lemma machine_drop:
  assumes "machine_inv (s, ths)" and "list_all (list_all (\<lambda>a. \<not> borrowed a)) ths"
  shows "machine_inv (s\<lparr>dropped := True\<rparr>, ths @ [[TakeForDrop]])"
  using assms by (auto simp: machine_inv_def drop_ok_def all_acts_def list_all_iff)


lemma machine_conn:
  assumes "machine_inv (s, ths)" and "n < length (children s)" and "s' = at_child n (\<lambda>ch. ch\<lparr>conn := x\<rparr>) s"
    and "\<And>j. abandoned j s' \<Longrightarrow> \<not> abandoned j s \<Longrightarrow> 1 \<le> total (releases j) us"
    and "\<And>th. th \<in> set us \<Longrightarrow> \<exists>g. th = [ReleaseGeneration g]"
  shows "machine_inv (s', ths @ us)"
proof -
  have grow: "children_grow s s'" using assms(3) by (simp add: grow_child)
  have rely: "all_acts (sup_rely s') (ths @ us)"
    using assms(1,5) sup_rely_stable [OF grow] unfolding machine_inv_def all_acts_def by fastforce
  have "all_acts (drop_ok s') (ths @ us)"
    using assms(1,3,5) unfolding machine_inv_def all_acts_def drop_ok_def by fastforce
  moreover have "sup_inv s'"
    using assms(1,3) sup_inv_kept [OF _ grow] by (simp add: machine_inv_def)
  moreover have zero: "total w us = 0" if "\<And>g. w (ReleaseGeneration g) = 0" for w
    using assms(5) that by (fastforce simp: total_zero)
  moreover have "1 \<le> total (releases j) (ths @ us)" if "abandoned j s'" for j
    using assms(1) assms(4) [OF that] by (cases "abandoned j s") (auto simp: machine_inv_def trans_le_add1 trans_le_add2)
  moreover have "dropped s' \<and> active s' \<noteq> None \<Longrightarrow> 1 \<le> total drops (ths @ us)"
    using assms(1,3) by (auto simp: machine_inv_def)
  ultimately show ?thesis
    using assms(1,3) rely by (simp add: machine_inv_def zero)
qed

lemma machine_ready:
  assumes "machine_inv (s, ths)" and "host_ready n (s, ths) = Some (s', ths')"
  shows "machine_inv (s', ths')"
proof -
  have n: "n < length (children s)" "s' = at_child n (\<lambda>ch. ch\<lparr>conn := StReady\<rparr>) s" "ths' = ths @ []"
    using assms(2) by (auto simp: host_ready_def split: if_splits)
  show ?thesis unfolding n(3)
  proof (rule machine_conn [OF assms(1) n(1,2)])
    fix j
    assume "abandoned j s'" and "\<not> abandoned j s"
    then show "1 \<le> total (releases j) []"
      using assms(1) n(2) by (auto simp: machine_inv_def sup_inv_def active_ok_def abandoned_def nth_at_child
          conn_error_def split: option.splits if_splits)
  qed simp
qed

lemma machine_lost:
  assumes "machine_inv (s, ths)" and "host_lost n e (s, ths) = Some (s', ths')"
  shows "machine_inv (s', ths')"
proof -
  let ?us = "if handler_stored (children s ! n) then [[ReleaseGeneration (child_generation (children s ! n))]] else []"
  have n: "n < length (children s)" "s' = at_child n (\<lambda>ch. ch\<lparr>conn := StDisconnected e\<rparr>) s" "ths' = ths @ ?us"
    using assms(2) by (auto simp: host_lost_def Let_def split: if_splits)
  show ?thesis unfolding n(3)
  proof (rule machine_conn [OF assms(1) n(1,2)])
    fix j
    assume "abandoned j s'" and "\<not> abandoned j s"
    then show "1 \<le> total (releases j) ?us"
      using abandoned_closed [of s j n] assms(1) n(2) by (auto simp: machine_inv_def)
  qed (auto split: if_splits)
qed

lemma machine_exec:
  assumes "sup_exec l (s, ths) = Some (s', ths')" and "machine_inv (s, ths)"
  shows "machine_inv (s', ths')"
  using assms(1)
proof (cases l)
  case (SupCall op)
  then show ?thesis using assms machine_call by (auto split: if_splits)
next
  case SupDrop
  then show ?thesis using assms machine_drop by (auto split: if_splits)
next
  case (SupStep t i)
  then show ?thesis using assms machine_step by simp
next
  case (HostReady n)
  then show ?thesis using assms machine_ready by simp
next
  case (HostLost n e)
  then show ?thesis using assms machine_lost by simp
qed

interpretation supervision: transition_invariant "sup_start cfg" "exec_rel sup_exec" machine_inv
  for cfg
proof
  show "machine_inv t" if "machine_inv m" "exec_rel sup_exec m l t" for m l t
    using that machine_exec [of l "fst m" "snd m" "fst t" "snd t"] by (simp add: exec_rel_def)
qed (rule machine_start)

subsection \<open>The properties\<close>

definition idle :: "sup_act list list \<Rightarrow> bool" where
  "idle ths = list_all (\<lambda>th. th = []) ths"

lemma idle_total: "idle ths \<Longrightarrow> total w ths = 0"
  by (auto simp: idle_def total_zero list_all_iff)

lemma owned_once:
  assumes "machine_inv (s, ths)" and "n < length (children s)"
  shows "active_is n s + length (filter (\<lambda>m. m = n) (reaped s)) + total (holds_process n) ths = 1"
proof -
  have "owned n s + total (holds_process n) ths = 1" using assms(1) by (simp add: machine_inv_def)
  then show ?thesis using assms(2) by (simp add: owned_def)
qed

text \<open>C21: In every interleaving of starts, shutdowns, losses and the drop, the hosts have pairwise
  different generations, each process is terminated at most once, the active one is not among the
  terminated ones, and when no thread has work left every process that was ever spawned is the active
  one or was terminated: none is leaked.\<close>

theorem supervisor_owns_processes:
  assumes "sup_reach cfg (s, ths)"
  shows "distinct (map child_generation (children s)) \<and> distinct (reaped s)
    \<and> set_option (supervisor_client s) \<inter> set (reaped s) = {}
    \<and> (if idle ths then set_option (supervisor_client s) \<union> set (reaped s) = {..<length (children s)} else True)"
proof -
  have inv: "machine_inv (s, ths)" by (rule supervision.inv_reach [OF assms])
  have own: "owned n s + total (holds_process n) ths = 1" for n
    using inv by (simp add: machine_inv_def)
  have count: "n \<in> set (reaped s) \<longleftrightarrow> length (filter (\<lambda>m. m = n) (reaped s)) \<noteq> 0" for n
    by (simp add: filter_empty_conv)
  have act: "n \<in> set_option (supervisor_client s) \<longleftrightarrow> active_is n s \<noteq> 0" for n
    by (auto simp: supervisor_client_def active_is_def split: option.splits)
  have "distinct (reaped s)"
  proof (rule distinct_counted)
    show "length (filter (\<lambda>y. y = n) (reaped s)) \<le> 1" for n
      using own [of n] by (simp add: owned_def)
  qed
  moreover have "set_option (supervisor_client s) \<inter> set (reaped s) = {}"
  proof -
    have "active_is n s = 0 \<or> length (filter (\<lambda>m. m = n) (reaped s)) = 0" for n
      using own [of n] unfolding owned_def by linarith
    then show ?thesis using act count by blast
  qed
  moreover have "set_option (supervisor_client s) \<union> set (reaped s) = {..<length (children s)}" if "idle ths"
  proof (rule set_eqI)
    fix n
    have "owned n s = 1" using own [of n] idle_total [OF that] by simp
    then show "n \<in> set_option (supervisor_client s) \<union> set (reaped s) \<longleftrightarrow> n \<in> {..<length (children s)}"
      using act [of n] count [of n] by (auto simp: owned_def split: if_splits)
  qed
  ultimately show ?thesis
    using generations_distinct [OF inv] by (simp add: one_generation_def)
qed

text \<open>No accepted cleanup runs more often than it was accepted, and when no thread has work left and
  no host is active, every accepted cleanup has run exactly once for each time it was accepted.\<close>

theorem supervisor_cleanups_run_once:
  assumes "sup_reach cfg (s, ths)"
  shows "occurs k (cleaned s) \<le> occurs k (registered s)
    \<and> (if idle ths \<and> active s = None then occurs k (cleaned s) = occurs k (registered s) else True)"
proof -
  have inv: "machine_inv (s, ths)" by (rule supervision.inv_reach [OF assms])
  have kept: "kept k s + total (runs_cleanup k) ths = occurs k (registered s)"
    using inv by (simp add: machine_inv_def)
  then have "occurs k (cleaned s) \<le> occurs k (registered s)" by (simp add: kept_def)
  moreover have "occurs k (cleaned s) = occurs k (registered s)" if "idle ths" "active s = None"
  proof -
    have "cleanups s = []" using inv that(2) by (simp add: machine_inv_def sup_inv_def)
    then show ?thesis using kept idle_total [OF that(1)] by (simp add: kept_def)
  qed
  ultimately show ?thesis by simp
qed

text \<open>C22: A host that is lost does not stay: when no thread has work left, the active host's connection
  is not disconnected, and after the drop of the supervisor no host is active.\<close>

theorem supervisor_releases_lost_hosts:
  assumes "sup_reach cfg (s, ths)" and "idle ths"
  shows "case active s of
      None \<Rightarrow> True
    | Some p \<Rightarrow> \<not> dropped s \<and> conn_error (children s ! ap_child p) = None
        \<and> child_generation (children s ! ap_child p) = ap_generation p"
proof (cases "active s")
  case (Some p)
  have inv: "machine_inv (s, ths)" by (rule supervision.inv_reach [OF assms(1)])
  have "\<not> abandoned (ap_generation p) s"
    using inv idle_total [OF assms(2)] by (force simp: machine_inv_def)
  moreover have "\<not> dropped s"
    using inv idle_total [OF assms(2)] Some by (auto simp: machine_inv_def)
  moreover have "active_ok s p" using inv Some by (simp add: machine_inv_def sup_inv_def)
  ultimately show ?thesis using Some by (simp add: abandoned_def active_ok_def)
qed simp


subsection \<open>Sample runs\<close>

definition sample_config :: client_config where
  "sample_config = \<lparr>max_frame_size = 64, queue_capacity = 2, handshake_timeout = 1, request_timeout = 1,
     shutdown_timeout = 1\<rparr>"

definition sample_supervisor :: supervisor where
  "sample_supervisor = \<lparr>sup_config = sample_config, next_generation = 1, active = None, cleanups = [],
     children = [], dropped = False, registered = [], cleaned = [], reaped = [], results = []\<rparr>"

lemma sample_sup_start: "sup_start sample_config (sample_supervisor, [])"
  by (simp add: sup_start_def supervisor_new_def client_codec_def codec_new_def sample_config_def
      sample_supervisor_def)

text \<open>The codec's bound on integers, to evaluate it.\<close>

lemma codec_new_code [code]:
  "codec_new n =
    (if n = 0 \<or> int n > 4294967295
     then Inl (InvalidFrame (msg ''max frame size must be between 1 and u32::MAX''))
     else Inr \<lparr>frame_codec.max_frame_size = n\<rparr>)"
  by (auto simp: codec_new_def)

text \<open>Thread \<open>t\<close> starts host \<open>n\<close>, which becomes ready; a cleanup; the loss of the host; a second start
  and a shutdown that the host obeys.\<close>

definition starting :: "nat \<Rightarrow> nat \<Rightarrow> sup_label list" where
  "starting t n = SupCall OpStart # map (SupStep t)
     [Go, Go, Outcome (Inr ()), Outcome (Inr ()), Outcome (Inr ()), Go, Go, Go, Go]
     @ [HostReady n, SupStep t (Outcome (Inr ())), SupStep t Go]"

definition registering :: "nat \<Rightarrow> u64 \<Rightarrow> nat \<Rightarrow> sup_label list" where
  "registering t g k = SupCall (OpRegister g k) # replicate 2 (SupStep t Go)"

definition sample_crash :: "sup_label list" where
  "sample_crash = starting 0 0 @ registering 1 1 7 @ [HostLost 0 (Disconnected (msg ''end of file''))]
     @ replicate 4 (SupStep 2 Go)"

definition sample_restart :: "sup_label list" where
  "sample_restart = sample_crash @ starting 3 1"

lemma sample_crashed: "case exec_run sup_exec sample_crash (sample_supervisor, []) of
    Some (s, ths) \<Rightarrow> idle ths \<and> active s = None \<and> registered s = [7] \<and> reaped s = [0] | None \<Rightarrow> False"
  by code_simp

lemma sample_restarted: "case exec_run sup_exec sample_restart (sample_supervisor, []) of
    Some (s, ths) \<Rightarrow> idle ths \<and> supervisor_client s = Some 1 \<and> supervisor_generation s = Some 2 \<and> reaped s = [0]
    | None \<Rightarrow> False"
  by code_simp

lemma sample_sup_reach: "exec_run sup_exec ls (sample_supervisor, []) = Some m \<Longrightarrow> sup_reach sample_config m"
  by (erule exec_run_reach) (rule sample_sup_start)

theorem supervisor_owns_processes_witness:
  "\<exists>s ths. exec_run sup_exec sample_restart (sample_supervisor, []) = Some (s, ths)
    \<and> set_option (supervisor_client s) \<union> set (reaped s) = {..<length (children s)}"
proof -
  obtain s ths where run: "exec_run sup_exec sample_restart (sample_supervisor, []) = Some (s, ths)" and "idle ths"
    using sample_restarted by (auto split: option.splits)
  then show ?thesis
    using supervisor_owns_processes [OF sample_sup_reach [OF run]] by (intro exI [of _ s] exI [of _ ths]) simp
qed

theorem supervisor_cleanups_run_once_witness:
  "\<exists>s ths. exec_run sup_exec sample_crash (sample_supervisor, []) = Some (s, ths)
    \<and> occurs 7 (registered s) = 1 \<and> occurs 7 (cleaned s) = 1"
proof -
  obtain s ths where run: "exec_run sup_exec sample_crash (sample_supervisor, []) = Some (s, ths)"
    and done_: "idle ths" "active s = None" "registered s = [7]"
    using sample_crashed by (auto split: option.splits)
  from supervisor_cleanups_run_once [OF sample_sup_reach [OF run], of 7] show ?thesis
    using run done_ by (intro exI [of _ s] exI [of _ ths]) simp
qed

theorem supervisor_releases_lost_hosts_witness:
  "\<exists>s ths p. exec_run sup_exec sample_restart (sample_supervisor, []) = Some (s, ths)
    \<and> active s = Some p \<and> conn_error (children s ! ap_child p) = None"
proof -
  obtain s ths where run: "exec_run sup_exec sample_restart (sample_supervisor, []) = Some (s, ths)"
    and rest: "idle ths" and client: "supervisor_client s = Some 1"
    using sample_restarted by (auto split: option.splits)
  from client obtain p where p: "active s = Some p" by (auto simp: supervisor_client_def)
  from supervisor_releases_lost_hosts [OF sample_sup_reach [OF run] rest] p
  have "conn_error (children s ! ap_child p) = None" by simp
  then show ?thesis using run p by blast
qed

end
