(* ===== verification/Legacy.thy ===== *)
theory Legacy
  imports Loader Protocol
begin

section \<open>Plugins in a Node host (supervisor.rs)\<close>

text \<open>
  \<open>LegacyNodeRuntime\<close> and \<open>LegacyNodeHandle\<close>: the loader's runtime for plugins that run in a
  Node host. The client's \<open>request\<close> with the handle's timeout is a parameter that works on the
  world, the derived JSON form of an entry is one too.
\<close>

type_synonym 'w requester = "frame_kind \<Rightarrow> json \<Rightarrow> 'w \<Rightarrow> (bridge_error + json) \<times> 'w"

definition default_timeout :: nat where
  "default_timeout = 5000"

record legacy_runtime =
  lr_timeout :: nat

definition legacy_runtime_new :: legacy_runtime where
  "legacy_runtime_new = \<lparr>lr_timeout = default_timeout\<rparr>"

definition legacy_runtime_with_timeout :: "nat \<Rightarrow> legacy_runtime \<Rightarrow> legacy_runtime" where
  "legacy_runtime_with_timeout t rt = rt\<lparr>lr_timeout := t\<rparr>"

definition legacy_runtime_kind :: "legacy_runtime \<Rightarrow> runtime_kind" where
  "legacy_runtime_kind rt = LegacyNode"

record legacy_handle =
  lh_package :: resolved_package
  lh_entry :: entry
  lh_timeout :: nat
  lh_active :: bool

definition legacy_instantiate :: "legacy_runtime \<Rightarrow> resolved_package \<Rightarrow> entry \<Rightarrow> legacy_handle" where
  "legacy_instantiate rt pkg e =
    \<lparr>lh_package = pkg, lh_entry = e, lh_timeout = lr_timeout rt, lh_active = False\<rparr>"

definition plugin_id :: "legacy_handle \<Rightarrow> string" where
  "plugin_id h = eo_id (options (lh_entry h))"

definition legacy_error :: "bridge_error \<Rightarrow> loader_error" where
  "legacy_error e = ValidationError (Text ''legacy Node bridge failed: '' # bridge_error_display e)"

definition load_payload :: "(entry \<Rightarrow> json) \<Rightarrow> legacy_handle \<Rightarrow> json" where
  "load_payload entry_json h =
    JObj [(''entry'', entry_json (lh_entry h)),
      (''package'', JObj [(''location'', JStr (location (lh_package h))),
                          (''specifier'', JStr (specifier (lh_package h)))]),
      (''pluginId'', JStr (plugin_id h))]"

definition legacy_activate ::
  "'w requester \<Rightarrow> (entry \<Rightarrow> json) \<Rightarrow> legacy_handle \<Rightarrow> 'w \<Rightarrow> (loader_error + unit) \<times> legacy_handle \<times> 'w" where
  "legacy_activate req entry_json h w =
    (if lh_active h then (Inr (), h, w)
     else
       (case req PluginLoad (load_payload entry_json h) w of
          (Inl e, w') \<Rightarrow> (Inl (legacy_error e), h, w')
        | (Inr v, w') \<Rightarrow> (Inr (), h\<lparr>lh_active := True\<rparr>, w')))"

definition legacy_dispose ::
  "'w requester \<Rightarrow> legacy_handle \<Rightarrow> 'w \<Rightarrow> (loader_error + unit) \<times> legacy_handle \<times> 'w" where
  "legacy_dispose req h w =
    (if \<not> lh_active h then (Inr (), h, w)
     else
       (case req PluginDispose (JObj [(''pluginId'', JStr (plugin_id h))]) w of
          (Inl e, w') \<Rightarrow> (Inl (legacy_error e), h, w')
        | (Inr v, w') \<Rightarrow> (Inr (), h\<lparr>lh_active := False\<rparr>, w')))"

definition legacy_update ::
  "'w requester \<Rightarrow> json \<Rightarrow> legacy_handle \<Rightarrow> 'w \<Rightarrow> (loader_error + unit) \<times> 'w" where
  "legacy_update req config h w =
    (if \<not> lh_active h
     then (Inl (ValidationError (msg ''cannot update an inactive legacy Node plugin'')), w)
     else
       (case req PluginUpdate (JObj [(''config'', config), (''pluginId'', JStr (plugin_id h))]) w of
          (Inl e, w') \<Rightarrow> (Inl (legacy_error e), w')
        | (Inr v, w') \<Rightarrow> (Inr (), w')))"

definition legacy_snapshot :: "'w requester \<Rightarrow> legacy_handle \<Rightarrow> 'w \<Rightarrow> (loader_error + json) \<times> 'w" where
  "legacy_snapshot req h w =
    (case req PluginSnapshot (JObj [(''pluginId'', JStr (plugin_id h))]) w of
       (Inl e, w') \<Rightarrow> (Inl (legacy_error e), w')
     | (Inr v, w') \<Rightarrow> (Inr v, w'))"

subsection \<open>What the host sees\<close>

text \<open>A client that records the requests with their answers.\<close>

type_synonym request_log = "(frame_kind \<times> json \<times> (bridge_error + json)) list"

definition recorded :: "(frame_kind \<Rightarrow> json \<Rightarrow> nat \<Rightarrow> bridge_error + json) \<Rightarrow> request_log requester" where
  "recorded answer k p log = (answer k p (length log), log @ [(k, p, answer k p (length log))])"

datatype legacy_op = LegacyActivate | LegacyDispose | LegacyUpdate json | LegacySnapshot

fun legacy_step ::
  "'w requester \<Rightarrow> (entry \<Rightarrow> json) \<Rightarrow> legacy_op \<Rightarrow> legacy_handle \<times> 'w \<Rightarrow> legacy_handle \<times> 'w" where
  "legacy_step req entry_json LegacyActivate (h, w) = snd (legacy_activate req entry_json h w)"
| "legacy_step req entry_json LegacyDispose (h, w) = snd (legacy_dispose req h w)"
| "legacy_step req entry_json (LegacyUpdate config) (h, w) = (h, snd (legacy_update req config h w))"
| "legacy_step req entry_json LegacySnapshot (h, w) = (h, snd (legacy_snapshot req h w))"

text \<open>Whether the host has the plugin, by the answers to the requests so far, and whether each request
  fits: a load of what is not loaded, a disposal or an update of what is, each with the plugin's id.\<close>

fun loaded :: "request_log \<Rightarrow> bool" where
  "loaded [] = False"
| "loaded ((k, p, r) # log) =
    (if k = PluginLoad \<and> \<not> isl r then True else if k = PluginDispose \<and> \<not> isl r then False else loaded log)"

definition carries_id :: "string \<Rightarrow> json \<Rightarrow> bool" where
  "carries_id i p \<longleftrightarrow> (case p of JObj obj \<Rightarrow> bt_get obj ''pluginId'' = Some (JStr i) | _ \<Rightarrow> False)"

fun fitting :: "string \<Rightarrow> request_log \<Rightarrow> bool" where
  "fitting i [] \<longleftrightarrow> True"
| "fitting i ((k, p, r) # log) \<longleftrightarrow> carries_id i p \<and> fitting i log
    \<and> (k = PluginLoad \<and> \<not> loaded log \<or> (k = PluginDispose \<or> k = PluginUpdate) \<and> loaded log \<or> k = PluginSnapshot)"

definition legacy_inv :: "string \<Rightarrow> legacy_handle \<times> request_log \<Rightarrow> bool" where
  "legacy_inv i s \<longleftrightarrow> plugin_id (fst s) = i \<and> lh_active (fst s) = loaded (rev (snd s)) \<and> fitting i (rev (snd s))"

lemma carries_id_payloads [simp]:
  "carries_id i (JObj [(''pluginId'', JStr i)])" "carries_id i (JObj [(''config'', c), (''pluginId'', JStr i)])"
  "plugin_id h = i \<Longrightarrow> carries_id i (load_payload entry_json h)"
  by (simp_all add: carries_id_def load_payload_def bt_get_def)

lemma legacy_step_inv:
  assumes "legacy_inv i s"
  shows "legacy_inv i (legacy_step (recorded answer) entry_json op s)"
proof -
  obtain h log where s: "s = (h, log)" by (cases s)
  have inv: "plugin_id h = i" "lh_active h = loaded (rev log)" "fitting i (rev log)"
    using assms s by (simp_all add: legacy_inv_def)
  show ?thesis
  proof (cases op)
    case LegacyActivate
    then show ?thesis
      using inv s
      by (auto simp: legacy_activate_def recorded_def legacy_inv_def plugin_id_def split: sum.splits)
  next
    case LegacyDispose
    then show ?thesis
      using inv s
      by (auto simp: legacy_dispose_def recorded_def legacy_inv_def plugin_id_def split: sum.splits)
  next
    case (LegacyUpdate config)
    then show ?thesis
      using inv s
      by (auto simp: legacy_update_def recorded_def legacy_inv_def split: sum.splits)
  next
    case LegacySnapshot
    then show ?thesis
      using inv s
      by (auto simp: legacy_snapshot_def recorded_def legacy_inv_def split: sum.splits)
  qed
qed

text \<open>Whatever the host answers, the requests that the operations on a fresh handle send fit what the
  host was told before: a plugin is loaded only while it is not, disposed and updated only while it is,
  each request carries its id, and the handle is active exactly while the host has the plugin.\<close>

theorem legacy_requests_fit:
  "case fold (legacy_step (recorded answer) entry_json) ops (legacy_instantiate rt pkg e, []) of
     (h, log) \<Rightarrow> lh_active h = loaded (rev log) \<and> fitting (eo_id (options e)) (rev log)"
proof -
  have "legacy_inv i s \<Longrightarrow> legacy_inv i (fold (legacy_step (recorded answer) entry_json) ops s)" for i s
    by (induction ops arbitrary: s) (simp_all add: legacy_step_inv)
  from this [of "eo_id (options e)" "(legacy_instantiate rt pkg e, [])"] show ?thesis
    by (simp add: legacy_inv_def legacy_instantiate_def plugin_id_def split_beta)
qed

end
