(* ===== verification/NativeConfig.thy ===== *)
theory NativeConfig
  imports Config Registry
begin

section \<open>Configuration of native plugins (native.rs)\<close>

text \<open>
  The closed configuration schemas of native plugins with the validation of schemas and values,
  the descriptor, the service expressions of an entry's configuration and the factory registry.
  Values of services are read through a function of their key.
\<close>

subsection \<open>Schemas\<close>

datatype schema =
    AnySchema
  | NullSchema
  | BooleanSchema
  | IntegerSchema
  | NumberSchema
  | StringSchema
  | ArraySchema schema
  | ObjectSchema "(string \<times> schema) list" "string list" bool

datatype config_kind = AnyKind | NullKind | BooleanKind | IntegerKind | NumberKind | StringKind | ArrayKind | ObjectKind

fun schema_kind :: "schema \<Rightarrow> config_kind" where
  "schema_kind AnySchema = AnyKind"
| "schema_kind NullSchema = NullKind"
| "schema_kind BooleanSchema = BooleanKind"
| "schema_kind IntegerSchema = IntegerKind"
| "schema_kind NumberSchema = NumberKind"
| "schema_kind StringSchema = StringKind"
| "schema_kind (ArraySchema s) = ArrayKind"
| "schema_kind (ObjectSchema ps rs add) = ObjectKind"

fun value_kind :: "json \<Rightarrow> config_kind" where
  "value_kind JNull = NullKind"
| "value_kind (JBool b) = BooleanKind"
| "value_kind (JNum n) = (if is_i64 (JNum n) \<or> is_u64 (JNum n) then IntegerKind else NumberKind)"
| "value_kind (JStr s) = StringKind"
| "value_kind (JArr vs) = ArrayKind"
| "value_kind (JObj m) = ObjectKind"

fun config_kind_display :: "config_kind \<Rightarrow> string" where
  "config_kind_display AnyKind = ''any value''"
| "config_kind_display NullKind = ''null''"
| "config_kind_display BooleanKind = ''boolean''"
| "config_kind_display IntegerKind = ''integer''"
| "config_kind_display NumberKind = ''number''"
| "config_kind_display StringKind = ''string''"
| "config_kind_display ArrayKind = ''array''"
| "config_kind_display ObjectKind = ''object''"

datatype config_error =
    InvalidSchema string message
  | TypeError string config_kind config_kind
  | RequiredError string string
  | AdditionalProperty string string

fun config_error_display :: "config_error \<Rightarrow> message" where
  "config_error_display (InvalidSchema path m) =
    [Text ''invalid native config schema at '', Text path, Text '': ''] @ m"
| "config_error_display (TypeError path expected actual) =
    [Text ''native config at '', Text path, Text '' must be '', Text (config_kind_display expected),
     Text '', found '', Text (config_kind_display actual)]"
| "config_error_display (RequiredError path property) =
    [Text ''native config at '', Text path, Text '' is missing required property '', Text property]"
| "config_error_display (AdditionalProperty path property) =
    [Text ''native config at '', Text path, Text '' has unexpected property '', Text property]"

definition property_path :: "string \<Rightarrow> string \<Rightarrow> string" where
  "property_path path property = path @ ''.'' @ property"

definition index_path :: "string \<Rightarrow> nat \<Rightarrow> string" where
  "index_path path i = path @ ''['' @ dec i @ '']''"

fun declared :: "string list \<Rightarrow> (string \<times> schema) list \<Rightarrow> string \<Rightarrow> config_error + unit" where
  "declared [] ps path = Inr ()"
| "declared (r # rs) ps path =
    (if bt_contains ps r then declared rs ps path
     else Inl (InvalidSchema path [Text ''required property '', Text r, Text '' has no schema'']))"

fun validate_schema :: "schema \<Rightarrow> string \<Rightarrow> config_error + unit"
  and validate_properties :: "(string \<times> schema) list \<Rightarrow> string \<Rightarrow> config_error + unit" where
  "validate_schema (ArraySchema s) path = validate_schema s (path @ ''[]'')"
| "validate_schema (ObjectSchema ps rs add) path =
    try_bind (declared rs ps path) (\<lambda>_. validate_properties ps path)"
| "validate_schema _ path = Inr ()"
| "validate_properties [] path = Inr ()"
| "validate_properties ((p, s) # ps) path =
    try_bind (validate_schema s (property_path path p)) (\<lambda>_. validate_properties ps path)"

subsection \<open>Values\<close>

definition validate_type :: "bool \<Rightarrow> string \<Rightarrow> schema \<Rightarrow> json \<Rightarrow> config_error + unit" where
  "validate_type valid path s v =
    (if valid then Inr () else Inl (TypeError path (schema_kind s) (value_kind v)))"

fun present :: "string list \<Rightarrow> (string \<times> json) list \<Rightarrow> string \<Rightarrow> config_error + unit" where
  "present [] m path = Inr ()"
| "present (r # rs) m path =
    (if bt_contains m r then present rs m path else Inl (RequiredError path r))"

fun validate_value :: "schema \<Rightarrow> json \<Rightarrow> string \<Rightarrow> config_error + unit"
  and validate_items :: "schema \<Rightarrow> json list \<Rightarrow> nat \<Rightarrow> string \<Rightarrow> config_error + unit"
  and validate_members ::
    "(string \<times> schema) list \<Rightarrow> bool \<Rightarrow> (string \<times> json) list \<Rightarrow> string \<Rightarrow> config_error + unit" where
  "validate_value AnySchema v path = Inr ()"
| "validate_value NullSchema v path = validate_type (v = JNull) path NullSchema v"
| "validate_value BooleanSchema v path = validate_type (as_bool v \<noteq> None) path BooleanSchema v"
| "validate_value IntegerSchema v path = validate_type (is_i64 v \<or> is_u64 v) path IntegerSchema v"
| "validate_value NumberSchema v path = validate_type (is_number v) path NumberSchema v"
| "validate_value StringSchema v path = validate_type (as_str v \<noteq> None) path StringSchema v"
| "validate_value (ArraySchema s) v path =
    (case v of
       JArr vs \<Rightarrow> validate_items s vs 0 path
     | _ \<Rightarrow> Inl (TypeError path ArrayKind (value_kind v)))"
| "validate_value (ObjectSchema ps rs add) v path =
    (case v of
       JObj m \<Rightarrow> try_bind (present rs m path) (\<lambda>_. validate_members ps add m path)
     | _ \<Rightarrow> Inl (TypeError path ObjectKind (value_kind v)))"
| "validate_items s [] i path = Inr ()"
| "validate_items s (v # vs) i path =
    try_bind (validate_value s v (index_path path i)) (\<lambda>_. validate_items s vs (Suc i) path)"
| "validate_members ps add [] path = Inr ()"
| "validate_members ps add ((k, v) # m) path =
    (case bt_get ps k of
       Some s \<Rightarrow> try_bind (validate_value s v (property_path path k)) (\<lambda>_. validate_members ps add m path)
     | None \<Rightarrow> if add then validate_members ps add m path else Inl (AdditionalProperty path k))"

subsection \<open>The descriptor\<close>

record descriptor =
  d_name :: string
  d_version :: string
  d_dependencies :: "dependency list"
  d_schema :: schema

datatype plugin_phase = StartPhase | UpdatePhase | StopPhase

fun phase_operation :: "plugin_phase \<Rightarrow> string" where
  "phase_operation StartPhase = ''start native plugin''"
| "phase_operation UpdatePhase = ''update native plugin''"
| "phase_operation StopPhase = ''stop native plugin''"

datatype native_error =
    DescriptorError string message
  | ConfigError config_error
  | CoreFailure core_error
  | PluginError plugin_phase message
  | RuntimeFailure string message
  | CleanupErrors "native_error list"

fun native_error_display :: "native_error \<Rightarrow> message" where
  "native_error_display (DescriptorError field m) =
    [Text ''invalid native plugin descriptor '', Text field, Text '': ''] @ m"
| "native_error_display (ConfigError e) = config_error_display e"
| "native_error_display (CoreFailure e) = core_error_display e"
| "native_error_display (PluginError phase m) =
    [Text ''native plugin '', Text (case phase of StartPhase \<Rightarrow> ''Start'' | UpdatePhase \<Rightarrow> ''Update'' | StopPhase \<Rightarrow> ''Stop''),
     Text '' failed: ''] @ m"
| "native_error_display (RuntimeFailure package m) =
    [Text ''native plugin package '', Text package, Text '' failed: ''] @ m"
| "native_error_display (CleanupErrors es) =
    [Text (dec (length es)), Text '' native plugin cleanup error(s)'']"

text \<open>\<open>cleanup\<close>; an empty list is \<open>unreachable!\<close>, and no caller passes one.\<close>

definition native_cleanup :: "native_error list \<Rightarrow> native_error" where
  "native_cleanup es = (case es of [e] \<Rightarrow> e | _ \<Rightarrow> CleanupErrors es)"

definition lifecycle_error :: "native_error \<Rightarrow> plugin_phase \<Rightarrow> core_error" where
  "lifecycle_error e phase =
    (case e of CoreFailure ce \<Rightarrow> ce | _ \<Rightarrow> PluginFailure (phase_operation phase) (native_error_display e))"

definition native_invalid_state :: "string \<Rightarrow> fiber_state \<Rightarrow> native_error" where
  "native_invalid_state operation st = CoreFailure (InvalidState operation st)"

fun distinct_dependencies :: "dependency list \<Rightarrow> string set \<Rightarrow> native_error + unit" where
  "distinct_dependencies [] seen = Inr ()"
| "distinct_dependencies (d # ds) seen =
    (let key = diagnostic_key (dependency_key d) in
     if key \<in> seen
     then Inl (DescriptorError ''dependencies'' [Text ''contains duplicate dependency '', Text key])
     else distinct_dependencies ds (insert key seen))"

definition map_error :: "('e \<Rightarrow> 'f) \<Rightarrow> 'e + 'a \<Rightarrow> 'f + 'a" where
  "map_error f r = (case r of Inl e \<Rightarrow> Inl (f e) | Inr x \<Rightarrow> Inr x)"

lemma map_error_Inr [simp]: "map_error f r = Inr x \<longleftrightarrow> r = Inr x"
  by (cases r) (simp_all add: map_error_def)

definition validate_descriptor :: "descriptor \<Rightarrow> native_error + unit" where
  "validate_descriptor d =
    (if blank (d_name d) then Inl (DescriptorError ''name'' (msg ''must not be blank''))
     else if blank (d_version d) then Inl (DescriptorError ''version'' (msg ''must not be blank''))
     else try_bind (distinct_dependencies (d_dependencies d) {}) (\<lambda>_.
       map_error ConfigError (validate_schema (d_schema d) ''$schema'')))"

definition validate_plugin_config :: "descriptor \<Rightarrow> json \<Rightarrow> native_error + unit" where
  "validate_plugin_config d v =
    try_bind (validate_descriptor d) (\<lambda>_. map_error ConfigError (validate_value (d_schema d) v ''$''))"

subsection \<open>Service expressions\<close>

fun config_service_names :: "json \<Rightarrow> (string, unit) btree \<Rightarrow> loader_error + (string, unit) btree"
  and list_service_names :: "json list \<Rightarrow> (string, unit) btree \<Rightarrow> loader_error + (string, unit) btree"
  and field_service_names ::
    "(string \<times> json) list \<Rightarrow> (string, unit) btree \<Rightarrow> loader_error + (string, unit) btree" where
  "config_service_names (JArr vs) names = list_service_names vs names"
| "config_service_names (JObj m) names =
    (case bt_get m ''$expr'' of
       Some e \<Rightarrow>
         (case as_str e of
            None \<Rightarrow> expr_error (msg ''$expr must be a string'')
          | Some s \<Rightarrow>
              try_bind (parse_expr s) (\<lambda>x.
                case x of Service name path \<Rightarrow> Inr (bt_insert name () names) | _ \<Rightarrow> Inr names))
     | None \<Rightarrow> field_service_names m names)"
| "config_service_names v names = Inr names"
| "list_service_names [] names = Inr names"
| "list_service_names (v # vs) names =
    try_bind (config_service_names v names) (\<lambda>names. list_service_names vs names)"
| "field_service_names [] names = Inr names"
| "field_service_names ((k, v) # m) names =
    try_bind (config_service_names v names) (\<lambda>names. field_service_names m names)"

record native_configuration =
  nc_config :: json
  nc_intercept :: json
  nc_scope :: config_scope
  nc_services :: "service_key list"

definition named :: "string \<Rightarrow> dependency \<Rightarrow> bool" where
  "named name d \<longleftrightarrow> sk_name (dependency_key d) = name"

fun require_first :: "string \<Rightarrow> dependency list \<Rightarrow> (service_key \<times> dependency list) option" where
  "require_first name [] = None"
| "require_first name (d # ds) =
    (if named name d then Some (dependency_key d, Required (dependency_key d) # ds)
     else map_option (\<lambda>(k, ds'). (k, d # ds')) (require_first name ds))"

fun project_services ::
  "string list \<Rightarrow> config_scope \<Rightarrow> dependency list \<Rightarrow> service_key list \<Rightarrow>
    loader_error + service_key list \<times> dependency list" where
  "project_services [] sc ds keys = Inr (keys, ds)"
| "project_services (name # names) sc ds keys =
    (let matching = length (filter (named name) ds) in
     if matching > 1 \<or> matching = 0 \<and> \<not> bt_contains (services sc) name
     then expr_error [Text ''service projection '', Dbg name,
       Text '' requires one declared dependency or a static projection'']
     else
       (case require_first name ds of
          Some (k, ds') \<Rightarrow> project_services names sc ds' (keys @ [k])
        | None \<Rightarrow> project_services names sc ds keys))"

definition native_configuration_new ::
  "json \<Rightarrow> json \<Rightarrow> config_scope \<Rightarrow> descriptor \<Rightarrow> loader_error + native_configuration \<times> descriptor" where
  "native_configuration_new config intercept sc d =
    try_bind (config_service_names config []) (\<lambda>names.
    try_bind (config_service_names intercept names) (\<lambda>names.
    try_bind (project_services (bt_keys names) sc (d_dependencies d) []) (\<lambda>(keys, ds).
      Inr (\<lparr>nc_config = config, nc_intercept = intercept, nc_scope = sc, nc_services = keys\<rparr>,
        d\<lparr>d_dependencies := ds\<rparr>))))"

definition configuration_error :: "message \<Rightarrow> native_error" where
  "configuration_error m = RuntimeFailure ''native configuration'' m"

text \<open>The values of the services are put into the scope, in the order of their names.\<close>

fun read_services ::
  "(service_key \<Rightarrow> core_error + json option) \<Rightarrow> service_key list \<Rightarrow> config_scope \<Rightarrow> native_error + config_scope" where
  "read_services get [] sc = Inr sc"
| "read_services get (k # ks) sc =
    (case get k of
       Inl e \<Rightarrow> Inl (CoreFailure e)
     | Inr None \<Rightarrow>
         Inl (configuration_error [Text ''service '', Text (diagnostic_key k), Text '' is unavailable''])
     | Inr (Some v) \<Rightarrow> read_services get ks (sc\<lparr>services := bt_insert (sk_name k) v (services sc)\<rparr>))"

definition evaluate_configuration ::
  "(loader_error \<Rightarrow> message) \<Rightarrow> (service_key \<Rightarrow> core_error + json option) \<Rightarrow> native_configuration \<Rightarrow> native_error + json" where
  "evaluate_configuration show get nc =
    try_bind (read_services get (nc_services nc) (nc_scope nc)) (\<lambda>sc.
    try_bind (map_error (\<lambda>e. configuration_error (show e)) (evaluate_config (nc_config nc) sc)) (\<lambda>v.
    try_bind (map_error (\<lambda>e. configuration_error (show e)) (evaluate_config (nc_intercept nc) sc)) (\<lambda>_.
      Inr v)))"

subsection \<open>The registry of factories\<close>

text \<open>A factory is a number.\<close>

type_synonym native_runtime = "(string, nat) btree"

definition register_boxed :: "string \<Rightarrow> nat \<Rightarrow> native_runtime \<Rightarrow> (native_error + unit) \<times> native_runtime" where
  "register_boxed package factory rt =
    (if blank package then (Inl (RuntimeFailure package (msg ''package specifier must not be blank'')), rt)
     else if bt_contains rt package
     then (Inl (RuntimeFailure package (msg ''a factory is already registered'')), rt)
     else (Inr (), bt_insert package factory rt))"

definition runtime_snapshot :: "native_runtime \<Rightarrow> string list" where
  "runtime_snapshot rt = bt_keys rt"

end
