(* ===== verification/NativePlugin.thy ===== *)
theory NativePlugin
  imports NativeConfig EntryTree Lifecycle
begin

section \<open>Instances of native plugins (native.rs)\<close>

text \<open>
  \<open>NativePluginInstance\<close> with its start, transactional update, suspension and disposal. The owner of
  an instance runs one operation at a time, so an operation is a function of the instance and of a
  world that logs the calls of hooks; what an operation awaits or reads (hooks, fibers, gates,
  services, the commit of a staged context) answers with a value of the host at the current tick,
  which leaves the fiber, the registry and the hooks free to behave in any way at any time.
\<close>

subsection \<open>The host\<close>

record plugin_host =
  descriptor_of :: "nat \<Rightarrow> descriptor"
  fiber_made :: "nat \<Rightarrow> core_error + unit"
  fiber_at :: "nat \<Rightarrow> nat \<Rightarrow> fiber_state"
  gate_made :: "nat \<Rightarrow> core_error + unit"
  gate_waited :: "nat \<Rightarrow> core_error + unit"
  service_at :: "nat \<Rightarrow> service_key \<Rightarrow> core_error + json option"
  start_begun :: "nat \<Rightarrow> core_error + unit"
  hook_returns :: "nat \<Rightarrow> native_error + unit"
  start_completed :: "nat \<Rightarrow> core_error + unit"
  rolled_back :: "nat \<Rightarrow> core_error + unit"
  fiber_ended :: "nat \<Rightarrow> core_error + unit"
  staged_committed :: "nat \<Rightarrow> core_error + unit"

datatype hook = StartHook | UpdateHook | StopHook

text \<open>\<open>Attempted\<close> marks the moment at which \<open>start_attempted\<close> is set.\<close>

datatype plugin_event = Attempted nat | Called nat hook "json option"

record plugin_world =
  tick :: nat
  plugins_made :: nat
  fibers_made :: nat
  events :: "plugin_event list"

record plugin_instance =
  pi_plugin :: nat
  pi_factory :: bool
  pi_descriptor :: descriptor
  pi_config :: json
  pi_configuration :: "native_configuration option"
  pi_fiber :: nat
  pi_gate :: bool
  start_attempted :: bool
  stopped :: bool

definition pass :: "plugin_world \<Rightarrow> plugin_world" where
  "pass w = w\<lparr>tick := Suc (tick w)\<rparr>"

definition record_event :: "plugin_event \<Rightarrow> plugin_world \<Rightarrow> plugin_world" where
  "record_event e w = w\<lparr>events := events w @ [e]\<rparr>"

definition new_plugin :: "plugin_world \<Rightarrow> nat \<times> plugin_world" where
  "new_plugin w = (plugins_made w, w\<lparr>plugins_made := Suc (plugins_made w)\<rparr>)"

definition new_fiber :: "plugin_host \<Rightarrow> plugin_world \<Rightarrow> (core_error + nat) \<times> plugin_world" where
  "new_fiber H w =
    (case fiber_made H (tick w) of
       Inl e \<Rightarrow> (Inl e, pass w)
     | Inr _ \<Rightarrow> (Inr (fibers_made w), (pass w)\<lparr>fibers_made := Suc (fibers_made w)\<rparr>))"

definition call_hook ::
  "plugin_host \<Rightarrow> nat \<Rightarrow> hook \<Rightarrow> json option \<Rightarrow> plugin_world \<Rightarrow> (native_error + unit) \<times> plugin_world" where
  "call_hook H p h v w = (hook_returns H (tick w), record_event (Called p h v) (pass w))"

subsection \<open>Construction\<close>

definition instantiate_inner ::
  "plugin_host \<Rightarrow> nat \<Rightarrow> bool \<Rightarrow> json \<Rightarrow> plugin_world \<Rightarrow> (native_error + plugin_instance) \<times> plugin_world" where
  "instantiate_inner H p factory v w =
    (case validate_plugin_config (descriptor_of H p) v of
       Inl e \<Rightarrow> (Inl e, w)
     | Inr _ \<Rightarrow>
         (case new_fiber H w of
            (Inl e, w) \<Rightarrow> (Inl (CoreFailure e), w)
          | (Inr f, w) \<Rightarrow>
              (Inr \<lparr>pi_plugin = p, pi_factory = factory, pi_descriptor = descriptor_of H p, pi_config = v,
                 pi_configuration = None, pi_fiber = f, pi_gate = False, start_attempted = False,
                 stopped = False\<rparr>, w)))"

definition instantiate_plugin ::
  "plugin_host \<Rightarrow> json \<Rightarrow> plugin_world \<Rightarrow> (native_error + plugin_instance) \<times> plugin_world" where
  "instantiate_plugin H v w = (case new_plugin w of (p, w) \<Rightarrow> instantiate_inner H p True v w)"

text \<open>\<open>instantiate_configured\<close>: the entry is valid and its package has a factory; every error becomes
  a validation error of the loader.\<close>

definition as_loader_error :: "native_error + 'a \<Rightarrow> loader_error + 'a" where
  "as_loader_error r = map_error (\<lambda>e. ValidationError (native_error_display e)) r"

definition instantiate_configured ::
  "plugin_host \<Rightarrow> (loader_error \<Rightarrow> message) \<Rightarrow> native_runtime \<Rightarrow> string \<Rightarrow> entry \<Rightarrow> config_scope \<Rightarrow> plugin_world
    \<Rightarrow> (loader_error + plugin_instance) \<times> plugin_world" where
  "instantiate_configured H show rt spec e sc w =
    (case validate_entry e of
       Inl err \<Rightarrow> (Inl err, w)
     | Inr _ \<Rightarrow>
     if \<not> bt_contains rt spec
     then (Inl (ValidationError [Text ''no native plugin factory is registered for '', Text spec]), w)
     else
     (case new_plugin w of (p, w) \<Rightarrow>
     case as_loader_error (validate_descriptor (descriptor_of H p)) of
       Inl err \<Rightarrow> (Inl err, w)
     | Inr _ \<Rightarrow>
     (case native_configuration_new (eo_config (options e)) (eo_intercept (options e)) sc (descriptor_of H p) of
        Inl err \<Rightarrow> (Inl err, w)
      | Inr (nc, d) \<Rightarrow>
          if nc_services nc = []
          then
            (case as_loader_error (evaluate_configuration show (service_at H (tick w)) nc) of
               Inl err \<Rightarrow> (Inl err, pass w)
             | Inr v \<Rightarrow>
                 (case instantiate_inner H p True v (pass w) of (r, w) \<Rightarrow> (as_loader_error r, w)))
          else
            (case new_fiber H w of
               (Inl err, w) \<Rightarrow> (Inl (ValidationError (core_error_display err)), w)
             | (Inr f, w) \<Rightarrow>
                 (Inr \<lparr>pi_plugin = p, pi_factory = True, pi_descriptor = d, pi_config = JNull,
                    pi_configuration = Some nc, pi_fiber = f, pi_gate = False, start_attempted = False,
                    stopped = False\<rparr>, w)))))"

subsection \<open>Start and stop\<close>

type_synonym 'a plugin_result = "(native_error + 'a) \<times> plugin_instance \<times> plugin_world"

definition collected :: "native_error list \<Rightarrow> native_error + unit" where
  "collected es = (if es = [] then Inr () else Inl (native_cleanup es))"

fun failures :: "native_error + unit \<Rightarrow> native_error list" where
  "failures (Inl e) = [e]"
| "failures (Inr _) = []"

definition stop_plugin :: "plugin_host \<Rightarrow> plugin_instance \<Rightarrow> plugin_world \<Rightarrow> unit plugin_result" where
  "stop_plugin H p w =
    (if \<not> start_attempted p \<or> stopped p then (Inr (), p, w)
     else case call_hook H (pi_plugin p) StopHook None w of (r, w) \<Rightarrow> (r, p\<lparr>stopped := True\<rparr>, w))"

definition stop_current :: "plugin_host \<Rightarrow> plugin_instance \<Rightarrow> plugin_world \<Rightarrow> unit plugin_result" where
  "stop_current H p w =
    (case stop_plugin H p w of (r, p, w) \<Rightarrow>
      (collected (failures r @ failures (map_error CoreFailure (fiber_ended H (tick w)))), p, pass w))"

definition finish_failed_start ::
  "plugin_host \<Rightarrow> native_error \<Rightarrow> plugin_instance \<Rightarrow> plugin_world \<Rightarrow> unit plugin_result" where
  "finish_failed_start H e p w =
    (case stop_plugin H p w of
       (Inr _, p, w) \<Rightarrow> (Inl e, p, w)
     | (Inl d, p, w) \<Rightarrow> (Inl (native_cleanup [e, d]), p, w))"

definition wait_for_dependencies ::
  "plugin_host \<Rightarrow> plugin_instance \<Rightarrow> plugin_world \<Rightarrow> unit plugin_result" where
  "wait_for_dependencies H p w =
    (case (if pi_gate p then (Inr (), w) else (gate_made H (tick w), pass w)) of
       (Inl e, w) \<Rightarrow> (Inl (CoreFailure e), p, w)
     | (Inr _, w) \<Rightarrow> (map_error CoreFailure (gate_waited H (tick w)), p\<lparr>pi_gate := True\<rparr>, pass w))"

text \<open>The hooks of a setup, in order, up to the first that fails.\<close>

fun call_hooks ::
  "plugin_host \<Rightarrow> nat \<Rightarrow> json \<Rightarrow> (hook \<times> plugin_phase) list \<Rightarrow> plugin_world \<Rightarrow> (core_error + unit) \<times> plugin_world" where
  "call_hooks H p v [] w = (Inr (), w)"
| "call_hooks H p v ((h, phase) # hs) w =
    (case call_hook H p h (Some v) w of
       (Inl e, w) \<Rightarrow> (Inl (lifecycle_error e phase), w)
     | (Inr _, w) \<Rightarrow> call_hooks H p v hs w)"

text \<open>\<open>Fiber::start\<close> with the hooks as its setup.\<close>

definition run_setup ::
  "plugin_host \<Rightarrow> nat \<Rightarrow> json \<Rightarrow> (hook \<times> plugin_phase) list \<Rightarrow> plugin_world \<Rightarrow> (core_error + unit) \<times> plugin_world" where
  "run_setup H p v hs w =
    (case (start_begun H (tick w), pass w) of
       (Inl e, w) \<Rightarrow> (Inl e, w)
     | (Inr _, w) \<Rightarrow>
         (case call_hooks H p v hs w of
            (Inl e, w) \<Rightarrow> (Inl (start_failure e (rolled_back H (tick w))), pass w)
          | (Inr _, w) \<Rightarrow> (start_completed H (tick w), pass w)))"

definition attempt_start ::
  "plugin_host \<Rightarrow> (hook \<times> plugin_phase) list \<Rightarrow> plugin_instance \<Rightarrow> plugin_world \<Rightarrow> unit plugin_result" where
  "attempt_start H hs p w =
    (let p = p\<lparr>start_attempted := True\<rparr> in
     case run_setup H (pi_plugin p) (pi_config p) hs (record_event (Attempted (pi_plugin p)) w) of
       (Inr _, w) \<Rightarrow> (Inr (), p, w)
     | (Inl e, w) \<Rightarrow> finish_failed_start H (CoreFailure e) p w)"

definition resolved_config ::
  "plugin_host \<Rightarrow> (loader_error \<Rightarrow> message) \<Rightarrow> plugin_instance \<Rightarrow> plugin_world \<Rightarrow> (native_error + json) \<times> plugin_world" where
  "resolved_config H show p w =
    (case pi_configuration p of
       None \<Rightarrow> (Inr (pi_config p), w)
     | Some nc \<Rightarrow> (evaluate_configuration show (service_at H (tick w)) nc, pass w))"

definition start_plugin ::
  "plugin_host \<Rightarrow> (loader_error \<Rightarrow> message) \<Rightarrow> plugin_instance \<Rightarrow> plugin_world \<Rightarrow> unit plugin_result" where
  "start_plugin H show p w =
    (if fiber_at H (tick w) (pi_fiber p) \<noteq> Pending
     then (Inl (native_invalid_state ''start native plugin'' (fiber_at H (Suc (tick w)) (pi_fiber p))), p, pass (pass w))
     else
     (case wait_for_dependencies H p (pass w) of
        (Inl e, p, w) \<Rightarrow> (Inl e, p, w)
      | (Inr _, p, w) \<Rightarrow>
          (case resolved_config H show p w of
             (Inl e, w) \<Rightarrow> (Inl e, p, w)
           | (Inr v, w) \<Rightarrow>
               (let p = p\<lparr>pi_config := v\<rparr> in
                case validate_plugin_config (pi_descriptor p) v of
                  Inl e \<Rightarrow> (Inl e, p, w)
                | Inr _ \<Rightarrow> attempt_start H [(StartHook, StartPhase)] p w))))"

subsection \<open>Update\<close>

fun require_key :: "service_key \<Rightarrow> dependency list \<Rightarrow> dependency list" where
  "require_key k [] = [Required k]"
| "require_key k (d # ds) = (if dependency_key d = k then Required k # ds else d # require_key k ds)"

definition inherit_configuration :: "native_configuration option \<Rightarrow> plugin_instance \<Rightarrow> plugin_instance" where
  "inherit_configuration nc c =
    (let c = c\<lparr>pi_configuration := nc\<rparr> in
     case nc of
       None \<Rightarrow> c
     | Some nc \<Rightarrow> c\<lparr>pi_descriptor := (pi_descriptor c)
         \<lparr>d_dependencies := fold require_key (nc_services nc) (d_dependencies (pi_descriptor c))\<rparr>\<rparr>)"

definition start_after_update ::
  "plugin_host \<Rightarrow> (loader_error \<Rightarrow> message) \<Rightarrow> plugin_instance \<Rightarrow> plugin_world \<Rightarrow> unit plugin_result" where
  "start_after_update H show p w =
    (case wait_for_dependencies H p w of
       (Inl e, p, w) \<Rightarrow> (Inl e, p, w)
     | (Inr _, p, w) \<Rightarrow>
         (case resolved_config H show p w of
            (Inl e, w) \<Rightarrow> (Inl e, p, w)
          | (Inr v, w) \<Rightarrow>
              (case (if pi_configuration p = None then Inr () else validate_plugin_config (pi_descriptor p) v) of
                 Inl e \<Rightarrow> (Inl e, p, w)
               | Inr _ \<Rightarrow>
                   attempt_start H [(UpdateHook, UpdatePhase), (StartHook, StartPhase)] (p\<lparr>pi_config := v\<rparr>) w)))"

text \<open>A candidate that fails is disposed, with its own errors after the failure.\<close>

definition discard :: "plugin_host \<Rightarrow> native_error \<Rightarrow> plugin_instance \<Rightarrow> plugin_world \<Rightarrow> (native_error + unit) \<times> plugin_world" where
  "discard H e c w =
    (case stop_current H c w of
       (Inr _, c, w) \<Rightarrow> (Inl e, w)
     | (Inl d, c, w) \<Rightarrow> (Inl (native_cleanup [e, d]), w))"

definition install_candidate ::
  "plugin_host \<Rightarrow> (loader_error \<Rightarrow> message) \<Rightarrow> plugin_instance \<Rightarrow> plugin_instance \<Rightarrow> plugin_world \<Rightarrow> unit plugin_result" where
  "install_candidate H show p c w =
    (case start_after_update H show c w of
       (Inl e, c, w) \<Rightarrow> (case discard H e c w of (r, w) \<Rightarrow> (r, p, w))
     | (Inr _, c, w) \<Rightarrow>
         (case (staged_committed H (tick w), pass w) of
            (Inl e, w) \<Rightarrow> (case discard H (CoreFailure e) c w of (r, w) \<Rightarrow> (r, p, w))
          | (Inr _, w) \<Rightarrow> (case stop_current H p w of (r, _, w) \<Rightarrow> (r, c, w))))"

definition update_plugin ::
  "plugin_host \<Rightarrow> (loader_error \<Rightarrow> message) \<Rightarrow> json \<Rightarrow> plugin_instance \<Rightarrow> plugin_world \<Rightarrow> unit plugin_result" where
  "update_plugin H show v p w =
    (case validate_plugin_config (pi_descriptor p) v of
       Inl e \<Rightarrow> (Inl e, p, w)
     | Inr _ \<Rightarrow>
     if fiber_at H (tick w) (pi_fiber p) \<noteq> Active
     then (Inl (native_invalid_state ''update native plugin'' (fiber_at H (Suc (tick w)) (pi_fiber p))), p, pass (pass w))
     else if \<not> pi_factory p
     then (Inl (RuntimeFailure (d_name (pi_descriptor p))
       (msg ''transactional updates require an instance factory'')), p, pass w)
     else
     (case instantiate_plugin H v (pass w) of
        (Inl e, w) \<Rightarrow> (Inl e, p, w)
      | (Inr c, w) \<Rightarrow> install_candidate H show p (inherit_configuration (pi_configuration p) c) w))"

subsection \<open>Suspension and disposal\<close>

definition suspend_plugin :: "plugin_host \<Rightarrow> plugin_instance \<Rightarrow> plugin_world \<Rightarrow> unit plugin_result" where
  "suspend_plugin H p w =
    (if fiber_at H (tick w) (pi_fiber p) = Pending then (Inr (), p, pass w)
     else
     (case stop_current H p (pass w) of
        (Inl e, p, w) \<Rightarrow> (Inl e, p, w)
      | (Inr _, p, w) \<Rightarrow>
          (let p = p\<lparr>pi_gate := False\<rparr> in
           case new_fiber H w of
             (Inl e, w) \<Rightarrow> (Inl (CoreFailure e), p, w)
           | (Inr f, w) \<Rightarrow> (Inr (), p\<lparr>pi_fiber := f, start_attempted := False, stopped := False\<rparr>, w))))"

definition dispose_plugin :: "plugin_host \<Rightarrow> plugin_instance \<Rightarrow> plugin_world \<Rightarrow> unit plugin_result" where
  "dispose_plugin H p w = stop_current H p w"

subsection \<open>The machine\<close>

datatype plugin_op = StartOp | UpdateOp json | UpdateResolved | SuspendOp | DisposeOp

text \<open>\<open>UpdateResolved\<close> is the update of the worker, with the configuration it resolves first.\<close>

fun plugin_op_run ::
  "plugin_host \<Rightarrow> (loader_error \<Rightarrow> message) \<Rightarrow> plugin_op \<Rightarrow> plugin_instance \<Rightarrow> plugin_world \<Rightarrow> unit plugin_result" where
  "plugin_op_run H show StartOp p w = start_plugin H show p w"
| "plugin_op_run H show (UpdateOp v) p w = update_plugin H show v p w"
| "plugin_op_run H show UpdateResolved p w =
    (case resolved_config H show p w of
       (Inl e, w) \<Rightarrow> (Inl e, p, w)
     | (Inr v, w) \<Rightarrow> update_plugin H show v p w)"
| "plugin_op_run H show SuspendOp p w = suspend_plugin H p w"
| "plugin_op_run H show DisposeOp p w = dispose_plugin H p w"

definition plugin_exec ::
  "plugin_host \<Rightarrow> (loader_error \<Rightarrow> message) \<Rightarrow> plugin_op \<Rightarrow> plugin_instance \<times> plugin_world
    \<Rightarrow> (plugin_instance \<times> plugin_world) option" where
  "plugin_exec H show op s = (case s of (p, w) \<Rightarrow> case plugin_op_run H show op p w of (r, p, w) \<Rightarrow> Some (p, w))"

definition plugin_world_new :: plugin_world where
  "plugin_world_new = \<lparr>tick = 0, plugins_made = 0, fibers_made = 0, events = []\<rparr>"

text \<open>An instance made from a configuration or from an entry of the tree.\<close>

definition plugin_init :: "plugin_host \<Rightarrow> (loader_error \<Rightarrow> message) \<Rightarrow> plugin_instance \<times> plugin_world \<Rightarrow> bool" where
  "plugin_init H show s \<longleftrightarrow> (case s of (p, w) \<Rightarrow>
    (\<exists>v. instantiate_plugin H v plugin_world_new = (Inr p, w))
    \<or> (\<exists>rt spec e sc. instantiate_configured H show rt spec e sc plugin_world_new = (Inr p, w)))"

text \<open>
  The law of fibers the runs rely on: a fiber whose start was attempted is not pending any more
  (\<open>Fiber::start\<close> leaves \<open>Pending\<close> or finds its scope on the way down, and no scope comes back).
\<close>

definition starts_once :: "plugin_host \<Rightarrow> plugin_instance \<times> plugin_world \<Rightarrow> bool" where
  "starts_once H s \<longleftrightarrow> (case s of (p, w) \<Rightarrow> fiber_at H (tick w) (pi_fiber p) = Pending \<longrightarrow> \<not> start_attempted p)"

definition lawful_exec ::
  "plugin_host \<Rightarrow> (loader_error \<Rightarrow> message) \<Rightarrow> plugin_op \<Rightarrow> plugin_instance \<times> plugin_world
    \<Rightarrow> (plugin_instance \<times> plugin_world) option" where
  "lawful_exec H show op s = (if starts_once H s then plugin_exec H show op s else None)"

abbreviation plugin_reach ::
  "plugin_host \<Rightarrow> (loader_error \<Rightarrow> message) \<Rightarrow> plugin_instance \<times> plugin_world \<Rightarrow> bool" where
  "plugin_reach H show \<equiv> reach (plugin_init H show) (exec_rel (lawful_exec H show))"

end
