(* ===== verification/NativeProps.thy ===== *)
theory NativeProps
  imports NativeConfig
begin

section \<open>Configuration of native plugins: properties\<close>

text \<open>
  The validation of values decides a conformance relation, the descriptor is accepted exactly when
  it is well formed, and a configuration that was accepted finds every service its expressions name.
\<close>

subsection \<open>Conformance\<close>

inductive conforms :: "schema \<Rightarrow> json \<Rightarrow> bool" where
  any: "conforms AnySchema v"
| null: "conforms NullSchema JNull"
| boolean: "conforms BooleanSchema (JBool b)"
| positive: "conforms IntegerSchema (JNum (PosInt n))"
| negative: "conforms IntegerSchema (JNum (NegInt n))"
| number: "conforms NumberSchema (JNum n)"
| string: "conforms StringSchema (JStr s)"
| items: "(\<And>v. v \<in> set vs \<Longrightarrow> conforms s v) \<Longrightarrow> conforms (ArraySchema s) (JArr vs)"
| members: "(\<And>r. r \<in> set rs \<Longrightarrow> bt_contains m r) \<Longrightarrow>
    (\<And>k v s. (k, v) \<in> set m \<Longrightarrow> bt_get ps k = Some s \<Longrightarrow> conforms s v) \<Longrightarrow>
    (\<And>k v. (k, v) \<in> set m \<Longrightarrow> bt_get ps k = None \<Longrightarrow> add) \<Longrightarrow>
    conforms (ObjectSchema ps rs add) (JObj m)"

inductive_simps conforms_simps:
  "conforms AnySchema v" "conforms NullSchema v" "conforms BooleanSchema v" "conforms IntegerSchema v"
  "conforms NumberSchema v" "conforms StringSchema v" "conforms (ArraySchema s) v"
  "conforms (ObjectSchema ps rs add) v"

lemma validate_type_ok [simp]: "validate_type b path s v = Inr () \<longleftrightarrow> b"
  by (simp add: validate_type_def)

lemma integer_value: "is_i64 v \<or> is_u64 v \<longleftrightarrow> (\<exists>n. v = JNum (PosInt n)) \<or> (\<exists>n. v = JNum (NegInt n))"
  by (cases v rule: is_i64.cases) auto

lemma present_ok: "present rs m path = Inr () \<longleftrightarrow> (\<forall>r\<in>set rs. bt_contains m r)"
  by (induction rs) auto

lemma validate_conforms:
  "validate_value s v path = Inr () \<longleftrightarrow> conforms s v"
  "validate_items s vs i path = Inr () \<longleftrightarrow> (\<forall>v\<in>set vs. conforms s v)"
  "validate_members ps add m path = Inr () \<longleftrightarrow>
    (\<forall>(k, v)\<in>set m. case bt_get ps k of Some s \<Rightarrow> conforms s v | None \<Rightarrow> add)"
proof (induction s v path and s vs i path and ps add m path
    rule: validate_value_validate_items_validate_members.induct)
  case (4 v path)
  then show ?case by (simp add: integer_value conforms_simps)
next
  case (12 ps add k v m path)
  then show ?case by (cases "bt_get ps k") (auto simp: try_bind_eq_Inr cong: conj_cong)
next
  case (8 ps rs add v path)
  then show ?case
    by (cases v) (fastforce simp: conforms_simps try_bind_eq_Inr present_ok split: option.splits)+
qed (auto simp: conforms_simps try_bind_eq_Inr split: json.splits option.splits
    elim: as_bool.elims as_str.elims is_number.elims)

lemma null_value: "v = JNull \<Longrightarrow> conforms NullSchema v"
  by (simp add: conforms_simps)

subsection \<open>Descriptors\<close>

fun closed_schema :: "schema \<Rightarrow> bool" where
  "closed_schema (ArraySchema s) = closed_schema s"
| "closed_schema (ObjectSchema ps rs add) =
    ((\<forall>r\<in>set rs. r \<in> fst ` set ps) \<and> (\<forall>p\<in>set ps. closed_schema (snd p)))"
| "closed_schema s = True"

lemma declared_ok: "declared rs ps path = Inr () \<longleftrightarrow> (\<forall>r\<in>set rs. r \<in> fst ` set ps)"
  by (induction rs) (auto simp: bt_contains_def bt_get_def map_of_eq_None_iff)

lemma validate_schema_closed:
  "validate_schema s path = Inr () \<longleftrightarrow> closed_schema s"
  "validate_properties ps path = Inr () \<longleftrightarrow> (\<forall>p\<in>set ps. closed_schema (snd p))"
  by (induction s path and ps path rule: validate_schema_validate_properties.induct)
    (auto simp: declared_ok try_bind_eq_Inr)

lemma distinct_dependencies_ok:
  "distinct_dependencies ds seen = Inr () \<longleftrightarrow>
    distinct (map (diagnostic_key \<circ> dependency_key) ds) \<and> seen \<inter> set (map (diagnostic_key \<circ> dependency_key) ds) = {}"
  by (induction ds arbitrary: seen) (auto simp: Let_def)

subsection \<open>Service expressions\<close>

definition service_refs :: "config_expr list \<Rightarrow> string set" where
  "service_refs es = {n. \<exists>path. Service n path \<in> set es}"

lemma service_refs_append [simp]: "service_refs (es @ fs) = service_refs es \<union> service_refs fs"
  by (auto simp: service_refs_def)

lemma service_refs_Nil [simp]: "service_refs [] = {}"
  by (simp add: service_refs_def)

lemma service_names_refs:
  "config_service_names v names = Inr names' \<Longrightarrow>
    set (bt_keys names) \<union> service_refs (config_exprs v) \<subseteq> set (bt_keys names')"
  "list_service_names vs names = Inr names' \<Longrightarrow>
    set (bt_keys names) \<union> service_refs (list_exprs vs) \<subseteq> set (bt_keys names')"
  "field_service_names fs names = Inr names' \<Longrightarrow>
    set (bt_keys names) \<union> service_refs (field_exprs fs) \<subseteq> set (bt_keys names')"
proof (induction v names and vs names and fs names arbitrary: names' and names' and names'
    rule: config_service_names_list_service_names_field_service_names.induct)
  case (2 m names)
  show ?case
  proof (cases "bt_get m ''$expr''")
    case None
    with 2 show ?thesis by simp
  next
    case (Some e)
    with 2(2) obtain s where s: "as_str e = Some s" by (cases "as_str e") auto
    then have "try_bind (parse_expr s) (\<lambda>x. case x of Service n p \<Rightarrow> Inr (bt_insert n () names) | _ \<Rightarrow> Inr names)
        = Inr names'"
      using Some 2(2) by simp
    then obtain x where x: "parse_expr s = Inr x"
      and "(case x of Service n p \<Rightarrow> Inr (bt_insert n () names) | _ \<Rightarrow> Inr names) = (Inr names' :: loader_error + _)"
      unfolding try_bind_eq_Inr by blast
    then have names': "names' = (case x of Service n p \<Rightarrow> bt_insert n () names | _ \<Rightarrow> names)"
      by (cases x) simp_all
    have "set (config_exprs (JObj m)) \<subseteq> {x}"
      using Some s x by (simp add: expr_field_def)
    then show ?thesis using names' by (cases x) (auto simp: service_refs_def)
  qed
next
  case (5 v vs names)
  then obtain ns where "config_service_names v names = Inr ns" "list_service_names vs ns = Inr names'"
    by (auto simp: try_bind_eq_Inr)
  with 5(1) 5(2) [of ns names'] show ?case by auto
next
  case (7 k v fs names)
  then obtain ns where "config_service_names v names = Inr ns" "field_service_names fs ns = Inr names'"
    by (auto simp: try_bind_eq_Inr)
  with 7(1) 7(2) [of ns names'] show ?case by auto
qed simp_all

subsection \<open>Projected services\<close>

lemma require_first_None: "require_first name ds = None \<longleftrightarrow> filter (named name) ds = []"
  by (induction ds) auto

lemma require_first_Some:
  "require_first name ds = Some (k, ds') \<Longrightarrow>
    sk_name k = name \<and> Required k \<in> set ds' \<and> map dependency_key ds' = map dependency_key ds
    \<and> {k. Required k \<in> set ds} \<subseteq> {k. Required k \<in> set ds'}"
  by (induction ds arbitrary: ds') (auto simp: named_def split: if_splits)

text \<open>What a projection of \<open>names\<close> makes of the dependencies and of the keys found so far.\<close>

definition projection ::
  "string list \<Rightarrow> config_scope \<Rightarrow> dependency list \<times> service_key list \<Rightarrow> dependency list \<times> service_key list \<Rightarrow> bool" where
  "projection names sc old new =
    (case (old, new) of ((ds, keys), (ds', keys')) \<Rightarrow>
      map dependency_key ds' = map dependency_key ds
      \<and> {k. Required k \<in> set ds} \<subseteq> {k. Required k \<in> set ds'} \<and> set keys \<subseteq> set keys'
      \<and> set keys' - set keys \<subseteq> {k. Required k \<in> set ds' \<and> sk_name k \<in> set names}
      \<and> set names \<subseteq> sk_name ` set keys' \<union> {n. bt_contains (services sc) n})"

lemma projection_step:
  assumes "require_first name ds = Some (k, ds1)" and "projection names sc (ds1, keys @ [k]) new"
  shows "projection (name # names) sc (ds, keys) new"
  using require_first_Some [OF assms(1)] assms(2) by (cases new) (auto simp: projection_def)

lemma projection_skip:
  assumes "bt_contains (services sc) name" and "projection names sc (ds, keys) new"
  shows "projection (name # names) sc (ds, keys) new"
  using assms by (cases new) (auto simp: projection_def)

lemma project_services_projection:
  "project_services names sc ds keys = Inr (keys', ds') \<Longrightarrow> projection names sc (ds, keys) (ds', keys')"
proof (induction names sc ds keys rule: project_services.induct)
  case (2 name names sc ds keys)
  have ok: "\<not> (length (filter (named name) ds) > 1 \<or>
      length (filter (named name) ds) = 0 \<and> \<not> bt_contains (services sc) name)"
    using 2(3) by (auto simp: Let_def split: if_splits)
  show ?case
  proof (cases "require_first name ds")
    case None
    then have "bt_contains (services sc) name" using ok by (simp add: require_first_None)
    moreover have "projection names sc (ds, keys) (ds', keys')"
      using 2(1) [OF refl ok None] 2(3) ok None by (auto simp: Let_def split: if_splits)
    ultimately show ?thesis by (rule projection_skip)
  next
    case (Some r)
    obtain k ds1 where r: "r = (k, ds1)" by fastforce
    have "projection names sc (ds1, keys @ [k]) (ds', keys')"
      using 2(2) [OF refl ok Some r [symmetric]] 2(3) ok Some r by (auto simp: Let_def split: if_splits)
    then show ?thesis using projection_step Some r by blast
  qed
qed (simp add: projection_def)

lemma native_configuration_parts:
  assumes "native_configuration_new config intercept sc d = Inr (nc, d')"
  obtains ns names keys where "config_service_names config [] = Inr ns"
    "config_service_names intercept ns = Inr names"
    "projection (bt_keys names) sc (d_dependencies d, []) (d_dependencies d', keys)"
    "nc = \<lparr>nc_config = config, nc_intercept = intercept, nc_scope = sc, nc_services = keys\<rparr>"
    "d' = d\<lparr>d_dependencies := d_dependencies d'\<rparr>"
proof -
  obtain ns names keys ds where "config_service_names config [] = Inr ns"
    "config_service_names intercept ns = Inr names" "project_services (bt_keys names) sc (d_dependencies d) [] = Inr (keys, ds)"
    "nc = \<lparr>nc_config = config, nc_intercept = intercept, nc_scope = sc, nc_services = keys\<rparr>"
    "d' = d\<lparr>d_dependencies := ds\<rparr>"
    using assms by (auto simp: native_configuration_new_def try_bind_eq_Inr)
  then show thesis by (intro that [of ns names keys]) (simp_all add: project_services_projection)
qed

lemma read_services_declares:
  "read_services get ks sc = Inr sc' \<Longrightarrow>
    {n. bt_contains (services sc') n} = sk_name ` set ks \<union> {n. bt_contains (services sc) n}"
  by (induction get ks sc rule: read_services.induct)
    (auto simp: bt_contains_def split: sum.splits option.splits if_splits)

lemma declared_services:
  assumes "native_configuration_new config intercept sc d = Inr (nc, d')"
    and "validate_config config = Inr ()" and "validate_config intercept = Inr ()"
    and "read_services get (nc_services nc) sc = Inr sc'"
  shows "map dependency_key (d_dependencies d') = map dependency_key (d_dependencies d)"
    and "\<forall>k\<in>set (nc_services nc). Required k \<in> set (d_dependencies d')"
    and "Service n path \<in> set (config_exprs config @ config_exprs intercept) \<Longrightarrow> bt_contains (services sc') n"
    and "(\<exists>v. evaluate_configuration show get nc = Inr v) \<longleftrightarrow>
      (\<forall>e\<in>set (config_exprs config @ config_exprs intercept). available sc' e)"
proof -
  from native_configuration_parts [OF assms(1)] obtain ns names keys where
    ns: "config_service_names config [] = Inr ns" and names: "config_service_names intercept ns = Inr names"
    and p: "projection (bt_keys names) sc (d_dependencies d, []) (d_dependencies d', keys)"
    and nc: "nc = \<lparr>nc_config = config, nc_intercept = intercept, nc_scope = sc, nc_services = keys\<rparr>"
    by metis
  show "map dependency_key (d_dependencies d') = map dependency_key (d_dependencies d)"
    and "\<forall>k\<in>set (nc_services nc). Required k \<in> set (d_dependencies d')"
    using p nc by (auto simp: projection_def)
  have "service_refs (config_exprs config @ config_exprs intercept) \<subseteq> {n. bt_contains (services sc') n}"
    using service_names_refs(1) [OF ns] service_names_refs(1) [OF names] p read_services_declares [OF assms(4)] nc
    by (simp add: projection_def) blast
  then show "Service n path \<in> set (config_exprs config @ config_exprs intercept) \<Longrightarrow> bt_contains (services sc') n"
    by (auto simp: service_refs_def)
  show "(\<exists>v. evaluate_configuration show get nc = Inr v) \<longleftrightarrow>
      (\<forall>e\<in>set (config_exprs config @ config_exprs intercept). available sc' e)"
    using validate_config_evaluates(1) [OF assms(2), of sc'] validate_config_evaluates(1) [OF assms(3), of sc']
      assms(4) nc
    by (auto simp: evaluate_configuration_def try_bind_eq_Inr)
qed

subsection \<open>Properties\<close>

text \<open>C23: The validation of a configuration value accepts exactly the values that conform to the
  schema, a relation that is independent of the order in which the code looks at the members.\<close>

theorem validate_value_equiv: "validate_value s v path = Inr () \<longleftrightarrow> conforms s v"
  by (rule validate_conforms)

text \<open>A descriptor is accepted exactly when its name and version are not blank, its dependencies have
  different diagnostic keys and every required property of its schema, at any depth, has a schema.\<close>

theorem validate_descriptor_exact:
  "validate_descriptor d = Inr () \<longleftrightarrow> \<not> blank (d_name d) \<and> \<not> blank (d_version d)
    \<and> distinct (map (diagnostic_key \<circ> dependency_key) (d_dependencies d)) \<and> closed_schema (d_schema d)"
  by (simp add: validate_descriptor_def try_bind_eq_Inr distinct_dependencies_ok validate_schema_closed(1))

text \<open>Two different dependencies can share a diagnostic key, since a name or a version may contain the
  separator: the descriptor that declares both is rejected as having a duplicate.\<close>

theorem descriptor_false_duplicate:
  "let a = ServiceKey ''db@v1'' ''x''; b = ServiceKey ''db'' ''v1@x'' in
   a \<noteq> b \<and> validate_descriptor \<lparr>d_name = ''p'', d_version = ''1'',
     d_dependencies = [Required a, Required b], d_schema = AnySchema\<rparr>
   = Inl (DescriptorError ''dependencies'' [Text ''contains duplicate dependency '', Text ''db@v1@x''])"
  by code_simp

text \<open>A native configuration that is accepted leaves the dependencies in their order with their keys,
  makes every service that an expression names a required dependency or leaves it to the static scope, and
  once the declared services are there its evaluation finds all of them: it succeeds exactly when the
  expressions of the configuration and of the intercept are available in the scope so extended.\<close>

theorem native_configuration_declares:
  assumes "native_configuration_new config intercept sc d = Inr (nc, d')"
    and "validate_config config = Inr ()" and "validate_config intercept = Inr ()"
    and "read_services get (nc_services nc) sc = Inr sc'"
  shows "map dependency_key (d_dependencies d') = map dependency_key (d_dependencies d)
    \<and> (\<forall>k\<in>set (nc_services nc). Required k \<in> set (d_dependencies d'))
    \<and> (\<forall>n path. Service n path \<in> set (config_exprs config @ config_exprs intercept) \<longrightarrow>
          bt_contains (services sc') n)
    \<and> ((\<exists>v. evaluate_configuration show get nc = Inr v) \<longleftrightarrow>
          (\<forall>e\<in>set (config_exprs config @ config_exprs intercept). available sc' e))"
  using declared_services [OF assms] by blast

definition sample_descriptor :: descriptor where
  "sample_descriptor = \<lparr>d_name = ''p'', d_version = ''1'', d_dependencies = [OptionalDep (ServiceKey ''db'' ''1'')],
     d_schema = AnySchema\<rparr>"

theorem native_configuration_declares_witness:
  "let v = JObj [(''$expr'', JStr ''service.db.port'')]; k = ServiceKey ''db'' ''1'';
      sc = default_config_scope ''linux'' ''arm''; nc = \<lparr>nc_config = v, nc_intercept = JNull, nc_scope = sc, nc_services = [k]\<rparr>
   in \<exists>w. evaluate_configuration (\<lambda>e. []) (\<lambda>k. Inr (Some (JObj [(''port'', JBool True)]))) nc = Inr w"
proof -
  let ?v = "JObj [(''$expr'', JStr ''service.db.port'')]" and ?k = "ServiceKey ''db'' ''1''"
    and ?sc = "default_config_scope ''linux'' ''arm''" and ?db = "JObj [(''port'', JBool True)]"
  let ?nc = "\<lparr>nc_config = ?v, nc_intercept = JNull, nc_scope = ?sc, nc_services = [?k]\<rparr>"
  have new: "native_configuration_new ?v JNull ?sc sample_descriptor
      = Inr (?nc, sample_descriptor\<lparr>d_dependencies := [Required ?k]\<rparr>)"
    by code_simp
  have ok: "validate_config ?v = Inr ()" "validate_config JNull = Inr ()" by code_simp+
  have get: "read_services (\<lambda>k. Inr (Some ?db)) (nc_services ?nc) ?sc = Inr (?sc\<lparr>services := [(''db'', ?db)]\<rparr>)"
    by (simp add: default_config_scope_def)
  have "\<forall>e\<in>set (config_exprs ?v @ config_exprs JNull). available (?sc\<lparr>services := [(''db'', ?db)]\<rparr>) e"
    by code_simp
  then show ?thesis
    using conjunct2 [OF conjunct2 [OF conjunct2 [OF native_configuration_declares [OF new ok get, of "\<lambda>e. []"]]]]
    by (simp only: Let_def)
qed

end
