(* ===== verification/PluginProps.thy ===== *)
theory PluginProps
  imports NativePlugin NativeProps
begin

section \<open>Instances of native plugins: properties\<close>

text \<open>
  Every attempt to start a plugin is followed by at most one stop, which is on its way as soon as
  the plugin is not the running one; hooks see only configurations that conform to the schema; an
  update keeps the running plugin untouched or replaces it as a whole.
\<close>

subsection \<open>The discipline of hooks\<close>

fun open_after :: "nat \<Rightarrow> bool \<Rightarrow> plugin_event list \<Rightarrow> bool" where
  "open_after pl b [] = b"
| "open_after pl b (Attempted q # es) = open_after pl (b \<or> q = pl) es"
| "open_after pl b (Called q h v # es) = open_after pl (b \<and> \<not> (q = pl \<and> h = StopHook)) es"

text \<open>Hooks are called only after an attempt that no stop has followed yet.\<close>

fun orderly :: "nat \<Rightarrow> bool \<Rightarrow> plugin_event list \<Rightarrow> bool" where
  "orderly pl b [] = True"
| "orderly pl b (Attempted q # es) = orderly pl (b \<or> q = pl) es"
| "orderly pl b (Called q h v # es) =
    ((q = pl \<longrightarrow> b) \<and> orderly pl (b \<and> \<not> (q = pl \<and> h = StopHook)) es)"

lemma open_after_append [simp]: "open_after pl b (es @ fs) = open_after pl (open_after pl b es) fs"
  by (induction pl b es rule: open_after.induct) auto

lemma orderly_append [simp]: "orderly pl b (es @ fs) \<longleftrightarrow> orderly pl b es \<and> orderly pl (open_after pl b es) fs"
  by (induction pl b es rule: orderly.induct) auto

fun event_plugin :: "plugin_event \<Rightarrow> nat" where
  "event_plugin (Attempted q) = q"
| "event_plugin (Called q h v) = q"

fun typed :: "plugin_host \<Rightarrow> plugin_event \<Rightarrow> bool" where
  "typed H (Attempted q) = True"
| "typed H (Called q h None) = (h = StopHook)"
| "typed H (Called q h (Some v)) = conforms (d_schema (descriptor_of H q)) v"

definition log_inv :: "plugin_host \<Rightarrow> nat set \<Rightarrow> plugin_world \<Rightarrow> bool" where
  "log_inv H S w \<longleftrightarrow> (\<forall>pl. orderly pl False (events w)) \<and> (\<forall>pl. open_after pl False (events w) \<longleftrightarrow> pl \<in> S)
    \<and> (\<forall>e\<in>set (events w). typed H e \<and> event_plugin e < plugins_made w)"

definition running_plugin :: "plugin_instance \<Rightarrow> nat set" where
  "running_plugin p = (if start_attempted p \<and> \<not> stopped p then {pi_plugin p} else {})"

definition schema_ok :: "plugin_host \<Rightarrow> plugin_instance \<Rightarrow> plugin_world \<Rightarrow> bool" where
  "schema_ok H p w \<longleftrightarrow> d_schema (pi_descriptor p) = d_schema (descriptor_of H (pi_plugin p))
    \<and> pi_plugin p < plugins_made w
    \<and> (pi_configuration p = None \<longrightarrow> conforms (d_schema (pi_descriptor p)) (pi_config p))
    \<and> (stopped p \<longrightarrow> start_attempted p)"

text \<open>What the fields of the world that do not matter here cannot change.\<close>

lemma log_tick [simp]: "log_inv H S (w\<lparr>tick := t\<rparr>) = log_inv H S w"
  "log_inv H S (w\<lparr>fibers_made := n\<rparr>) = log_inv H S w"
  by (simp_all add: log_inv_def)

lemma pass_fields [simp]: "log_inv H S (pass w) = log_inv H S w" "plugins_made (pass w) = plugins_made w"
  "events (pass w) = events w"
  by (simp_all add: pass_def)

lemma schema_ok_pass [simp]: "schema_ok H p (pass w) = schema_ok H p w"
  by (simp add: schema_ok_def)

lemma validated_conforms: "validate_plugin_config d v = Inr () \<Longrightarrow> conforms (d_schema d) v"
  by (simp add: validate_plugin_config_def try_bind_eq_Inr validate_conforms(1))

lemma log_attempt:
  "log_inv H S w \<Longrightarrow> pl < plugins_made w \<Longrightarrow> log_inv H (insert pl S) (record_event (Attempted pl) w)"
  by (auto simp: log_inv_def record_event_def)

lemma log_call:
  "log_inv H S w \<Longrightarrow> pl < plugins_made w \<Longrightarrow> pl \<in> S \<Longrightarrow> typed H (Called pl h v) \<Longrightarrow>
    log_inv H (if h = StopHook then S - {pl} else S) (record_event (Called pl h v) w)"
  by (auto simp: log_inv_def record_event_def)

lemma record_made [simp]: "plugins_made (record_event e w) = plugins_made w"
  by (simp add: record_event_def)

subsection \<open>Stopping and starting\<close>

lemma log_inv_events: "events w' = events w \<Longrightarrow> plugins_made w' = plugins_made w \<Longrightarrow> log_inv H S w' = log_inv H S w"
  by (simp add: log_inv_def)

lemma schema_ok_made: "plugins_made w' = plugins_made w \<Longrightarrow> schema_ok H p w' = schema_ok H p w"
  by (simp add: schema_ok_def)

lemma stop_plugin_inv:
  assumes "stop_plugin H p w = (r, p', w')" and "log_inv H (S \<union> running_plugin p) w"
    and "pi_plugin p \<notin> S" and "schema_ok H p w"
  shows "log_inv H S w' \<and> running_plugin p' = {} \<and> schema_ok H p' w' \<and> pi_plugin p' = pi_plugin p
    \<and> plugins_made w' = plugins_made w"
proof (cases "start_attempted p \<and> \<not> stopped p")
  case True
  then have "pi_plugin p \<in> S \<union> running_plugin p" "running_plugin p = {pi_plugin p}"
    by (auto simp: running_plugin_def)
  with True show ?thesis
    using assms log_call [of H "S \<union> running_plugin p" "pass w" "pi_plugin p" StopHook None]
    by (auto simp: stop_plugin_def call_hook_def schema_ok_def running_plugin_def)
qed (use assms in \<open>auto simp: stop_plugin_def running_plugin_def\<close>)

lemma stop_current_inv:
  assumes "stop_current H p w = (r, p', w')" and "log_inv H (S \<union> running_plugin p) w"
    and "pi_plugin p \<notin> S" and "schema_ok H p w"
  shows "log_inv H S w' \<and> running_plugin p' = {} \<and> schema_ok H p' w' \<and> pi_plugin p' = pi_plugin p
    \<and> plugins_made w' = plugins_made w"
  using assms(1) stop_plugin_inv [OF _ assms(2-4)]
  by (auto simp: stop_current_def split: prod.splits)

lemma finish_failed_inv:
  assumes "finish_failed_start H e p w = (r, p', w')" and "log_inv H (S \<union> running_plugin p) w"
    and "pi_plugin p \<notin> S" and "schema_ok H p w"
  shows "log_inv H S w' \<and> running_plugin p' = {} \<and> schema_ok H p' w' \<and> pi_plugin p' = pi_plugin p
    \<and> plugins_made w' = plugins_made w"
  using assms(1) stop_plugin_inv [OF _ assms(2-4)]
  by (auto simp: finish_failed_start_def split: prod.splits sum.splits)

lemma call_hooks_inv:
  "call_hooks H pl v hs w = (r, w') \<Longrightarrow> log_inv H S w \<Longrightarrow> pl \<in> S \<Longrightarrow> pl < plugins_made w \<Longrightarrow>
    conforms (d_schema (descriptor_of H pl)) v \<Longrightarrow> \<forall>h\<in>set hs. fst h \<noteq> StopHook \<Longrightarrow>
    log_inv H S w' \<and> plugins_made w' = plugins_made w"
proof (induction hs arbitrary: w r w')
  case (Cons h hs)
  obtain k phase where h: "h = (k, phase)" by fastforce
  let ?w = "record_event (Called pl k (Some v)) (pass w)"
  have l: "log_inv H S ?w"
    using log_call [of H S "pass w" pl k "Some v"] Cons.prems h by simp
  show ?case
  proof (cases "hook_returns H (tick w)")
    case (Inl e)
    then show ?thesis using Cons.prems(1) l h by (auto simp: call_hook_def)
  next
    case (Inr u)
    then have "call_hooks H pl v hs ?w = (r, w')" using Cons.prems(1) h by (simp add: call_hook_def)
    then show ?thesis using Cons.IH [OF _ l] Cons.prems(3-6) by simp
  qed
qed simp

lemma run_setup_inv:
  assumes "run_setup H pl v hs w = (r, w')" and "log_inv H S w" and "pl \<in> S" and "pl < plugins_made w"
    and "conforms (d_schema (descriptor_of H pl)) v" and "\<forall>h\<in>set hs. fst h \<noteq> StopHook"
  shows "log_inv H S w' \<and> plugins_made w' = plugins_made w"
proof (cases "start_begun H (tick w)")
  case (Inr u)
  obtain r1 w1 where c: "call_hooks H pl v hs (pass w) = (r1, w1)" by fastforce
  then have "log_inv H S w1 \<and> plugins_made w1 = plugins_made w"
    using call_hooks_inv [OF c, of S] assms(2-6) by simp
  then show ?thesis using assms(1) Inr c by (cases r1) (auto simp: run_setup_def)
qed (use assms in \<open>auto simp: run_setup_def\<close>)

lemma attempt_start_inv:
  assumes "attempt_start H hs p w = (r, p', w')" and "log_inv H (S \<union> running_plugin p) w"
    and "pi_plugin p \<notin> S" and "schema_ok H p w" and "conforms (d_schema (pi_descriptor p)) (pi_config p)"
    and "\<not> stopped p" and "\<forall>h\<in>set hs. fst h \<noteq> StopHook"
  shows "log_inv H (S \<union> running_plugin p') w' \<and> schema_ok H p' w' \<and> pi_plugin p' = pi_plugin p
    \<and> plugins_made w' = plugins_made w"
proof -
  let ?p = "p\<lparr>start_attempted := True\<rparr>" and ?pl = "pi_plugin p"
  have run: "running_plugin ?p = {?pl}" using assms(6) by (simp add: running_plugin_def)
  have ok: "schema_ok H ?p w" using assms(4) by (auto simp: schema_ok_def)
  have "log_inv H (insert ?pl (S \<union> running_plugin p)) (record_event (Attempted ?pl) w)"
    using log_attempt [OF assms(2)] assms(4) by (simp add: schema_ok_def)
  moreover have "insert ?pl (S \<union> running_plugin p) = S \<union> {?pl}" by (auto simp: running_plugin_def)
  ultimately have l: "log_inv H (S \<union> {?pl}) (record_event (Attempted ?pl) w)" by simp
  obtain r1 w1 where s: "run_setup H ?pl (pi_config p) hs (record_event (Attempted ?pl) w) = (r1, w1)"
    by fastforce
  have w1: "log_inv H (S \<union> {?pl}) w1 \<and> plugins_made w1 = plugins_made w"
    using run_setup_inv [OF s l] assms(4,5,7) by (simp add: schema_ok_def)
  then have ok1: "schema_ok H ?p w1" using ok schema_ok_made by blast
  show ?thesis
  proof (cases r1)
    case (Inl e)
    then have "finish_failed_start H (CoreFailure e) ?p w1 = (r, p', w')"
      using assms(1) s by (simp add: attempt_start_def Let_def)
    from finish_failed_inv [OF this, of S] show ?thesis using w1 ok1 run assms(3) by simp
  next
    case (Inr u)
    then have "p' = ?p" "w' = w1" using assms(1) s by (simp_all add: attempt_start_def Let_def)
    then show ?thesis using w1 ok1 run by simp
  qed
qed

lemma wait_inv:
  "wait_for_dependencies H p w = (r, p', w') \<Longrightarrow>
    events w' = events w \<and> plugins_made w' = plugins_made w \<and> (\<exists>g. p' = p\<lparr>pi_gate := g\<rparr>)"
  unfolding wait_for_dependencies_def
  by (cases "pi_gate p"; cases "gate_made H (tick w)"; cases p) (auto split: prod.splits sum.splits)

lemma resolved_inv:
  "resolved_config H show p w = (r, w') \<Longrightarrow> events w' = events w \<and> plugins_made w' = plugins_made w"
  by (auto simp: resolved_config_def split: option.splits)

lemma resolved_default:
  "resolved_config H show p w = (Inr v, w') \<Longrightarrow> pi_configuration p = None \<longrightarrow> v = pi_config p"
  by (auto simp: resolved_config_def)

lemma running_fields [simp]:
  "running_plugin (p\<lparr>pi_gate := g\<rparr>) = running_plugin p" "running_plugin (p\<lparr>pi_config := v\<rparr>) = running_plugin p"
  by (simp_all add: running_plugin_def)

lemma schema_ok_gate [simp]: "schema_ok H (p\<lparr>pi_gate := g\<rparr>) w = schema_ok H p w"
  by (simp add: schema_ok_def)

lemma schema_ok_config: "schema_ok H p w \<Longrightarrow> conforms (d_schema (pi_descriptor p)) v \<Longrightarrow> schema_ok H (p\<lparr>pi_config := v\<rparr>) w"
  by (auto simp: schema_ok_def)

text \<open>What an operation on the instance of \<open>p\<close> keeps, with the plugins of \<open>S\<close> running beside it.\<close>

definition kept :: "plugin_host \<Rightarrow> nat set \<Rightarrow> plugin_instance \<Rightarrow> plugin_world \<Rightarrow> plugin_instance \<Rightarrow> plugin_world \<Rightarrow> bool" where
  "kept H S p w p' w' \<longleftrightarrow> log_inv H (S \<union> running_plugin p') w' \<and> schema_ok H p' w'
    \<and> pi_plugin p' = pi_plugin p \<and> plugins_made w' = plugins_made w"

text \<open>A configuration that does not conform is kept in the instance, but no hook sees it.\<close>

lemma configured_inv:
  assumes "(case validate_plugin_config (pi_descriptor p) v of
      Inl e \<Rightarrow> (Inl e, p\<lparr>pi_config := v\<rparr>, w)
    | Inr _ \<Rightarrow> attempt_start H hs (p\<lparr>pi_config := v\<rparr>) w) = (r, p', w')"
    and "log_inv H (S \<union> running_plugin p) w" and "pi_plugin p \<notin> S" and "schema_ok H p w"
    and "\<not> stopped p" and "\<forall>h\<in>set hs. fst h \<noteq> StopHook" and "pi_configuration p = None \<longrightarrow> v = pi_config p"
  shows "kept H S p w p' w'"
proof (cases "validate_plugin_config (pi_descriptor p) v")
  case (Inl e)
  then show ?thesis using assms by (auto simp: kept_def schema_ok_def)
next
  case (Inr u)
  then have v: "conforms (d_schema (pi_descriptor p)) v" using validated_conforms by simp
  have "attempt_start H hs (p\<lparr>pi_config := v\<rparr>) w = (r, p', w')" using assms(1) Inr by simp
  from attempt_start_inv [OF this, of S] show ?thesis
    using assms(2-6) v schema_ok_config [OF assms(4) v] by (simp add: kept_def)
qed

lemma start_inv:
  assumes "start_plugin H show p w = (r, p', w')" and "log_inv H (S \<union> running_plugin p) w"
    and "pi_plugin p \<notin> S" and "schema_ok H p w" and "starts_once H (p, w)"
  shows "kept H S p w p' w'"
proof (cases "fiber_at H (tick w) (pi_fiber p) \<noteq> Pending")
  case True
  then show ?thesis using assms by (auto simp: start_plugin_def kept_def)
next
  case False
  then have fresh: "\<not> stopped p" using assms(4,5) by (auto simp: starts_once_def schema_ok_def)
  obtain r1 p1 w1 where w: "wait_for_dependencies H p (pass w) = (r1, p1, w1)" by (metis prod_cases3)
  obtain g where p1: "p1 = p\<lparr>pi_gate := g\<rparr>" and e1: "events w1 = events w" "plugins_made w1 = plugins_made w"
    using wait_inv [OF w] by auto
  have w1: "log_inv H (S \<union> running_plugin p) w1" "plugins_made w1 = plugins_made w"
    using log_inv_events [OF e1] assms(2) e1 by simp_all
  have ok1: "schema_ok H p1 w1" using p1 schema_ok_made [OF e1(2)] assms(4) by simp
  obtain r2 w2 where c: "resolved_config H show p1 w1 = (r2, w2)" by fastforce
  have w2: "log_inv H (S \<union> running_plugin p) w2" "plugins_made w2 = plugins_made w" "schema_ok H p1 w2"
    using resolved_inv [OF c] w1 ok1 log_inv_events [of w2 w1] schema_ok_made [of w2 w1] by simp_all
  have stay: "kept H S p w p1 w1" "kept H S p w p1 w2"
    using p1 w1 w2 ok1 by (simp_all add: kept_def)
  show ?thesis
  proof (cases r1)
    case (Inl e)
    then show ?thesis using assms(1) stay(1) False w by (simp add: start_plugin_def)
  next
    case r1: (Inr u)
    show ?thesis
    proof (cases r2)
      case (Inl e)
      then show ?thesis using assms(1) stay(2) False w c r1 by (simp add: start_plugin_def)
    next
      case (Inr v)
      let ?p = "p1\<lparr>pi_config := v\<rparr>"
      have tail: "(case validate_plugin_config (pi_descriptor p1) v of
          Inl e \<Rightarrow> (Inl e, ?p, w2) | Inr _ \<Rightarrow> attempt_start H [(StartHook, StartPhase)] ?p w2) = (r, p', w')"
        using assms(1) False w c r1 Inr by (simp add: start_plugin_def Let_def)
      show ?thesis 
        using configured_inv [of v p1 w2 H "[(StartHook, StartPhase)]" r p' w' S] tail assms(3) fresh p1 w2
          resolved_default [OF c [unfolded Inr]] by (simp add: kept_def)
    qed
  qed
qed

subsection \<open>Updates\<close>

lemma after_update_inv:
  assumes "start_after_update H show p w = (r, p', w')" and "log_inv H (S \<union> running_plugin p) w"
    and "pi_plugin p \<notin> S" and "schema_ok H p w" and "\<not> stopped p"
  shows "kept H S p w p' w'"
proof -
  obtain r1 p1 w1 where w: "wait_for_dependencies H p w = (r1, p1, w1)" by (metis prod_cases3)
  obtain g where p1: "p1 = p\<lparr>pi_gate := g\<rparr>" and e1: "events w1 = events w" "plugins_made w1 = plugins_made w"
    using wait_inv [OF w] by auto
  have w1: "log_inv H (S \<union> running_plugin p) w1" "plugins_made w1 = plugins_made w"
    using log_inv_events [OF e1] assms(2) e1 by simp_all
  have ok1: "schema_ok H p1 w1" using p1 schema_ok_made [OF e1(2)] assms(4) by simp
  obtain r2 w2 where c: "resolved_config H show p1 w1 = (r2, w2)" by fastforce
  have w2: "log_inv H (S \<union> running_plugin p) w2" "plugins_made w2 = plugins_made w" "schema_ok H p1 w2"
    using resolved_inv [OF c] w1 ok1 log_inv_events [of w2 w1] schema_ok_made [of w2 w1] by simp_all
  have stay: "kept H S p w p1 w1" "kept H S p w p1 w2"
    using p1 w1 w2 ok1 by (simp_all add: kept_def)
  show ?thesis
  proof (cases r1)
    case (Inl e)
    then show ?thesis using assms(1) stay(1) w by (simp add: start_after_update_def)
  next
    case r1: (Inr u)
    show ?thesis
    proof (cases r2)
      case (Inl e)
      then show ?thesis using assms(1) stay(2) w c r1 by (simp add: start_after_update_def)
    next
      case (Inr v)
      let ?hs = "[(UpdateHook, UpdatePhase), (StartHook, StartPhase)]"
      let ?checked = "if pi_configuration p1 = None then Inr () else validate_plugin_config (pi_descriptor p1) v"
      show ?thesis
      proof (cases ?checked)
        case (Inl e)
        then show ?thesis using assms(1) stay(2) w c r1 \<open>r2 = Inr v\<close> by (simp add: start_after_update_def)
      next
        case checked: (Inr u)
        then have run: "attempt_start H ?hs (p1\<lparr>pi_config := v\<rparr>) w2 = (r, p', w')"
          using assms(1) w c r1 Inr by (simp add: start_after_update_def)
        have v: "conforms (d_schema (pi_descriptor p1)) v"
        proof (cases "pi_configuration p1")
          case None
          then show ?thesis using resolved_default [OF c [unfolded Inr]] ok1 by (auto simp: schema_ok_def)
        next
          case (Some nc)
          then show ?thesis using checked validated_conforms by simp
        qed
        from attempt_start_inv [OF run, of S] show ?thesis
          using w2 assms(3,5) p1 v schema_ok_config [OF w2(3) v] by (simp add: kept_def)
      qed
    qed
  qed
qed

lemma discard_inv:
  assumes "discard H e c w = (r, w')" and "log_inv H (S \<union> running_plugin c) w" and "pi_plugin c \<notin> S"
    and "schema_ok H c w"
  shows "log_inv H S w' \<and> plugins_made w' = plugins_made w \<and> (\<exists>e. r = Inl e)"
proof -
  obtain r1 c1 w1 where s: "stop_current H c w = (r1, c1, w1)" by (metis prod_cases3)
  show ?thesis using stop_current_inv [OF s assms(2-4)] assms(1) s by (cases r1) (auto simp: discard_def)
qed

text \<open>The instance after an operation: the log is in order and nothing but it runs.\<close>

definition plugin_inv :: "plugin_host \<Rightarrow> plugin_instance \<times> plugin_world \<Rightarrow> bool" where
  "plugin_inv H s \<longleftrightarrow> (case s of (p, w) \<Rightarrow> log_inv H (running_plugin p) w \<and> schema_ok H p w)"

lemma kept_plugin_inv: "kept H {} p w p' w' \<Longrightarrow> plugin_inv H (p', w')"
  by (simp add: kept_def plugin_inv_def)

lemma install_inv:
  assumes "install_candidate H show p c w = (r, p', w')" and "plugin_inv H (p, w)" and "schema_ok H c w"
    and "running_plugin c = {}" and "\<not> stopped c" and "pi_plugin c \<noteq> pi_plugin p"
  shows "plugin_inv H (p', w')"
proof -
  let ?S = "running_plugin p"
  have p: "log_inv H ?S w" "schema_ok H p w" using assms(2) by (auto simp: plugin_inv_def)
  have fresh: "pi_plugin c \<notin> ?S" using assms(6) by (simp add: running_plugin_def)
  obtain r1 c1 w1 where a: "start_after_update H show c w = (r1, c1, w1)" by (metis prod_cases3)
  have k: "log_inv H (?S \<union> running_plugin c1) w1" "schema_ok H c1 w1" "pi_plugin c1 \<notin> ?S"
      "plugins_made w1 = plugins_made w" "pi_plugin c1 \<noteq> pi_plugin p"
    using after_update_inv [OF a, of ?S] p assms(3-6) fresh by (simp_all add: kept_def)
  have thrown: "plugin_inv H (p, w2)" if "discard H e c1 w1' = (r2, w2)" "w1' = w1 \<or> w1' = pass w1" for e r2 w2 w1'
  proof -
    have l: "log_inv H (?S \<union> running_plugin c1) w1'" "schema_ok H c1 w1'" "plugins_made w1' = plugins_made w"
      using k that(2) by auto
    have "log_inv H ?S w2 \<and> plugins_made w2 = plugins_made w"
      using discard_inv [OF that(1) l(1) k(3) l(2)] l(3) by simp
    then show ?thesis using p(2) schema_ok_made [of w2 w] by (simp add: plugin_inv_def)
  qed
  show ?thesis
  proof (cases r1)
    case (Inl e)
    obtain r2 w2 where d: "discard H e c1 w1 = (r2, w2)" by fastforce
    then show ?thesis using assms(1) a Inl thrown [OF d] by (simp add: install_candidate_def)
  next
    case r1: (Inr u)
    show ?thesis
    proof (cases "staged_committed H (tick w1)")
      case (Inl e)
      obtain r2 w2 where d: "discard H (CoreFailure e) c1 (pass w1) = (r2, w2)" by fastforce
      then show ?thesis using assms(1) a r1 Inl thrown [OF d] by (simp add: install_candidate_def)
    next
      case (Inr u2)
      obtain r2 q w2 where s: "stop_current H p (pass w1) = (r2, q, w2)" by (metis prod_cases3)
      have "log_inv H (running_plugin c1 \<union> ?S) (pass w1)" using k(1) by (simp add: Un_commute)
      moreover have "pi_plugin p \<notin> running_plugin c1" using k(5) by (simp add: running_plugin_def)
      moreover have "schema_ok H p (pass w1)" using p(2) schema_ok_made [OF k(4)] by simp
      ultimately have "log_inv H (running_plugin c1) w2 \<and> plugins_made w2 = plugins_made w1"
        using stop_current_inv [OF s, of "running_plugin c1"] by simp
      then have "plugin_inv H (c1, w2)" using k(2) schema_ok_made [of w2 w1] by (simp add: plugin_inv_def)
      then show ?thesis using assms(1) a r1 Inr s by (simp add: install_candidate_def)
    qed
  qed
qed

lemma new_fiber_inv:
  "new_fiber H w = (r, w') \<Longrightarrow> events w' = events w \<and> plugins_made w' = plugins_made w"
  by (auto simp: new_fiber_def split: sum.splits)

lemma inner_inv:
  assumes "instantiate_inner H pl fac v w = (Inr c, w')" and "pl < plugins_made w"
  shows "schema_ok H c w' \<and> pi_plugin c = pl \<and> \<not> start_attempted c \<and> \<not> stopped c
    \<and> events w' = events w \<and> plugins_made w' = plugins_made w"
  using assms new_fiber_inv [of H w]
  by (auto simp: instantiate_inner_def schema_ok_def split: sum.splits prod.splits dest: validated_conforms)

lemma inner_failed:
  "instantiate_inner H pl fac v w = (Inl e, w') \<Longrightarrow> events w' = events w \<and> plugins_made w' = plugins_made w"
  using new_fiber_inv [of H w] by (auto simp: instantiate_inner_def split: sum.splits prod.splits)

lemma instantiate_inv:
  assumes "instantiate_plugin H v w = (Inr c, w')"
  shows "schema_ok H c w' \<and> pi_plugin c = plugins_made w \<and> \<not> start_attempted c \<and> \<not> stopped c
    \<and> events w' = events w \<and> plugins_made w' = Suc (plugins_made w)"
  using assms inner_inv [of H "plugins_made w" True v "w\<lparr>plugins_made := Suc (plugins_made w)\<rparr>" c w']
  by (simp add: instantiate_plugin_def new_plugin_def)

lemma instantiate_failed:
  "instantiate_plugin H v w = (Inl e, w') \<Longrightarrow> events w' = events w \<and> plugins_made w' = Suc (plugins_made w)"
  using inner_failed [of H "plugins_made w" True v "w\<lparr>plugins_made := Suc (plugins_made w)\<rparr>" e w']
  by (simp add: instantiate_plugin_def new_plugin_def)

lemma more_plugins:
  "log_inv H S w \<Longrightarrow> events w' = events w \<Longrightarrow> plugins_made w' = Suc (plugins_made w) \<Longrightarrow> log_inv H S w'"
  by (auto simp: log_inv_def less_Suc_eq)

lemma plugin_inv_more:
  "plugin_inv H (p, w) \<Longrightarrow> events w' = events w \<Longrightarrow> plugins_made w' = Suc (plugins_made w) \<Longrightarrow> plugin_inv H (p, w')"
  by (auto simp: plugin_inv_def schema_ok_def intro: more_plugins)

lemma inherit_fields [simp]:
  "pi_plugin (inherit_configuration nc c) = pi_plugin c"
  "start_attempted (inherit_configuration nc c) = start_attempted c"
  "stopped (inherit_configuration nc c) = stopped c"
  "pi_config (inherit_configuration nc c) = pi_config c"
  "d_schema (pi_descriptor (inherit_configuration nc c)) = d_schema (pi_descriptor c)"
  by (simp_all add: inherit_configuration_def Let_def split: option.splits)

lemma inherit_ok: "schema_ok H c w \<Longrightarrow> pi_configuration c = None \<Longrightarrow> schema_ok H (inherit_configuration nc c) w"
  by (auto simp: schema_ok_def)

lemma inner_unconfigured: "instantiate_inner H pl fac v w = (Inr c, w') \<Longrightarrow> pi_configuration c = None"
  by (auto simp: instantiate_inner_def split: sum.splits prod.splits)

lemma update_inv:
  assumes "update_plugin H show v p w = (r, p', w')" and "plugin_inv H (p, w)"
  shows "plugin_inv H (p', w')"
proof -
  have stay: "plugin_inv H (p, pass w)" using assms(2) by (simp add: plugin_inv_def)
  show ?thesis
  proof (cases "instantiate_plugin H v (pass w)")
    case (Pair r1 w1)
    show ?thesis
    proof (cases r1)
      case (Inl e)
      then have "plugin_inv H (p, w1)" using plugin_inv_more [OF stay] instantiate_failed Pair by auto
      then show ?thesis using assms stay Pair Inl
        by (auto simp: update_plugin_def plugin_inv_def split: sum.splits if_splits)
    next
      case (Inr c)
      have c: "schema_ok H c w1" "pi_plugin c = plugins_made w" "\<not> start_attempted c" "\<not> stopped c"
          "events w1 = events w" "plugins_made w1 = Suc (plugins_made w)" "pi_configuration c = None"
        using instantiate_inv [OF Pair [unfolded Inr]] Pair Inr
        by (auto simp: instantiate_plugin_def new_plugin_def dest: inner_unconfigured)
      have p1: "plugin_inv H (p, w1)" using plugin_inv_more [OF stay] c by simp
      have other: "pi_plugin c \<noteq> pi_plugin p" using assms(2) c(2) by (auto simp: plugin_inv_def schema_ok_def)
      show ?thesis
      proof (cases "install_candidate H show p (inherit_configuration (pi_configuration p) c) w1 = (r, p', w')")
        case True
        then show ?thesis
          using install_inv [OF True p1] inherit_ok [OF c(1,7)] c other by (simp add: running_plugin_def)
      next
        case False
        then show ?thesis using assms stay Pair Inr
          by (auto simp: update_plugin_def plugin_inv_def split: sum.splits if_splits)
      qed
    qed
  qed
qed

lemma suspend_inv:
  assumes "suspend_plugin H p w = (r, p', w')" and "plugin_inv H (p, w)"
  shows "plugin_inv H (p', w')"
proof (cases "fiber_at H (tick w) (pi_fiber p) = Pending")
  case True
  then show ?thesis using assms by (auto simp: suspend_plugin_def plugin_inv_def)
next
  case False
  obtain r1 p1 w1 where s: "stop_current H p (pass w) = (r1, p1, w1)" by (metis prod_cases3)
  have k: "log_inv H {} w1" "running_plugin p1 = {}" "schema_ok H p1 w1"
    using stop_current_inv [OF s, of "{}"] assms(2) by (simp_all add: plugin_inv_def)
  show ?thesis
  proof (cases r1)
    case (Inl e)
    then show ?thesis using assms(1) s k False by (simp add: suspend_plugin_def plugin_inv_def)
  next
    case (Inr u)
    obtain r2 w2 where f: "new_fiber H w1 = (r2, w2)" by fastforce
    have w2: "log_inv H {} w2" "plugins_made w2 = plugins_made w1"
      using new_fiber_inv [OF f] log_inv_events [of w2 w1] k by simp_all
    then show ?thesis using assms(1) s k False Inr f schema_ok_made [OF w2(2), of H p1]
      by (cases r2) (auto simp: suspend_plugin_def plugin_inv_def Let_def running_plugin_def schema_ok_def)
  qed
qed

lemma op_inv:
  assumes "plugin_op_run H show op p w = (r, p', w')" and "plugin_inv H (p, w)" and "starts_once H (p, w)"
  shows "plugin_inv H (p', w')"
proof (cases op)
  case StartOp
  then have "kept H {} p w p' w'"
    using start_inv [of H "show" p w r p' w' "{}"] assms by (simp add: plugin_inv_def)
  then show ?thesis by (rule kept_plugin_inv)
next
  case (UpdateOp v)
  then show ?thesis using update_inv assms by simp
next
  case UpdateResolved
  obtain r1 w1 where c: "resolved_config H show p w = (r1, w1)" by fastforce
  have "plugin_inv H (p, w1)"
    using resolved_inv [OF c] assms(2) log_inv_events [of w1 w] schema_ok_made [of w1 w] by (simp add: plugin_inv_def)
  then show ?thesis using assms(1) UpdateResolved c update_inv by (cases r1) auto
next
  case SuspendOp
  then show ?thesis using suspend_inv assms by simp
next
  case DisposeOp
  then show ?thesis using stop_current_inv [of H p w r p' w' "{}"] assms
    by (simp add: plugin_inv_def dispose_plugin_def)
qed

subsection \<open>Runs\<close>

lemma fresh_plugin_inv:
  assumes "schema_ok H p w" and "\<not> start_attempted p" and "events w = []"
  shows "plugin_inv H (p, w)"
  using assms by (simp add: plugin_inv_def log_inv_def running_plugin_def)

lemma configured_init:
  assumes "instantiate_configured H show rt spec e sc plugin_world_new = (Inr p, w)"
  shows "plugin_inv H (p, w)"
proof -
  let ?w = "plugin_world_new\<lparr>plugins_made := 1\<rparr>"
  have n: "new_plugin plugin_world_new = (0, ?w)" by (simp add: new_plugin_def plugin_world_new_def)
  obtain nc d where nc: "native_configuration_new (eo_config (options e)) (eo_intercept (options e)) sc (descriptor_of H 0) = Inr (nc, d)"
    using assms n by (auto simp: instantiate_configured_def split: sum.splits if_splits)
  have d: "d_schema d = d_schema (descriptor_of H 0)"
    by (rule native_configuration_parts [OF nc]) (metis descriptor.select_convs(4) descriptor.surjective descriptor.update_convs(3))
  show ?thesis
  proof (cases "nc_services nc = []")
    case True
    then obtain v where i: "instantiate_inner H 0 True v (pass ?w) = (Inr p, w)"
      using assms n nc
      by (auto simp: instantiate_configured_def as_loader_error_def map_error_def split: sum.splits if_splits prod.splits)
    show ?thesis
      by (rule fresh_plugin_inv) (use inner_inv [OF i] in \<open>simp_all add: plugin_world_new_def\<close>)
  next
    case False
    obtain r w1 where f: "new_fiber H ?w = (r, w1)" by fastforce
    have w1: "events w1 = []" "plugins_made w1 = 1"
      using new_fiber_inv [OF f] by (simp_all add: plugin_world_new_def)
    show ?thesis
      by (rule fresh_plugin_inv)
        (use assms n nc False f w1 d in
          \<open>auto simp: instantiate_configured_def schema_ok_def split: sum.splits if_splits\<close>)
  qed
qed

lemma plugin_inv_init: "plugin_init H show s \<Longrightarrow> plugin_inv H s"
proof -
  assume "plugin_init H show s"
  moreover obtain p w where s: "s = (p, w)" by fastforce
  ultimately consider v where "instantiate_plugin H v plugin_world_new = (Inr p, w)"
    | rt spec e sc where "instantiate_configured H show rt spec e sc plugin_world_new = (Inr p, w)"
    by (auto simp: plugin_init_def)
  then show "plugin_inv H s"
  proof cases
    case 1
    then show ?thesis unfolding s
      by (intro fresh_plugin_inv) (use instantiate_inv [OF 1] in \<open>simp_all add: plugin_world_new_def\<close>)
  next
    case 2
    then show ?thesis unfolding s by (rule configured_init)
  qed
qed

lemma plugin_inv_exec:
  "plugin_inv H s \<Longrightarrow> starts_once H s \<Longrightarrow> plugin_exec H show op s = Some t \<Longrightarrow> plugin_inv H t"
  using op_inv by (auto simp: plugin_exec_def split: prod.splits)

interpretation plugin: transition_invariant "plugin_init H show"
    "exec_rel (lawful_exec H show)" "plugin_inv H" for H "show"
  using plugin_inv_init plugin_inv_exec
  by unfold_locales (auto simp: exec_rel_def lawful_exec_def split: if_splits)

subsection \<open>What an update does\<close>

definition own_events :: "nat \<Rightarrow> plugin_world \<Rightarrow> plugin_world \<Rightarrow> bool" where
  "own_events pl w w' \<longleftrightarrow> (\<exists>es. events w' = events w @ es \<and> event_plugin ` set es \<subseteq> {pl})"

lemma own_refl [simp]: "own_events pl w w"
  by (simp add: own_events_def)

lemma own_same: "events w' = events w \<Longrightarrow> own_events pl w w'"
  by (simp add: own_events_def)

lemma own_trans [trans]: "own_events pl w w1 \<Longrightarrow> own_events pl w1 w2 \<Longrightarrow> own_events pl w w2"
  unfolding own_events_def by (metis (no_types, lifting) append.assoc image_Un set_append Un_least)

lemma own_pass [simp]: "own_events pl (pass w) w' = own_events pl w w'" "own_events pl w (pass w') = own_events pl w w'"
  by (simp_all add: own_events_def)

lemma own_record [simp]: "event_plugin e = pl \<Longrightarrow> own_events pl w (record_event e w)"
  by (simp add: own_events_def record_event_def)

lemma stop_plugin_events:
  "stop_plugin H p w = (r, p', w') \<Longrightarrow> pi_plugin p' = pi_plugin p \<and>
    events w' = events w @ (if start_attempted p \<and> \<not> stopped p then [Called (pi_plugin p) StopHook None] else [])"
  by (auto simp: stop_plugin_def call_hook_def record_event_def split: if_splits)

lemma stop_current_events:
  assumes "stop_current H p w = (r, p', w')"
  shows "pi_plugin p' = pi_plugin p \<and>
    events w' = events w @ (if start_attempted p \<and> \<not> stopped p then [Called (pi_plugin p) StopHook None] else [])"
proof -
  obtain r1 p1 w1 where s: "stop_plugin H p w = (r1, p1, w1)" by (metis prod_cases3)
  then have "p' = p1" "w' = pass w1" using assms by (simp_all add: stop_current_def)
  then show ?thesis using stop_plugin_events [OF s] by simp
qed

lemma stop_own: "stop_current H p w = (r, p', w') \<Longrightarrow> own_events (pi_plugin p) w w'"
  by (drule stop_current_events) (auto simp: own_events_def)

lemma finish_own: "finish_failed_start H e p w = (r, p', w') \<Longrightarrow> own_events (pi_plugin p) w w' \<and> pi_plugin p' = pi_plugin p \<and> (\<exists>e. r = Inl e)"
  using stop_plugin_events [of H p w]
  by (auto simp: finish_failed_start_def own_events_def split: prod.splits sum.splits)

lemma call_hooks_own: "call_hooks H pl v hs w = (r, w') \<Longrightarrow> own_events pl w w'"
proof (induction hs arbitrary: w)
  case (Cons h hs)
  obtain k phase where h: "h = (k, phase)" by fastforce
  let ?w = "record_event (Called pl k (Some v)) (pass w)"
  have "own_events pl w ?w" using own_record [of "Called pl k (Some v)" pl "pass w"] by simp
  moreover have "own_events pl ?w w'"
    using Cons h by (cases "hook_returns H (tick w)") (auto simp: call_hook_def)
  ultimately show ?case by (rule own_trans)
qed simp

lemma call_hooks_all:
  "call_hooks H pl v hs w = (Inr u, w') \<Longrightarrow> events w' = events w @ map (\<lambda>h. Called pl (fst h) (Some v)) hs"
  by (induction hs arbitrary: w) (auto simp: call_hook_def record_event_def split: sum.splits)

lemma attempt_own:
  assumes "attempt_start H hs p w = (Inl e, p', w')"
  shows "own_events (pi_plugin p) w w' \<and> pi_plugin p' = pi_plugin p"
proof -
  let ?pl = "pi_plugin p" and ?w = "record_event (Attempted (pi_plugin p)) w"
  obtain r1 w1 where s: "run_setup H ?pl (pi_config p) hs ?w = (r1, w1)" by fastforce
  have "own_events ?pl ?w w1"
  proof (cases "start_begun H (tick ?w)")
    case (Inl e)
    then show ?thesis using s by (auto simp: run_setup_def)
  next
    case (Inr u)
    obtain r2 w2 where c: "call_hooks H ?pl (pi_config p) hs (pass ?w) = (r2, w2)" by fastforce
    then show ?thesis using s Inr call_hooks_own [OF c] by (cases r2) (auto simp: run_setup_def)
  qed
  moreover have "own_events ?pl w ?w" by simp
  ultimately have own1: "own_events ?pl w w1" using own_trans by blast
  obtain e1 where "finish_failed_start H (CoreFailure e1) (p\<lparr>start_attempted := True\<rparr>) w1 = (Inl e, p', w')"
    using assms s by (cases r1) (auto simp: attempt_start_def Let_def)
  then have "own_events ?pl w1 w'" "pi_plugin p' = ?pl" using finish_own by fastforce+
  then show ?thesis using own1 own_trans by blast
qed

lemma attempt_all:
  assumes "attempt_start H hs p w = (Inr u, p', w')"
  shows "events w' = events w @ Attempted (pi_plugin p) # map (\<lambda>h. Called (pi_plugin p) (fst h) (Some (pi_config p))) hs
    \<and> p' = p\<lparr>start_attempted := True\<rparr>"
proof -
  let ?pl = "pi_plugin p" and ?w = "record_event (Attempted (pi_plugin p)) w"
  have failed: "finish_failed_start H e q x \<noteq> (Inr u, p', w')" for e q x
    using finish_own by fastforce
  obtain r1 w1 where s: "run_setup H ?pl (pi_config p) hs ?w = (r1, w1)" by fastforce
  then have r1: "r1 = Inr ()" and p': "p' = p\<lparr>start_attempted := True\<rparr>" "w' = w1"
    using assms failed by (cases r1; auto simp: attempt_start_def Let_def)+
  obtain u2 w2 where c: "call_hooks H ?pl (pi_config p) hs (pass ?w) = (Inr u2, w2)" "w1 = pass w2"
    using s r1 by (auto simp: run_setup_def split: sum.splits prod.splits)
  then show ?thesis using call_hooks_all [OF c(1)] p' by (simp add: record_event_def)
qed

lemma after_update_own:
  assumes "start_after_update H show c w = (Inl e, c', w')"
  shows "own_events (pi_plugin c) w w' \<and> pi_plugin c' = pi_plugin c"
proof -
  obtain r1 c1 w1 where w: "wait_for_dependencies H c w = (r1, c1, w1)" by (metis prod_cases3)
  obtain r2 w2 where r: "resolved_config H show c1 w1 = (r2, w2)" by fastforce
  have c1: "pi_plugin c1 = pi_plugin c" and e: "events w1 = events w" "events w2 = events w"
    using wait_inv [OF w] resolved_inv [OF r] by auto
  then have own: "own_events (pi_plugin c) w w1" "own_events (pi_plugin c) w w2" by (simp_all add: own_same)
  have tail: "own_events (pi_plugin c) w w' \<and> pi_plugin c' = pi_plugin c"
    if "attempt_start H hs (c1\<lparr>pi_config := v\<rparr>) w2 = (Inl e, c', w')" for hs v
    using attempt_own [OF that] own(2) c1 own_trans by auto
  show ?thesis
  proof (cases "r1 = Inr () \<and> (\<exists>v. r2 = Inr v)")
    case True
    then obtain v where "r1 = Inr ()" "r2 = Inr v" by blast
    then show ?thesis using assms w r own(2) c1 tail
      by (cases "if pi_configuration c1 = None then Inr () else validate_plugin_config (pi_descriptor c1) v")
        (auto simp: start_after_update_def)
  next
    case False
    then show ?thesis using assms w r own c1
      by (cases r1; cases r2) (auto simp: start_after_update_def)
  qed
qed

lemma after_update_all:
  assumes "start_after_update H show c w = (Inr u, c', w')" and "\<not> stopped c"
  shows "\<exists>v. events w' = events w @ [Attempted (pi_plugin c), Called (pi_plugin c) UpdateHook (Some v),
      Called (pi_plugin c) StartHook (Some v)]
    \<and> pi_plugin c' = pi_plugin c \<and> pi_config c' = v \<and> start_attempted c' \<and> \<not> stopped c'"
proof -
  obtain r1 c1 w1 where w: "wait_for_dependencies H c w = (r1, c1, w1)" by (metis prod_cases3)
  obtain r2 w2 where r: "resolved_config H show c1 w1 = (r2, w2)" by fastforce
  obtain g where c1: "c1 = c\<lparr>pi_gate := g\<rparr>" and e: "events w2 = events w"
    using wait_inv [OF w] resolved_inv [OF r] by auto
  obtain v where a: "attempt_start H [(UpdateHook, UpdatePhase), (StartHook, StartPhase)] (c1\<lparr>pi_config := v\<rparr>) w2 = (Inr u, c', w')"
    using assms(1) w r
    by (auto simp: start_after_update_def split: sum.splits prod.splits if_splits)
  show ?thesis using attempt_all [OF a] c1 e assms(2) by (intro exI [of _ v]) simp
qed

text \<open>The two ends of an update.\<close>

definition transacted :: "plugin_instance \<Rightarrow> plugin_world \<Rightarrow> unit plugin_result \<Rightarrow> bool" where
  "transacted p w result \<longleftrightarrow> (case result of (r, p', w') \<Rightarrow>
    (\<exists>es. events w' = events w @ es \<and>
      (p' = p \<and> (\<exists>e. r = Inl e) \<and> event_plugin ` set es \<subseteq> {plugins_made w}
       \<or> (\<exists>v. pi_plugin p' = plugins_made w \<and> pi_config p' = v \<and> start_attempted p' \<and> \<not> stopped p'
           \<and> es = [Attempted (plugins_made w), Called (plugins_made w) UpdateHook (Some v),
               Called (plugins_made w) StartHook (Some v)]
             @ (if start_attempted p \<and> \<not> stopped p then [Called (pi_plugin p) StopHook None] else [])))))"

lemma failed_transacted: "own_events (plugins_made w) w w' \<Longrightarrow> transacted p w (Inl e, p, w')"
  by (auto simp: transacted_def own_events_def)

lemma discard_own:
  assumes "discard H e c w = (r, w')"
  shows "own_events (pi_plugin c) w w' \<and> (\<exists>e. r = Inl e)"
proof -
  obtain r1 c1 w1 where s: "stop_current H c w = (r1, c1, w1)" by (metis prod_cases3)
  show ?thesis using stop_own [OF s] assms s by (cases r1) (auto simp: discard_def)
qed

lemma install_transacted:
  assumes "pi_plugin c = plugins_made w" and "\<not> stopped c" and "events w1 = events w"
  shows "transacted p w (install_candidate H show p c w1)"
proof -
  obtain r2 c2 w2 where a: "start_after_update H show c w1 = (r2, c2, w2)" by (metis prod_cases3)
  have thrown: "transacted p w (case discard H e c2 w3 of (r, w') \<Rightarrow> (r, p, w'))"
    if "own_events (plugins_made w) w w3" "pi_plugin c2 = plugins_made w" for e w3
  proof -
    obtain r w' where d: "discard H e c2 w3 = (r, w')" by fastforce
    from discard_own [OF d] that(2) obtain e' where r: "r = Inl e'" and "own_events (plugins_made w) w3 w'" by auto
    then have "own_events (plugins_made w) w w'" using own_trans [OF that(1)] by blast
    then show ?thesis using d r failed_transacted by simp
  qed
  show ?thesis
  proof (cases r2)
    case (Inl e)
    have "own_events (plugins_made w) w w2" "pi_plugin c2 = plugins_made w"
      using after_update_own [OF a [unfolded Inl]] assms own_trans [OF own_same [OF assms(3)]] by auto
    then show ?thesis using a Inl thrown by (simp add: install_candidate_def)
  next
    case (Inr u)
    from after_update_all [OF a [unfolded Inr] assms(2)] obtain v where
      v: "events w2 = events w @ [Attempted (plugins_made w), Called (plugins_made w) UpdateHook (Some v),
          Called (plugins_made w) StartHook (Some v)]"
        "pi_plugin c2 = plugins_made w" "pi_config c2 = v" "start_attempted c2" "\<not> stopped c2"
      using assms by auto
    show ?thesis
    proof (cases "staged_committed H (tick w2)")
      case (Inl e)
      have "own_events (plugins_made w) w (pass w2)" using v(1) by (simp add: own_events_def)
      then show ?thesis using a Inr Inl thrown v(2) by (simp add: install_candidate_def)
    next
      case commit: (Inr u2)
      obtain r3 q w3 where s: "stop_current H p (pass w2) = (r3, q, w3)" by (metis prod_cases3)
      have "install_candidate H show p c w1 = (r3, c2, w3)"
        using a Inr commit s by (simp add: install_candidate_def)
      moreover have "events w3 = events w2 @ (if start_attempted p \<and> \<not> stopped p then [Called (pi_plugin p) StopHook None] else [])"
        using stop_current_events [OF s] by simp
      ultimately show ?thesis using v by (simp add: transacted_def)
    qed
  qed
qed

lemma update_transacted: "transacted p w (update_plugin H show v p w)"
proof -
  have quiet: "transacted p w (Inl e, p, w')" if "events w' = events w" for e w'
    using that by (intro failed_transacted own_same)
  show ?thesis
  proof (cases "instantiate_plugin H v (pass w)")
    case (Pair r1 w1)
    have "transacted p w (case (r1, w1) of (Inl e, w) \<Rightarrow> (Inl e, p, w)
      | (Inr c, w) \<Rightarrow> install_candidate H show p (inherit_configuration (pi_configuration p) c) w)"
    proof (cases r1)
      case (Inl e)
      then show ?thesis using quiet instantiate_failed [OF Pair [unfolded Inl]] by simp
    next
      case (Inr c)
      then show ?thesis
        using install_transacted [of "inherit_configuration (pi_configuration p) c" w w1]
          instantiate_inv [OF Pair [unfolded Inr]] by simp
    qed
    then show ?thesis using quiet Pair by (auto simp: update_plugin_def split: sum.splits)
  qed
qed

subsection \<open>Properties\<close>

text \<open>C25: Whatever the host answers, in every run of starts, updates, suspensions and disposals a plugin's
  hooks are called only after an attempt to start it that no stop has followed, so that a plugin is
  stopped at most once per attempt; and between the operations the only plugin whose attempt was not
  followed by a stop is the one of the instance: every candidate that failed and every plugin that was
  replaced has been stopped.\<close>

theorem plugin_stops_match:
  assumes "plugin_reach H show (p, w)"
  shows "orderly pl False (events w)
    \<and> (open_after pl False (events w) \<longleftrightarrow> pl = pi_plugin p \<and> start_attempted p \<and> \<not> stopped p)"
  using plugin.inv_reach [OF assms] by (auto simp: plugin_inv_def log_inv_def running_plugin_def)

text \<open>C24: Every configuration that a start or an update hook is given conforms to the schema of the plugin,
  however it was computed: from a plain value, or from service expressions evaluated at that moment.\<close>

theorem plugin_hooks_typed:
  assumes "plugin_reach H show (p, w)" and "Called pl h (Some v) \<in> set (events w)"
  shows "conforms (d_schema (descriptor_of H pl)) v"
  using plugin.inv_reach [OF assms(1)] assms(2) by (force simp: plugin_inv_def log_inv_def)

text \<open>C26: An update is transactional. Either it fails and keeps the instance as it is, having called hooks of
  the candidate only; or the candidate's update and start hooks were both called, with one configuration,
  before the instance becomes the candidate, and the replaced plugin was stopped after them. docs/NATIVE_API.md
  has another order: it says that an update stops the plugin, then calls its hooks.\<close>

theorem update_transaction: "transacted p w (update_plugin H show v p w)"
  by (rule update_transacted)

subsection \<open>Sample runs\<close>

definition sample_host :: plugin_host where
  "sample_host = \<lparr>descriptor_of = (\<lambda>pl. \<lparr>d_name = ''p'', d_version = ''1'', d_dependencies = [], d_schema = BooleanSchema\<rparr>),
     fiber_made = (\<lambda>t. Inr ()), fiber_at = (\<lambda>t f. if t \<le> 1 then Pending else Active), gate_made = (\<lambda>t. Inr ()),
     gate_waited = (\<lambda>t. Inr ()), service_at = (\<lambda>t k. Inr None), start_begun = (\<lambda>t. Inr ()),
     hook_returns = (\<lambda>t. Inr ()), start_completed = (\<lambda>t. Inr ()), rolled_back = (\<lambda>t. Inr ()),
     fiber_ended = (\<lambda>t. Inr ()), staged_committed = (\<lambda>t. Inr ())\<rparr>"

definition sample_made :: "plugin_instance \<times> plugin_world" where
  "sample_made = (case instantiate_plugin sample_host (JBool True) plugin_world_new of
     (Inr p, w) \<Rightarrow> (p, w) | (Inl e, w) \<Rightarrow> undefined)"

definition sample_ran :: "plugin_op list \<Rightarrow> (plugin_instance \<times> plugin_world) option" where
  "sample_ran ops = exec_run (lawful_exec sample_host (\<lambda>e. [])) ops sample_made"

lemma sample_made_init: "plugin_init sample_host (\<lambda>e. []) sample_made"
proof -
  have "case instantiate_plugin sample_host (JBool True) plugin_world_new of (Inr p, w) \<Rightarrow> True | (Inl e, w) \<Rightarrow> False"
    by code_simp
  then show ?thesis by (auto simp: plugin_init_def sample_made_def split: prod.splits sum.splits)
qed

lemma sample_ran_reach: "sample_ran ops = Some s \<Longrightarrow> plugin_reach sample_host (\<lambda>e. []) s"
  unfolding sample_ran_def by (erule exec_run_reach) (rule sample_made_init)

text \<open>A start and an update: the second plugin runs, the first has been stopped.\<close>

lemma sample_updated: "case sample_ran [StartOp, UpdateOp (JBool False)] of
    Some (p, w) \<Rightarrow> pi_plugin p = 1 \<and> start_attempted p \<and> \<not> stopped p
      \<and> Called 1 UpdateHook (Some (JBool False)) \<in> set (events w) \<and> Called 0 StopHook None \<in> set (events w)
  | None \<Rightarrow> False"
  by code_simp

theorem plugin_stops_match_witness:
  "\<exists>p w. plugin_reach sample_host (\<lambda>e. []) (p, w) \<and> open_after 1 False (events w) \<and> orderly 0 False (events w)"
proof -
  obtain p w where r: "sample_ran [StartOp, UpdateOp (JBool False)] = Some (p, w)"
    and f: "pi_plugin p = 1" "start_attempted p" "\<not> stopped p"
    using sample_updated by (auto split: option.splits)
  note run = sample_ran_reach [OF r]
  show ?thesis using run plugin_stops_match [OF run, of 1] plugin_stops_match [OF run, of 0] f by auto
qed

theorem plugin_hooks_typed_witness:
  "\<exists>p w. plugin_reach sample_host (\<lambda>e. []) (p, w)
    \<and> conforms (d_schema (descriptor_of sample_host 1)) (JBool False)"
proof -
  obtain p w where r: "sample_ran [StartOp, UpdateOp (JBool False)] = Some (p, w)"
    and f: "Called 1 UpdateHook (Some (JBool False)) \<in> set (events w)"
    using sample_updated by (auto split: option.splits)
  note run = sample_ran_reach [OF r]
  show ?thesis using run plugin_hooks_typed [OF run f] by blast
qed

end
