(* ===== verification/Gate.thy ===== *)
theory Gate
  imports Errors
begin

section \<open>The gate of dependencies (native.rs)\<close>

text \<open>
  \<open>DependencyGate\<close>: a start waits until the dependencies are ready or the token is cancelled. The
  machine has one step per lock section of a poll, of the listener and of the cancellation, so that
  every interleaving is a run; \<open>notified\<close> says that the waiting task has been woken since its last
  poll began, \<open>taking\<close> that a cancellation has set the flag and not yet taken the waiters.
\<close>

datatype gate_at =
    WaitBegins
  | WaitReady
  | WaitAgain
  | Polling
  | TokenChecked
  | WakerStored
  | Parked
  | Resolved "core_error + unit"

record gate =
  gate_ready :: bool
  gate_waker :: bool
  cancelled :: bool
  taking :: bool
  registered :: bool
  notified :: bool
  gate_at :: gate_at

text \<open>\<open>DependencyGate::new\<close>; without dependencies there is no subscription.\<close>

definition gate_new :: "bool \<Rightarrow> gate" where
  "gate_new none = \<lparr>gate_ready = none, gate_waker = False, cancelled = False, taking = False,
     registered = False, notified = False, gate_at = WaitBegins\<rparr>"

definition gate_result :: "core_error + unit \<Rightarrow> gate \<Rightarrow> gate option" where
  "gate_result r g = Some (g\<lparr>gate_at := Resolved r\<rparr>)"

datatype gate_step = Listen bool | CancelFlag | TakeTokenWaiters | CheckCancelled | ReadSubscription bool
  | CheckAgain | PollToken | PollSignal | PollTokenAgain

fun gate_exec :: "gate_step \<Rightarrow> gate \<Rightarrow> gate option" where
  "gate_exec (Listen b) g = Some (g\<lparr>gate_ready := b, gate_waker := False, notified := notified g \<or> gate_waker g\<rparr>)"
| "gate_exec CancelFlag g = (if cancelled g then None else Some (g\<lparr>cancelled := True, taking := True\<rparr>))"
| "gate_exec TakeTokenWaiters g =
    (if taking g then Some (g\<lparr>taking := False, registered := False, notified := notified g \<or> registered g\<rparr>) else None)"
| "gate_exec CheckCancelled g =
    (if gate_at g \<noteq> WaitBegins then None
     else if cancelled g then gate_result (Inl Cancelled) g else Some (g\<lparr>gate_at := WaitReady\<rparr>))"
| "gate_exec (ReadSubscription b) g =
    (if gate_at g \<noteq> WaitReady then None
     else Some (g\<lparr>gate_at := (if b then WaitAgain else Polling)\<rparr>))"
| "gate_exec CheckAgain g =
    (if gate_at g \<noteq> WaitAgain then None
     else if cancelled g then gate_result (Inl Cancelled) g else gate_result (Inr ()) g)"
| "gate_exec PollToken g =
    (if gate_at g = Polling \<or> gate_at g = Parked
     then (if cancelled g then gate_result (Inl Cancelled) g
           else Some (g\<lparr>registered := True, notified := False, gate_at := TokenChecked\<rparr>))
     else None)"
| "gate_exec PollSignal g =
    (if gate_at g \<noteq> TokenChecked then None
     else if gate_ready g then gate_result (Inr ()) g
     else Some (g\<lparr>gate_waker := True, gate_at := WakerStored\<rparr>))"
| "gate_exec PollTokenAgain g =
    (if gate_at g \<noteq> WakerStored then None
     else if cancelled g then gate_result (Inl Cancelled) g
     else Some (g\<lparr>registered := True, gate_at := Parked\<rparr>))"

definition gate_start :: "gate \<Rightarrow> bool" where
  "gate_start g \<longleftrightarrow> (\<exists>none. g = gate_new none)"

text \<open>What the position of the wait says of its registrations.\<close>

fun waits_ok :: "gate_at \<Rightarrow> bool \<Rightarrow> bool \<Rightarrow> bool \<Rightarrow> bool \<Rightarrow> bool" where
  "waits_ok TokenChecked reg wak c n = (reg \<or> n)"
| "waits_ok WakerStored reg wak c n = (reg \<and> wak \<or> n)"
| "waits_ok Parked reg wak c n = (reg \<and> wak \<or> n)"
| "waits_ok (Resolved (Inl e)) reg wak c n = (e = Cancelled \<and> c)"
| "waits_ok _ reg wak c n = True"

definition gate_inv :: "gate \<Rightarrow> bool" where
  "gate_inv g \<longleftrightarrow> (cancelled g \<and> \<not> taking g \<longrightarrow> \<not> registered g) \<and> (taking g \<longrightarrow> cancelled g)
    \<and> (gate_waker g \<longrightarrow> \<not> gate_ready g)
    \<and> waits_ok (gate_at g) (registered g) (gate_waker g) (cancelled g) (notified g)"

lemma waits_ok_notified: "waits_ok p reg wak c n \<Longrightarrow> waits_ok p False False c (n \<or> reg \<or> wak)"
  by (cases "(p, reg, wak, c, n)" rule: waits_ok.cases) auto

lemma waits_ok_mono:
  "waits_ok p reg wak c n \<Longrightarrow> (reg \<longrightarrow> reg') \<Longrightarrow> (wak \<longrightarrow> wak' \<or> n') \<Longrightarrow> (c \<longrightarrow> c') \<Longrightarrow> (n \<longrightarrow> n') \<Longrightarrow>
    waits_ok p reg' wak' c' n'"
  by (cases "(p, reg, wak, c, n)" rule: waits_ok.cases) auto

lemma waits_ok_taken: "waits_ok p reg wak c n \<Longrightarrow> waits_ok p False wak c (n \<or> reg)"
  by (cases "(p, reg, wak, c, n)" rule: waits_ok.cases) auto

lemma gate_inv_step: "gate_inv g \<Longrightarrow> gate_exec l g = Some g' \<Longrightarrow> gate_inv g'"
proof (cases l)
  case (Listen b)
  assume "gate_inv g" "gate_exec l g = Some g'"
  then show ?thesis using Listen by (auto simp: gate_inv_def elim: waits_ok_mono)
next
  case CancelFlag
  assume "gate_inv g" "gate_exec l g = Some g'"
  then show ?thesis using CancelFlag by (auto simp: gate_inv_def elim: waits_ok_mono split: if_splits)
next
  case TakeTokenWaiters
  assume "gate_inv g" "gate_exec l g = Some g'"
  then show ?thesis using TakeTokenWaiters waits_ok_taken by (auto simp: gate_inv_def split: if_splits)
qed (auto simp: gate_inv_def gate_result_def split: if_splits)

interpretation gate: transition_invariant gate_start "exec_rel gate_exec" gate_inv
proof
  show "gate_inv g" if "gate_start g" for g
    using that by (auto simp: gate_start_def gate_new_def gate_inv_def)
  show "gate_inv g'" if "gate_inv g" "exec_rel gate_exec g l g'" for g l g'
    using that gate_inv_step by (simp add: exec_rel_def)
qed

text \<open>C27: The wait of a start for its dependencies misses neither the dependencies nor the cancellation: a
  wait that is parked, was not woken since and has no cancellation in the middle of its wake-ups is one
  whose dependencies are not ready and whose token is not cancelled; and it fails only when cancelled.\<close>

theorem gate_misses_nothing:
  assumes "reach gate_start (exec_rel gate_exec) g"
  shows "(case gate_at g of
      Parked \<Rightarrow> notified g \<or> taking g \<or> \<not> gate_ready g \<and> \<not> cancelled g
    | Resolved (Inl e) \<Rightarrow> e = Cancelled \<and> cancelled g
    | _ \<Rightarrow> True)"
  using gate.inv_reach [OF assms] by (cases "gate_at g") (auto simp: gate_inv_def split: sum.splits)

definition sample_wait :: "gate_step list" where
  "sample_wait = [CheckCancelled, ReadSubscription False, PollToken, PollSignal, Listen True, PollTokenAgain]"

theorem gate_misses_nothing_witness:
  "\<exists>g. exec_run gate_exec sample_wait (gate_new False) = Some g \<and> gate_at g = Parked \<and> notified g"
proof -
  have "case exec_run gate_exec sample_wait (gate_new False) of
      Some g \<Rightarrow> gate_at g = Parked \<and> gate_ready g \<and> \<not> taking g | None \<Rightarrow> False"
    by code_simp
  then obtain g where g: "exec_run gate_exec sample_wait (gate_new False) = Some g"
    and f: "gate_at g = Parked" "gate_ready g" "\<not> taking g"
    by (auto split: option.splits)
  have "reach gate_start (exec_rel gate_exec) g"
    by (rule exec_run_reach [OF g]) (auto simp: gate_start_def)
  from gate_misses_nothing [OF this] show ?thesis using g f by auto
qed

end
