(* ===== verification/Managed.thy ===== *)
theory Managed
  imports NativeConfig Loader
begin

section \<open>The worker of a native plugin (native.rs)\<close>

text \<open>
  \<open>ManagedControl\<close> with \<open>run_managed_native\<close> and \<open>NativeRuntimeHandle\<close>: the worker thread that
  starts, updates and suspends one plugin as its dependencies come and go, shared with the
  loader that activates and disposes it and with the listener of its subscription. A step is one
  lock section of the control or one operation of the instance, whose result is an input. A
  fiber and its cancellation token are a number, a waker is one too.
\<close>

subsection \<open>State\<close>

datatype managed_phase = ManagedPending | ManagedStarting | ManagedActive | ManagedFailed

type_synonym generations = "generation option list"

text \<open>Where the worker is: before its loop, in \<open>next_snapshot\<close>, deciding, in an operation, at the match on
  the fiber's state, at its end.\<close>

datatype worker =
    BuildingRuntime
  | Subscribing
  | NextSnapshot
  | Deciding dependency_snapshot
  | Suspending dependency_snapshot
  | Dispatching dependency_snapshot
  | StartingPlugin generations
  | UpdatingPlugin generations
  | DisposingPlugin
  | Ended "native_error + unit"

text \<open>
  \<open>ManagedState\<close>, the worker's locals and its instance. \<open>running\<close> are the generations the plugin
  was started or updated with, \<open>processed\<close> is the snapshot the worker took last; \<open>cancelling\<close> are
  the tokens that a \<open>stop\<close> returned and its caller is about to cancel, \<open>cancelled\<close> those that a stop or
  the scope above has cancelled. \<open>candidate\<close> is the fiber that an update in progress has created for the
  replacement, in which its hooks run. \<open>swap_failed\<close> says that an update has failed after it had replaced
  the instance, \<open>outer_disposed\<close> that the scope above the plugin's has been disposed, which takes its
  fibers with it (\<open>Disposed\<close> stands for \<open>Unloading\<close> too).
\<close>

record managed =
  dependencies :: "dependency list"
  activated :: bool
  initialized :: bool
  stopping :: bool
  dirty :: bool
  snapshot :: dependency_snapshot
  phase :: managed_phase
  failure :: "native_error option"
  cancellation :: "nat option"
  waker :: "nat option"
  worker :: worker
  active_generations :: "generations option"
  fiber :: nat
  fiber_is :: fiber_state
  candidate :: "nat option"
  next_fiber :: nat
  cancelled :: "nat list"
  cancelling :: "nat list"
  woken :: "nat list"
  running :: generations
  processed :: dependency_snapshot
  swap_failed :: bool
  outer_disposed :: bool

definition managed_new :: "dependency list \<Rightarrow> managed" where
  "managed_new deps =
    (let none = \<lparr>ds_ready = list_all (\<lambda>d. \<not> is_required d) deps, ds_services = []\<rparr> in
     \<lparr>dependencies = deps, activated = False, initialized = False, stopping = False, dirty = False,
       snapshot = none, phase = ManagedPending, failure = None, cancellation = Some 0, waker = None,
       worker = BuildingRuntime, active_generations = None, fiber = 0, fiber_is = Pending,
       candidate = None, next_fiber = 1, cancelled = [], cancelling = [], woken = [], running = [], processed = none,
       swap_failed = False, outer_disposed = False\<rparr>)"

subsection \<open>The control\<close>

text \<open>\<open>waker.take()\<close> in the lock section, and \<open>wake\<close> after it.\<close>

definition wake_waker :: "managed \<Rightarrow> managed" where
  "wake_waker m = m\<lparr>woken := woken m @ (case waker m of Some w \<Rightarrow> [w] | None \<Rightarrow> []), waker := None\<rparr>"

definition set_snapshot :: "dependency_snapshot \<Rightarrow> managed \<Rightarrow> managed" where
  "set_snapshot snap m = wake_waker (m\<lparr>snapshot := snap, dirty := True\<rparr>)"

definition set_cancellation :: "nat \<Rightarrow> managed \<Rightarrow> managed" where
  "set_cancellation token m =
    (if stopping m then m\<lparr>cancelled := token # cancelled m\<rparr> else m\<lparr>cancellation := Some token\<rparr>)"

definition request_activation :: "managed \<Rightarrow> managed" where
  "request_activation m =
    wake_waker (if \<not> activated m then m\<lparr>activated := True, dirty := True\<rparr> else m)"

definition set_initialized :: "managed \<Rightarrow> managed" where
  "set_initialized m = wake_waker (m\<lparr>initialized := True\<rparr>)"

definition set_phase :: "managed_phase \<Rightarrow> native_error option \<Rightarrow> managed \<Rightarrow> managed" where
  "set_phase p e m = wake_waker (m\<lparr>phase := p, failure := e\<rparr>)"

text \<open>\<open>next_snapshot\<close>, which waits as long as there is neither a stop nor new work.\<close>

definition next_snapshot :: "managed \<Rightarrow> managed option" where
  "next_snapshot m =
    (if \<not> stopping m \<and> (\<not> activated m \<or> \<not> dirty m) then None
     else if stopping m then Some (m\<lparr>dirty := False, worker := DisposingPlugin\<rparr>)
     else Some (m\<lparr>dirty := False, phase := ManagedStarting, worker := Deciding (snapshot m),
       processed := snapshot m\<rparr>))"

text \<open>What a poll of \<open>activation\<close> returns; a failed control without its error is the panic of \<open>expect\<close>.\<close>

definition activation_poll :: "managed \<Rightarrow> (loader_error + activation_state) option" where
  "activation_poll m =
    (if stopping m then Some (Inl (ValidationError (msg ''native runtime has stopped'')))
     else if phase m = ManagedActive \<and> \<not> dirty m \<and> ds_ready (snapshot m) then Some (Inr RtActive)
     else if phase m = ManagedFailed \<and> (\<not> dirty m \<or> \<not> initialized m)
     then Some (Inl (ValidationError (native_error_display (the (failure m)))))
     else if phase m = ManagedPending \<and> \<not> dirty m \<and> initialized m \<and> \<not> ds_ready (snapshot m)
     then Some (Inr RtPending)
     else None)"

definition poll_activation :: "nat \<Rightarrow> managed \<Rightarrow> managed" where
  "poll_activation w m = (case activation_poll m of Some r \<Rightarrow> m | None \<Rightarrow> m\<lparr>waker := Some w\<rparr>)"

definition stop_managed :: "managed \<Rightarrow> managed" where
  "stop_managed m =
    (wake_waker (m\<lparr>stopping := True, dirty := True\<rparr>))
      \<lparr>cancelling := (case cancellation m of Some t \<Rightarrow> [t] | None \<Rightarrow> []) @ cancelling m\<rparr>"

subsection \<open>The worker\<close>

definition required_generations :: "dependency_snapshot \<Rightarrow> dependency list \<Rightarrow> generations" where
  "required_generations snap deps =
    map (\<lambda>(d, s). ss_generation s) (filter (\<lambda>(d, s). is_required d) (zip deps (ds_services snap)))"

definition fail_with :: "native_error \<Rightarrow> managed \<Rightarrow> managed" where
  "fail_with e m = (set_phase ManagedFailed (Some e) m)\<lparr>worker := NextSnapshot\<rparr>"

text \<open>A fiber of its own for the instance, in the given state unless the scope above is gone.\<close>

definition becomes :: "fiber_state \<Rightarrow> managed \<Rightarrow> fiber_state" where
  "becomes st m = (if outer_disposed m then Disposed else st)"

definition fresh_fiber :: "fiber_state \<Rightarrow> managed \<Rightarrow> managed" where
  "fresh_fiber st m = m\<lparr>fiber := next_fiber m, fiber_is := becomes st m, next_fiber := Suc (next_fiber m)\<rparr>"

text \<open>\<open>update\<close> creates the candidate before it waits and calls the hooks, and installs it at its end.\<close>

definition new_candidate :: "managed \<Rightarrow> managed" where
  "new_candidate m = m\<lparr>candidate := Some (next_fiber m), next_fiber := Suc (next_fiber m)\<rparr>"

definition swap_in :: "nat \<Rightarrow> managed \<Rightarrow> managed" where
  "swap_in k m = m\<lparr>fiber := k, fiber_is := becomes Active m, candidate := None\<rparr>"

definition publish_token :: "managed \<Rightarrow> managed" where
  "publish_token m = set_cancellation (fiber m) m"

definition now_pending :: "managed \<Rightarrow> managed" where
  "now_pending m = (set_phase ManagedPending None (m\<lparr>active_generations := None\<rparr>))\<lparr>worker := NextSnapshot\<rparr>"

definition now_active :: "generations \<Rightarrow> managed \<Rightarrow> managed" where
  "now_active gs m =
    (set_phase ManagedActive None (m\<lparr>active_generations := Some gs, running := gs\<rparr>))\<lparr>worker := NextSnapshot\<rparr>"

definition dispatch_state :: "dependency_snapshot \<Rightarrow> managed \<Rightarrow> managed" where
  "dispatch_state snap m =
    (let gs = required_generations snap (dependencies m) in
     if fiber_is m = Pending then (set_phase ManagedStarting None m)\<lparr>worker := StartingPlugin gs\<rparr>
     else if fiber_is m \<noteq> Active then fail_with (native_invalid_state ''restart native plugin'' (fiber_is m)) m
     else if active_generations m \<noteq> Some gs
     then (set_phase ManagedStarting None m)\<lparr>worker := UpdatingPlugin gs\<rparr>
     else (set_phase ManagedActive None m)\<lparr>worker := NextSnapshot\<rparr>)"

definition decide :: "dependency_snapshot \<Rightarrow> managed \<Rightarrow> managed" where
  "decide snap m =
    (if \<not> ds_ready snap
     then (if fiber_is m \<noteq> Pending then m\<lparr>worker := Suspending snap\<rparr> else now_pending m)
     else if fiber_is m \<noteq> Pending \<and> fiber_is m \<noteq> Active then m\<lparr>worker := Suspending snap\<rparr>
     else dispatch_state snap m)"

text \<open>
  The results of operations: done, failed, failed with the fiber left in a state, and an update
  whose stop of the replaced instance failed.
\<close>

datatype work_input = Proceed | Done | FailedWith native_error | LeftIn fiber_state native_error | SwappedThen native_error

fun work :: "work_input \<Rightarrow> worker \<Rightarrow> managed \<Rightarrow> managed option" where
  "work Done BuildingRuntime m = Some (m\<lparr>worker := Subscribing\<rparr>)"
| "work (FailedWith e) BuildingRuntime m =
    Some ((set_phase ManagedFailed (Some e) m)\<lparr>worker := Ended (Inl e)\<rparr>)"
| "work Done Subscribing m = Some ((set_initialized m)\<lparr>worker := NextSnapshot\<rparr>)"
| "work (FailedWith e) Subscribing m =
    Some ((set_phase ManagedFailed (Some e) m)\<lparr>worker := Ended (Inl e)\<rparr>)"
| "work Proceed NextSnapshot m = next_snapshot m"
| "work Proceed (Deciding snap) m = Some (decide snap m)"
| "work Proceed (Dispatching snap) m = Some (dispatch_state snap m)"
| "work Done (Suspending snap) m =
    (let m' = publish_token (fresh_fiber Pending m) in
     Some (if ds_ready snap then m'\<lparr>worker := Dispatching snap\<rparr> else now_pending m'))"
| "work (FailedWith e) (Suspending snap) m = Some (fail_with e (m\<lparr>fiber_is := Disposed\<rparr>))"
| "work Done (StartingPlugin gs) m = Some (now_active gs (m\<lparr>fiber_is := becomes Active m\<rparr>))"
| "work (LeftIn st e) (StartingPlugin gs) m =
    (if st = Active then None else Some (fail_with e (m\<lparr>fiber_is := becomes st m\<rparr>)))"
| "work Proceed (UpdatingPlugin gs) m =
    (if candidate m \<noteq> None \<or> outer_disposed m then None else Some (new_candidate m))"
| "work Done (UpdatingPlugin gs) m =
    (case candidate m of None \<Rightarrow> None | Some k \<Rightarrow> Some (now_active gs (publish_token (swap_in k m))))"
| "work (FailedWith e) (UpdatingPlugin gs) m = Some (fail_with e (m\<lparr>candidate := None\<rparr>))"
| "work (SwappedThen e) (UpdatingPlugin gs) m =
    (case candidate m of
       None \<Rightarrow> None
     | Some k \<Rightarrow> Some (fail_with e ((swap_in k m)\<lparr>running := gs, swap_failed := True\<rparr>)))"
| "work Done DisposingPlugin m = Some (m\<lparr>fiber_is := Disposed, worker := Ended (Inr ())\<rparr>)"
| "work (FailedWith e) DisposingPlugin m = Some (m\<lparr>fiber_is := Disposed, worker := Ended (Inl e)\<rparr>)"
| "work _ _ m = None"

subsection \<open>The machine\<close>

datatype managed_label =
    Notify dependency_snapshot
  | RequestActivation
  | PollActivation nat
  | StopManaged
  | CancelToken
  | OuterDispose
  | Work work_input

text \<open>The listener exists from the moment the watcher subscribes.\<close>

fun managed_exec :: "managed_label \<Rightarrow> managed \<Rightarrow> managed option" where
  "managed_exec (Notify snap) m = (if worker m = BuildingRuntime then None else Some (set_snapshot snap m))"
| "managed_exec RequestActivation m = Some (request_activation m)"
| "managed_exec (PollActivation w) m = Some (poll_activation w m)"
| "managed_exec StopManaged m = Some (stop_managed m)"
| "managed_exec CancelToken m =
    (case cancelling m of
       [] \<Rightarrow> None
     | t # ts \<Rightarrow> Some (m\<lparr>cancelling := ts, cancelled := t # cancelled m\<rparr>))"
| "managed_exec OuterDispose m =
    Some (m\<lparr>fiber_is := Disposed, outer_disposed := True,
      cancelled := fiber m # (case candidate m of Some k \<Rightarrow> [k] | None \<Rightarrow> []) @ cancelled m\<rparr>)"
| "managed_exec (Work i) m = work i (worker m) m"

abbreviation managed_reach :: "dependency list \<Rightarrow> managed \<Rightarrow> bool" where
  "managed_reach deps \<equiv> reach (\<lambda>m. m = managed_new deps) (exec_rel managed_exec)"

end
