(* ===== verification/ManagedProps.thy ===== *)
theory ManagedProps
  imports Managed
begin

section \<open>The worker of a native plugin: properties\<close>

text \<open>
  What an activation reports is true at that moment, no poll is left without a wake-up, and a
  stop cancels the operation the worker waits in; an update whose stop fails after the swap is the
  exception, with a run that shows it.
\<close>

definition current :: "managed \<Rightarrow> generations" where
  "current m = required_generations (processed m) (dependencies m)"

definition worker_inv :: "managed \<Rightarrow> bool" where
  "worker_inv m \<longleftrightarrow> (case worker m of
     BuildingRuntime \<Rightarrow> phase m = ManagedPending \<and> \<not> initialized m
   | Subscribing \<Rightarrow> phase m = ManagedPending \<and> \<not> initialized m
   | NextSnapshot \<Rightarrow> phase m \<noteq> ManagedStarting
       \<and> (phase m = ManagedActive \<longrightarrow> (fiber_is m = Active \<or> outer_disposed m) \<and> active_generations m = Some (current m)
           \<and> (\<not> dirty m \<longrightarrow> snapshot m = processed m))
   | Deciding snap \<Rightarrow> phase m = ManagedStarting \<and> snap = processed m
   | Suspending snap \<Rightarrow> phase m = ManagedStarting \<and> snap = processed m
   | Dispatching snap \<Rightarrow> phase m = ManagedStarting \<and> snap = processed m
   | StartingPlugin gs \<Rightarrow> phase m = ManagedStarting \<and> gs = current m
   | UpdatingPlugin gs \<Rightarrow> phase m = ManagedStarting \<and> gs = current m
   | DisposingPlugin \<Rightarrow> stopping m
   | Ended r \<Rightarrow> stopping m \<or> phase m = ManagedFailed)"

fun ended :: "worker \<Rightarrow> bool" where
  "ended DisposingPlugin = True"
| "ended (Ended r) = True"
| "ended w = False"

definition core_inv :: "managed \<Rightarrow> bool" where
  "core_inv m \<longleftrightarrow> worker_inv m
    \<and> (phase m = ManagedStarting \<and> \<not> dirty m \<longrightarrow> stopping m \<or> snapshot m = processed m)
    \<and> (phase m = ManagedPending \<longrightarrow> stopping m \<or> fiber_is m = Pending \<or> outer_disposed m)
    \<and> (phase m = ManagedFailed \<longrightarrow> failure m \<noteq> None)
    \<and> (\<not> swap_failed m \<longrightarrow> (fiber_is m = Active \<longrightarrow> active_generations m = Some (running m))
        \<and> (cancellation m = Some (fiber m) \<or> fiber m \<in> set (cancelled m)))
    \<and> (outer_disposed m \<longrightarrow> fiber_is m = Disposed)
    \<and> (stopping m \<longrightarrow> dirty m \<or> ended (worker m))
    \<and> (stopping m \<longrightarrow> (\<forall>t. cancellation m = Some t \<longrightarrow> t \<in> set (cancelled m) \<or> t \<in> set (cancelling m)))"

definition managed_inv :: "managed \<Rightarrow> bool" where
  "managed_inv m \<longleftrightarrow> core_inv m \<and> (waker m \<noteq> None \<longrightarrow> activation_poll m = None)"

text \<open>Taking the waker concerns nothing but the waker.\<close>

lemma wake_fields [simp]:
  "dependencies (wake_waker m) = dependencies m" "activated (wake_waker m) = activated m" "initialized (wake_waker m) = initialized m"
  "stopping (wake_waker m) = stopping m" "dirty (wake_waker m) = dirty m" "snapshot (wake_waker m) = snapshot m"
  "phase (wake_waker m) = phase m" "failure (wake_waker m) = failure m" "cancellation (wake_waker m) = cancellation m"
  "worker (wake_waker m) = worker m" "active_generations (wake_waker m) = active_generations m" "fiber (wake_waker m) = fiber m"
  "fiber_is (wake_waker m) = fiber_is m" "candidate (wake_waker m) = candidate m" "next_fiber (wake_waker m) = next_fiber m" "cancelled (wake_waker m) = cancelled m"
  "cancelling (wake_waker m) = cancelling m" "running (wake_waker m) = running m" "processed (wake_waker m) = processed m"
  "swap_failed (wake_waker m) = swap_failed m" "outer_disposed (wake_waker m) = outer_disposed m"
  "waker (wake_waker m) = None"
  by (simp_all add: wake_waker_def)

lemma wake_current [simp]: "current (wake_waker m) = current m"
  by (simp add: current_def)

lemma managed_inv_waked: "waker m = None \<Longrightarrow> core_inv m \<Longrightarrow> managed_inv m"
  by (simp add: managed_inv_def)

lemma core_wake [simp]: "core_inv (wake_waker m) = core_inv m"
  by (cases "worker m") (simp_all add: core_inv_def worker_inv_def)

lemmas core_defs = core_inv_def worker_inv_def current_def

lemma core_waker [simp]: "core_inv (m\<lparr>waker := x\<rparr>) = core_inv m"
  by (cases "worker m") (simp_all add: core_defs)

lemma poll_fields [simp]:
  "activation_poll (m\<lparr>waker := x\<rparr>) = activation_poll m"
  "activation_poll (m\<lparr>cancelling := ts, cancelled := us\<rparr>) = activation_poll m"
  "activation_poll (m\<lparr>worker := w\<rparr>) = activation_poll m"
  "activation_poll (m\<lparr>fiber_is := st, outer_disposed := b, cancelled := us\<rparr>) = activation_poll m"
  "activation_poll (m\<lparr>candidate := k, next_fiber := i\<rparr>) = activation_poll m"
  by (auto simp: activation_poll_def)

lemma managed_inv_new: "managed_inv (managed_new deps)"
  by (simp add: managed_inv_def core_defs managed_new_def Let_def)

lemma managed_core: "managed_inv m \<Longrightarrow> core_inv m"
  by (simp add: managed_inv_def)

lemma notify_inv: "managed_inv m \<Longrightarrow> worker m \<noteq> BuildingRuntime \<Longrightarrow> managed_inv (set_snapshot snap m)"
  by (cases "worker m") (simp_all add: managed_inv_def set_snapshot_def core_defs)

lemma request_inv: "managed_inv m \<Longrightarrow> managed_inv (request_activation m)"
  by (cases "worker m") (simp_all add: managed_inv_def request_activation_def core_defs)

lemma poll_inv: "managed_inv m \<Longrightarrow> managed_inv (poll_activation w m)"
  by (cases "activation_poll m") (simp_all add: managed_inv_def poll_activation_def)

lemma stop_inv: "managed_inv m \<Longrightarrow> managed_inv (stop_managed m)"
  by (cases "worker m"; cases "cancellation m") (simp_all add: managed_inv_def stop_managed_def core_defs)

lemma worker_cancel [simp]: "worker_inv (m\<lparr>cancelling := ts, cancelled := us\<rparr>) = worker_inv m"
  by (cases "worker m") (simp_all add: worker_inv_def current_def)

lemma core_cancel:
  "core_inv m \<Longrightarrow> cancelling m = t # ts \<Longrightarrow> core_inv (m\<lparr>cancelling := ts, cancelled := t # cancelled m\<rparr>)"
  by (auto simp: core_inv_def)

lemma cancel_inv:
  "managed_inv m \<Longrightarrow> cancelling m = t # ts \<Longrightarrow> managed_inv (m\<lparr>cancelling := ts, cancelled := t # cancelled m\<rparr>)"
  by (simp add: managed_inv_def core_cancel)

lemma worker_outer: "worker_inv m \<Longrightarrow> worker_inv (m\<lparr>fiber_is := Disposed, outer_disposed := True, cancelled := us\<rparr>)"
  by (cases "worker m") (simp_all add: worker_inv_def current_def)

lemma core_outer:
  "core_inv m \<Longrightarrow> set (cancelled m) \<subseteq> set us \<Longrightarrow>
    core_inv (m\<lparr>fiber_is := Disposed, outer_disposed := True, cancelled := us\<rparr>)"
  unfolding core_inv_def by (simp add: worker_outer) blast

lemma outer_inv:
  "managed_inv m \<Longrightarrow> set (cancelled m) \<subseteq> set us \<Longrightarrow>
    managed_inv (m\<lparr>fiber_is := Disposed, outer_disposed := True, cancelled := us\<rparr>)"
  by (simp add: managed_inv_def core_outer)

subsection \<open>The steps of the worker\<close>

lemma next_snapshot_cases:
  assumes "next_snapshot m = Some m'"
  obtains "stopping m" "m' = m\<lparr>dirty := False, worker := DisposingPlugin\<rparr>"
  | "\<not> stopping m" "m' = m\<lparr>dirty := False, phase := ManagedStarting, worker := Deciding (snapshot m),
      processed := snapshot m\<rparr>"
  using assms by (auto simp: next_snapshot_def split: if_splits)

lemma core_next_snapshot:
  assumes "core_inv m" and "worker m = NextSnapshot" and "next_snapshot m = Some m'"
  shows "core_inv m'"
  using assms(3)
proof (cases rule: next_snapshot_cases)
  case 1
  then show ?thesis using assms(1) by (simp add: core_defs)
next
  case 2
  then show ?thesis using assms(1) by (simp add: core_defs)
qed

lemma poll_next_snapshot:
  "activation_poll m = None \<Longrightarrow> next_snapshot m = Some m' \<Longrightarrow> activation_poll m' = None"
  by (auto simp: next_snapshot_def activation_poll_def split: if_splits)

lemma next_snapshot_waker: "next_snapshot m = Some m' \<Longrightarrow> waker m' = waker m"
  by (auto simp: next_snapshot_def split: if_splits)

lemma next_snapshot_inv:
  "managed_inv m \<Longrightarrow> worker m = NextSnapshot \<Longrightarrow> next_snapshot m = Some m' \<Longrightarrow> managed_inv m'"
  by (metis core_next_snapshot managed_inv_def next_snapshot_waker poll_next_snapshot)

lemmas moved_defs = set_phase_def fail_with_def fresh_fiber_def publish_token_def set_cancellation_def
  now_pending_def now_active_def set_initialized_def

lemma core_suspending:
  "core_inv m \<Longrightarrow> worker m = Deciding snap \<Longrightarrow> core_inv (m\<lparr>worker := Suspending snap\<rparr>)"
  by (simp add: core_defs)

lemma suspending_inv:
  "managed_inv m \<Longrightarrow> worker m = Deciding snap \<Longrightarrow> managed_inv (m\<lparr>worker := Suspending snap\<rparr>)"
  by (simp add: managed_inv_def core_suspending)

text \<open>A failure leaves the instance in a state in which the plugin does not run.\<close>

lemma failed_inv:
  assumes "core_inv m" and "\<not> ended (worker m)" and "st \<noteq> Active" and "outer_disposed m \<longrightarrow> st = Disposed"
  shows "managed_inv (fail_with e (m\<lparr>fiber_is := st\<rparr>))"
  using assms
  by (intro managed_inv_waked) (auto simp: core_inv_def worker_inv_def fail_with_def set_phase_def)

lemma pended_inv:
  assumes "core_inv m" and "\<not> ended (worker m)" and "fiber_is m = Pending \<or> outer_disposed m"
  shows "managed_inv (now_pending m)"
  using assms
  by (intro managed_inv_waked) (auto simp: core_inv_def worker_inv_def now_pending_def set_phase_def)

lemma core_deciding:
  "core_inv m \<Longrightarrow> worker m = Suspending snap \<Longrightarrow>
    core_inv ((publish_token (fresh_fiber Pending m))\<lparr>worker := Dispatching snap\<rparr>)"
  by (cases "stopping m"; cases "swap_failed m"; cases "outer_disposed m")
    (auto simp: core_defs becomes_def publish_token_def fresh_fiber_def set_cancellation_def)

lemma core_fresh:
  "core_inv m \<Longrightarrow> worker m = Suspending snap \<Longrightarrow> core_inv (publish_token (fresh_fiber Pending m))"
  by (cases "stopping m"; cases "swap_failed m"; cases "outer_disposed m")
    (auto simp: core_defs becomes_def publish_token_def fresh_fiber_def set_cancellation_def)

lemma fresh_fields [simp]:
  "waker (publish_token (fresh_fiber st m)) = waker m"
  "fiber_is (publish_token (fresh_fiber st m)) = becomes st m"
  "outer_disposed (publish_token (fresh_fiber st m)) = outer_disposed m"
  "worker (publish_token (fresh_fiber st m)) = worker m"
  "phase (publish_token (fresh_fiber st m)) = phase m"
  "current (publish_token (fresh_fiber st m)) = current m"
  "activation_poll (publish_token (fresh_fiber st m)) = activation_poll m"
  by (auto simp: publish_token_def fresh_fiber_def set_cancellation_def current_def becomes_def activation_poll_def)

lemma suspended_inv:
  assumes "managed_inv m" and "worker m = Suspending snap"
  shows "managed_inv (let m' = publish_token (fresh_fiber Pending m) in
     if ds_ready snap then m'\<lparr>worker := Dispatching snap\<rparr> else now_pending m')"
proof (cases "ds_ready snap")
  case True
  then show ?thesis using assms core_deciding by (simp add: managed_inv_def)
next
  case False
  then show ?thesis using assms core_fresh [OF managed_core] by (simp add: pended_inv becomes_def)
qed

lemma deciding_state:
  "core_inv m \<Longrightarrow> worker m = Deciding snap \<or> worker m = Dispatching snap \<Longrightarrow>
    phase m = ManagedStarting \<and> snap = processed m \<and> \<not> ended (worker m)"
  by (elim disjE) (simp_all add: core_inv_def worker_inv_def)

lemma starting_inv:
  assumes "core_inv m" and "worker m = Deciding snap \<or> worker m = Dispatching snap"
  shows "fiber_is m = Pending \<Longrightarrow> managed_inv ((set_phase ManagedStarting None m)\<lparr>worker := StartingPlugin (current m)\<rparr>)"
    and "fiber_is m = Active \<Longrightarrow> managed_inv ((set_phase ManagedStarting None m)\<lparr>worker := UpdatingPlugin (current m)\<rparr>)"
    and "fiber_is m = Active \<Longrightarrow> active_generations m = Some (current m) \<Longrightarrow>
      managed_inv ((set_phase ManagedActive None m)\<lparr>worker := NextSnapshot\<rparr>)"
proof -
  have s: "phase m = ManagedStarting" "\<not> ended (worker m)"
    using deciding_state [OF assms] by simp_all
  note c = conjunct2 [OF assms(1) [unfolded core_inv_def]]
  show "managed_inv ((set_phase ManagedStarting None m)\<lparr>worker := StartingPlugin (current m)\<rparr>)"
    by (intro managed_inv_waked) (use c s in \<open>simp_all add: core_defs set_phase_def\<close>)
  show "managed_inv ((set_phase ManagedStarting None m)\<lparr>worker := UpdatingPlugin (current m)\<rparr>)"
    by (intro managed_inv_waked) (use c s in \<open>simp_all add: core_defs set_phase_def\<close>)
  show "managed_inv ((set_phase ManagedActive None m)\<lparr>worker := NextSnapshot\<rparr>)"
    if "fiber_is m = Active" "active_generations m = Some (current m)"
    by (intro managed_inv_waked) (use c s that in \<open>auto simp: core_defs set_phase_def\<close>)
qed

lemma dispatch_inv:
  assumes "managed_inv m" and w: "worker m = Deciding snap \<or> worker m = Dispatching snap"
  shows "managed_inv (dispatch_state snap m)"
proof -
  have c: "core_inv m" by (rule managed_core [OF assms(1)])
  then have "snap = processed m" using deciding_state w by blast
  then have "required_generations snap (dependencies m) = current m" by (simp add: current_def)
  moreover have "\<not> ended (worker m)" using w by auto
  then have "managed_inv (fail_with e m)" if "fiber_is m \<noteq> Active" for e
    using failed_inv [OF c, of "fiber_is m" e] that conjunct2 [OF c [unfolded core_inv_def]] by simp
  ultimately show ?thesis
    using starting_inv [OF c w] by (simp add: dispatch_state_def Let_def)
qed

lemma decide_inv:
  assumes "managed_inv m" and w: "worker m = Deciding snap"
  shows "managed_inv (decide snap m)"
  using dispatch_inv [OF assms(1)] suspending_inv [OF assms] pended_inv [OF managed_core [OF assms(1)]] w
  by (simp add: decide_def)

lemma updated_inv:
  assumes "core_inv m" and "worker m = UpdatingPlugin gs"
  shows "managed_inv (now_active gs (publish_token (swap_in k m)))"
  using assms
  by (intro managed_inv_waked; cases "stopping m"; cases "swap_failed m"; cases "outer_disposed m")
    (auto simp: core_defs becomes_def now_active_def set_phase_def publish_token_def swap_in_def set_cancellation_def)

lemma swapped_inv:
  assumes "core_inv m" and "worker m = UpdatingPlugin gs"
  shows "managed_inv (fail_with e ((swap_in k m)\<lparr>running := gs, swap_failed := True\<rparr>))"
  using assms by (intro managed_inv_waked; cases "stopping m"; cases "swap_failed m"; cases "outer_disposed m")
    (auto simp: core_defs becomes_def fail_with_def set_phase_def swap_in_def)

lemma kept_inv:
  assumes "core_inv m" and "worker m = UpdatingPlugin gs"
  shows "managed_inv (fail_with e (m\<lparr>candidate := None\<rparr>))"
  using assms by (intro managed_inv_waked) (auto simp: core_defs fail_with_def set_phase_def)

lemma candidate_inv:
  assumes "managed_inv m" and "worker m = UpdatingPlugin gs"
  shows "managed_inv (new_candidate m)"
  using assms by (simp add: managed_inv_def new_candidate_def core_defs)

lemma started_inv:
  assumes "core_inv m" and "worker m = StartingPlugin gs"
  shows "managed_inv (now_active gs (m\<lparr>fiber_is := becomes Active m\<rparr>))"
  using assms by (intro managed_inv_waked; cases "stopping m"; cases "swap_failed m"; cases "outer_disposed m")
    (auto simp: core_defs now_active_def set_phase_def becomes_def)

lemma building_inv:
  assumes "core_inv m" and "worker m = BuildingRuntime \<or> worker m = Subscribing"
  shows "managed_inv ((set_phase ManagedFailed (Some e) m)\<lparr>worker := Ended (Inl e)\<rparr>)"
  using assms by (intro managed_inv_waked) (auto simp: core_defs set_phase_def)

lemma subscribed_inv:
  assumes "core_inv m" and "worker m = Subscribing"
  shows "managed_inv ((set_initialized m)\<lparr>worker := NextSnapshot\<rparr>)"
  using assms by (intro managed_inv_waked) (auto simp: core_defs set_initialized_def)

lemma built_inv:
  assumes "managed_inv m" and "worker m = BuildingRuntime"
  shows "managed_inv (m\<lparr>worker := Subscribing\<rparr>)"
  using assms by (auto simp: managed_inv_def core_defs)

lemma disposed_inv:
  assumes "managed_inv m" and "worker m = DisposingPlugin"
  shows "managed_inv (m\<lparr>fiber_is := Disposed, worker := Ended r\<rparr>)"
  using assms by (auto simp: managed_inv_def core_defs activation_poll_def)

lemma work_inv:
  assumes m: "managed_inv m" and w: "work i (worker m) m = Some m'"
  shows "managed_inv m'"
proof -
  note c = managed_core [OF m]
  show ?thesis
  proof (cases "worker m")
    case BuildingRuntime
    then show ?thesis using w m c building_inv built_inv by (cases i) auto
  next
    case Subscribing
    then show ?thesis using w c building_inv subscribed_inv by (cases i) auto
  next
    case NextSnapshot
    then show ?thesis using w m next_snapshot_inv by (cases i) auto
  next
    case (Deciding snap)
    then show ?thesis using w m decide_inv by (cases i) auto
  next
    case (Dispatching snap)
    then show ?thesis using w m dispatch_inv by (cases i) auto
  next
    case (Suspending snap)
    then show ?thesis using w suspended_inv [OF m] failed_inv [OF c] by (cases i) (auto simp: Let_def)
  next
    case (StartingPlugin gs)
    then show ?thesis using w started_inv [OF c] failed_inv [OF c] by (cases i) (auto simp: becomes_def split: if_splits)
  next
    case (UpdatingPlugin gs)
    then show ?thesis using w updated_inv [OF c] swapped_inv [OF c] kept_inv [OF c] candidate_inv [OF m]
      by (cases i) (auto split: if_splits option.splits)
  next
    case DisposingPlugin
    then show ?thesis using w disposed_inv [OF m] by (cases i) auto
  qed (use w in \<open>cases i; auto\<close>)
qed

lemma managed_exec_inv: "managed_inv m \<Longrightarrow> managed_exec l m = Some m' \<Longrightarrow> managed_inv m'"
  by (cases l)
    (auto simp: notify_inv request_inv poll_inv stop_inv cancel_inv work_inv
      intro!: outer_inv split: if_splits list.splits)

interpretation managed: transition_invariant "\<lambda>m. m = managed_new deps" "exec_rel managed_exec" managed_inv
  for deps
  using managed_inv_new managed_exec_inv by unfold_locales (auto simp: exec_rel_def)

subsection \<open>Tokens\<close>

definition tokens :: "managed \<Rightarrow> nat set" where
  "tokens m = set (cancelled m) \<union> set (cancelling m) \<union> set_option (cancellation m)"

definition tokens_below :: "dependency list \<Rightarrow> managed \<Rightarrow> bool" where
  "tokens_below deps m \<longleftrightarrow> dependencies m = deps \<and> fiber m < next_fiber m
    \<and> (\<forall>t \<in> tokens m \<union> set_option (candidate m). t < next_fiber m)"

text \<open>The token of a candidate is nowhere: nobody can cancel it but the scope above.\<close>

definition candidate_hidden :: "managed \<Rightarrow> bool" where
  "candidate_hidden m \<longleftrightarrow> (\<forall>k. candidate m = Some k \<longrightarrow>
    (\<exists>gs. worker m = UpdatingPlugin gs) \<and> k \<noteq> fiber m \<and> (outer_disposed m \<or> k \<notin> tokens m))"

lemma tokens_wake [simp]: "tokens_below deps (wake_waker m) = tokens_below deps m"
  by (simp add: tokens_below_def tokens_def)

lemma tokens_phase [simp]: "tokens_below deps (set_phase p e m) = tokens_below deps m"
  by (simp add: tokens_below_def tokens_def set_phase_def)

lemma tokens_initialized [simp]: "tokens_below deps (set_initialized m) = tokens_below deps m"
  by (simp add: tokens_below_def tokens_def set_initialized_def)

lemma tokens_fields [simp]:
  "tokens_below deps (m\<lparr>worker := w\<rparr>) = tokens_below deps m"
  "tokens_below deps (m\<lparr>fiber_is := st\<rparr>) = tokens_below deps m"
  "tokens_below deps (m\<lparr>outer_disposed := b\<rparr>) = tokens_below deps m"
  "tokens_below deps (m\<lparr>active_generations := gs\<rparr>) = tokens_below deps m"
  "tokens_below deps (m\<lparr>running := rs\<rparr>) = tokens_below deps m"
  "tokens_below deps (m\<lparr>swap_failed := b\<rparr>) = tokens_below deps m"
  "tokens_below deps (m\<lparr>dirty := b\<rparr>) = tokens_below deps m"
  "tokens_below deps (m\<lparr>snapshot := sn\<rparr>) = tokens_below deps m"
  "tokens_below deps (m\<lparr>processed := sn\<rparr>) = tokens_below deps m"
  "tokens_below deps (m\<lparr>phase := p\<rparr>) = tokens_below deps m"
  "tokens_below deps (m\<lparr>activated := b\<rparr>) = tokens_below deps m"
  "tokens_below deps (m\<lparr>waker := k\<rparr>) = tokens_below deps m"
  "tokens_below deps (m\<lparr>stopping := b\<rparr>) = tokens_below deps m"
  by (simp_all add: tokens_below_def tokens_def)

lemma tokens_fresh [simp]: "tokens_below deps m \<Longrightarrow> tokens_below deps (fresh_fiber st m)"
  by (auto simp: tokens_below_def tokens_def fresh_fiber_def less_Suc_eq)

lemma tokens_publish [simp]: "tokens_below deps m \<Longrightarrow> tokens_below deps (publish_token m)"
  by (auto simp: tokens_below_def tokens_def publish_token_def set_cancellation_def)

lemma tokens_candidate [simp]:
  "tokens_below deps m \<Longrightarrow> tokens_below deps (new_candidate m)"
  "tokens_below deps m \<Longrightarrow> tokens_below deps (m\<lparr>candidate := None\<rparr>)"
  "tokens_below deps m \<Longrightarrow> candidate m = Some k \<Longrightarrow> tokens_below deps (swap_in k m)"
  by (auto simp: tokens_below_def tokens_def new_candidate_def swap_in_def less_Suc_eq)

lemma tokens_moves [simp]:
  "tokens_below deps (fail_with e m) = tokens_below deps m"
  "tokens_below deps (now_pending m) = tokens_below deps m"
  "tokens_below deps (now_active gs m) = tokens_below deps m"
  by (simp_all add: fail_with_def now_pending_def now_active_def)

lemma tokens_dispatch: "tokens_below deps m \<Longrightarrow> tokens_below deps (dispatch_state snap m)"
  by (simp add: dispatch_state_def Let_def)

lemma tokens_decide: "tokens_below deps m \<Longrightarrow> tokens_below deps (decide snap m)"
  by (simp add: decide_def tokens_dispatch)

lemma tokens_next: "tokens_below deps m \<Longrightarrow> next_snapshot m = Some m' \<Longrightarrow> tokens_below deps m'"
  by (auto simp: next_snapshot_def split: if_splits)

lemma tokens_work: "tokens_below deps m \<Longrightarrow> work i w m = Some m' \<Longrightarrow> tokens_below deps m'"
  by (cases w; cases i) (auto simp: tokens_decide tokens_dispatch tokens_next Let_def split: if_splits option.splits)

lemma tokens_stop: "tokens_below deps m \<Longrightarrow> tokens_below deps (stop_managed m)"
  by (cases "cancellation m") (auto simp: tokens_below_def tokens_def stop_managed_def)

lemma tokens_cancel:
  "tokens_below deps m \<Longrightarrow> cancelling m = t # ts \<Longrightarrow> tokens_below deps (m\<lparr>cancelling := ts, cancelled := t # cancelled m\<rparr>)"
  by (auto simp: tokens_below_def tokens_def)

lemma tokens_outer:
  "tokens_below deps m \<Longrightarrow> set us \<subseteq> insert (fiber m) (set_option (candidate m) \<union> set (cancelled m)) \<Longrightarrow>
    tokens_below deps (m\<lparr>fiber_is := Disposed, outer_disposed := True, cancelled := us\<rparr>)"
  by (auto simp: tokens_below_def tokens_def)

lemma tokens_exec: "tokens_below deps m \<Longrightarrow> managed_exec l m = Some m' \<Longrightarrow> tokens_below deps m'"
  by (cases l)
    (auto simp: tokens_work tokens_stop tokens_cancel set_snapshot_def request_activation_def poll_activation_def
      intro!: tokens_outer split: if_splits list.splits option.splits)

lemma candidate_moves [simp]:
  "candidate (decide snap m) = candidate m" "candidate (dispatch_state snap m) = candidate m"
  "candidate (fail_with e m) = candidate m" "candidate (now_pending m) = candidate m"
  "candidate (now_active gs m) = candidate m" "candidate (publish_token m) = candidate m"
  "candidate (fresh_fiber st m) = candidate m" "candidate (set_phase ph er m) = candidate m"
  "candidate (set_initialized m) = candidate m" "candidate (swap_in k m) = None"
  by (simp_all add: decide_def dispatch_state_def fail_with_def now_pending_def now_active_def publish_token_def
      fresh_fiber_def set_cancellation_def set_phase_def set_initialized_def swap_in_def Let_def)

lemma candidate_work:
  "work i w m = Some m' \<Longrightarrow> candidate m' = None \<or> candidate m' = candidate m \<and> (\<forall>gs. w \<noteq> UpdatingPlugin gs)
    \<or> m' = new_candidate m \<and> (\<exists>gs. w = UpdatingPlugin gs)"
  by (cases w; cases i) (auto simp: next_snapshot_def Let_def split: if_splits option.splits)

lemma hidden_work:
  assumes "tokens_below deps m" and "candidate_hidden m" and "work i (worker m) m = Some m'"
  shows "candidate_hidden m'"
  using candidate_work [OF assms(3)]
proof (elim disjE conjE exE)
  assume "candidate m' = candidate m" and "\<forall>gs. worker m \<noteq> UpdatingPlugin gs"
  then show ?thesis using assms(2) by (simp add: candidate_hidden_def)
next
  fix gs assume "m' = new_candidate m" "worker m = UpdatingPlugin gs"
  then show ?thesis using assms(1) by (auto simp: candidate_hidden_def tokens_below_def tokens_def new_candidate_def)
qed (simp add: candidate_hidden_def)

lemma hidden_exec:
  assumes "tokens_below deps m" and "candidate_hidden m" and "managed_exec l m = Some m'"
  shows "candidate_hidden m'"
  using assms hidden_work [OF assms(1,2)]
  by (cases l)
    (auto simp: candidate_hidden_def tokens_def set_snapshot_def request_activation_def poll_activation_def
      stop_managed_def split: if_splits list.splits option.splits)

lemma tokens_new: "tokens_below deps (managed_new deps) \<and> candidate_hidden (managed_new deps)"
  by (simp add: tokens_below_def tokens_def candidate_hidden_def managed_new_def Let_def)

interpretation tokens: transition_invariant "\<lambda>m. m = managed_new deps" "exec_rel managed_exec"
    "\<lambda>m. tokens_below deps m \<and> candidate_hidden m"
  for deps
proof
  show "tokens_below deps m \<and> candidate_hidden m" if "m = managed_new deps" for m
    using that tokens_new by simp
  show "tokens_below deps m' \<and> candidate_hidden m'"
    if "tokens_below deps m \<and> candidate_hidden m" "exec_rel managed_exec m l m'" for m l m'
    using that tokens_exec [of deps m l m'] hidden_exec [of deps m l m'] unfolding exec_rel_def by blast
qed

subsection \<open>Properties\<close>

text \<open>C28: What an activation reports is true at that moment. It says active only while
  the dependencies are there, the plugin runs (or the scope above is being disposed) and, unless an update
  has failed after its swap, was started or updated with exactly the generations of the snapshot; it says
  pending only while the plugin does not run. The panic of a failed worker without its error does not happen.\<close>

theorem managed_activation_true:
  assumes "managed_reach deps m" and "activation_poll m = Some r"
  shows "case r of
      Inr RtActive \<Rightarrow> ds_ready (snapshot m) \<and> (outer_disposed m \<or> fiber_is m = Active
        \<and> (swap_failed m \<or> running m = required_generations (snapshot m) deps))
    | Inr RtPending \<Rightarrow> \<not> ds_ready (snapshot m) \<and> (outer_disposed m \<or> fiber_is m = Pending)
    | Inl e \<Rightarrow> stopping m \<or> failure m \<noteq> None"
proof -
  have c: "core_inv m" using managed_core [OF managed.inv_reach [OF assms(1)]] .
  have d: "dependencies m = deps" using tokens.inv_reach [OF assms(1)] by (simp add: tokens_below_def)
  have "outer_disposed m \<or> fiber_is m = Active \<and> (swap_failed m \<or> running m = required_generations (snapshot m) deps)"
    if "phase m = ManagedActive" "\<not> dirty m" "\<not> stopping m"
    using c d that by (cases "worker m") (auto simp: core_defs)
  moreover have "outer_disposed m \<or> fiber_is m = Pending" if "phase m = ManagedPending" "\<not> stopping m"
    using c that unfolding core_inv_def by blast
  moreover have "failure m \<noteq> None" if "phase m = ManagedFailed"
    using c that by (simp add: core_inv_def)
  ultimately show ?thesis
    using assms(2) by (auto simp: activation_poll_def split: if_splits)
qed

text \<open>No activation waits for a wake-up that has already happened: while a waker is stored, the state
  is one in which the activation has nothing to report.\<close>

theorem managed_no_lost_wakeup:
  "managed_reach deps m \<Longrightarrow> waker m \<noteq> None \<Longrightarrow> activation_poll m = None"
  using managed.inv_reach by (auto simp: managed_inv_def)

text \<open>C29: Once a stop has cancelled the token it was given, the token of the plugin's fiber is cancelled,
  whatever the worker does meanwhile: a start or a wait for dependencies that it finds itself in ends.
  The exception is an update whose stop of the replaced instance has failed.\<close>

theorem managed_stop_cancels:
  assumes "managed_reach deps m" and "stopping m" and "cancelling m = []" and "\<not> swap_failed m"
  shows "fiber m \<in> set (cancelled m)"
  using managed_core [OF managed.inv_reach [OF assms(1)]] assms by (auto simp: core_inv_def)

text \<open>C30: What that does not reach: the update and start hooks of an update run in the fiber of the
  candidate. In every interleaving, a stop that has been carried out in the middle of an update has cancelled
  the fiber of the plugin being replaced, while the token of the candidate's fiber is neither cancelled
  nor about to be, nor the one that a later stop would get, unless the scope above is disposed: hooks that
  wait for their cancellation are not told to end.\<close>

theorem managed_update_not_cancelled:
  assumes "managed_reach deps m" and "candidate m = Some k" and "stopping m" and "cancelling m = []"
    and "\<not> swap_failed m" and "\<not> outer_disposed m"
  shows "(\<exists>gs. worker m = UpdatingPlugin gs) \<and> fiber m \<in> set (cancelled m) \<and> k \<noteq> fiber m
    \<and> k \<notin> set (cancelled m) \<and> k \<notin> set_option (cancellation m)"
proof -
  have "candidate_hidden m" using tokens.inv_reach [OF assms(1)] by blast
  moreover have "fiber m \<in> set (cancelled m)"
    using managed_core [OF managed.inv_reach [OF assms(1)]] assms(3,4,5) by (auto simp: core_inv_def)
  ultimately show ?thesis using assms(2,6) by (auto simp: candidate_hidden_def tokens_def)
qed

subsection \<open>Sample runs\<close>

text \<open>One required dependency; a run up to the activation, an update with a stop in it, an update whose
  stop of the replaced instance fails.\<close>

definition sample_deps :: "dependency list" where
  "sample_deps = [Required (ServiceKey ''db'' ''1'')]"

definition sample_snapshot :: "generation \<Rightarrow> dependency_snapshot" where
  "sample_snapshot g = \<lparr>ds_ready = True, ds_services =
    [\<lparr>ss_key = ''db@1'', ss_realm = ''root'', ss_generation = Some g, ss_available = True, ss_intercepts = []\<rparr>]\<rparr>"

definition sample_active :: "managed_label list" where
  "sample_active = [Work Done, Work Done, RequestActivation, PollActivation 5, Notify (sample_snapshot 1),
     Work Proceed, Work Proceed, Work Done]"

definition sample_updating :: "managed_label list" where
  "sample_updating = sample_active @ [Notify (sample_snapshot 2), Work Proceed, Work Proceed, Work Proceed]"

definition sample_swapped :: "managed_label list" where
  "sample_swapped = sample_updating @ [Work (SwappedThen (CoreFailure Cancelled)), Notify (sample_snapshot 3),
     Work Proceed, Work Proceed, Work Proceed]"

definition stopped_run :: "managed_label list" where
  "stopped_run = [StopManaged, CancelToken]"

definition managed_holds :: "managed_label list \<Rightarrow> (managed \<Rightarrow> bool) \<Rightarrow> bool" where
  "managed_holds ls P = (case exec_run managed_exec ls (managed_new sample_deps) of Some m \<Rightarrow> P m | None \<Rightarrow> False)"

lemma managed_holdsE:
  assumes "managed_holds ls P"
  obtains m where "managed_reach sample_deps m" "P m"
  using assms unfolding managed_holds_def
  by (auto split: option.splits intro: exec_run_reach)

lemma sample_is_active: "managed_holds sample_active
    (\<lambda>m. activation_poll m = Some (Inr RtActive) \<and> running m = [Some 1] \<and> 5 \<in> set (woken m))"
  by code_simp

lemma sample_waits: "managed_holds (take 4 sample_active) (\<lambda>m. waker m = Some 5)"
  by code_simp

lemma sample_stops: "managed_holds (sample_updating @ stopped_run)
    (\<lambda>m. stopping m \<and> cancelling m = [] \<and> \<not> swap_failed m \<and> fiber m = 0
      \<and> worker m = UpdatingPlugin [Some 2] \<and> candidate m = Some 1 \<and> \<not> outer_disposed m)"
  by code_simp

theorem managed_activation_true_witness:
  "\<exists>m. managed_reach sample_deps m \<and> (outer_disposed m \<or> fiber_is m = Active)"
proof (rule managed_holdsE [OF sample_is_active])
  fix m assume m: "managed_reach sample_deps m"
    and "activation_poll m = Some (Inr RtActive) \<and> running m = [Some 1] \<and> 5 \<in> set (woken m)"
  then show ?thesis using managed_activation_true [OF m, of "Inr RtActive"] by auto
qed

theorem managed_no_lost_wakeup_witness: "\<exists>m. managed_reach sample_deps m \<and> activation_poll m = None"
proof (rule managed_holdsE [OF sample_waits])
  fix m assume m: "managed_reach sample_deps m" and "waker m = Some 5"
  then show ?thesis using managed_no_lost_wakeup [OF m] by auto
qed

theorem managed_stop_cancels_witness:
  "\<exists>m. managed_reach sample_deps m \<and> worker m = UpdatingPlugin [Some 2] \<and> 0 \<in> set (cancelled m)"
proof (rule managed_holdsE [OF sample_stops])
  fix m assume m: "managed_reach sample_deps m" and f: "stopping m \<and> cancelling m = [] \<and> \<not> swap_failed m
    \<and> fiber m = 0 \<and> worker m = UpdatingPlugin [Some 2] \<and> candidate m = Some 1 \<and> \<not> outer_disposed m"
  then show ?thesis using managed_stop_cancels [OF m] by (intro exI [of _ m]) auto
qed

theorem managed_update_not_cancelled_witness:
  "\<exists>m. managed_reach sample_deps m \<and> stopping m \<and> cancelling m = [] \<and> candidate m = Some 1
    \<and> 0 \<in> set (cancelled m) \<and> 1 \<notin> set (cancelled m)"
proof (rule managed_holdsE [OF sample_stops])
  fix m assume m: "managed_reach sample_deps m" and f: "stopping m \<and> cancelling m = [] \<and> \<not> swap_failed m
    \<and> fiber m = 0 \<and> worker m = UpdatingPlugin [Some 2] \<and> candidate m = Some 1 \<and> \<not> outer_disposed m"
  then show ?thesis using managed_update_not_cancelled [OF m, of 1] by (intro exI [of _ m]) auto
qed

text \<open>After an update whose stop of the replaced instance failed, a stop cancels the token of the
  replaced instance: the worker then waits with a token that nobody cancels.\<close>

theorem managed_swapped_not_cancelled:
  "managed_holds (sample_swapped @ stopped_run)
    (\<lambda>m. stopping m \<and> cancelling m = [] \<and> worker m = UpdatingPlugin [Some 3] \<and> fiber m \<notin> set (cancelled m))"
  by code_simp

end
