(* ===== verification/WasmModule.thy ===== *)
theory WasmModule
  imports Errors Stderr
begin

section \<open>The exports of a WebAssembly module (tessivum-extism)\<close>

text \<open>
  \<open>WasmReader\<close>, \<open>wasm_function_exports\<close> and \<open>validate_wasm_exports\<close>: the parser that looks at the
  type, import, function and export sections of a binary before an engine sees it. A reader is its
  offset and its end over the bytes of the module. Offsets are numbers: the sums \<open>checked_add\<close> guards
  stay below twice the size of a slice. Lengths and counts are 32-bit words as they are read.
\<close>

type_synonym u8 = "8 word"

definition module_error :: "message \<Rightarrow> plugin_error" where
  "module_error m = plugin_error_new ''MODULE_INVALID'' m ''manifest''"

subsection \<open>The reader\<close>

record wasm_reader =
  rd_offset :: nat
  rd_end :: nat

definition truncated :: plugin_error where
  "truncated = module_error (msg ''truncated WebAssembly section'')"

definition invalid_integer :: plugin_error where
  "invalid_integer = module_error (msg ''invalid WebAssembly integer'')"

definition rd_byte :: "u8 list \<Rightarrow> wasm_reader \<Rightarrow> plugin_error + u8 \<times> wasm_reader" where
  "rd_byte bs rd =
    (if rd_offset rd = rd_end rd then Inl truncated
     else Inr (bs ! rd_offset rd, rd\<lparr>rd_offset := Suc (rd_offset rd)\<rparr>))"

definition rd_bytes :: "nat \<Rightarrow> u8 list \<Rightarrow> wasm_reader \<Rightarrow> plugin_error + u8 list \<times> wasm_reader" where
  "rd_bytes n bs rd =
    (let end = rd_offset rd + n in
     if end \<le> rd_end rd then Inr (take n (drop (rd_offset rd) bs), rd\<lparr>rd_offset := end\<rparr>)
     else Inl truncated)"

text \<open>The loop of \<open>u32\<close> from an index on, with the value so far.\<close>

function rd_u32_from :: "u8 list \<Rightarrow> nat \<Rightarrow> u32 \<Rightarrow> wasm_reader \<Rightarrow> plugin_error + u32 \<times> wasm_reader" where
  "rd_u32_from bs index value rd =
    (if 5 \<le> index then Inl invalid_integer
     else try_bind (rd_byte bs rd) (\<lambda>(byte, rd).
       let payload = ucast (and byte 0x7F) :: u32 in
       if index = 4 \<and> payload > 0x0F then Inl invalid_integer
       else let value = or value (push_bit (index * 7) payload) in
         if and byte 0x80 = 0 then Inr (value, rd) else rd_u32_from bs (Suc index) value rd))"
  by pat_completeness auto
termination by (relation "measure (\<lambda>(bs, index, value, rd). 5 - index)") auto

declare rd_u32_from.simps [simp del]

definition rd_u32 :: "u8 list \<Rightarrow> wasm_reader \<Rightarrow> plugin_error + u32 \<times> wasm_reader" where
  "rd_u32 bs rd = rd_u32_from bs 0 0 rd"

text \<open>\<open>std::str::from_utf8\<close> accepts exactly the well-formed sequences.\<close>

fun utf8_valid :: "nat list \<Rightarrow> bool" where
  "utf8_valid [] = True"
| "utf8_valid (b # bs) =
    (if utf8_width b = 1 then utf8_valid bs
     else if utf8_width b = 2
     then (case bs of c # cs \<Rightarrow> second_ok b c \<and> utf8_valid cs | _ \<Rightarrow> False)
     else if utf8_width b = 3
     then (case bs of c # d # ds \<Rightarrow> second_ok b c \<and> continuation d \<and> utf8_valid ds | _ \<Rightarrow> False)
     else if utf8_width b = 4
     then (case bs of c # d # e # es \<Rightarrow> second_ok b c \<and> continuation d \<and> continuation e \<and> utf8_valid es | _ \<Rightarrow> False)
     else False)"

definition byte_string :: "u8 list \<Rightarrow> string" where
  "byte_string bs = map (\<lambda>b. char_of (unat b)) bs"

text \<open>The text of a UTF-8 error is symbolic: it stands for the bytes.\<close>

definition rd_name :: "u8 list \<Rightarrow> wasm_reader \<Rightarrow> plugin_error + string \<times> wasm_reader" where
  "rd_name bs rd =
    try_bind (rd_u32 bs rd) (\<lambda>(n, rd).
    try_bind (rd_bytes (unat n) bs rd) (\<lambda>(name, rd).
      if utf8_valid (map unat name) then Inr (byte_string name, rd)
      else Inl (module_error [Text ''invalid WebAssembly name: '', Dbg (byte_string name)])))"

subsection \<open>Sections\<close>

type_synonym wasm_signature = "u8 list \<times> u8 list"

record wasm_module =
  wm_types :: "wasm_signature list"
  wm_functions :: "u32 list"
  wm_exports :: "(string, u32) btree"

fun rd_types :: "nat \<Rightarrow> u8 list \<Rightarrow> wasm_reader \<Rightarrow> wasm_signature list \<Rightarrow> plugin_error + wasm_signature list \<times> wasm_reader" where
  "rd_types 0 bs rd ts = Inr (ts, rd)"
| "rd_types (Suc n) bs rd ts =
    try_bind (rd_byte bs rd) (\<lambda>(form, rd).
    if form \<noteq> 0x60 then Inl (module_error (msg ''unsupported WebAssembly type declaration''))
    else try_bind (rd_u32 bs rd) (\<lambda>(k, rd).
    try_bind (rd_bytes (unat k) bs rd) (\<lambda>(parameters, rd).
    try_bind (rd_u32 bs rd) (\<lambda>(k, rd).
    try_bind (rd_bytes (unat k) bs rd) (\<lambda>(results, rd).
      rd_types n bs rd (ts @ [(parameters, results)]))))))"

fun rd_imports :: "nat \<Rightarrow> u8 list \<Rightarrow> wasm_reader \<Rightarrow> u32 list \<Rightarrow> plugin_error + u32 list \<times> wasm_reader" where
  "rd_imports 0 bs rd fs = Inr (fs, rd)"
| "rd_imports (Suc n) bs rd fs =
    try_bind (rd_name bs rd) (\<lambda>(_, rd).
    try_bind (rd_name bs rd) (\<lambda>(_, rd).
    try_bind (rd_byte bs rd) (\<lambda>(kind, rd).
    if kind \<noteq> 0 then Inl (module_error (msg ''unsupported non-function WebAssembly import''))
    else try_bind (rd_u32 bs rd) (\<lambda>(f, rd). rd_imports n bs rd (fs @ [f])))))"

fun rd_functions :: "nat \<Rightarrow> u8 list \<Rightarrow> wasm_reader \<Rightarrow> u32 list \<Rightarrow> plugin_error + u32 list \<times> wasm_reader" where
  "rd_functions 0 bs rd fs = Inr (fs, rd)"
| "rd_functions (Suc n) bs rd fs =
    try_bind (rd_u32 bs rd) (\<lambda>(f, rd). rd_functions n bs rd (fs @ [f]))"

fun rd_exports ::
  "nat \<Rightarrow> u8 list \<Rightarrow> wasm_reader \<Rightarrow> (string, u32) btree \<Rightarrow> plugin_error + (string, u32) btree \<times> wasm_reader" where
  "rd_exports 0 bs rd es = Inr (es, rd)"
| "rd_exports (Suc n) bs rd es =
    try_bind (rd_name bs rd) (\<lambda>(name, rd).
    try_bind (rd_byte bs rd) (\<lambda>(kind, rd).
    try_bind (rd_u32 bs rd) (\<lambda>(index, rd).
    if kind = 0
    then (if bt_contains es name then Inl (module_error (msg ''duplicate WebAssembly export name''))
          else rd_exports n bs rd (bt_insert name index es))
    else rd_exports n bs rd es)))"

definition rd_section :: "u8 \<Rightarrow> u8 list \<Rightarrow> wasm_reader \<Rightarrow> wasm_module \<Rightarrow> plugin_error + wasm_module \<times> wasm_reader" where
  "rd_section sid bs rd m =
    (if sid = 1
     then try_bind (rd_u32 bs rd) (\<lambda>(n, rd). try_bind (rd_types (unat n) bs rd (wm_types m)) (\<lambda>(ts, rd).
       Inr (m\<lparr>wm_types := ts\<rparr>, rd)))
     else if sid = 2
     then try_bind (rd_u32 bs rd) (\<lambda>(n, rd). try_bind (rd_imports (unat n) bs rd (wm_functions m)) (\<lambda>(fs, rd).
       Inr (m\<lparr>wm_functions := fs\<rparr>, rd)))
     else if sid = 3
     then try_bind (rd_u32 bs rd) (\<lambda>(n, rd). try_bind (rd_functions (unat n) bs rd (wm_functions m)) (\<lambda>(fs, rd).
       Inr (m\<lparr>wm_functions := fs\<rparr>, rd)))
     else if sid = 7
     then try_bind (rd_u32 bs rd) (\<lambda>(n, rd). try_bind (rd_exports (unat n) bs rd (wm_exports m)) (\<lambda>(es, rd).
       Inr (m\<lparr>wm_exports := es\<rparr>, rd)))
     else Inr (m, rd\<lparr>rd_offset := rd_end rd\<rparr>))"

text \<open>Every read moves the offset forward, which is what ends the loop over the sections.\<close>

lemma rd_byte_moves: "rd_byte bs rd = Inr (b, rd') \<Longrightarrow> rd_offset rd' = Suc (rd_offset rd) \<and> rd_end rd' = rd_end rd"
  by (auto simp: rd_byte_def split: if_splits)

lemma rd_u32_from_moves:
  "rd_u32_from bs i v rd = Inr (n, rd') \<Longrightarrow> rd_offset rd < rd_offset rd' \<and> rd_end rd' = rd_end rd"
proof (induction bs i v rd rule: rd_u32_from.induct)
  case (1 bs i v rd)
  from 1(2) obtain b rd1 where i: "\<not> 5 \<le> i" and b: "rd_byte bs rd = Inr (b, rd1)"
    by (subst (asm) rd_u32_from.simps) (auto simp: try_bind_eq_Inr split: if_splits)
  note m = rd_byte_moves [OF b]
  show ?case
  proof (cases "and b 0x80 = 0")
    case True
    then show ?thesis using 1(2) i b m
      by (subst (asm) rd_u32_from.simps) (auto simp: Let_def split: if_splits)
  next
    case False
    let ?p = "ucast (and b 0x7F) :: u32"
    have ok: "\<not> (i = 4 \<and> ?p > 0x0F)"
      and r: "rd_u32_from bs (Suc i) (or v (push_bit (i * 7) ?p)) rd1 = Inr (n, rd')"
      using 1(2) i b False by (subst (asm) rd_u32_from.simps; auto simp: Let_def split: if_splits)+
    from 1(1) [OF i b refl refl ok refl False r] m show ?thesis by simp
  qed
qed

lemma rd_u32_moves: "rd_u32 bs rd = Inr (n, rd') \<Longrightarrow> rd_offset rd < rd_offset rd' \<and> rd_end rd' = rd_end rd"
  unfolding rd_u32_def by (rule rd_u32_from_moves)

function rd_sections :: "u8 list \<Rightarrow> wasm_reader \<Rightarrow> wasm_module \<Rightarrow> plugin_error + wasm_module" where
  "rd_sections bs rd m =
    (if rd_offset rd < rd_end rd
     then
       (case rd_byte bs rd of
          Inl e \<Rightarrow> Inl e
        | Inr (sid, rd1) \<Rightarrow>
            (case rd_u32 bs rd1 of
               Inl e \<Rightarrow> Inl e
             | Inr (n, rd2) \<Rightarrow>
                 (let end = rd_offset rd2 + unat n in
                  if end \<le> rd_end rd
                  then
                    (case rd_section sid bs (rd2\<lparr>rd_end := end\<rparr>) m of
                       Inl e \<Rightarrow> Inl e
                     | Inr (m', sec) \<Rightarrow>
                         if rd_offset sec \<noteq> end then Inl (module_error (msg ''invalid WebAssembly section''))
                         else rd_sections bs (rd\<lparr>rd_offset := end\<rparr>) m')
                  else Inl truncated)))
     else Inr m)"
  by pat_completeness auto
termination
proof (relation "measure (\<lambda>(bs, rd, m). rd_end rd - rd_offset rd)")
  fix bs rd m x sid rd1 y n rd2 "end" z m' sec
  assume "rd_offset rd < rd_end rd" "rd_byte bs rd = Inr x" "(sid, rd1) = x" "rd_u32 bs rd1 = Inr y" "(n, rd2) = y"
    "end = rd_offset rd2 + unat n" "end \<le> rd_end rd"
  then show "((bs, rd\<lparr>rd_offset := end\<rparr>, m'), bs, rd, m) \<in> measure (\<lambda>(bs, rd, m). rd_end rd - rd_offset rd)"
    using rd_byte_moves [of bs rd sid rd1] rd_u32_moves [of bs rd1 n rd2] by auto
qed auto

declare rd_sections.simps [simp del]

definition wasm_magic :: "u8 list" where
  "wasm_magic = [0x00, 0x61, 0x73, 0x6D]"

definition wasm_version :: "u8 list" where
  "wasm_version = [0x01, 0x00, 0x00, 0x00]"

text \<open>The second four bytes are read only when the first four are right.\<close>

definition rd_header :: "u8 list \<Rightarrow> wasm_reader \<Rightarrow> plugin_error + wasm_reader" where
  "rd_header bs rd =
    (let unsupported = Inl (module_error (msg ''module is not a supported WebAssembly binary'')) in
     try_bind (rd_bytes 4 bs rd) (\<lambda>(magic, rd).
     if magic \<noteq> wasm_magic then unsupported
     else try_bind (rd_bytes 4 bs rd) (\<lambda>(version, rd).
       if version \<noteq> wasm_version then unsupported else Inr rd)))"

definition nth_or :: "plugin_error \<Rightarrow> 'a list \<Rightarrow> nat \<Rightarrow> plugin_error + 'a" where
  "nth_or e xs i = (if i < length xs then Inr (xs ! i) else Inl e)"

definition resolve_export :: "wasm_module \<Rightarrow> string \<times> u32 \<Rightarrow> plugin_error + string \<times> wasm_signature" where
  "resolve_export m export =
    (case export of (name, index) \<Rightarrow>
      try_bind (nth_or (module_error (msg ''WebAssembly export has an invalid function index'')) (wm_functions m) (unat index)) (\<lambda>t.
      try_bind (nth_or (module_error (msg ''WebAssembly function has an invalid type index'')) (wm_types m) (unat t)) (\<lambda>s.
        Inr (name, s))))"

definition wasm_function_exports :: "u8 list \<Rightarrow> plugin_error + (string, wasm_signature) btree" where
  "wasm_function_exports bs =
    try_bind (rd_header bs \<lparr>rd_offset = 0, rd_end = length bs\<rparr>) (\<lambda>rd.
    try_bind (rd_sections bs rd \<lparr>wm_types = [], wm_functions = [], wm_exports = []\<rparr>) (\<lambda>m.
      try_map (resolve_export m) (wm_exports m)))"

subsection \<open>The exports of the ABI\<close>

datatype guest_export = InitExport | CallExport | EventExport | UpdateExport | StopExport

definition all_exports :: "guest_export list" where
  "all_exports = [InitExport, CallExport, EventExport, UpdateExport, StopExport]"

fun export_name :: "guest_export \<Rightarrow> string" where
  "export_name InitExport = ''cordis_init''"
| "export_name CallExport = ''cordis_call''"
| "export_name EventExport = ''cordis_event''"
| "export_name UpdateExport = ''cordis_update''"
| "export_name StopExport = ''cordis_stop''"

fun export_phase :: "guest_export \<Rightarrow> string" where
  "export_phase InitExport = ''init''"
| "export_phase CallExport = ''call''"
| "export_phase EventExport = ''event''"
| "export_phase UpdateExport = ''update''"
| "export_phase StopExport = ''stop''"

definition max_wasm_bytes :: nat where
  "max_wasm_bytes = 8 * 1024 * 1024"

definition check_export :: "(string, wasm_signature) btree \<Rightarrow> guest_export \<Rightarrow> plugin_error + unit" where
  "check_export exports e =
    (case bt_get exports (export_name e) of
       None \<Rightarrow> Inl (plugin_error_new ''ABI_EXPORT_MISSING''
         [Text ''module does not export '', Text (export_name e)] ''manifest'')
     | Some (parameters, results) \<Rightarrow>
         if parameters \<noteq> [] \<or> results \<noteq> [0x7F]
         then Inl (plugin_error_new ''ABI_EXPORT_INVALID''
           [Text ''module export '', Text (export_name e), Text '' must have type () -> i32''] ''manifest'')
         else Inr ())"

definition validate_wasm_exports :: "u8 list \<Rightarrow> plugin_error + unit" where
  "validate_wasm_exports bs =
    (if length bs > max_wasm_bytes then Inl (module_error (msg ''module exceeds the 8 MiB size limit''))
     else try_bind (wasm_function_exports bs) (\<lambda>exports. try_each (check_export exports) all_exports))"

end
