(* ===== verification/WasmProps.thy ===== *)
theory WasmProps
  imports WasmModule
begin

section \<open>Modules: properties\<close>

text \<open>
  The reader gives an integer the value of its bytes, and reads back what an encoder of modules wrote:
  for every module within the limits of the format, \<open>validate_wasm_exports\<close> accepts its bytes exactly
  when the module is one of the ABI. \<open>at bs rd ws\<close> says that the reader stands before the bytes \<open>ws\<close>,
  \<open>past rd ws\<close> is the reader behind them.
\<close>

subsection \<open>Bits of a LEB128 integer\<close>
lemma unat_or_push:
  fixes v p :: u32
  assumes v: "unat v < 2 ^ k" and p: "unat p * 2 ^ k + unat v < 2 ^ 32"
  shows "unat (or v (push_bit k p)) = unat v + unat p * 2 ^ k"
proof -
  have push: "unat (push_bit k p) = unat p * 2 ^ k"
    using p by (subst unsigned_push_bit_eq) (simp add: push_bit_eq_mult take_bit_nat_eq_self)
  have "\<not> bit v n" if "k \<le> n" for n
  proof -
    have "unat v < 2 ^ n" by (rule less_le_trans [OF v power_increasing [OF that]]) simp
    then have "\<not> bit (unat v) n" by (simp add: bit_iff_odd)
    then show ?thesis by (simp add: bit_unsigned_iff)
  qed
  then have "and v (push_bit k p) = 0"
    by (intro bit_eqI) (auto simp: bit_and_iff bit_push_bit_iff)
  then have "or v (push_bit k p) = v + push_bit k p"
    by (rule disjunctive_add_eq_or [symmetric])
  moreover have "unat v + unat (push_bit k p) < 2 ^ 32"
    using p push by simp
  ultimately show ?thesis using push
    by (simp add: unat_word_ariths)
qed
lemma unat_low: "unat (ucast (and b 0x7F :: u8) :: u32) = unat b mod 128"
proof -
  have "and b 0x7F = take_bit 7 b" by (simp add: take_bit_eq_mask mask_eq_exp_minus_1)
  then have "unat (and b 0x7F) = unat b mod 128" by (simp add: take_bit_eq_mod unat_mod)
  then show ?thesis by (simp add: unsigned_ucast_eq take_bit_nat_eq_self)
qed
lemma high_bit: "and b 0x80 = (0 :: u8) \<longleftrightarrow> unat b < 128"
proof -
  have "and b 0x80 = 0 \<longleftrightarrow> \<not> bit b 7" using and_exp_eq_0_iff_not_bit [of b 7] by simp
  also have "\<dots> \<longleftrightarrow> \<not> odd (unat b div 128)"
    using bit_unsigned_iff [where 'a = nat, of b 7] by (auto simp: bit_iff_odd possible_bit_def)
  also have "\<dots> \<longleftrightarrow> unat b < 128"
    proof (cases "unat b < 128")
    case False
    have "unat b div 128 = 1"
      by (rule div_nat_eqI) (use False unsigned_less [of b, where 'a = nat] in auto)
    then show ?thesis using False by simp
  qed simp
  finally show ?thesis .
qed

subsection \<open>What stands before a reader\<close>

definition at :: "u8 list \<Rightarrow> wasm_reader \<Rightarrow> u8 list \<Rightarrow> bool" where
  "at bs rd ws \<longleftrightarrow> rd_offset rd + length ws \<le> rd_end rd \<and> rd_end rd \<le> length bs
    \<and> take (length ws) (drop (rd_offset rd) bs) = ws"

definition past :: "wasm_reader \<Rightarrow> u8 list \<Rightarrow> wasm_reader" where
  "past rd ws = rd\<lparr>rd_offset := rd_offset rd + length ws\<rparr>"

lemma past_simps [simp]:
  "rd_offset (past rd ws) = rd_offset rd + length ws" "rd_end (past rd ws) = rd_end rd"
  "past rd [] = rd" "past (past rd ws) us = past rd (ws @ us)"
  by (simp_all add: past_def)

lemma at_append: "at bs rd (ws @ us) \<longleftrightarrow> at bs rd ws \<and> at bs (past rd ws) us"
  by (auto simp: at_def take_add add.commute [of "rd_offset rd"] add.assoc)

lemma at_Cons: "at bs rd (w # ws) \<longleftrightarrow> at bs rd [w] \<and> at bs (past rd [w]) ws"
  using at_append [of bs rd "[w]" ws] by simp

lemma rd_byte_at: "at bs rd (w # ws) \<Longrightarrow> rd_byte bs rd = Inr (w, past rd [w])"
  by (cases "drop (rd_offset rd) bs")
    (auto simp: at_def rd_byte_def past_def nth_via_drop)

lemma rd_bytes_at: "at bs rd ws \<Longrightarrow> rd_bytes (length ws) bs rd = Inr (ws, past rd ws)"
  by (auto simp: at_def rd_bytes_def past_def)

subsection \<open>Integers\<close>

fun leb :: "nat \<Rightarrow> u8 list" where
  "leb n = (if n < 128 then [word_of_nat n] else word_of_nat (128 + n mod 128) # leb (n div 128))"

declare leb.simps [simp del]

lemma unat_small: "m < 256 \<Longrightarrow> unat (word_of_nat m :: u8) = m"
  by (simp add: unat_of_nat take_bit_nat_eq_self)

lemma leb_Cons:
  "\<exists>b. leb n = b # (if n < 128 then [] else leb (n div 128)) \<and> unat b mod 128 = n mod 128 \<and> (unat b < 128 \<longleftrightarrow> n < 128)"
  using unat_small [of n] unat_small [of "128 + n mod 128"]
  by (cases "n < 128") (simp_all add: leb.simps [of n] del: of_nat_add)

lemma rd_u32_from_leb:
  assumes "at bs rd (leb n)" and "unat v < 2 ^ (i * 7)" and "n * 2 ^ (i * 7) + unat v < 2 ^ 32" and "i = 0 \<or> 0 < n"
  shows "rd_u32_from bs i v rd = Inr (word_of_nat (n * 2 ^ (i * 7) + unat v), past rd (leb n))"
  using assms
proof (induction n arbitrary: i v rd rule: leb.induct)
  case (1 n)
  have i: "i < 5"
  proof (rule ccontr)
    assume "\<not> i < 5"
    then have "(2 ^ 35 :: nat) \<le> 2 ^ (i * 7)" by (intro power_increasing) auto
    also have "\<dots> \<le> n * 2 ^ (i * 7)" using 1(5) \<open>\<not> i < 5\<close> by simp
    finally show False using 1(4) by simp
  qed
  obtain b where ws: "leb n = b # (if n < 128 then [] else leb (n div 128))"
    and low: "unat b mod 128 = n mod 128" and high: "unat b < 128 \<longleftrightarrow> n < 128"
    using leb_Cons by blast
  note byte = rd_byte_at [OF 1(2) [unfolded ws]]
  define p :: u32 where "p = ucast (and b 0x7F)"
  define v' where "v' = or v (push_bit (i * 7) p)"
  have p: "unat p = n mod 128" unfolding p_def unat_low by (rule low)
  have le: "(n mod 128) * 2 ^ (i * 7) \<le> n * 2 ^ (i * 7)" by (intro mult_right_mono) auto
  have v': "unat v' = unat v + (n mod 128) * 2 ^ (i * 7)"
    using unat_or_push [OF 1(3), of p] 1(4) le unfolding v'_def p by linarith
  have top: "(i = 4 \<and> p > 0x0F) = False"
    using 1(4) p by (auto simp: word_less_nat_alt)
  have "rd_u32_from bs i v rd =
      (if n < 128 then Inr (v', past rd [b]) else rd_u32_from bs (Suc i) v' (past rd [b]))"
    using i high
    by (subst rd_u32_from.simps) (simp add: byte high_bit Let_def top flip: p_def v'_def del: One_nat_def)
  also have "\<dots> = Inr (word_of_nat (n * 2 ^ (i * 7) + unat v), past rd (leb n))"
  proof (cases "n < 128")
    case True
    have "v' = word_of_nat (unat v')" by simp
    also have "\<dots> = word_of_nat (n * 2 ^ (i * 7) + unat v)" using True v' by (simp only: mod_less add.commute)
    finally show ?thesis using True ws by simp
  next
    case False
    have "(n div 128 * 128 + n mod 128) * 2 ^ (i * 7) = n div 128 * (128 * 2 ^ (i * 7)) + n mod 128 * 2 ^ (i * 7)"
      by (simp only: add_mult_distrib mult.assoc)
    then have split: "n * 2 ^ (i * 7) = n div 128 * (128 * 2 ^ (i * 7)) + n mod 128 * 2 ^ (i * 7)"
      by (simp only: div_mult_mod_eq)
    have whole: "n div 128 * 2 ^ (Suc i * 7) + unat v' = n * 2 ^ (i * 7) + unat v"
      unfolding v' split by (simp add: power_add)
    have "(n mod 128) * 2 ^ (i * 7) \<le> 127 * 2 ^ (i * 7)" by (intro mult_right_mono) auto
    then have "unat v' < 128 * 2 ^ (i * 7)" using 1(3) v' by linarith
    then have small: "unat v' < 2 ^ (Suc i * 7)" by (simp add: power_add)
    have "at bs (past rd [b]) (leb (n div 128))"
      using 1(2) False ws at_append [of bs rd "[b]" "leb (n div 128)"] by simp
    then have "rd_u32_from bs (Suc i) v' (past rd [b]) =
        Inr (word_of_nat (n * 2 ^ (i * 7) + unat v), past (past rd [b]) (leb (n div 128)))"
      using 1(1) [OF False _ small] 1(4) False unfolding whole by (simp del: of_nat_add of_nat_mult)
    then show ?thesis using False ws by (simp del: of_nat_add of_nat_mult)
  qed
  finally show ?case .
qed

fun leb_value :: "u8 list \<Rightarrow> nat" where
  "leb_value [] = 0"
| "leb_value (b # bs) = unat b mod 128 + 128 * leb_value bs"

lemma rd_u32_from_value:
  assumes "rd_u32_from bs i v rd = Inr (n, rd')" and "unat v < 2 ^ (i * 7)" and "rd_end rd \<le> length bs"
    and "rd_offset rd \<le> rd_end rd"
  shows "unat n = unat v + leb_value (take (rd_offset rd' - rd_offset rd) (drop (rd_offset rd) bs)) * 2 ^ (i * 7)"
  using assms
proof (induction bs i v rd rule: rd_u32_from.induct)
  case (1 bs i v rd)
  from 1(2) obtain b rd1 where i: "\<not> 5 \<le> i" and b: "rd_byte bs rd = Inr (b, rd1)"
    by (subst (asm) rd_u32_from.simps) (auto simp: try_bind_eq_Inr split: if_splits)
  define p :: u32 where "p = ucast (and b 0x7F)"
  define v' where "v' = or v (push_bit (i * 7) p)"
  have p: "unat p = unat b mod 128" unfolding p_def by (rule unat_low)
  have rd1: "rd1 = rd\<lparr>rd_offset := Suc (rd_offset rd)\<rparr>" and at_b: "bs ! rd_offset rd = b" and "rd_offset rd < rd_end rd"
    using b 1(5) by (auto simp: rd_byte_def split: if_splits)
  then have bytes: "drop (rd_offset rd) bs = b # drop (Suc (rd_offset rd)) bs"
    using 1(4) by (metis Cons_nth_drop_Suc less_le_trans)
  have r: "(if i = 4 \<and> p > 0x0F then Inl invalid_integer
      else if unat b < 128 then Inr (v', rd1) else rd_u32_from bs (Suc i) v' rd1) = Inr (n, rd')"
    using 1(2) i by (subst (asm) rd_u32_from.simps) (simp add: b high_bit Let_def cong: if_cong flip: p_def v'_def)
  then have ok: "\<not> (i = 4 \<and> p > 0x0F)" by (auto split: if_splits)
  with ok have top: "i = 4 \<Longrightarrow> unat p < 16" by (auto simp: word_less_nat_alt)
  have fit: "unat p * 2 ^ (i * 7) + unat v < 2 ^ 32"
  proof -
    have "unat p < 128" by (simp add: p)
    moreover have "i = 0 \<or> i = 1 \<or> i = 2 \<or> i = 3 \<or> i = 4" using i by auto
    ultimately show ?thesis using 1(3) top by (elim disjE) simp_all
  qed
  then have v': "unat v' = unat v + (unat b mod 128) * 2 ^ (i * 7)"
    unfolding v'_def p [symmetric] by (rule unat_or_push [OF 1(3)])
  have "unat b mod 128 * 2 ^ (i * 7) \<le> 127 * 2 ^ (i * 7)" by (intro mult_right_mono) auto
  then have "unat v' < 128 * 2 ^ (i * 7)" using 1(3) v' by linarith
  then have small: "unat v' < 2 ^ (Suc i * 7)" by (simp add: power_add)
  show ?case
  proof (cases "unat b < 128")
    case True
    then have "n = v'" "rd_offset rd' = Suc (rd_offset rd)" using r rd1 by (auto split: if_splits)
    then show ?thesis using v' by (simp add: bytes)
  next
    case False
    then have high: "and b 0x80 \<noteq> 0" by (simp add: high_bit)
    have next_: "rd_u32_from bs (Suc i) v' rd1 = Inr (n, rd')" using r False by (auto split: if_splits)
    have "unat n = unat v' + leb_value (take (rd_offset rd' - rd_offset rd1) (drop (rd_offset rd1) bs)) * 2 ^ (Suc i * 7)"
      using 1(1) [OF i b refl refl ok [unfolded p_def] refl high next_ [unfolded v'_def p_def]] small 1(4) rd1 \<open>rd_offset rd < rd_end rd\<close>
      unfolding v'_def p_def by simp
    moreover have "rd_offset rd' - rd_offset rd = Suc (rd_offset rd' - rd_offset rd1)"
      using rd_u32_from_moves [OF next_] rd1 by (simp add: Suc_diff_Suc)
    ultimately show ?thesis using v' rd1 by (simp add: bytes power_add algebra_simps)
  qed
qed
lemma rd_u32_at: "at bs rd (leb n) \<Longrightarrow> n < 2 ^ 32 \<Longrightarrow> rd_u32 bs rd = Inr (word_of_nat n, past rd (leb n))"
  unfolding rd_u32_def using rd_u32_from_leb [of bs rd n 0 0] by simp

lemma rd_word_at: "at bs rd (leb (unat n)) \<Longrightarrow> rd_u32 bs rd = Inr (n :: u32, past rd (leb (unat n)))"
  using rd_u32_at [of bs rd "unat n"] unsigned_less [of n, where 'a = nat] by simp

subsection \<open>An encoder of modules\<close>

definition name_bytes :: "string \<Rightarrow> u8 list" where
  "name_bytes s = map (\<lambda>c. word_of_nat (byte_of c)) s"

definition encode_name :: "string \<Rightarrow> u8 list" where
  "encode_name s = leb (length s) @ name_bytes s"

definition name_ok :: "string \<Rightarrow> bool" where
  "name_ok s \<longleftrightarrow> length s < 2 ^ 32 \<and> utf8_valid (map byte_of s)"

lemma name_bytes_read [simp]: "map unat (name_bytes s) = map byte_of s" "byte_string (name_bytes s) = s"
  "length (name_bytes s) = length s"
  by (simp_all add: name_bytes_def byte_string_def comp_def unat_small map_idI)

lemma rd_name_at: "at bs rd (encode_name s) \<Longrightarrow> name_ok s \<longrightarrow> rd_name bs rd = Inr (s, past rd (encode_name s))"
  using rd_u32_at [of bs rd "length s"] rd_bytes_at [of bs "past rd (leb (length s))" "name_bytes s"]
  by (simp add: encode_name_def at_append name_ok_def rd_name_def unat_of_nat take_bit_nat_eq_self)

fun encode_signature :: "wasm_signature \<Rightarrow> u8 list" where
  "encode_signature (ps, rs) = 0x60 # leb (length ps) @ ps @ leb (length rs) @ rs"

fun encode_import :: "string \<times> string \<times> u32 \<Rightarrow> u8 list" where
  "encode_import (m, n, t) = encode_name m @ encode_name n @ 0 # leb (unat t)"

fun encode_export :: "string \<times> u8 \<times> u32 \<Rightarrow> u8 list" where
  "encode_export (n, k, i) = encode_name n @ k # leb (unat i)"

datatype wasm_part =
    TypePart "wasm_signature list"
  | ImportPart "(string \<times> string \<times> u32) list"
  | FunctionPart "u32 list"
  | ExportPart "(string \<times> u8 \<times> u32) list"
  | OtherPart u8 "u8 list"

fun part_id :: "wasm_part \<Rightarrow> u8" where
  "part_id (TypePart _) = 1"
| "part_id (ImportPart _) = 2"
| "part_id (FunctionPart _) = 3"
| "part_id (ExportPart _) = 7"
| "part_id (OtherPart i _) = i"

definition counted :: "('a \<Rightarrow> u8 list) \<Rightarrow> 'a list \<Rightarrow> u8 list" where
  "counted f xs = leb (length xs) @ concat (map f xs)"

fun part_body :: "wasm_part \<Rightarrow> u8 list" where
  "part_body (TypePart ts) = counted encode_signature ts"
| "part_body (ImportPart fs) = counted encode_import fs"
| "part_body (FunctionPart fs) = counted (\<lambda>f. leb (unat f)) fs"
| "part_body (ExportPart es) = counted encode_export es"
| "part_body (OtherPart _ bs) = bs"

definition encode_part :: "wasm_part \<Rightarrow> u8 list" where
  "encode_part p = part_id p # leb (length (part_body p)) @ part_body p"

definition encode_module :: "wasm_part list \<Rightarrow> u8 list" where
  "encode_module ps = wasm_magic @ wasm_version @ concat (map encode_part ps)"

subsection \<open>What a module says\<close>

fun part_types :: "wasm_part \<Rightarrow> wasm_signature list" where
  "part_types (TypePart ts) = ts"
| "part_types _ = []"

fun part_functions :: "wasm_part \<Rightarrow> u32 list" where
  "part_functions (ImportPart fs) = map (\<lambda>(_, _, t). t) fs"
| "part_functions (FunctionPart fs) = fs"
| "part_functions _ = []"

fun part_exports :: "wasm_part \<Rightarrow> (string \<times> u32) list" where
  "part_exports (ExportPart es) = [(n, i). (n, k, i) \<leftarrow> es, k = 0]"
| "part_exports _ = []"

definition small :: "'a list \<Rightarrow> bool" where
  "small xs \<longleftrightarrow> length xs < 2 ^ 32"

fun part_ok :: "wasm_part \<Rightarrow> bool" where
  "part_ok (TypePart ts) = (small ts \<and> (\<forall>(ps, rs)\<in>set ts. small ps \<and> small rs))"
| "part_ok (ImportPart fs) = (small fs \<and> (\<forall>(m, n, _)\<in>set fs. name_ok m \<and> name_ok n))"
| "part_ok (FunctionPart fs) = small fs"
| "part_ok (ExportPart es) = (small es \<and> (\<forall>(n, _)\<in>set es. name_ok n))"
| "part_ok (OtherPart i _) = (i \<notin> {1, 2, 3, 7})"

definition module_ok :: "wasm_part list \<Rightarrow> bool" where
  "module_ok ps \<longleftrightarrow> (\<forall>p\<in>set ps. part_ok p \<and> small (part_body p))
    \<and> distinct (map fst (concat (map part_exports ps)))"

subsection \<open>Reading what was written\<close>

lemma unat_count [simp]: "small xs \<Longrightarrow> unat (word_of_nat (length xs) :: u32) = length xs"
  by (simp add: small_def unat_of_nat take_bit_nat_eq_self)

lemma rd_count_at: "at bs rd (leb (length xs)) \<Longrightarrow> small xs \<longrightarrow>
    rd_u32 bs rd = Inr (word_of_nat (length xs), past rd (leb (length xs)))"
  unfolding small_def using rd_u32_at by blast

lemma at_Cons_append: "at bs rd (w # ws @ us) \<longleftrightarrow> at bs rd [w] \<and> at bs (past rd [w]) (ws @ us)"
  using at_append [of bs rd "[w]" "ws @ us"] by simp

lemma at_Cons_leb: "at bs rd (w # leb n) \<longleftrightarrow> at bs rd [w] \<and> at bs (past rd [w]) (leb n)"
  using at_append [of bs rd "[w]" "leb n"] by simp

lemmas at_parts = at_append at_Cons_append at_Cons_leb
lemmas rd_at = rd_byte_at [of _ _ _ "[]"] rd_count_at rd_word_at rd_name_at

lemma rd_types_at:
  "at bs rd (concat (map encode_signature ts)) \<Longrightarrow> \<forall>(ps, rs)\<in>set ts. small ps \<and> small rs \<Longrightarrow>
    rd_types (length ts) bs rd acc = Inr (acc @ ts, past rd (concat (map encode_signature ts)))"
proof (induction ts arbitrary: rd acc)
  case (Cons t ts)
  obtain ps rs where t: "t = (ps, rs)" by (cases t)
  with Cons show ?case by (auto simp: at_parts rd_bytes_at dest!: rd_at)
qed simp

lemma rd_imports_at:
  "at bs rd (concat (map encode_import fs)) \<Longrightarrow> \<forall>(m, n, _)\<in>set fs. name_ok m \<and> name_ok n \<Longrightarrow>
    rd_imports (length fs) bs rd acc = Inr (acc @ map (\<lambda>(_, _, t). t) fs, past rd (concat (map encode_import fs)))"
proof (induction fs arbitrary: rd acc)
  case (Cons f fs)
  obtain m n t where f: "f = (m, n, t)" by (cases f)
  with Cons show ?case by (auto simp: at_parts rd_bytes_at dest!: rd_at)
qed simp

lemma rd_functions_at:
  "at bs rd (concat (map (\<lambda>f. leb (unat f)) fs)) \<Longrightarrow>
    rd_functions (length fs) bs rd acc = Inr (acc @ fs, past rd (concat (map (\<lambda>f. leb (unat f)) fs)))"
proof (induction fs arbitrary: rd acc)
  case (Cons f fs)
  then show ?case by (auto simp: at_parts rd_bytes_at dest!: rd_at)
qed simp

definition insert_all :: "(string \<times> u32) list \<Rightarrow> (string, u32) btree \<Rightarrow> (string, u32) btree" where
  "insert_all es m = fold (\<lambda>(n, i). bt_insert n i) es m"

lemma insert_all_simps [simp]:
  "insert_all [] m = m" "insert_all ((n, i) # es) m = insert_all es (bt_insert n i m)"
  "insert_all (es @ fs) m = insert_all fs (insert_all es m)"
  by (simp_all add: insert_all_def)

lemma insert_all_wf: "bt_wf m \<Longrightarrow> bt_wf (insert_all es m)"
  by (induction es arbitrary: m) auto

definition fresh :: "(string \<times> u32) list \<Rightarrow> (string, u32) btree \<Rightarrow> bool" where
  "fresh es m \<longleftrightarrow> distinct (map fst es) \<and> (\<forall>e\<in>set es. \<not> bt_contains m (fst e))"

lemma fresh_Cons [simp]: "fresh ((n, i) # es) m \<longleftrightarrow> \<not> bt_contains m n \<and> fresh es (bt_insert n i m)"
  by (auto simp: fresh_def bt_contains_def)

lemma fresh_append: "fresh (es @ fs) m \<longleftrightarrow> fresh es m \<and> fresh fs (insert_all es m)"
  by (induction es arbitrary: m) (auto simp: fresh_def [of "[]"])

lemma insert_all_get: "fresh es m \<Longrightarrow> bt_get (insert_all es m) n = Some i \<longleftrightarrow> (n, i) \<in> set es \<or> bt_get m n = Some i"
proof (induction es arbitrary: m)
  case (Cons e es)
  then show ?case by (cases e) (auto simp: bt_contains_def)
qed simp

lemma rd_exports_at:
  "at bs rd (concat (map encode_export es)) \<Longrightarrow> \<forall>(n, _)\<in>set es. name_ok n \<Longrightarrow> fresh (part_exports (ExportPart es)) m \<Longrightarrow>
    rd_exports (length es) bs rd m = Inr (insert_all (part_exports (ExportPart es)) m, past rd (concat (map encode_export es)))"
proof (induction es arbitrary: rd m)
  case (Cons e es)
  obtain n k i where e: "e = (n, k, i)" by (cases e)
  with Cons show ?case by (auto simp: at_parts rd_bytes_at dest!: rd_at)
qed simp

definition add_part :: "wasm_part \<Rightarrow> wasm_module \<Rightarrow> wasm_module" where
  "add_part p m = m\<lparr>wm_types := wm_types m @ part_types p, wm_functions := wm_functions m @ part_functions p,
     wm_exports := insert_all (part_exports p) (wm_exports m)\<rparr>"

lemma rd_section_at:
  assumes "at bs rd (part_body p)" and "part_ok p" and "rd_end rd = rd_offset rd + length (part_body p)"
    and "fresh (part_exports p) (wm_exports m)"
  shows "rd_section (part_id p) bs rd m = Inr (add_part p m, past rd (part_body p))"
  using assms
  by (cases p) (auto simp: rd_section_def counted_def at_parts add_part_def rd_types_at rd_imports_at rd_functions_at
      rd_exports_at past_def dest!: rd_count_at)

lemma at_within: "at bs rd ws \<Longrightarrow> at bs (rd\<lparr>rd_end := rd_offset rd + length ws\<rparr>) ws"
  by (simp add: at_def)

lemma rd_sections_at:
  assumes "at bs rd (concat (map encode_part ps))" and "rd_end rd = rd_offset rd + length (concat (map encode_part ps))"
    and "\<forall>p\<in>set ps. part_ok p \<and> small (part_body p)" and "fresh (concat (map part_exports ps)) (wm_exports m)"
  shows "rd_sections bs rd m = Inr (fold add_part ps m)"
  using assms
proof (induction ps arbitrary: rd m)
  case Nil
  then show ?case by (simp add: rd_sections.simps)
next
  case (Cons p ps)
  define n where "n = length (part_body p)"
  define rd2 where "rd2 = past rd (part_id p # leb n)"
  have ok: "part_ok p" "small (part_body p)" and new: "fresh (part_exports p) (wm_exports m)"
    using Cons.prems by (auto simp: fresh_append)
  have byte: "rd_byte bs rd = Inr (part_id p, past rd [part_id p])"
    and len: "rd_u32 bs (past rd [part_id p]) = Inr (word_of_nat n, rd2)"
    and body: "at bs rd2 (part_body p)" and rest: "at bs (past rd (encode_part p)) (concat (map encode_part ps))"
    using Cons.prems(1) ok(2) unfolding n_def rd2_def
    by (auto simp: at_parts encode_part_def [of p] dest!: rd_at)
  have n: "unat (word_of_nat n :: u32) = n" unfolding n_def by (rule unat_count [OF ok(2)])
  have ends: "rd_offset rd2 + n \<le> rd_end rd" "rd_offset rd < rd_end rd"
    using Cons.prems(2) by (auto simp: rd2_def n_def encode_part_def)
  have "rd_section (part_id p) bs (rd2\<lparr>rd_end := rd_offset rd2 + n\<rparr>) m =
      Inr (add_part p m, past (rd2\<lparr>rd_end := rd_offset rd2 + n\<rparr>) (part_body p))"
    using at_within [OF body] unfolding n_def by (intro rd_section_at) (use ok new in auto)
  then have "rd_sections bs rd m = rd_sections bs (past rd (encode_part p)) (add_part p m)"
    using ends byte len n
    by (subst rd_sections.simps) (simp add: rd2_def n_def encode_part_def past_def add.assoc)
  also have "\<dots> = Inr (fold add_part ps (add_part p m))"
    by (rule Cons.IH [OF rest]) (use Cons.prems in \<open>auto simp: fresh_append add_part_def\<close>)
  finally show ?case by simp
qed

definition module_types :: "wasm_part list \<Rightarrow> wasm_signature list" where
  "module_types ps = concat (map part_types ps)"

definition module_functions :: "wasm_part list \<Rightarrow> u32 list" where
  "module_functions ps = concat (map part_functions ps)"

definition module_exports :: "wasm_part list \<Rightarrow> (string \<times> u32) list" where
  "module_exports ps = concat (map part_exports ps)"

lemma fold_add_part:
  "fold add_part ps m = m\<lparr>wm_types := wm_types m @ module_types ps, wm_functions := wm_functions m @ module_functions ps,
     wm_exports := insert_all (module_exports ps) (wm_exports m)\<rparr>"
  by (induction ps arbitrary: m) (simp_all add: module_types_def module_functions_def module_exports_def add_part_def)

lemma fresh_none [simp]: "fresh es [] \<longleftrightarrow> distinct (map fst es)"
  by (simp add: fresh_def bt_contains_def)

lemma magic_length: "length wasm_magic = 4" "length wasm_version = 4"
  by (simp_all add: wasm_magic_def wasm_version_def)

lemma wasm_function_exports_at:
  assumes "module_ok ps"
  shows "wasm_function_exports (encode_module ps) =
    try_map (resolve_export \<lparr>wm_types = module_types ps, wm_functions = module_functions ps,
      wm_exports = insert_all (module_exports ps) []\<rparr>) (insert_all (module_exports ps) [])"
proof -
  let ?bs = "encode_module ps"
  let ?rd = "\<lparr>rd_offset = 0, rd_end = length ?bs\<rparr>"
  have "at ?bs ?rd ?bs" by (simp add: at_def)
  then have "at ?bs ?rd wasm_magic" and "at ?bs (past ?rd wasm_magic) wasm_version"
    and rest: "at ?bs (past ?rd (wasm_magic @ wasm_version)) (concat (map encode_part ps))"
    unfolding encode_module_def by (simp_all only: at_append past_simps)
  then have "rd_header ?bs ?rd = Inr (past ?rd (wasm_magic @ wasm_version))"
    using rd_bytes_at [of ?bs ?rd wasm_magic] rd_bytes_at [of ?bs "past ?rd wasm_magic" wasm_version]
    unfolding magic_length by (simp add: rd_header_def)
  moreover have "rd_sections ?bs (past ?rd (wasm_magic @ wasm_version)) \<lparr>wm_types = [], wm_functions = [], wm_exports = []\<rparr>
      = Inr (fold add_part ps \<lparr>wm_types = [], wm_functions = [], wm_exports = []\<rparr>)"
    by (rule rd_sections_at [OF rest]) (use assms in \<open>auto simp: module_ok_def encode_module_def\<close>)
  ultimately show ?thesis
    by (simp add: wasm_function_exports_def fold_add_part)
qed

text \<open>The module a host accepts: every exported function exists with its type, and the five of the ABI have theirs.\<close>

definition export_signature :: "wasm_part list \<Rightarrow> u32 \<Rightarrow> wasm_signature option" where
  "export_signature ps i =
    (if unat i < length (module_functions ps) \<and> unat (module_functions ps ! unat i) < length (module_types ps)
     then Some (module_types ps ! unat (module_functions ps ! unat i)) else None)"

definition abi_ok :: "wasm_part list \<Rightarrow> bool" where
  "abi_ok ps \<longleftrightarrow> (\<forall>(n, i)\<in>set (module_exports ps). export_signature ps i \<noteq> None)
    \<and> (\<forall>e\<in>set all_exports. \<exists>i. (export_name e, i) \<in> set (module_exports ps) \<and> export_signature ps i = Some ([], [0x7F]))"

lemma resolve_export_signature:
  "resolve_export \<lparr>wm_types = module_types ps, wm_functions = module_functions ps, wm_exports = es\<rparr> (n, i) = Inr r \<longleftrightarrow>
    (\<exists>s. export_signature ps i = Some s \<and> r = (n, s))"
  by (auto simp: resolve_export_def nth_or_def export_signature_def)

lemma resolved:
  assumes "try_map (resolve_export \<lparr>wm_types = module_types ps, wm_functions = module_functions ps, wm_exports = es\<rparr>) xs = Inr ys"
  shows "bt_get ys n = Option.bind (bt_get xs n) (export_signature ps)"
  using assms
proof (induction xs arbitrary: ys)
  case (Cons x xs)
  then show ?case
    by (cases x) (auto simp: try_bind_eq_Inr resolve_export_signature bt_get_def)
qed (simp add: bt_get_def)

lemma resolves:
  "(\<exists>ys. try_map (resolve_export \<lparr>wm_types = module_types ps, wm_functions = module_functions ps, wm_exports = es\<rparr>) xs = Inr ys)
    \<longleftrightarrow> (\<forall>(n, i)\<in>set xs. export_signature ps i \<noteq> None)"
proof (induction xs)
  case (Cons x xs)
  then show ?case
    by (cases x) (auto simp: try_bind_eq_Inr resolve_export_signature)
qed simp

lemma check_export_ok:
  "check_export exports e = Inr () \<longleftrightarrow> bt_get exports (export_name e) = Some ([], [0x7F])"
  by (auto simp: check_export_def split: option.splits prod.splits)

text \<open>C31: For every module of types, imports, functions, exports and other sections, within the 32-bit
  limits of the format, with well-formed names and no function exported twice: its binary is accepted
  if and only if it is no longer than 8 MiB, every exported function has a type, and each of the five
  exports of the ABI is a function of type () -> i32.
\<close>

theorem module_accepted_iff_abi:
  assumes "module_ok ps"
  shows "validate_wasm_exports (encode_module ps) = Inr () \<longleftrightarrow> length (encode_module ps) \<le> max_wasm_bytes \<and> abi_ok ps"
proof -
  let ?es = "insert_all (module_exports ps) []"
  let ?f = "resolve_export \<lparr>wm_types = module_types ps, wm_functions = module_functions ps, wm_exports = ?es\<rparr>"
  have distinct: "fresh (module_exports ps) []" using assms by (simp add: module_ok_def module_exports_def)
  have get: "bt_get ?es n = Some i \<longleftrightarrow> (n, i) \<in> set (module_exports ps)" for n i
    using insert_all_get [OF distinct] by simp
  have entries: "set ?es = set (module_exports ps)"
    using bt_get_set [OF insert_all_wf, of "[]"] get by auto
  have "validate_wasm_exports (encode_module ps) = Inr () \<longleftrightarrow> length (encode_module ps) \<le> max_wasm_bytes \<and>
      (\<exists>ys. try_map ?f ?es = Inr ys \<and> (\<forall>e\<in>set all_exports. bt_get ys (export_name e) = Some ([], [0x7F])))"
    by (auto simp: validate_wasm_exports_def wasm_function_exports_at [OF assms] try_bind_eq_Inr try_each_ok check_export_ok)
  also have "\<dots> \<longleftrightarrow> length (encode_module ps) \<le> max_wasm_bytes \<and> (\<exists>ys. try_map ?f ?es = Inr ys) \<and>
      (\<forall>e\<in>set all_exports. Option.bind (bt_get ?es (export_name e)) (export_signature ps) = Some ([], [0x7F]))"
    using resolved by metis
  also have "\<dots> \<longleftrightarrow> length (encode_module ps) \<le> max_wasm_bytes \<and> abi_ok ps"
    by (simp add: resolves entries abi_ok_def bind_eq_Some_conv get)
  finally show ?thesis .
qed

definition sample_module :: "wasm_part list" where
  "sample_module = [OtherPart 0 [0x61], TypePart [([0x7E], []), ([], [0x7F])], ImportPart [(''env'', ''log'', 0)],
     FunctionPart [1], ExportPart ((''memory'', 2, 0) # map (\<lambda>e. (export_name e, 0, 1)) all_exports)]"

theorem module_accepted_iff_abi_witness: "validate_wasm_exports (encode_module sample_module) = Inr ()"
proof -
  have leb: "leb n = [word_of_nat n]" if "n < 128" for n
    using that by (simp add: leb.simps [of n])
  have len: "length (encode_module sample_module) \<le> max_wasm_bytes"
    by (simp add: sample_module_def encode_module_def encode_part_def counted_def leb all_exports_def encode_name_def
        wasm_magic_def wasm_version_def max_wasm_bytes_def)
  have "module_ok sample_module"
    by (simp add: sample_module_def module_ok_def small_def counted_def leb all_exports_def encode_name_def name_ok_def
        utf8_width_def)
  moreover have "abi_ok sample_module"
    by (simp add: abi_ok_def sample_module_def all_exports_def module_exports_def export_signature_def
        module_functions_def module_types_def)
  ultimately show ?thesis using module_accepted_iff_abi [of sample_module] len by simp
qed

text \<open>C32: An integer of a module that is read has the value of its bytes, seven bits each, least significant
  first: no bit is dropped, and a value of more than 32 bits is refused.
\<close>

theorem integer_exact: "rd_offset rd \<le> rd_end rd \<Longrightarrow> rd_end rd \<le> length bs \<Longrightarrow> rd_u32 bs rd = Inr (n, rd') \<Longrightarrow>
    unat n = leb_value (take (rd_offset rd' - rd_offset rd) (drop (rd_offset rd) bs))"
  unfolding rd_u32_def using rd_u32_from_value [of bs 0 0 rd n rd'] by simp

theorem integer_exact_witness: "rd_u32 [0xE5, 0x8E, 0x26] \<lparr>rd_offset = 0, rd_end = 3\<rparr> = Inr (624485, \<lparr>rd_offset = 3, rd_end = 3\<rparr>)
    \<and> unat (624485 :: u32) = leb_value [0xE5, 0x8E, 0x26]"
proof -
  have r: "rd_u32 [0xE5, 0x8E, 0x26] \<lparr>rd_offset = 0, rd_end = 3\<rparr> = Inr (624485, \<lparr>rd_offset = 3, rd_end = 3\<rparr>)"
    by code_simp
  with integer_exact [OF _ _ r] show ?thesis by simp
qed

end
