(* ===== verification/WasmSchema.thy ===== *)
theory WasmSchema
  imports Json Errors
begin

section \<open>Configuration schemas of WebAssembly plugins (tessivum-extism)\<close>

text \<open>
  The subset of JSON Schema of a plugin's manifest: \<open>validate_schema\<close> looks at the shape of a schema,
  \<open>validate_config\<close> checks a configuration against it. Both take the schema as the JSON value it is.
\<close>

definition manifest_error :: "message \<Rightarrow> plugin_error" where
  "manifest_error m = plugin_error_new ''MANIFEST_INVALID'' m ''manifest''"

definition config_invalid :: "message \<Rightarrow> plugin_error" where
  "config_invalid m = plugin_error_new ''CONFIG_INVALID'' m ''config''"

lemma bt_get_size: "bt_get m k = Some v \<Longrightarrow> size v < size (JObj m)"
proof -
  assume "bt_get m k = Some v"
  then have "(k, v) \<in> set m" by (simp add: bt_get_def map_of_SomeD)
  then have "size_prod (\<lambda>_. 0) size (k, v) \<le> size_list (size_prod (\<lambda>_. 0) size) m"
    by (rule size_list_estimation') simp
  then show ?thesis by simp
qed

lemma as_object_Some [simp]: "as_object v = Some m \<longleftrightarrow> v = JObj m"
  by (cases v) auto

lemma as_object_size: "Option.bind (bt_get m (k :: string)) as_object = Some ps \<Longrightarrow> size_list (size_prod (\<lambda>_. 0) size) ps < size_list (size_prod (\<lambda>_. 0) size) m"
  using bt_get_size [of m k "JObj ps"] by (auto simp: bind_eq_Some_conv)

subsection \<open>The shape of a schema\<close>

definition schema_kinds :: "string list" where
  "schema_kinds = [''null'', ''boolean'', ''integer'', ''number'', ''string'', ''array'', ''object'']"

definition check_kind :: "(string, json) btree \<Rightarrow> string \<Rightarrow> plugin_error + unit" where
  "check_kind m path =
    (case bt_get m ''type'' of
       None \<Rightarrow> Inr ()
     | Some k \<Rightarrow>
         (case as_str k of
            None \<Rightarrow> Inl (manifest_error [Text path, Text ''.type must be a string''])
          | Some k \<Rightarrow>
              if k \<in> set schema_kinds then Inr ()
              else Inl (manifest_error [Text path, Text ''.type is unsupported''])))"

fun check_names :: "json list \<Rightarrow> (string, json) btree option \<Rightarrow> string set \<Rightarrow> string \<Rightarrow> plugin_error + unit" where
  "check_names [] ps seen path = Inr ()"
| "check_names (n # ns) ps seen path =
    (case as_str n of
       None \<Rightarrow> Inl (manifest_error [Text path, Text ''.required must contain strings''])
     | Some s \<Rightarrow>
         if s \<in> seen then Inl (manifest_error [Text path, Text ''.required contains duplicate '', Text s])
         else if (case ps of None \<Rightarrow> True | Some ps \<Rightarrow> \<not> bt_contains ps s)
         then Inl (manifest_error [Text path, Text ''.required references missing property '', Text s])
         else check_names ns ps (insert s seen) path)"

definition check_required :: "(string, json) btree \<Rightarrow> string \<Rightarrow> plugin_error + unit" where
  "check_required m path =
    (case bt_get m ''required'' of
       None \<Rightarrow> Inr ()
     | Some r \<Rightarrow>
         (case as_array r of
            None \<Rightarrow> Inl (manifest_error [Text path, Text ''.required must be an array''])
          | Some ns \<Rightarrow> check_names ns (Option.bind (bt_get m ''properties'') as_object) {} path))"

definition check_additional :: "(string, json) btree \<Rightarrow> string \<Rightarrow> plugin_error + unit" where
  "check_additional m path =
    (case bt_get m ''additionalProperties'' of
       None \<Rightarrow> Inr ()
     | Some a \<Rightarrow>
         if as_bool a \<noteq> None then Inr ()
         else Inl (manifest_error [Text path, Text ''.additionalProperties must be a boolean'']))"

definition check_enum :: "(string, json) btree \<Rightarrow> string \<Rightarrow> plugin_error + unit" where
  "check_enum m path =
    (case bt_get m ''enum'' of
       None \<Rightarrow> Inr ()
     | Some e \<Rightarrow> if as_array e \<noteq> None then Inr () else Inl (manifest_error [Text path, Text ''.enum must be an array'']))"

function check_schema :: "json \<Rightarrow> string \<Rightarrow> plugin_error + unit"
  and check_properties :: "(string \<times> json) list \<Rightarrow> string \<Rightarrow> plugin_error + unit" where
  "check_schema schema path =
    (case as_object schema of
       None \<Rightarrow> Inl (manifest_error [Text path, Text '' must be an object''])
     | Some m \<Rightarrow>
         try_bind (check_kind m path) (\<lambda>_.
         try_bind (case bt_get m ''properties'' of
             None \<Rightarrow> Inr ()
           | Some p \<Rightarrow>
               (case as_object p of
                  None \<Rightarrow> Inl (manifest_error [Text path, Text ''.properties must be an object''])
                | Some ps \<Rightarrow> check_properties ps path)) (\<lambda>_.
         try_bind (check_required m path) (\<lambda>_.
         try_bind (check_additional m path) (\<lambda>_.
         try_bind (case bt_get m ''items'' of
             None \<Rightarrow> Inr ()
           | Some i \<Rightarrow> check_schema i (path @ ''.items'')) (\<lambda>_.
           check_enum m path))))))"
| "check_properties [] path = Inr ()"
| "check_properties ((name, nested) # ps) path =
    try_bind (check_schema nested (path @ ''.properties.'' @ name)) (\<lambda>_. check_properties ps path)"
  by pat_completeness auto
termination
  by (relation "measure (\<lambda>x. case x of Inl (s, _) \<Rightarrow> size s | Inr (ps, _) \<Rightarrow> size_list (size_prod (\<lambda>_. 0) size) ps)")
    (auto dest: bt_get_size)

declare check_schema.simps [simp del]

subsection \<open>Configurations\<close>

fun of_kind :: "string \<Rightarrow> json \<Rightarrow> bool" where
  "of_kind k v =
    (if k = ''null'' then v = JNull
     else if k = ''boolean'' then as_bool v \<noteq> None
     else if k = ''integer'' then is_i64 v \<or> is_u64 v
     else if k = ''number'' then is_number v
     else if k = ''string'' then as_str v \<noteq> None
     else if k = ''array'' then as_array v \<noteq> None
     else if k = ''object'' then as_object v \<noteq> None
     else False)"

definition config_kind_ok :: "(string, json) btree \<Rightarrow> json \<Rightarrow> string \<Rightarrow> plugin_error + unit" where
  "config_kind_ok m v path =
    (case Option.bind (bt_get m ''type'') as_str of
       None \<Rightarrow> Inr ()
     | Some k \<Rightarrow> if of_kind k v then Inr () else Inl (config_invalid [Text path, Text '' must be '', Text k]))"

definition config_enum_ok :: "(string, json) btree \<Rightarrow> json \<Rightarrow> string \<Rightarrow> plugin_error + unit" where
  "config_enum_ok m v path =
    (case Option.bind (bt_get m ''enum'') as_array of
       None \<Rightarrow> Inr ()
     | Some es \<Rightarrow> if list_ex (\<lambda>e. json_eq e v) es then Inr ()
         else Inl (config_invalid [Text path, Text '' is not an allowed value'']))"

text \<open>The names of \<open>required\<close> that are strings, in order.\<close>

definition required_names :: "(string, json) btree \<Rightarrow> string list" where
  "required_names m =
    (case Option.bind (bt_get m ''required'') as_array of None \<Rightarrow> [] | Some rs \<Rightarrow> List.map_filter as_str rs)"

definition config_required_ok :: "(string, json) btree \<Rightarrow> (string, json) btree \<Rightarrow> string \<Rightarrow> plugin_error + unit" where
  "config_required_ok m given path =
    try_each (\<lambda>p. if bt_contains given p then Inr ()
      else Inl (config_invalid [Text path, Text ''.'', Text p, Text '' is required''])) (required_names m)"

definition closed_object :: "(string, json) btree \<Rightarrow> bool" where
  "closed_object m \<longleftrightarrow> Option.bind (bt_get m ''additionalProperties'') as_bool = Some False"

definition config_closed_ok ::
  "(string, json) btree \<Rightarrow> (string, json) btree \<Rightarrow> (string, json) btree \<Rightarrow> string \<Rightarrow> plugin_error + unit" where
  "config_closed_ok m ps given path =
    (if closed_object m
     then try_each (\<lambda>p. if bt_contains ps p then Inr ()
       else Inl (config_invalid [Text path, Text ''.'', Text p, Text '' is not allowed''])) (bt_keys given)
     else Inr ())"

function check_config :: "json \<Rightarrow> json \<Rightarrow> string \<Rightarrow> plugin_error + unit"
  and check_members :: "(string \<times> json) list \<Rightarrow> (string, json) btree \<Rightarrow> string \<Rightarrow> plugin_error + unit"
  and check_elements :: "json \<Rightarrow> json list \<Rightarrow> nat \<Rightarrow> string \<Rightarrow> plugin_error + unit" where
  "check_config schema v path =
    (case as_object schema of
       None \<Rightarrow> Inl (manifest_error (msg ''config schema must be an object''))
     | Some m \<Rightarrow>
         try_bind (config_kind_ok m v path) (\<lambda>_.
         try_bind (config_enum_ok m v path) (\<lambda>_.
         try_bind (case as_object v of
             None \<Rightarrow> Inr ()
           | Some given \<Rightarrow>
               try_bind (config_required_ok m given path) (\<lambda>_.
               case Option.bind (bt_get m ''properties'') as_object of
                 None \<Rightarrow> Inr ()
               | Some ps \<Rightarrow> try_bind (check_members ps given path) (\<lambda>_. config_closed_ok m ps given path))) (\<lambda>_.
         case bt_get m ''items'' of
           None \<Rightarrow> Inr ()
         | Some i \<Rightarrow> (case as_array v of None \<Rightarrow> Inr () | Some vs \<Rightarrow> check_elements i vs 0 path)))))"
| "check_members [] given path = Inr ()"
| "check_members ((p, nested) # ps) given path =
    try_bind (case bt_get given p of None \<Rightarrow> Inr () | Some v \<Rightarrow> check_config nested v (path @ ''.'' @ p)) (\<lambda>_.
      check_members ps given path)"
| "check_elements i [] n path = Inr ()"
| "check_elements i (v # vs) n path =
    try_bind (check_config i v (path @ ''['' @ dec n @ '']'')) (\<lambda>_. check_elements i vs (Suc n) path)"
  by pat_completeness auto
termination
  by (relation "measures
      [\<lambda>x. case x of Inl (s, _) \<Rightarrow> size s
         | Inr (Inl (ps, _)) \<Rightarrow> size_list (size_prod (\<lambda>_. 0) size) ps | Inr (Inr (i, _)) \<Rightarrow> size i,
       \<lambda>x. case x of Inl _ \<Rightarrow> 0 | Inr (Inl (ps, _)) \<Rightarrow> length ps | Inr (Inr (i, vs, _)) \<Rightarrow> Suc (length vs)]")
    (auto dest: bt_get_size as_object_size)

declare check_config.simps [simp del]

end
