(* ===== verification/SchemaProps.thy ===== *)
theory SchemaProps
  imports WasmSchema
begin

section \<open>Configuration schemas of WebAssembly plugins: properties\<close>

text \<open>
  What a manifest check has accepted never fails as a schema again: every later error is about the
  configuration. And where the schema closes an object it does not describe, nothing is closed.
\<close>

definition shaped :: "json \<Rightarrow> bool" where
  "shaped s \<longleftrightarrow> (\<exists>path. check_schema s path = Inr ())"

lemma shapedI: "check_schema s path = Inr () \<Longrightarrow> shaped s"
  by (auto simp: shaped_def)

lemma shaped_object: "shaped s \<Longrightarrow> \<exists>m. s = JObj m"
  by (cases s) (auto simp: shaped_def check_schema.simps)

lemma check_properties_shaped: "check_properties ps path = Inr () \<Longrightarrow> \<forall>p\<in>set ps. shaped (snd p)"
  by (induction ps) (auto 0 3 simp: try_bind_eq_Inr intro: shapedI dest: bspec)

lemma shaped_properties: "shaped (JObj m) \<Longrightarrow> Option.bind (bt_get m ''properties'') as_object = Some ps \<Longrightarrow>
    \<forall>p\<in>set ps. shaped (snd p)"
  unfolding shaped_def [of "JObj m"]
  by (auto simp: check_schema.simps try_bind_eq_Inr bind_eq_Some_conv dest!: check_properties_shaped)

lemma shaped_items: "shaped (JObj m) \<Longrightarrow> bt_get m ''items'' = Some i \<Longrightarrow> shaped i"
  unfolding shaped_def by (auto simp: check_schema.simps try_bind_eq_Inr)

definition blames_config :: "plugin_error + unit \<Rightarrow> bool" where
  "blames_config r \<longleftrightarrow> (\<forall>e. r = Inl e \<longrightarrow> pe_code e = ''CONFIG_INVALID'' \<and> pe_phase e = ''config'')"

lemma blames_config_simps [simp]:
  "blames_config (Inr ())" "blames_config (Inl (config_invalid m))"
  by (simp_all add: blames_config_def config_invalid_def plugin_error_new_def)

lemma blames_config_bind: "blames_config r \<Longrightarrow> (r = Inr () \<Longrightarrow> blames_config (f ())) \<Longrightarrow> blames_config (try_bind r f)"
  by (cases r) (auto simp: blames_config_def)

lemma blames_config_each: "(\<And>x. blames_config (f x)) \<Longrightarrow> blames_config (try_each f xs)"
  by (induction xs) (auto intro: blames_config_bind)

lemma config_checks:
  "blames_config (config_kind_ok m v path)" "blames_config (config_enum_ok m v path)"
  "blames_config (config_required_ok m given path)" "blames_config (config_closed_ok m ps given path)"
  by (auto simp: config_kind_ok_def config_enum_ok_def config_required_ok_def config_closed_ok_def
      split: option.splits intro!: blames_config_each)

lemma shaped_config_errors:
  "shaped s \<Longrightarrow> blames_config (check_config s v path)"
  "\<forall>p\<in>set ps. shaped (snd p) \<Longrightarrow> blames_config (check_members ps given path)"
  "shaped i \<Longrightarrow> blames_config (check_elements i vs n path)"
proof (induction s v path and ps given path and i vs n path rule: check_config_check_members_check_elements.induct)
  case (1 s v path)
  from shaped_object [OF 1(3)] obtain m where s: "s = JObj m" ..
  show ?case
    unfolding s check_config.simps [of "JObj m"]
    using 1 s shaped_properties [of m] shaped_items [of m]
    by (auto intro!: blames_config_bind config_checks split: option.splits)
qed (auto intro!: blames_config_bind split: option.splits)

text \<open>A configuration that is checked against a schema of a validated manifest fails only as a
  configuration: whatever the value, the error is \<open>CONFIG_INVALID\<close>, never one of the manifest.
\<close>

theorem validated_schema_blames_config:
  "check_schema s p = Inr () \<Longrightarrow> check_config s v path = Inl e \<Longrightarrow> pe_code e = ''CONFIG_INVALID'' \<and> pe_phase e = ''config''"
  using shaped_config_errors(1) [of s v path] by (auto simp: shaped_def blames_config_def)

definition sample_schema :: json where
  "sample_schema = JObj [(''properties'', JObj [(''level'', JObj [(''type'', JStr ''integer'')])]),
     (''required'', JArr [JStr ''level'']), (''type'', JStr ''object'')]"

theorem validated_schema_blames_config_witness:
  "\<exists>e. check_config sample_schema (JObj [(''level'', JStr ''high'')]) ''$'' = Inl e \<and> pe_code e = ''CONFIG_INVALID''"
proof -
  have ok: "check_schema sample_schema ''$schema'' = Inr ()" by code_simp
  obtain e where e: "check_config sample_schema (JObj [(''level'', JStr ''high'')]) ''$'' = Inl e"
    by (cases "check_config sample_schema (JObj [(''level'', JStr ''high'')]) ''$''") (simp, code_simp)
  from validated_schema_blames_config [OF ok e] e show ?thesis by blast
qed

text \<open>A valid schema that closes an object without describing its properties closes nothing: every
  object is accepted, whatever its members.
\<close>

theorem closed_without_properties_open:
  "check_config (JObj [(''additionalProperties'', JBool False), (''type'', JStr ''object'')]) (JObj given) path = Inr ()"
  by (simp add: check_config.simps config_kind_ok_def config_enum_ok_def config_required_ok_def required_names_def bt_get_def)

end
