(* ===== verification/WasmHost.thy ===== *)
theory WasmHost
  imports WasmModule WasmSchema Protocol
begin

section \<open>Manifests, capabilities and host functions (tessivum-extism)\<close>

text \<open>
  What stands between a guest and its host: the manifest a package declares, the limits of an
  instance, the registry of capabilities with the gate every call passes, and the host function an
  engine calls. Handlers are numbers; what a handler answers is the parameter \<open>answer\<close>, and every
  operation that may run one returns the calls it made. The text of a value is the parameter \<open>show\<close>.
\<close>

subsection \<open>Capabilities\<close>

datatype capability = CapLog | CapConfigGet | CapServiceCall | CapEventEmit | CapEventSubscribe
  | CapRegistrationDispose | CapKvGet | CapKvSet

definition all_capabilities :: "capability list" where
  "all_capabilities = [CapLog, CapConfigGet, CapServiceCall, CapEventEmit, CapEventSubscribe,
     CapRegistrationDispose, CapKvGet, CapKvSet]"

fun capability_as_str :: "capability \<Rightarrow> string" where
  "capability_as_str CapLog = ''cordis.log''"
| "capability_as_str CapConfigGet = ''cordis.config.get''"
| "capability_as_str CapServiceCall = ''cordis.service.call''"
| "capability_as_str CapEventEmit = ''cordis.event.emit''"
| "capability_as_str CapEventSubscribe = ''cordis.event.subscribe''"
| "capability_as_str CapRegistrationDispose = ''cordis.registration.dispose''"
| "capability_as_str CapKvGet = ''cordis.kv.get''"
| "capability_as_str CapKvSet = ''cordis.kv.set''"

subsection \<open>Errors\<close>

definition limit_error :: "message \<Rightarrow> plugin_error" where
  "limit_error m = plugin_error_new ''LIMIT_INVALID'' m ''limit''"

definition size_details :: "nat \<Rightarrow> nat \<Rightarrow> json" where
  "size_details limit actual = JObj [(''actual'', JNum (PosInt (word_of_nat actual))), (''limit'', JNum (PosInt (word_of_nat limit)))]"

definition input_limit_error :: "nat \<Rightarrow> nat \<Rightarrow> plugin_error" where
  "input_limit_error limit actual =
    with_details (plugin_error_new ''INPUT_LIMIT_EXCEEDED'' (msg ''guest input exceeds limit'') ''call'') (size_details limit actual)"

definition output_limit_error :: "nat \<Rightarrow> nat \<Rightarrow> plugin_error" where
  "output_limit_error limit actual =
    with_details (plugin_error_new ''OUTPUT_LIMIT_EXCEEDED'' (msg ''guest output exceeds limit'') ''call'') (size_details limit actual)"

definition cancelled_error :: plugin_error where
  "cancelled_error = plugin_error_new ''CANCELLED'' (msg ''guest call was cancelled'') ''call''"

definition stopped_error :: "string \<Rightarrow> plugin_error" where
  "stopped_error phase = plugin_error_new ''INSTANCE_STOPPED'' (msg ''plugin instance has stopped'') phase"

definition guest_rejected_error :: "guest_export \<Rightarrow> plugin_error" where
  "guest_rejected_error e = plugin_error_new ''GUEST_REJECTED'' (msg ''guest rejected request'') (export_phase e)"

text \<open>\<open>json_size\<close>; the text may fail to be written, with a message.\<close>

definition json_size :: "(json \<Rightarrow> message + string) \<Rightarrow> json \<Rightarrow> string \<Rightarrow> plugin_error + nat" where
  "json_size show v phase =
    (case show v of Inl m \<Rightarrow> Inl (plugin_error_new ''PROTOCOL_INVALID'' m phase) | Inr s \<Rightarrow> Inr (length s))"

subsection \<open>Limits\<close>

text \<open>A duration is its nanoseconds.\<close>

record resource_limits =
  memory_pages :: u32
  call_timeout :: nat
  fuel :: u64
  max_concurrency :: nat
  max_input_bytes :: nat
  max_output_bytes :: nat

definition default_limits :: resource_limits where
  "default_limits = \<lparr>memory_pages = 1024, call_timeout = 5000000000, fuel = 10000000, max_concurrency = 1,
     max_input_bytes = 1048576, max_output_bytes = 1048576\<rparr>"

definition limits_validate :: "resource_limits \<Rightarrow> plugin_error + unit" where
  "limits_validate l =
    (if memory_pages l = 0 then Inl (limit_error (msg ''memory_pages must be greater than zero''))
     else if call_timeout l = 0 then Inl (limit_error (msg ''timeout must be greater than zero''))
     else if fuel l = 0 then Inl (limit_error (msg ''fuel must be greater than zero''))
     else if max_concurrency l \<noteq> 1
     then Inl (limit_error (msg ''cordis.plugin/v1 requires max_concurrency to equal one''))
     else if max_input_bytes l = 0 \<or> max_output_bytes l = 0
     then Inl (limit_error (msg ''input and output limits must be greater than zero''))
     else Inr ())"

subsection \<open>Manifests\<close>

record plugin_manifest =
  pm_id :: string
  pm_version :: string
  pm_entry :: string
  pm_abi :: string
  pm_inject :: "string list"
  pm_permissions :: "capability list"
  pm_config_schema :: json
  pm_exports :: "guest_export list"

definition abi_version :: string where
  "abi_version = ''cordis.plugin/v1''"

text \<open>
  \<open>Path::components\<close> of a Unix path: empty and inner \<open>.\<close> parts are skipped, a leading \<open>/\<close> is the
  root and a leading \<open>.\<close> the current directory.
\<close>

definition is_confined_entry :: "string \<Rightarrow> bool" where
  "is_confined_entry s \<longleftrightarrow> s = [] \<or>
    (case split_on (CHR ''/'') s of
       [] \<Rightarrow> True | c # cs \<Rightarrow> c \<noteq> [] \<and> c \<noteq> ''.'' \<and> ''..'' \<notin> set (c # cs))"

definition semver_number :: "string \<Rightarrow> bool" where
  "semver_number part \<longleftrightarrow> part \<noteq> [] \<and> list_all is_digit part \<and> (part = ''0'' \<or> hd part \<noteq> CHR ''0'')"

definition is_semver :: "string \<Rightarrow> bool" where
  "is_semver version =
    (let core = takeWhile (\<lambda>c. c \<noteq> CHR ''-'') version; parts = split_on (CHR ''.'') core in
     list_all semver_number (take 3 parts) \<and> drop 3 parts = []
     \<and> length (filter (\<lambda>c. c = CHR ''.'') core) = 2)"

fun unique_strings :: "string \<Rightarrow> string list \<Rightarrow> string set \<Rightarrow> plugin_error + unit" where
  "unique_strings field [] seen = Inr ()"
| "unique_strings field (v # vs) seen =
    (if blank v \<or> v \<in> seen then Inl (manifest_error [Text field, Text '' contains a blank or duplicate value''])
     else unique_strings field vs (insert v seen))"

fun unique_values :: "string \<Rightarrow> 'a list \<Rightarrow> 'a set \<Rightarrow> plugin_error + unit" where
  "unique_values field [] seen = Inr ()"
| "unique_values field (v # vs) seen =
    (if v \<in> seen then Inl (manifest_error [Text field, Text '' contains a duplicate value''])
     else unique_values field vs (insert v seen))"

definition manifest_validate :: "plugin_manifest \<Rightarrow> plugin_error + unit" where
  "manifest_validate p =
    try_bind (try_each (\<lambda>(field, v). if blank v then Inl (manifest_error [Text field, Text '' must not be blank'']) else Inr ())
      [(''id'', pm_id p), (''version'', pm_version p), (''entry'', pm_entry p)]) (\<lambda>_.
    if \<not> is_confined_entry (pm_entry p)
    then Inl (manifest_error (msg ''entry must be a relative path without traversal''))
    else if \<not> is_semver (pm_version p) then Inl (manifest_error (msg ''version must be a semantic version''))
    else if pm_abi p \<noteq> abi_version
    then Inl (plugin_error_new ''ABI_UNSUPPORTED'' [Text ''expected '', Text abi_version, Text '', got '', Text (pm_abi p)] ''manifest'')
    else try_bind (unique_strings ''inject'' (pm_inject p) {}) (\<lambda>_.
    try_bind (unique_values ''permissions'' (pm_permissions p) {}) (\<lambda>_.
    try_bind (unique_values ''exports'' (pm_exports p) {}) (\<lambda>_.
    try_bind (try_each (\<lambda>e. if e \<in> set (pm_exports p) then Inr ()
      else Inl (manifest_error [Text ''exports must include '', Text (export_name e)])) all_exports) (\<lambda>_.
      check_schema (pm_config_schema p) ''$schema'')))))"

definition manifest_validate_config :: "plugin_manifest \<Rightarrow> json \<Rightarrow> plugin_error + unit" where
  "manifest_validate_config p config =
    try_bind (manifest_validate p) (\<lambda>_. check_config (pm_config_schema p) config ''$'')"

text \<open>\<open>from_json\<close>; the derived \<open>Deserialize\<close> of the manifest is the parameter \<open>parse\<close>.\<close>

definition manifest_from_json :: "(string \<Rightarrow> message + plugin_manifest) \<Rightarrow> string \<Rightarrow> plugin_error + plugin_manifest" where
  "manifest_from_json parse document =
    (case parse document of
       Inl e \<Rightarrow> Inl (plugin_error_new ''MANIFEST_INVALID'' (Text ''cannot parse manifest: '' # e) ''manifest'')
     | Inr m \<Rightarrow> try_bind (manifest_validate m) (\<lambda>_. Inr m))"

record wasm_package =
  wp_manifest :: plugin_manifest
  wp_wasm :: "u8 list option"

definition package_from_bytes :: "plugin_manifest \<Rightarrow> u8 list \<Rightarrow> plugin_error + wasm_package" where
  "package_from_bytes m wasm =
    try_bind (manifest_validate m) (\<lambda>_. try_bind (validate_wasm_exports wasm) (\<lambda>_.
      Inr \<lparr>wp_manifest = m, wp_wasm = Some wasm\<rparr>))"

definition package_in_memory :: "plugin_manifest \<Rightarrow> plugin_error + wasm_package" where
  "package_in_memory m = try_bind (manifest_validate m) (\<lambda>_. Inr \<lparr>wp_manifest = m, wp_wasm = None\<rparr>)"

text \<open>
  What the operating system says of a file: opening it without following a link, its kind and size,
  and the bytes a bounded read gives, which may differ from the size when the file is written meanwhile.
\<close>

record package_file =
  pf_open :: "message + unit"
  pf_metadata :: "message + bool \<times> nat"
  pf_read :: "nat \<Rightarrow> message + u8 list"

definition read_failed :: "message \<Rightarrow> plugin_error" where
  "read_failed m = plugin_error_new ''PACKAGE_READ_FAILED'' m ''instantiate''"

definition os_result :: "string \<Rightarrow> string \<Rightarrow> message + 'a \<Rightarrow> plugin_error + 'a" where
  "os_result act path r =
    (case r of Inl e \<Rightarrow> Inl (read_failed ([Text ''cannot '', Text act, Text '' '', Text path, Text '': ''] @ e)) | Inr x \<Rightarrow> Inr x)"

definition read_bounded_package_file :: "package_file \<Rightarrow> string \<Rightarrow> nat \<Rightarrow> string \<Rightarrow> plugin_error + u8 list" where
  "read_bounded_package_file f path limit label =
    try_bind (os_result ''open'' path (pf_open f)) (\<lambda>_.
    try_bind (os_result ''inspect'' path (pf_metadata f)) (\<lambda>(is_file, len).
    if \<not> is_file \<or> len > limit
    then Inl (read_failed [Text label, Text '' must be a regular file no larger than '', Text (dec limit), Text '' bytes''])
    else try_bind (os_result ''read'' path (pf_read f (limit + 1))) (\<lambda>bytes.
      if length bytes > limit
      then Inl (read_failed [Text label, Text '' exceeds the '', Text (dec limit), Text ''-byte limit''])
      else Inr bytes)))"

definition max_manifest_bytes :: nat where
  "max_manifest_bytes = 256 * 1024"

text \<open>
  \<open>from_manifest_file\<close>: a canonical path is the list of its components. \<open>directory\<close> is the canonical
  directory of the manifest, \<open>resolve\<close> the canonical path of an entry joined to it, \<open>open_file\<close> the file
  at a canonical path and \<open>show_path\<close> its text.
\<close>

definition package_from_manifest_file ::
  "(u8 list \<Rightarrow> message + plugin_manifest) \<Rightarrow> package_file \<Rightarrow> string \<Rightarrow> (message + string list) \<Rightarrow>
    (string list \<Rightarrow> string \<Rightarrow> message + string list) \<Rightarrow> (string list \<Rightarrow> package_file) \<Rightarrow> (string list \<Rightarrow> string) \<Rightarrow>
    plugin_error + wasm_package" where
  "package_from_manifest_file parse f path directory resolve open_file show_path =
    try_bind (read_bounded_package_file f path max_manifest_bytes ''manifest'') (\<lambda>data.
    case parse data of
      Inl e \<Rightarrow> Inl (plugin_error_new ''MANIFEST_INVALID'' ([Text ''cannot parse '', Text path, Text '': ''] @ e) ''manifest'')
    | Inr m \<Rightarrow>
        try_bind (manifest_validate m) (\<lambda>_.
        try_bind (os_result ''resolve package directory for'' path directory) (\<lambda>package_dir.
        try_bind (os_result ''resolve package entry'' (pm_entry m) (resolve package_dir (pm_entry m))) (\<lambda>entry.
        if take (length package_dir) entry \<noteq> package_dir
        then Inl (manifest_error (msg ''entry resolves outside its package directory''))
        else try_bind (read_bounded_package_file (open_file entry) (show_path entry) max_wasm_bytes ''WASM entry'') (\<lambda>wasm.
          package_from_bytes m wasm)))))"

subsection \<open>The registry\<close>

record capability_request =
  cr_capability :: capability
  cr_plugin :: string
  cr_instance :: string
  cr_payload :: json

record capability_registry =
  cap_handlers :: "capability \<Rightarrow> nat option"
  cap_granted :: "capability set"

definition capabilities_new :: capability_registry where
  "capabilities_new = \<lparr>cap_handlers = (\<lambda>_. None), cap_granted = {}\<rparr>"

definition cap_register :: "capability \<Rightarrow> nat \<Rightarrow> capability_registry \<Rightarrow> plugin_error + capability_registry" where
  "cap_register c h r =
    (if cap_handlers r c \<noteq> None
     then Inl (plugin_error_new ''CAPABILITY_ALREADY_REGISTERED''
       [Text (capability_as_str c), Text '' already has a host handler''] ''host'')
     else Inr (r\<lparr>cap_handlers := (cap_handlers r)(c \<mapsto> h)\<rparr>))"

definition cap_grant :: "capability \<Rightarrow> capability_registry \<Rightarrow> capability_registry" where
  "cap_grant c r = r\<lparr>cap_granted := insert c (cap_granted r)\<rparr>"

definition cap_revoke :: "capability \<Rightarrow> capability_registry \<Rightarrow> capability_registry" where
  "cap_revoke c r = r\<lparr>cap_granted := cap_granted r - {c}\<rparr>"

definition is_granted :: "capability_registry \<Rightarrow> capability \<Rightarrow> bool" where
  "is_granted r c \<longleftrightarrow> c \<in> cap_granted r"

type_synonym handler_call = "nat \<times> capability_request"

definition registry_invoke ::
  "(nat \<Rightarrow> capability_request \<Rightarrow> plugin_error + json) \<Rightarrow> capability_registry \<Rightarrow> capability set \<Rightarrow> capability_request \<Rightarrow>
    (plugin_error + json) \<times> handler_call list" where
  "registry_invoke answer r permissions q =
    (let c = cr_capability q in
     if c \<notin> permissions
     then (Inl (plugin_error_new ''PERMISSION_DENIED'' [Text (capability_as_str c), Text '' is not declared by this plugin''] ''call''), [])
     else if \<not> is_granted r c
     then (Inl (plugin_error_new ''PERMISSION_DENIED'' [Text (capability_as_str c), Text '' is not granted by host policy''] ''call''), [])
     else
       (case cap_handlers r c of
          None \<Rightarrow> (Inl (plugin_error_new ''CAPABILITY_UNAVAILABLE'' [Text (capability_as_str c), Text '' has no host handler''] ''call''), [])
        | Some h \<Rightarrow> (answer h q, [(h, q)])))"

subsection \<open>The bindings of an instance\<close>

text \<open>\<open>alive\<close> is the flag the instance shares with its bindings: it is an argument, read when a call begins.\<close>

record host_bindings =
  hb_permissions :: "capability set"
  hb_plugin :: string
  hb_instance :: string
  hb_max_input :: nat
  hb_max_output :: nat

definition bindings_new :: "plugin_manifest \<Rightarrow> string \<Rightarrow> nat \<Rightarrow> nat \<Rightarrow> host_bindings" where
  "bindings_new m i max_in max_out = \<lparr>hb_permissions = set (pm_permissions m), hb_plugin = pm_id m, hb_instance = i,
     hb_max_input = max_in, hb_max_output = max_out\<rparr>"

definition bindings_invoke ::
  "(nat \<Rightarrow> capability_request \<Rightarrow> plugin_error + json) \<Rightarrow> (json \<Rightarrow> message + string) \<Rightarrow> capability_registry \<Rightarrow> host_bindings \<Rightarrow> bool \<Rightarrow>
    capability \<Rightarrow> json \<Rightarrow> (plugin_error + json) \<times> handler_call list" where
  "bindings_invoke answer show r b alive c p =
    (if \<not> alive then (Inl (stopped_error ''host''), [])
     else
       (case registry_invoke answer r (hb_permissions b)
           \<lparr>cr_capability = c, cr_plugin = hb_plugin b, cr_instance = hb_instance b, cr_payload = p\<rparr> of
          (result, calls) \<Rightarrow>
            (try_bind result (\<lambda>v. try_bind (json_size show v ''host'') (\<lambda>actual.
               if actual > hb_max_output b then Inl (output_limit_error (hb_max_output b) actual) else Inr v)), calls)))"

subsection \<open>Host functions\<close>

text \<open>
  A host response is a result or an error. What the engine says of the handle a guest passes is
  \<open>guest_memory\<close>: no handle, or one of a length whose bytes may be unreadable; the text of an engine's
  or a parser's error is a message.
\<close>

type_synonym host_response = "plugin_error + json"

datatype guest_memory = NoHandle | Handle nat "message + string"

definition invalid_request :: "message \<Rightarrow> string option \<Rightarrow> plugin_error" where
  "invalid_request m reason =
    (let e = plugin_error_new ''invalid_request'' m ''host'' in
     case reason of None \<Rightarrow> e | Some r \<Rightarrow> with_details e (JObj [(''reason'', JStr r)]))"

definition host_function ::
  "(nat \<Rightarrow> capability_request \<Rightarrow> plugin_error + json) \<Rightarrow> (json \<Rightarrow> message + string) \<Rightarrow> (message \<Rightarrow> string) \<Rightarrow> (string \<Rightarrow> message + json) \<Rightarrow>
    capability_registry \<Rightarrow> host_bindings \<Rightarrow> bool \<Rightarrow> capability \<Rightarrow> guest_memory \<Rightarrow> host_response \<times> handler_call list" where
  "host_function answer show text_of parse r b alive c mem =
    (case mem of
       NoHandle \<Rightarrow> (Inl (invalid_request (msg ''invalid guest memory handle'') None), [])
     | Handle actual bytes \<Rightarrow>
         if actual > hb_max_input b then (Inl (input_limit_error (hb_max_input b) actual), [])
         else
           (case bytes of
              Inl e \<Rightarrow> (Inl (invalid_request (msg ''invalid guest memory handle'') (Some (text_of e))), [])
            | Inr input \<Rightarrow>
                (case parse input of
                   Inl e \<Rightarrow> (Inl (invalid_request (msg ''invalid request envelope'') (Some (text_of e))), [])
                 | Inr p \<Rightarrow> bindings_invoke answer show r b alive c p)))"

text \<open>\<open>host_response_bytes\<close>; \<open>envelope\<close> is the text of a response, which always can be written.\<close>

definition host_response_bytes :: "(host_response \<Rightarrow> string) \<Rightarrow> host_response \<Rightarrow> nat \<Rightarrow> string" where
  "host_response_bytes envelope response max_out =
    (let bytes = envelope response in
     if length bytes \<le> max_out then bytes else envelope (Inl (output_limit_error max_out (length bytes))))"

end
