(* ===== verification/WasmGuest.thy ===== *)
theory WasmGuest
  imports WasmHost
begin

section \<open>Guest calls and instance identities (tessivum-extism)\<close>

text \<open>
  One call of a guest: \<open>call_guest\<close> encodes the request, lets the guest run and judges its response.
  The text of a request is the parameter \<open>show\<close>, the parser of the answer the parameter \<open>parse\<close>; what
  the guest answers to an input, whether the call was cancelled and how long it took are arguments.
\<close>

record request_envelope =
  rq_id :: string
  rq_context :: json
  rq_payload :: json

record response_envelope =
  rs_id :: string
  rs_result :: "json option"
  rs_error :: "plugin_error option"

definition response_success :: "request_envelope \<Rightarrow> json \<Rightarrow> response_envelope" where
  "response_success q v = \<lparr>rs_id = rq_id q, rs_result = Some v, rs_error = None\<rparr>"

definition response_failure :: "request_envelope \<Rightarrow> plugin_error \<Rightarrow> response_envelope" where
  "response_failure q e = \<lparr>rs_id = rq_id q, rs_result = None, rs_error = Some e\<rparr>"

text \<open>The derived \<open>Deserialize\<close> of a \<open>PluginError\<close> and of a \<open>ResponseEnvelope\<close>.\<close>

fun plugin_error_wire :: "json \<Rightarrow> plugin_error option" where
  "plugin_error_wire (JObj m) =
    (if \<not> fields_once [''code'', ''message'', ''phase'', ''details''] m then None
     else case (Option.bind (map_of m ''code'') as_str, Option.bind (map_of m ''message'') as_str,
                Option.bind (map_of m ''phase'') as_str, opt_field Some (map_of m ''details'')) of
       (Some c, Some t, Some p, Some d) \<Rightarrow> Some \<lparr>pe_code = c, pe_message = msg t, pe_phase = p, pe_details = d\<rparr>
     | _ \<Rightarrow> None)"
| "plugin_error_wire (JArr (JStr c # JStr t # JStr p # ds)) =
    (case ds of
       [] \<Rightarrow> Some \<lparr>pe_code = c, pe_message = msg t, pe_phase = p, pe_details = None\<rparr>
     | [d] \<Rightarrow> map_option (\<lambda>x. \<lparr>pe_code = c, pe_message = msg t, pe_phase = p, pe_details = x\<rparr>) (opt_field Some (Some d))
     | _ \<Rightarrow> None)"
| "plugin_error_wire _ = None"

definition response_wire :: "(string, json) btree \<Rightarrow> response_envelope option" where
  "response_wire m =
    (if \<not> fields_once [''requestId'', ''result'', ''error''] m then None
     else case (Option.bind (map_of m ''requestId'') as_str, opt_field Some (map_of m ''result''),
                opt_field plugin_error_wire (map_of m ''error'')) of
       (Some i, Some r, Some e) \<Rightarrow> Some \<lparr>rs_id = i, rs_result = r, rs_error = e\<rparr>
     | _ \<Rightarrow> None)"

definition protocol_invalid :: "guest_export \<Rightarrow> string \<Rightarrow> plugin_error" where
  "protocol_invalid e m = plugin_error_new ''PROTOCOL_INVALID'' (msg m) (export_phase e)"

text \<open>What \<open>call_guest\<close> does with the output of a call that was neither cancelled nor late.\<close>

definition judge_output ::
  "(string \<Rightarrow> message + json) \<Rightarrow> guest_export \<Rightarrow> request_envelope \<Rightarrow> nat \<Rightarrow> string \<Rightarrow> plugin_error + json" where
  "judge_output parse e q max_out output =
    (if length output > max_out then Inl (output_limit_error max_out (length output))
     else case parse output of
       Inl _ \<Rightarrow> Inl (protocol_invalid e ''guest response is not a valid response envelope'')
     | Inr document \<Rightarrow>
         (case as_object document of
            None \<Rightarrow> Inl (protocol_invalid e ''guest response is not a valid response envelope'')
          | Some m \<Rightarrow>
              let result = bt_get m ''result''; has_error = bt_contains m ''error'' in
              if (result \<noteq> None) = has_error
              then Inl (protocol_invalid e ''guest response must contain exactly one result or error'')
              else
                (case response_wire m of
                   None \<Rightarrow> Inl (protocol_invalid e ''guest response is not a valid response envelope'')
                 | Some response \<Rightarrow>
                     if rs_id response \<noteq> rq_id q
                     then Inl (protocol_invalid e ''guest response requestId does not match request'')
                     else
                       (case result of
                          Some v \<Rightarrow> Inr v
                        | None \<Rightarrow>
                            (case rs_error response of
                               None \<Rightarrow> Inl (protocol_invalid e ''guest error must not be null'')
                             | Some err \<Rightarrow>
                                 if pe_phase err \<noteq> export_phase e
                                 then Inl (protocol_invalid e ''guest error phase does not match invoked export'')
                                 else Inl (guest_rejected_error e))))))"

definition timeout_error :: "guest_export \<Rightarrow> resource_limits \<Rightarrow> plugin_error" where
  "timeout_error e l =
    with_details (plugin_error_new ''TIMEOUT'' (msg ''guest call exceeded its configured timeout'') (export_phase e))
      (JObj [(''timeoutMs'', JNum (PosInt (word_of_nat (call_timeout l div 1000000))))])"

text \<open>The input of a call, or why there is none.\<close>

definition guest_input ::
  "(request_envelope \<Rightarrow> message + string) \<Rightarrow> guest_export \<Rightarrow> request_envelope \<Rightarrow> resource_limits \<Rightarrow> plugin_error + string" where
  "guest_input show e q l =
    (case show q of
       Inl m \<Rightarrow> Inl (plugin_error_new ''PROTOCOL_INVALID'' (Text ''cannot encode guest request: '' # m) (export_phase e))
     | Inr input \<Rightarrow> if length input > max_input_bytes l then Inl (input_limit_error (max_input_bytes l) (length input)) else Inr input)"

definition call_guest ::
  "(request_envelope \<Rightarrow> message + string) \<Rightarrow> (string \<Rightarrow> message + json) \<Rightarrow>
    (guest_export \<Rightarrow> string \<Rightarrow> nat \<Rightarrow> plugin_error + string) \<Rightarrow> guest_export \<Rightarrow> request_envelope \<Rightarrow> resource_limits \<Rightarrow>
    bool \<Rightarrow> nat \<Rightarrow> plugin_error + json" where
  "call_guest show parse guest e q l was_cancelled elapsed =
    try_bind (guest_input show e q l) (\<lambda>input.
      let output = guest e input (max_output_bytes l) in
      if was_cancelled then Inl cancelled_error
      else if elapsed > call_timeout l then Inl (timeout_error e l)
      else try_bind output (judge_output parse e q (max_output_bytes l)))"

subsection \<open>The Extism guest\<close>

text \<open>\<open>answer\<close> is what the engine's call gives and \<open>consumed\<close> the fuel it reports; its errors have no text here.\<close>

definition extism_error :: "string \<Rightarrow> plugin_error" where
  "extism_error phase = plugin_error_new ''GUEST_TRAP'' (msg ''guest execution failed'') phase"

definition extism_call :: "u64 \<Rightarrow> string option \<Rightarrow> u64 option \<Rightarrow> guest_export \<Rightarrow> nat \<Rightarrow> plugin_error + string" where
  "extism_call fuel_limit answer consumed e max_out =
    (case answer of
       None \<Rightarrow>
         if consumed = Some fuel_limit
         then Inl (plugin_error_new ''FUEL_LIMIT_EXCEEDED'' (msg ''guest exhausted its configured fuel'') (export_phase e))
         else Inl (extism_error (export_phase e))
     | Some output \<Rightarrow>
         if length output > max_out then Inl (output_limit_error max_out (length output)) else Inr output)"

text \<open>\<open>ExtismGuestEngine::instantiate\<close>: what the builder is given, or the error before it; \<open>build\<close> is the engine's.\<close>

definition extism_instantiate :: "(u8 list \<Rightarrow> resource_limits \<Rightarrow> 'g option) \<Rightarrow> wasm_package \<Rightarrow> resource_limits \<Rightarrow> plugin_error + 'g" where
  "extism_instantiate build p l =
    try_bind (limits_validate l) (\<lambda>_.
    try_bind (manifest_validate (wp_manifest p)) (\<lambda>_.
    case wp_wasm p of
      None \<Rightarrow> Inl (plugin_error_new ''MODULE_UNAVAILABLE'' (msg ''the Extism engine requires WebAssembly bytes'') ''instantiate'')
    | Some wasm \<Rightarrow>
        try_bind (validate_wasm_exports wasm) (\<lambda>_.
        case build wasm l of None \<Rightarrow> Inl (extism_error ''instantiate'') | Some g \<Rightarrow> Inr g)))"

subsection \<open>Instance identities\<close>

text \<open>\<open>NEXT_INSTANCE_ID\<close> and \<open>INSTANCE_IDS\<close>; \<open>pid\<close> is the process.\<close>

record instance_ids =
  next_instance :: u64
  taken_ids :: "(string, unit) btree"

definition instance_text :: "nat \<Rightarrow> u64 \<Rightarrow> string" where
  "instance_text pid n = ''wasm:'' @ dec pid @ '':'' @ dec (unat n)"

text \<open>The loop of \<open>allocate_instance_id\<close>, with fuel.\<close>

fun allocate_instance_id :: "nat \<Rightarrow> nat \<Rightarrow> string \<Rightarrow> instance_ids \<Rightarrow> (string \<times> instance_ids) option" where
  "allocate_instance_id 0 pid plugin_id s = None"
| "allocate_instance_id (Suc k) pid plugin_id s =
    (let i = instance_text pid (next_instance s); s = s\<lparr>next_instance := next_instance s + 1\<rparr> in
     if i \<noteq> plugin_id \<and> \<not> bt_contains (taken_ids s) i
     then Some (i, s\<lparr>taken_ids := bt_insert i () (taken_ids s)\<rparr>)
     else allocate_instance_id k pid plugin_id s)"

definition reserve_instance_id :: "string \<Rightarrow> string \<Rightarrow> instance_ids \<Rightarrow> plugin_error + string \<times> instance_ids" where
  "reserve_instance_id i plugin_id s =
    (if blank i \<or> i = plugin_id
     then Inl (plugin_error_new ''INSTANCE_ID_INVALID'' (msg ''instance id must be non-empty and differ from plugin id'') ''instantiate'')
     else if bt_contains (taken_ids s) i
     then Inl (plugin_error_new ''INSTANCE_ID_DUPLICATE'' (msg ''instance id already exists'') ''instantiate'')
     else Inr (i, s\<lparr>taken_ids := bt_insert i () (taken_ids s)\<rparr>))"

definition release_instance_id :: "string \<Rightarrow> instance_ids \<Rightarrow> instance_ids" where
  "release_instance_id i s = s\<lparr>taken_ids := bt_remove i (taken_ids s)\<rparr>"

end
