(* ===== verification/WasmRuntime.thy ===== *)
theory WasmRuntime
  imports WasmGuest EntryTree
begin

section \<open>The runtime of WebAssembly packages (tessivum-extism)\<close>

text \<open>
  \<open>WasmPluginRuntime\<close> as the loader sees it: packages registered under a specifier, instances with an
  identity and the guard of a lifecycle hook, and the handle of an instance. The engine, the hook and
  the package files are arguments; what an operation does to guards is the list of its events.
\<close>

definition wasm_loader_error :: "plugin_error \<Rightarrow> loader_error" where
  "wasm_loader_error e = ValidationError (plugin_error_display e)"

definition loader_result :: "plugin_error + 'a \<Rightarrow> loader_error + 'a" where
  "loader_result r = (case r of Inl e \<Rightarrow> Inl (wasm_loader_error e) | Inr x \<Rightarrow> Inr x)"

type_synonym wasm_packages = "(string, wasm_package) btree"

definition package_register :: "string \<Rightarrow> wasm_package \<Rightarrow> wasm_packages \<Rightarrow> plugin_error + wasm_packages" where
  "package_register specifier p packages =
    try_bind (manifest_validate (wp_manifest p)) (\<lambda>_.
    if blank specifier
    then Inl (plugin_error_new ''PACKAGE_INVALID'' (msg ''package specifier must not be blank'') ''instantiate'')
    else if bt_contains packages specifier
    then Inl (plugin_error_new ''PACKAGE_ALREADY_REGISTERED'' [Text specifier, Text '' is already registered''] ''instantiate'')
    else Inr (bt_insert specifier p packages))"

definition module_exports_ok :: "wasm_package \<Rightarrow> plugin_error + unit" where
  "module_exports_ok p = (case wp_wasm p of None \<Rightarrow> Inr () | Some wasm \<Rightarrow> validate_wasm_exports wasm)"

text \<open>The engine gets the package, the bindings of the instance and its limits.\<close>

type_synonym 'g engine = "wasm_package \<Rightarrow> host_bindings \<Rightarrow> resource_limits \<Rightarrow> plugin_error + 'g"

definition instantiate_reserved :: "'g engine \<Rightarrow> resource_limits \<Rightarrow> wasm_package \<Rightarrow> json \<Rightarrow> string \<Rightarrow> plugin_error + 'g" where
  "instantiate_reserved engine l p config i =
    try_bind (manifest_validate (wp_manifest p)) (\<lambda>_.
    try_bind (module_exports_ok p) (\<lambda>_.
    try_bind (limits_validate l) (\<lambda>_.
    try_bind (manifest_validate_config (wp_manifest p) config) (\<lambda>_.
      engine p (bindings_new (wp_manifest p) i (max_input_bytes l) (max_output_bytes l)) l))))"

text \<open>\<open>instantiate_with_instance_id\<close>: a reserved identity is released when the instance fails.\<close>

definition instantiate_with_instance_id ::
  "'g engine \<Rightarrow> resource_limits \<Rightarrow> wasm_package \<Rightarrow> json \<Rightarrow> string \<Rightarrow> instance_ids \<Rightarrow> (plugin_error + 'g) \<times> instance_ids" where
  "instantiate_with_instance_id engine l p config i s =
    (case reserve_instance_id i (pm_id (wp_manifest p)) s of
       Inl e \<Rightarrow> (Inl e, s)
     | Inr (i, s) \<Rightarrow>
         (case instantiate_reserved engine l p config i of
            Inl e \<Rightarrow> (Inl e, release_instance_id i s) | Inr g \<Rightarrow> (Inr g, s)))"

subsection \<open>Handles\<close>

record 'g wasm_handle =
  wh_guest :: 'g
  wh_instance :: string
  wh_context :: json
  wh_activated :: bool
  wh_guard :: bool

datatype guard_event = GuardInstalled string | GuardDrained | GuardRevoked

definition entry_context :: "entry_options \<Rightarrow> json" where
  "entry_context opts = JObj [(''entryId'', JStr (eo_id opts)), (''entryName'', case eo_name opts of None \<Rightarrow> JNull | Some n \<Rightarrow> JStr n),
     (''inject'', JArr (map JStr (eo_inject opts)))]"

text \<open>\<open>WasmPluginInstance::instantiate\<close>, with the fuel of the search for an identity.\<close>

definition instantiate_instance ::
  "nat \<Rightarrow> nat \<Rightarrow> 'g engine \<Rightarrow> resource_limits \<Rightarrow> wasm_package \<Rightarrow> json \<Rightarrow> instance_ids \<Rightarrow> ((plugin_error + 'g) \<times> instance_ids) option" where
  "instantiate_instance tries pid engine l p config s =
    map_option (\<lambda>(i, s).
      case instantiate_reserved engine l p config i of
        Inl e \<Rightarrow> (Inl e, release_instance_id i s) | Inr g \<Rightarrow> (Inr g, s))
      (allocate_instance_id tries pid (pm_id (wp_manifest p)) s)"

text \<open>
  \<open>LoaderRuntime::instantiate\<close>: a registered package, or the one of the manifest file at the location.
  \<open>hook\<close> is what the lifecycle hook answers when there is one.
\<close>

definition runtime_checks :: "resource_limits \<Rightarrow> wasm_package \<Rightarrow> json \<Rightarrow> plugin_error + unit" where
  "runtime_checks l p config =
    try_bind (manifest_validate (wp_manifest p)) (\<lambda>_.
    try_bind (module_exports_ok p) (\<lambda>_.
    try_bind (limits_validate l) (\<lambda>_. manifest_validate_config (wp_manifest p) config)))"

definition runtime_instance ::
  "'g engine \<Rightarrow> (string \<Rightarrow> plugin_error + unit) option \<Rightarrow> resource_limits \<Rightarrow> wasm_package \<Rightarrow> entry_options \<Rightarrow> string \<Rightarrow> instance_ids \<Rightarrow>
    (loader_error + 'g wasm_handle) \<times> instance_ids \<times> guard_event list" where
  "runtime_instance engine hook l p opts i s =
    (case (case hook of None \<Rightarrow> Inr () | Some install \<Rightarrow> install i) of
       Inl e \<Rightarrow> (Inl (wasm_loader_error e), release_instance_id i s, [])
     | Inr _ \<Rightarrow>
         let installed = (if hook = None then [] else [GuardInstalled i]) in
         (case instantiate_reserved engine l p (eo_config opts) i of
            Inl e \<Rightarrow> (Inl (wasm_loader_error e), release_instance_id i s, installed @ (if hook = None then [] else [GuardRevoked]))
          | Inr g \<Rightarrow> (Inr \<lparr>wh_guest = g, wh_instance = i, wh_context = entry_context opts, wh_activated = False,
              wh_guard = (hook \<noteq> None)\<rparr>, s, installed)))"

definition runtime_instantiate ::
  "nat \<Rightarrow> nat \<Rightarrow> 'g engine \<Rightarrow> (string \<Rightarrow> plugin_error + unit) option \<Rightarrow> resource_limits \<Rightarrow> wasm_packages \<Rightarrow> (plugin_error + wasm_package) \<Rightarrow>
    string \<Rightarrow> entry_options \<Rightarrow> instance_ids \<Rightarrow> ((loader_error + 'g wasm_handle) \<times> instance_ids \<times> guard_event list) option" where
  "runtime_instantiate tries pid engine hook l packages from_file specifier opts s =
    (case (case bt_get packages specifier of Some p \<Rightarrow> Inr p | None \<Rightarrow> from_file) of
       Inl e \<Rightarrow> Some (Inl (wasm_loader_error e), s, [])
     | Inr p \<Rightarrow>
         (case runtime_checks l p (eo_config opts) of
            Inl e \<Rightarrow> Some (Inl (wasm_loader_error e), s, [])
          | Inr _ \<Rightarrow>
              map_option (\<lambda>(i, s). runtime_instance engine hook l p opts i s)
                (allocate_instance_id tries pid (pm_id (wp_manifest p)) s)))"

text \<open>
  \<open>activate\<close>, \<open>dispose\<close> and the drop of a handle. Whether the instance is stopped, and what its \<open>init\<close>,
  its \<open>stop\<close> and the guard's \<open>drain\<close> answer, are arguments; a drop also revokes the instance.
\<close>

definition handle_activate :: "bool \<Rightarrow> plugin_error + json \<Rightarrow> 'g wasm_handle \<Rightarrow> (loader_error + unit) \<times> 'g wasm_handle" where
  "handle_activate stopped init h =
    (if stopped then (Inl (wasm_loader_error (stopped_error (export_phase InitExport))), h)
     else if wh_activated h then (Inr (), h)
     else (case init of Inl e \<Rightarrow> (Inl (wasm_loader_error e), h) | Inr _ \<Rightarrow> (Inr (), h\<lparr>wh_activated := True\<rparr>)))"

definition drain_and_revoke :: "plugin_error + unit \<Rightarrow> 'g wasm_handle \<Rightarrow> (plugin_error + unit) \<times> 'g wasm_handle \<times> guard_event list" where
  "drain_and_revoke drain h =
    (if \<not> wh_guard h then (Inr (), h, []) else (drain, h\<lparr>wh_guard := False\<rparr>, [GuardDrained, GuardRevoked]))"

definition handle_dispose ::
  "plugin_error + unit \<Rightarrow> plugin_error + unit \<Rightarrow> 'g wasm_handle \<Rightarrow> (loader_error + unit) \<times> 'g wasm_handle \<times> guard_event list" where
  "handle_dispose stop drain h =
    (case drain_and_revoke drain h of (drained, h, events) \<Rightarrow>
      (loader_result (try_bind stop (\<lambda>_. drained)), h, events))"

definition handle_drop :: "'g wasm_handle \<Rightarrow> guard_event list" where
  "handle_drop h = (if wh_guard h then [GuardRevoked] else [])"

subsection \<open>Nothing is left behind\<close>

lemma allocated_taken: "allocate_instance_id k pid plugin s = Some (i, s') \<Longrightarrow>
    \<not> bt_contains (taken_ids s) i \<and> taken_ids s' = bt_insert i () (taken_ids s)"
  by (induction k arbitrary: s) (fastforce simp: Let_def split: if_splits)+

definition guards_left :: "guard_event list \<Rightarrow> int" where
  "guards_left es = sum_list (map (\<lambda>e. case e of GuardInstalled _ \<Rightarrow> 1 | GuardDrained \<Rightarrow> 0 | GuardRevoked \<Rightarrow> - 1) es)"

lemma release_allocated:
  assumes "bt_wf (taken_ids s)" "allocate_instance_id k pid plugin s = Some (i, s')"
  shows "taken_ids (release_instance_id i s') = taken_ids s"
proof -
  have "bt_get (taken_ids s) i = None" using allocated_taken [OF assms(2)] by (metis bt_contains_def)
  then show ?thesis
    using allocated_taken [OF assms(2)] bt.remove_insert [OF assms(1)] by (metis release_instance_id_def instance_ids.select_convs(2) instance_ids.surjective instance_ids.update_convs(2))
qed

lemma failed_instance:
  assumes "runtime_instance engine hook l p opts i s = (Inl e, s', events)"
  shows "s' = release_instance_id i s \<and> guards_left events = 0"
proof (cases hook)
  case None
  then show ?thesis using assms by (auto simp: runtime_instance_def guards_left_def split: sum.splits)
next
  case (Some install)
  then show ?thesis using assms
    by (cases "install i") (auto simp: runtime_instance_def guards_left_def Let_def split: sum.splits)
qed

text \<open>C35: An instantiation that fails leaves nothing behind: whatever failed, the package, the checks, the
  hook or the engine, the set of identities is what it was, and a guard that was installed is revoked.
\<close>

theorem failed_instantiation_leaves_nothing:
  assumes "bt_wf (taken_ids s)"
    and "runtime_instantiate tries pid engine hook l packages from_file specifier opts s = Some (Inl e, s', events)"
  shows "taken_ids s' = taken_ids s \<and> guards_left events = 0"
  using assms
  by (auto simp: runtime_instantiate_def guards_left_def [of "[]"] release_allocated [OF assms(1)] dest!: failed_instance
      split: sum.splits option.splits)

definition sample_package :: wasm_package where
  "sample_package = \<lparr>wp_manifest = \<lparr>pm_id = ''p'', pm_version = ''0.1.0'', pm_entry = ''p.wasm'', pm_abi = ''cordis.plugin/v1'',
     pm_inject = [], pm_permissions = [CapLog], pm_config_schema = JObj [], pm_exports = all_exports\<rparr>, wp_wasm = None\<rparr>"

definition sample_options :: entry_options where
  "sample_options = \<lparr>eo_id = ''a'', eo_name = None, eo_runtime = Wasm, eo_config = JNull, eo_inject = [], eo_isolate = [],
     eo_intercept = JNull, eo_disabled = False, eo_group = None\<rparr>"

definition sample_ids :: instance_ids where
  "sample_ids = \<lparr>next_instance = 0, taken_ids = []\<rparr>"

definition small_limits :: resource_limits where
  "small_limits = \<lparr>memory_pages = 1, call_timeout = 1, fuel = 1, max_concurrency = 1, max_input_bytes = 9, max_output_bytes = 9\<rparr>"

definition failing_engine :: "unit engine" where
  "failing_engine p b l = Inl (extism_error ''instantiate'')"

theorem failed_instantiation_leaves_nothing_witness:
  "\<exists>e s' events. runtime_instantiate 2 7 failing_engine (Some (\<lambda>_. Inr ())) small_limits [(''x'', sample_package)]
      (Inr sample_package) ''x'' sample_options sample_ids = Some (Inl e, s', events)
    \<and> events \<noteq> [] \<and> taken_ids s' = [] \<and> guards_left events = 0"
proof -
  have wf: "bt_wf (taken_ids sample_ids)" by (simp add: sample_ids_def)
  have run: "runtime_instantiate 2 7 failing_engine (Some (\<lambda>_. Inr ())) small_limits [(''x'', sample_package)]
      (Inr sample_package) ''x'' sample_options sample_ids =
    Some (Inl (wasm_loader_error (extism_error ''instantiate'')), \<lparr>next_instance = 1, taken_ids = []\<rparr>,
      [GuardInstalled ''wasm:7:0'', GuardRevoked])"
    by code_simp
  from failed_instantiation_leaves_nothing [OF wf run] run show ?thesis by (simp add: sample_ids_def)
qed

end
