(* ===== verification/WasmInstance.thy ===== *)
theory WasmInstance
  imports WasmGuest Threads
begin

section \<open>A running instance (tessivum-extism)\<close>

text \<open>
  \<open>WasmPluginInstance\<close> and the in-memory engine. Any number of threads call, update, cancel and stop
  one instance; an action is one lock section, one access of an atomic or one call of the engine. Two mutexes
  are held over several actions, so the core says whether they are: that of the state while a call
  announces itself, and that of \<open>active\<close> while \<open>cancel_current\<close> cancels the call it has read there (the guard is
  a temporary that lives to the end of the expression). The flag \<open>accepting\<close> only falls, so that the two reads of it in one lock section are one. A call is a number,
  which is also its \<open>CallCancellation\<close>; \<open>waiting\<close> is the queue of the condition variable. What a
  guest answers and how long it took are inputs.
\<close>

record wasm_instance =
  guest_here :: bool
  guest_dropped :: bool
  wi_config :: json
  wi_stopped :: bool
  wi_locked :: bool
  wi_active :: "nat option"
  wi_active_locked :: bool
  wi_accepting :: bool
  wi_alive :: bool
  wi_sequence :: u64
  wi_waiting :: "nat set"
  wi_cancelled :: "nat list"
  mem_cancelled :: bool
  wi_calls :: "(guest_export \<times> json) list"
  wi_outcome :: "nat \<Rightarrow> (plugin_error + json) option"
  next_call :: nat

definition instance_new :: "json \<Rightarrow> wasm_instance" where
  "instance_new config = \<lparr>guest_here = True, guest_dropped = False, wi_config = config, wi_stopped = False,
     wi_locked = False, wi_active = None, wi_active_locked = False, wi_accepting = True, wi_alive = True, wi_sequence = 0, wi_waiting = {},
     wi_cancelled = [], mem_cancelled = False, wi_calls = [], wi_outcome = (\<lambda>_. None), next_call = 0\<rparr>"

datatype wasm_act =
    ReadConfig nat json
  | Enter nat guest_export json json
  | TakeNumber nat guest_export json json
  | Acquire nat guest_export request_envelope
  | Woken nat guest_export request_envelope
  | SetActive nat guest_export request_envelope
  | Recheck nat guest_export request_envelope
  | RollbackActive
  | PutBack
  | CallBegins nat guest_export request_envelope
  | GuestEnter nat guest_export request_envelope
  | GuestLeave nat guest_export request_envelope
  | Judge nat guest_export request_envelope "plugin_error + string"
  | ClearActive
  | PutGuest
  | DropGuest
  | KillAlive
  | NotifyAll
  | Finish nat "plugin_error + json"
  | Publish nat json
  | ReadActive
  | CancelCall nat
  | CancelGuest nat
  | StopEnter nat
  | StopNumber nat
  | StopAcquire nat request_envelope
  | StopWoken nat request_envelope
  | RevokeEnter
  | RevokeAlive

datatype wasm_input = Quiet | Answer "plugin_error + string" | Elapsed nat

record wasm_setup =
  su_show :: "request_envelope \<Rightarrow> message + string"
  su_parse :: "string \<Rightarrow> message + json"
  su_limits :: resource_limits
  su_instance :: string
  su_schema :: plugin_manifest
  su_in_memory :: bool

definition request_of :: "wasm_setup \<Rightarrow> u64 \<Rightarrow> json \<Rightarrow> json \<Rightarrow> request_envelope" where
  "request_of su n context body =
    \<lparr>rq_id = su_instance su @ '':'' @ dec (unat n), rq_context = context, rq_payload = body\<rparr>"

text \<open>
  The end of \<open>InMemoryGuestInstance::call\<close>: an answer is lost when the flag of the cancellation is set,
  which clears it; a handler's error leaves it. The flag of any other engine is never set.
\<close>

definition mem_result :: "bool \<Rightarrow> plugin_error + string \<Rightarrow> (plugin_error + string) \<times> bool" where
  "mem_result flag r =
    (case r of Inl e \<Rightarrow> (Inl e, flag) | Inr s \<Rightarrow> if flag then (Inl cancelled_error, False) else (Inr s, False))"

text \<open>What follows a guest call: the guest goes back, or the stop drops it.\<close>

definition after_call :: "nat \<Rightarrow> guest_export \<Rightarrow> plugin_error + json \<Rightarrow> wasm_act list" where
  "after_call t e r =
    (if e = StopExport then [DropGuest, Finish t (try_bind r (\<lambda>_. Inr JNull))]
     else [ClearActive, Finish t r])"

definition call_result :: "wasm_setup \<Rightarrow> guest_export \<Rightarrow> request_envelope \<Rightarrow> plugin_error + string \<Rightarrow> bool \<Rightarrow> nat \<Rightarrow> plugin_error + json" where
  "call_result su e q answer was_cancelled elapsed =
    (if was_cancelled then Inl cancelled_error
     else if elapsed > call_timeout (su_limits su) then Inl (timeout_error e (su_limits su))
     else try_bind answer (judge_output (su_parse su) e q (max_output_bytes (su_limits su))))"

fun wasm_effect :: "wasm_setup \<Rightarrow> (wasm_input, wasm_act, wasm_instance) effect" where
  "wasm_effect su i (ReadConfig t context) c =
    (if wi_locked c then None else Some ([Enter t InitExport context (wi_config c)], [], c))"
| "wasm_effect su i (Enter t e context body) c =
    (if \<not> wi_accepting c then Some ([Finish t (Inl (stopped_error (export_phase e)))], [], c)
     else Some ([TakeNumber t e context body], [], c))"
| "wasm_effect su i (TakeNumber t e context body) c =
    Some ([Acquire t e (request_of su (wi_sequence c) context body)], [], c\<lparr>wi_sequence := wi_sequence c + 1\<rparr>)"
| "wasm_effect su i (Acquire t e q) c =
    (if wi_locked c then None
     else if wi_accepting c \<and> \<not> wi_stopped c \<and> \<not> guest_here c
     then Some ([Woken t e q], [], c\<lparr>wi_waiting := insert t (wi_waiting c)\<rparr>)
     else if \<not> wi_accepting c \<or> wi_stopped c \<or> \<not> guest_here c
     then Some ([Finish t (Inl (stopped_error (export_phase e)))], [], c)
     else Some ([SetActive t e q], [], c\<lparr>guest_here := False, wi_locked := True\<rparr>))"
| "wasm_effect su i (Woken t e q) c =
    (if t \<in> wi_waiting c then None else Some ([Acquire t e q], [], c))"
| "wasm_effect su i (SetActive t e q) c =
    (if wi_active_locked c then None else Some ([Recheck t e q], [], c\<lparr>wi_active := Some t\<rparr>))"
| "wasm_effect su i (Recheck t e q) c =
    (if \<not> wi_accepting c
     then Some ([RollbackActive, Finish t (Inl (stopped_error (export_phase e)))], [], c)
     else Some ([CallBegins t e q], [], c\<lparr>wi_locked := False\<rparr>))"
| "wasm_effect su i RollbackActive c =
    (if wi_active_locked c then None else Some ([PutBack], [], c\<lparr>wi_active := None\<rparr>))"
| "wasm_effect su i PutBack c = Some ([NotifyAll], [], c\<lparr>guest_here := True, wi_locked := False\<rparr>)"
| "wasm_effect su i (CallBegins t e q) c =
    (case guest_input (su_show su) e q (su_limits su) of
       Inl err \<Rightarrow> Some (after_call t e (Inl err), [], c)
     | Inr _ \<Rightarrow> Some ([GuestEnter t e q], [], c))"
| "wasm_effect su i (GuestEnter t e q) c =
    (if mem_cancelled c then Some ([Judge t e q (Inl cancelled_error)], [], c\<lparr>mem_cancelled := False\<rparr>)
     else Some ([GuestLeave t e q], [], c\<lparr>wi_calls := wi_calls c @ [(e, rq_payload q)]\<rparr>))"
| "wasm_effect su i (GuestLeave t e q) c =
    (case i of
       Answer r \<Rightarrow>
         (case mem_result (mem_cancelled c) r of (r, flag) \<Rightarrow> Some ([Judge t e q r], [], c\<lparr>mem_cancelled := flag\<rparr>))
     | _ \<Rightarrow> None)"
| "wasm_effect su i (Judge t e q r) c =
    (case i of
       Elapsed n \<Rightarrow> Some (after_call t e (call_result su e q r (e \<noteq> StopExport \<and> t \<in> set (wi_cancelled c)) n), [], c)
     | _ \<Rightarrow> None)"
| "wasm_effect su i ClearActive c =
    (if wi_active_locked c then None else Some ([PutGuest], [], c\<lparr>wi_active := None\<rparr>))"
| "wasm_effect su i PutGuest c =
    (if wi_locked c then None else Some ([NotifyAll], [], c\<lparr>guest_here := True\<rparr>))"
| "wasm_effect su i DropGuest c = Some ([KillAlive], [], c\<lparr>guest_dropped := True\<rparr>)"
| "wasm_effect su i KillAlive c = Some ([NotifyAll], [], c\<lparr>wi_alive := False\<rparr>)"
| "wasm_effect su i NotifyAll c = Some ([], [], c\<lparr>wi_waiting := {}\<rparr>)"
| "wasm_effect su i (Finish t r) c = Some ([], [], c\<lparr>wi_outcome := (wi_outcome c)(t \<mapsto> r)\<rparr>)"
| "wasm_effect su i (Publish t config) c =
    (case wi_outcome c t of
       Some (Inr _) \<Rightarrow> if wi_locked c then None else Some ([], [], c\<lparr>wi_config := config\<rparr>)
     | _ \<Rightarrow> Some ([], [], c))"
| "wasm_effect su i ReadActive c =
    (if wi_active_locked c then None
     else case wi_active c of
       None \<Rightarrow> Some ([], [], c)
     | Some t \<Rightarrow> Some ([CancelCall t], [], c\<lparr>wi_active_locked := True\<rparr>))"
| "wasm_effect su i (CancelCall t) c =
    (if t \<in> set (wi_cancelled c) then Some ([], [], c\<lparr>wi_active_locked := False\<rparr>)
     else Some ([CancelGuest t], [], c\<lparr>wi_cancelled := wi_cancelled c @ [t]\<rparr>))"
| "wasm_effect su i (CancelGuest t) c =
    Some ([], [], c\<lparr>mem_cancelled := mem_cancelled c \<or> su_in_memory su, wi_active_locked := False\<rparr>)"
| "wasm_effect su i (StopEnter t) c =
    (if \<not> wi_accepting c then Some ([Finish t (Inr JNull)], [], c)
     else Some ([ReadActive, StopNumber t], [], c\<lparr>wi_accepting := False\<rparr>))"
| "wasm_effect su i (StopNumber t) c =
    Some ([StopAcquire t (request_of su (wi_sequence c) JNull JNull)], [], c\<lparr>wi_sequence := wi_sequence c + 1\<rparr>)"
| "wasm_effect su i (StopAcquire t q) c =
    (if wi_locked c then None
     else if \<not> guest_here c then Some ([StopWoken t q], [], c\<lparr>wi_waiting := insert t (wi_waiting c)\<rparr>)
     else Some ([CallBegins t StopExport q], [], c\<lparr>guest_here := False, wi_stopped := True\<rparr>))"
| "wasm_effect su i (StopWoken t q) c =
    (if t \<in> wi_waiting c then None else Some ([StopAcquire t q], [], c))"
| "wasm_effect su i RevokeEnter c =
    (if \<not> wi_accepting c then Some ([], [], c) else Some ([ReadActive, RevokeAlive], [], c\<lparr>wi_accepting := False\<rparr>))"
| "wasm_effect su i RevokeAlive c = Some ([NotifyAll], [], c\<lparr>wi_alive := False\<rparr>)"

text \<open>
  Callers: \<open>init\<close>, \<open>call\<close>, \<open>event\<close>, \<open>update\<close>, \<open>cancel_current\<close>, \<open>stop\<close>, and the \<open>revoke\<close> of a drop,
  which happens when nothing else uses the instance.
\<close>

datatype wasm_arrival =
    InitArrives json
  | CallArrives json json
  | EventArrives json json
  | UpdateArrives json json
  | CancelArrives
  | StopArrives
  | DropArrives

fun arrival_acts :: "wasm_setup \<Rightarrow> nat \<Rightarrow> wasm_arrival \<Rightarrow> wasm_act list" where
  "arrival_acts su t (InitArrives context) = [ReadConfig t context]"
| "arrival_acts su t (CallArrives context body) = [Enter t CallExport context body]"
| "arrival_acts su t (EventArrives context body) = [Enter t EventExport context body]"
| "arrival_acts su t (UpdateArrives context config) =
    (case manifest_validate_config (su_schema su) config of
       Inl e \<Rightarrow> [Finish t (Inl e)] | Inr _ \<Rightarrow> [Enter t UpdateExport context config, Publish t config])"
| "arrival_acts su t CancelArrives = [ReadActive]"
| "arrival_acts su t StopArrives = [StopEnter t]"
| "arrival_acts su t DropArrives = [RevokeEnter]"

type_synonym wasm_state = "wasm_instance \<times> wasm_act list list"

datatype wasm_label = Arrives wasm_arrival | Runs nat wasm_input

fun wasm_exec :: "wasm_setup \<Rightarrow> wasm_label \<Rightarrow> wasm_state \<Rightarrow> wasm_state option" where
  "wasm_exec su (Arrives a) (c, ths) =
    (if a = DropArrives \<and> \<not> list_all (\<lambda>th. th = []) ths then None
     else Some (c\<lparr>next_call := Suc (next_call c)\<rparr>, ths @ [arrival_acts su (next_call c) a]))"
| "wasm_exec su (Runs t i) s = thread_step (wasm_effect su) t i s"

definition wasm_start :: "wasm_state \<Rightarrow> bool" where
  "wasm_start s \<longleftrightarrow> (\<exists>config. s = (instance_new config, []))"

abbreviation wasm_reach :: "wasm_setup \<Rightarrow> wasm_state \<Rightarrow> bool" where
  "wasm_reach su \<equiv> reach wasm_start (exec_rel (wasm_exec su))"

end
