(* ===== verification/WasmRuns.thy ===== *)
theory WasmRuns
  imports WasmInstance
begin

section \<open>Runs of an instance\<close>

text \<open>
  One guest, one holder: the guest is in the instance, with one thread, or dropped. A call that is in
  the guest when a stop begins is cancelled, the stop export is called once and last, and nobody
  waits for a guest that no thread will give back.
\<close>

lemmas wasm_splits = if_splits option.splits sum.splits prod.splits wasm_input.splits

lemma weigh_after_call: "weigh w (after_call t e r) =
    (if e = StopExport then w DropGuest + w (Finish t (try_bind r (\<lambda>_. Inr JNull)))
     else w ClearActive + w (Finish t r))"
  by (simp add: after_call_def)

lemma after_call_members: "a \<in> set (after_call t e r) \<longleftrightarrow>
    (if e = StopExport then a = DropGuest \<or> a = Finish t (try_bind r (\<lambda>_. Inr JNull))
     else a = ClearActive \<or> a = Finish t r)"
  by (auto simp: after_call_def)

subsection \<open>The guest has one holder\<close>

fun holds_guest :: "wasm_act \<Rightarrow> nat" where
  "holds_guest (SetActive _ _ _) = 1"
| "holds_guest (Recheck _ _ _) = 1"
| "holds_guest RollbackActive = 1"
| "holds_guest PutBack = 1"
| "holds_guest (CallBegins _ _ _) = 1"
| "holds_guest (GuestEnter _ _ _) = 1"
| "holds_guest (GuestLeave _ _ _) = 1"
| "holds_guest (Judge _ _ _ _) = 1"
| "holds_guest ClearActive = 1"
| "holds_guest PutGuest = 1"
| "holds_guest DropGuest = 1"
| "holds_guest _ = 0"

definition guest_kept :: "wasm_instance \<Rightarrow> nat" where
  "guest_kept c = of_bool (guest_here c) + of_bool (guest_dropped c)"

fun hold_ok :: "wasm_instance \<Rightarrow> wasm_act \<Rightarrow> bool" where
  "hold_ok c PutBack = (\<not> guest_here c)"
| "hold_ok c PutGuest = (\<not> guest_here c)"
| "hold_ok c DropGuest = (\<not> guest_dropped c)"
| "hold_ok c _ = True"

interpretation holding: thread_conserved "wasm_effect su" guest_kept holds_guest hold_ok
  for su
proof unfold_locales
  show "guest_kept c' + weigh holds_guest acts + total holds_guest spawned \<le> guest_kept c + holds_guest a"
    if "hold_ok c a" "wasm_effect su i a c = Some (acts, spawned, c')" for c a i acts spawned c'
    using that by (cases a) (auto simp: guest_kept_def weigh_after_call split: wasm_splits)
  show "guest_kept c + holds_guest a \<le> guest_kept c' + weigh holds_guest acts + total holds_guest spawned"
    if "hold_ok c a" "wasm_effect su i a c = Some (acts, spawned, c')" for c a i acts spawned c'
    using that by (cases a) (auto simp: guest_kept_def weigh_after_call split: wasm_splits)
qed

lemma arrival_weight:
  "(\<And>t r. w (Finish t r) = 0) \<Longrightarrow> (\<And>t e x y. w (Enter t e x y) = 0) \<Longrightarrow> (\<And>t x. w (ReadConfig t x) = 0) \<Longrightarrow>
    (\<And>t x. w (Publish t x) = 0) \<Longrightarrow> w ReadActive = 0 \<Longrightarrow> (\<And>t. w (StopEnter t) = 0) \<Longrightarrow> w RevokeEnter = 0 \<Longrightarrow>
    weigh w (arrival_acts su t a) = 0"
  by (cases a) (auto split: sum.splits)

lemma hold_total_ok:
  assumes "guest_kept c + total holds_guest ths \<le> 1"
  shows "all_acts (hold_ok c) ths"
  unfolding all_acts_def
proof (intro ballI)
  fix th a assume th: "th \<in> set ths" and a: "a \<in> set th"
  have "holds_guest a \<le> total holds_guest ths" using total_ge [OF th] weigh_ge [OF a] le_trans by blast
  then show "hold_ok c a" using assms by (cases a) (auto simp: guest_kept_def)
qed

lemma wasm_induct [consumes 1, case_names start arrive act]:
  assumes "wasm_reach su (c, ths)"
    and "\<And>config. P (instance_new config) []"
    and "\<And>c ths a. wasm_reach su (c, ths) \<Longrightarrow> P c ths \<Longrightarrow> (a = DropArrives \<Longrightarrow> list_all (\<lambda>th. th = []) ths) \<Longrightarrow>
      P (c\<lparr>next_call := Suc (next_call c)\<rparr>) (ths @ [arrival_acts su (next_call c) a])"
    and "\<And>c ths t i c' ths'. wasm_reach su (c, ths) \<Longrightarrow> P c ths \<Longrightarrow>
      thread_step (wasm_effect su) t i (c, ths) = Some (c', ths') \<Longrightarrow> P c' ths'"
  shows "P c ths"
  using assms(1)
proof (induction "(c, ths)" arbitrary: c ths rule: reach.induct)
  case reach_init
  then show ?case using assms(2) by (auto simp: wasm_start_def)
next
  case (reach_step s l)
  obtain c0 ths0 where s: "s = (c0, ths0)" by (cases s)
  show ?case
  proof (cases l)
    case (Arrives a)
    then have "c = c0\<lparr>next_call := Suc (next_call c0)\<rparr>" "ths = ths0 @ [arrival_acts su (next_call c0) a]"
      "a = DropArrives \<Longrightarrow> list_all (\<lambda>th. th = []) ths0"
      using reach_step(3) s by (auto simp: exec_rel_def split: if_splits)
    then show ?thesis using assms(3) [OF _ reach_step(2) [OF s]] reach_step(1) s by blast
  next
    case (Runs t i)
    then have "thread_step (wasm_effect su) t i (c0, ths0) = Some (c, ths)"
      using reach_step(3) s by (simp add: exec_rel_def)
    then show ?thesis using assms(4) [OF _ reach_step(2) [OF s]] reach_step(1) s by blast
  qed
qed

lemma one_holder: "wasm_reach su (c, ths) \<Longrightarrow> guest_kept c + total holds_guest ths = 1"
proof (induction rule: wasm_induct)
  case (act c ths t i c' ths')
  then show ?case using holding.step_conserved [OF hold_total_ok act(2)] by simp
qed (simp_all add: instance_new_def guest_kept_def arrival_weight)

fun in_guest :: "wasm_act \<Rightarrow> nat" where
  "in_guest (GuestLeave _ _ _) = 1"
| "in_guest _ = 0"

lemma total_mono: "(\<And>a. v a \<le> w a) \<Longrightarrow> total v ths \<le> total w ths"
  unfolding total_def weigh_def by (intro sum_list_mono) (simp add: sum_list_mono)

lemma total_plus: "total (\<lambda>a. v a + w a) ths = total v ths + total w ths"
  by (simp add: total_def weigh_def [abs_def] sum_list_addf)

lemma total_pos: "th \<in> set ths \<Longrightarrow> a \<in> set th \<Longrightarrow> w a \<le> total w ths"
  using total_ge [of th ths w] weigh_ge [of a th w] by linarith

lemma total_exists: "1 \<le> total w ths \<Longrightarrow> \<exists>th\<in>set ths. \<exists>a\<in>set th. 1 \<le> w a"
  using total_zero [of w ths] by (metis One_nat_def Suc_leI gr0I not_one_le_zero)

subsection \<open>The stop comes once and last\<close>

fun proper :: "wasm_instance \<Rightarrow> wasm_act \<Rightarrow> bool" where
  "proper c (Enter _ e _ _) = (e \<noteq> StopExport)"
| "proper c (TakeNumber _ e _ _) = (e \<noteq> StopExport)"
| "proper c (Acquire _ e _) = (e \<noteq> StopExport)"
| "proper c (Woken _ e _) = (e \<noteq> StopExport)"
| "proper c (SetActive _ e _) = (e \<noteq> StopExport)"
| "proper c (Recheck _ e _) = (e \<noteq> StopExport)"
| "proper c (CallBegins _ e _) = (e = StopExport \<longrightarrow> wi_stopped c)"
| "proper c (GuestEnter _ e _) = (e = StopExport \<longrightarrow> wi_stopped c)"
| "proper c (GuestLeave _ e _) = (e = StopExport \<longrightarrow> wi_stopped c)"
| "proper c (Judge _ e _ _) = (e = StopExport \<longrightarrow> wi_stopped c)"
| "proper c DropGuest = wi_stopped c"
| "proper c _ = True"

definition stop_settled :: "wasm_instance \<Rightarrow> bool" where
  "stop_settled c \<longleftrightarrow> (guest_dropped c \<longrightarrow> wi_stopped c) \<and> (StopExport \<in> fst ` set (wi_calls c) \<longrightarrow> wi_stopped c)"

lemma stopped_stays: "wasm_effect su i a c = Some (acts, spawned, c') \<Longrightarrow> wi_stopped c \<Longrightarrow> wi_stopped c'"
  by (cases a) (auto split: wasm_splits)

lemma spawns_none: "wasm_effect su i a c = Some (acts, spawned, c') \<Longrightarrow> spawned = []"
  by (cases a) (simp_all split: wasm_splits)

lemma proper_acts: "wasm_effect su i a c = Some (acts, spawned, c') \<Longrightarrow> proper c a \<Longrightarrow> \<forall>b\<in>set acts. proper c' b"
  by (cases a) (auto simp: after_call_members split: wasm_splits)

lemma stop_settled_step: "wasm_effect su i a c = Some (acts, spawned, c') \<Longrightarrow> proper c a \<Longrightarrow> stop_settled c \<Longrightarrow> stop_settled c'"
  unfolding stop_settled_def by (cases a) (auto split: wasm_splits)

interpretation acts_proper: thread_invariant "wasm_effect su" stop_settled proper
  for su
proof unfold_locales
  show "stop_settled c' \<and> (\<forall>b\<in>set acts. proper c' b) \<and> all_acts (proper c') spawned"
    if "stop_settled c" "proper c a" "wasm_effect su i a c = Some (acts, spawned, c')" for c a i acts spawned c'
    using stop_settled_step [OF that(3,2,1)] proper_acts [OF that(3,2)] spawns_none [OF that(3)] by simp
  show "proper c' b" if "stop_settled c" "proper c a" "wasm_effect su i a c = Some (acts, spawned, c')" "proper c b"
    for c a i acts spawned c' b
    using stopped_stays [OF that(3)] that(4) by (cases b) auto
qed

lemma arrival_proper: "\<forall>b\<in>set (arrival_acts su t a). proper c b"
  by (cases a) (auto split: sum.splits)

lemma proper_next [simp]: "proper (c\<lparr>next_call := n\<rparr>) a = proper c a"
  by (cases a) auto

lemma properly: "wasm_reach su (c, ths) \<Longrightarrow> stop_settled c \<and> all_acts (proper c) ths"
proof (induction rule: wasm_induct)
  case (act c ths t i c' ths')
  then show ?case using acts_proper.step_inv [of c ths su t i c' ths'] by blast
qed (auto simp: stop_settled_def instance_new_def all_acts_def arrival_proper)

text \<open>There is one stop: before it, the flag that it lowers; behind it, the guest it dropped.\<close>

fun stops :: "wasm_act \<Rightarrow> nat" where
  "stops (StopNumber _) = 1"
| "stops (StopAcquire _ _) = 1"
| "stops (StopWoken _ _) = 1"
| "stops (CallBegins _ e _) = of_bool (e = StopExport)"
| "stops (GuestEnter _ e _) = of_bool (e = StopExport)"
| "stops (GuestLeave _ e _) = of_bool (e = StopExport)"
| "stops (Judge _ e _ _) = of_bool (e = StopExport)"
| "stops DropGuest = 1"
| "stops _ = 0"

definition stop_left :: "wasm_instance \<Rightarrow> nat" where
  "stop_left c = of_bool (wi_accepting c) + of_bool (guest_dropped c)"

interpretation stopping: thread_bound "wasm_effect su" stop_left stops proper
  for su
proof unfold_locales
  show "stop_left c' + weigh stops acts + total stops spawned \<le> stop_left c + stops a"
    if "proper c a" "wasm_effect su i a c = Some (acts, spawned, c')" for c a i acts spawned c'
    using that by (cases a) (auto simp: stop_left_def weigh_after_call split: wasm_splits)
qed

fun stop_calls_left :: "wasm_act \<Rightarrow> nat" where
  "stop_calls_left (StopNumber _) = 1"
| "stop_calls_left (StopAcquire _ _) = 1"
| "stop_calls_left (StopWoken _ _) = 1"
| "stop_calls_left (CallBegins _ e _) = of_bool (e = StopExport)"
| "stop_calls_left (GuestEnter _ e _) = of_bool (e = StopExport)"
| "stop_calls_left _ = 0"

definition stop_called :: "wasm_instance \<Rightarrow> nat" where
  "stop_called c = of_bool (wi_accepting c) + count_list (map fst (wi_calls c)) StopExport"

interpretation calling_stop: thread_bound "wasm_effect su" stop_called stop_calls_left proper
  for su
proof unfold_locales
  show "stop_called c' + weigh stop_calls_left acts + total stop_calls_left spawned \<le> stop_called c + stop_calls_left a"
    if "proper c a" "wasm_effect su i a c = Some (acts, spawned, c')" for c a i acts spawned c'
    using that by (cases a) (auto simp: stop_called_def weigh_after_call split: wasm_splits)
qed

lemma one_stop: "wasm_reach su (c, ths) \<Longrightarrow> stop_left c + total stops ths \<le> 1"
proof (induction rule: wasm_induct)
  case (act c ths t i c' ths')
  then show ?case using stopping.step_bound [OF _ act(2)] properly [OF act(1)] by fastforce
qed (simp_all add: instance_new_def stop_left_def arrival_weight)

lemma one_stop_call: "wasm_reach su (c, ths) \<Longrightarrow> stop_called c + total stop_calls_left ths \<le> 1"
proof (induction rule: wasm_induct)
  case (act c ths t i c' ths')
  then show ?case using calling_stop.step_bound [OF _ act(2)] properly [OF act(1)] by fastforce
qed (simp_all add: instance_new_def stop_called_def arrival_weight)
end
