(* ===== verification/WasmLive.thy ===== *)
theory WasmLive
  imports WasmRuns
begin

section \<open>Stopping, cancelling and waiting\<close>

text \<open>
  The properties of the instance: the guest runs one call at a time and its stop last, a stop cancels
  the call it finds, every waiting thread will be woken, and no thread is ever stuck.
\<close>

lemma all_acts_True: "all_acts (\<lambda>_. True) ths"
  by (simp add: all_acts_def)

subsection \<open>Concrete runs\<close>

definition echo_parse :: "string \<Rightarrow> message + json" where
  "echo_parse s = Inr (JObj [(''requestId'', JStr s), (''result'', JNull)])"

definition sample_wasm_manifest :: plugin_manifest where
  "sample_wasm_manifest = \<lparr>pm_id = ''p'', pm_version = ''1.2.3'', pm_entry = ''p.wasm'', pm_abi = ''cordis.plugin/v1'',
     pm_inject = [], pm_permissions = [], pm_config_schema = JObj [], pm_exports = all_exports\<rparr>"

definition wasm_setup_sample :: wasm_setup where
  "wasm_setup_sample = \<lparr>su_show = (\<lambda>q. Inr (rq_id q)), su_parse = echo_parse,
     su_limits = \<lparr>memory_pages = 1, call_timeout = 9, fuel = 9, max_concurrency = 1, max_input_bytes = 9, max_output_bytes = 9\<rparr>,
     su_instance = ''w'', su_schema = sample_wasm_manifest, su_in_memory = True\<rparr>"

definition to_guest :: "nat \<Rightarrow> wasm_label list" where
  "to_guest t = map (\<lambda>_. Runs t Quiet) [0, 0, 0, 0, 0, 0, 0 :: nat]"

definition from_guest :: "nat \<Rightarrow> string \<Rightarrow> wasm_label list" where
  "from_guest t s = [Runs t (Answer (Inr s)), Runs t (Elapsed 0), Runs t Quiet, Runs t Quiet, Runs t Quiet, Runs t Quiet]"

definition see :: "wasm_label list \<Rightarrow> (wasm_instance \<Rightarrow> 'a) \<Rightarrow> ('a \<times> wasm_act list list) option" where
  "see ls f = map_option (\<lambda>(c, ths). (f c, ths)) (exec_run (wasm_exec wasm_setup_sample) ls (instance_new JNull, []))"

lemma see_reach: "see ls f = Some (x, ths) \<Longrightarrow> \<exists>c. wasm_reach wasm_setup_sample (c, ths) \<and> f c = x"
proof -
  assume "see ls f = Some (x, ths)"
  then obtain c where r: "exec_run (wasm_exec wasm_setup_sample) ls (instance_new JNull, []) = Some (c, ths)" "f c = x"
    by (auto simp: see_def)
  have "wasm_start (instance_new JNull, [])" by (auto simp: wasm_start_def)
  from exec_run_reach [where init = wasm_start, OF r(1) this] r(2) show ?thesis by blast
qed

lemma stop_during_call:
  "see (Arrives (CallArrives JNull JNull) # to_guest 0 @ Arrives StopArrives # map (\<lambda>_. Runs 1 Quiet) [0, 0, 0, 0, 0, 0 :: nat])
    (\<lambda>c. (wi_accepting c, guest_here c, guest_dropped c, wi_cancelled c)) =
    Some ((False, False, False, [0]),
      [[GuestLeave 0 CallExport (request_of wasm_setup_sample 0 JNull JNull)], [StopWoken 1 (request_of wasm_setup_sample 1 JNull JNull)]])"
  by code_simp

lemma stop_during_call_state:
  "\<exists>c. wasm_reach wasm_setup_sample (c, [[GuestLeave 0 CallExport (request_of wasm_setup_sample 0 JNull JNull)],
      [StopWoken 1 (request_of wasm_setup_sample 1 JNull JNull)]])
    \<and> \<not> wi_accepting c \<and> \<not> guest_here c \<and> \<not> guest_dropped c \<and> wi_cancelled c = [0]"
  using see_reach [OF stop_during_call] by (simp only: prod.inject simp_thms)

text \<open>C36: An instance runs one guest call at a time: in every interleaving at most one call is in the guest,
  and none is while the guest is back in its instance or has been dropped.
\<close>

theorem calls_one_at_a_time:
  assumes "wasm_reach su (c, ths)"
  shows "of_bool (guest_here c) + of_bool (guest_dropped c) + total in_guest ths \<le> 1"
proof -
  have "in_guest a \<le> holds_guest a" for a by (cases a) auto
  from total_mono [of in_guest holds_guest ths, OF this] one_holder [OF assms] show ?thesis
    unfolding guest_kept_def by linarith
qed

theorem calls_one_at_a_time_witness:
  "\<exists>c. wasm_reach wasm_setup_sample (c, [[GuestLeave 0 CallExport (request_of wasm_setup_sample 0 JNull JNull)],
      [StopWoken 1 (request_of wasm_setup_sample 1 JNull JNull)]]) \<and> of_bool (guest_here c) + of_bool (guest_dropped c) + 1 \<le> (1 :: nat)"
proof -
  obtain c where r: "wasm_reach wasm_setup_sample (c, [[GuestLeave 0 CallExport (request_of wasm_setup_sample 0 JNull JNull)],
      [StopWoken 1 (request_of wasm_setup_sample 1 JNull JNull)]])"
    using stop_during_call_state by blast
  from calls_one_at_a_time [OF r] r show ?thesis by auto
qed

subsection \<open>The stop is the last call\<close>

fun stop_holds :: "wasm_act \<Rightarrow> nat" where
  "stop_holds (CallBegins _ e _) = of_bool (e = StopExport)"
| "stop_holds (GuestEnter _ e _) = of_bool (e = StopExport)"
| "stop_holds (GuestLeave _ e _) = of_bool (e = StopExport)"
| "stop_holds (Judge _ e _ _) = of_bool (e = StopExport)"
| "stop_holds DropGuest = 1"
| "stop_holds _ = 0"

definition was_dropped :: "wasm_instance \<Rightarrow> nat" where
  "was_dropped c = of_bool (guest_dropped c)"

interpretation stop_keeps: thread_guard "wasm_effect su" wi_stopped was_dropped stop_holds "\<lambda>_ _. True"
  for su
proof unfold_locales
  show "wi_stopped c \<and> was_dropped c + stop_holds a \<le> was_dropped c' + weigh stop_holds acts + total stop_holds spawned
      \<or> 1 \<le> was_dropped c' + weigh stop_holds acts + total stop_holds spawned"
    if "wasm_effect su i a c = Some (acts, spawned, c')" "wi_stopped c'" for c a i acts spawned c'
    using that by (cases a) (auto simp: was_dropped_def weigh_after_call split: wasm_splits)
qed

lemma stopped_held: "wasm_reach su (c, ths) \<Longrightarrow> wi_stopped c \<longrightarrow> 1 \<le> was_dropped c + total stop_holds ths"
proof (induction rule: wasm_induct)
  case (act c ths t i c' ths')
  then show ?case
    using stop_keeps.step_guard [OF all_acts_True act(2)] by blast
qed (simp_all add: instance_new_def was_dropped_def arrival_weight)

text \<open>A guest that is with the stop is with no other call.\<close>

lemma stopped_only_stop:
  assumes "wasm_reach su (c, ths)" "wi_stopped c" "th \<in> set ths" "a \<in> set th" "holds_guest a = 1"
  shows "stop_holds a = 1"
proof (rule ccontr)
  assume "stop_holds a \<noteq> 1"
  then have "holds_guest a - stop_holds a = 1" using assms(5) by (cases a) auto
  moreover have "holds_guest b = stop_holds b + (holds_guest b - stop_holds b)" for b by (cases b) auto
  then have "total holds_guest ths = total stop_holds ths + total (\<lambda>b. holds_guest b - stop_holds b) ths"
    by (subst total_plus [symmetric]) simp
  moreover have "holds_guest a - stop_holds a \<le> total (\<lambda>b. holds_guest b - stop_holds b) ths"
    by (rule total_pos [OF assms(3,4)])
  ultimately show False
    using one_holder [OF assms(1)] stopped_held [OF assms(1)] assms(2) by (simp add: guest_kept_def was_dropped_def)
qed

lemma calls_log: "wasm_effect su i a c = Some (acts, spawned, c') \<Longrightarrow>
    wi_calls c' = wi_calls c \<or> (\<exists>t e q. a = GuestEnter t e q \<and> wi_calls c' = wi_calls c @ [(e, rq_payload q)])"
  by (cases a) (auto split: wasm_splits)

lemma head_pending: "t < length ths \<Longrightarrow> ths ! t = a # rest \<Longrightarrow> \<exists>th\<in>set ths. a \<in> set th"
  by (metis list.set_intros(1) nth_mem)

text \<open>C37: In every interleaving of callers, the guest's stop export is called at most once, and no other
  export of the guest is called after it.
\<close>

theorem stop_called_last:
  assumes "wasm_reach su (c, ths)"
  shows "StopExport \<notin> set (butlast (map fst (wi_calls c)))"
  using assms
proof (induction rule: wasm_induct)
  case (act c ths t i c' ths')
  obtain a rest acts spawned where a: "t < length ths" "ths ! t = a # rest" "wasm_effect su i a c = Some (acts, spawned, c')"
    using act(2) by (rule thread_step_cases)
  from head_pending [OF a(1,2)] obtain th where th: "th \<in> set ths" "a \<in> set th" by blast
  show ?case
  proof (cases "wi_calls c' = wi_calls c")
    case False
    with calls_log [OF a(3)] obtain k e q where e: "a = GuestEnter k e q" "wi_calls c' = wi_calls c @ [(e, rq_payload q)]" by blast
    have "StopExport \<notin> set (map fst (wi_calls c))"
    proof (cases "e = StopExport")
      case True
      then have "1 \<le> total stop_calls_left ths" using total_pos [OF th, of stop_calls_left] e by simp
      then have "count_list (map fst (wi_calls c)) StopExport = 0" using one_stop_call [OF act(1)] by (simp add: stop_called_def)
      then show ?thesis by (simp add: count_list_0_iff)
    next
      case False
      then have "stop_holds a = 0" "holds_guest a = 1" using e by auto
      then have "\<not> wi_stopped c" using stopped_only_stop [OF act(1) _ th] by auto
      then show ?thesis using properly [OF act(1)] by (auto simp: stop_settled_def)
    qed
    then show ?thesis using e by simp
  qed (use act in simp)
qed (simp_all add: instance_new_def)

lemma call_then_stop:
  "see (Arrives (CallArrives JNull JNull) # to_guest 0 @ from_guest 0 ''w:0'' @ Arrives StopArrives
      # map (\<lambda>_. Runs 1 Quiet) [0, 0, 0, 0, 0, 0 :: nat] @ from_guest 1 ''w:1'')
    (\<lambda>c. (map fst (wi_calls c), guest_dropped c, wi_alive c, wi_outcome c 1)) =
    Some (([CallExport, StopExport], True, False, Some (Inr JNull)), [[], []])"
  by code_simp

theorem stop_called_last_witness:
  "\<exists>c. wasm_reach wasm_setup_sample (c, [[], []]) \<and> map fst (wi_calls c) = [CallExport, StopExport]
    \<and> StopExport \<notin> set (butlast (map fst (wi_calls c)))"
proof -
  obtain c where r: "wasm_reach wasm_setup_sample (c, [[], []])" "map fst (wi_calls c) = [CallExport, StopExport]"
    using see_reach [OF call_then_stop] by (elim exE conjE) (simp only: prod.inject)
  show ?thesis by (intro exI [of _ c] conjI r stop_called_last [OF r(1)])
qed

subsection \<open>A stop cancels the call it finds\<close>

fun cancelling :: "wasm_act \<Rightarrow> bool" where
  "cancelling ReadActive = True"
| "cancelling (CancelCall _) = True"
| "cancelling _ = False"

fun comes_to_cancel :: "nat \<Rightarrow> wasm_act \<Rightarrow> nat" where
  "comes_to_cancel t ReadActive = 1"
| "comes_to_cancel t (CancelCall k) = of_bool (k = t)"
| "comes_to_cancel t _ = 0"

fun backs_out :: "wasm_act \<Rightarrow> nat" where
  "backs_out (Recheck _ _ _) = 1"
| "backs_out RollbackActive = 1"
| "backs_out ClearActive = 1"
| "backs_out _ = 0"

definition uncancelled :: "nat \<Rightarrow> wasm_instance \<Rightarrow> bool" where
  "uncancelled t c \<longleftrightarrow> \<not> wi_accepting c \<and> wi_active c = Some t \<and> t \<notin> set (wi_cancelled c)"

interpretation stop_cancels: thread_guard "wasm_effect su" "uncancelled t" "\<lambda>_. 0"
  "\<lambda>a. comes_to_cancel t a + backs_out a" "\<lambda>_ _. True" for su t
proof unfold_locales
  show "uncancelled t c \<and> 0 + (comes_to_cancel t a + backs_out a)
        \<le> 0 + weigh (\<lambda>a. comes_to_cancel t a + backs_out a) acts + total (\<lambda>a. comes_to_cancel t a + backs_out a) spawned
      \<or> 1 \<le> 0 + weigh (\<lambda>a. comes_to_cancel t a + backs_out a) acts + total (\<lambda>a. comes_to_cancel t a + backs_out a) spawned"
    if "wasm_effect su i a c = Some (acts, spawned, c')" "uncancelled t c'" for c a i acts spawned c'
    using that by (cases a) (auto simp: uncancelled_def weigh_after_call split: wasm_splits)
qed

lemma uncancelled_pending: "wasm_reach su (c, ths) \<Longrightarrow>
    uncancelled t c \<longrightarrow> 1 \<le> total (comes_to_cancel t) ths + total backs_out ths"
proof (induction rule: wasm_induct)
  case (act c ths k i c' ths')
  then show ?case
    using stop_cancels.step_guard [OF all_acts_True act(2), of t] by (simp add: total_plus)
qed (auto simp: instance_new_def uncancelled_def)

text \<open>A call that is past its announcement is the one the instance calls active.\<close>

fun flying :: "wasm_act \<Rightarrow> nat option" where
  "flying (Recheck t e q) = Some t"
| "flying (CallBegins t e q) = (if e = StopExport then None else Some t)"
| "flying (GuestEnter t e q) = (if e = StopExport then None else Some t)"
| "flying (GuestLeave t e q) = (if e = StopExport then None else Some t)"
| "flying (Judge t e q r) = (if e = StopExport then None else Some t)"
| "flying _ = None"

lemma flying_holds: "flying a = Some k \<Longrightarrow> holds_guest a = 1"
  by (cases a) auto

lemma active_changes: "wasm_effect su i a c = Some (acts, spawned, c') \<Longrightarrow> wi_active c' \<noteq> wi_active c \<Longrightarrow> holds_guest a = 1"
  by (cases a) (auto split: wasm_splits)

lemma flying_acts: "wasm_effect su i a c = Some (acts, spawned, c') \<Longrightarrow> b \<in> set acts \<Longrightarrow> flying b = Some k \<Longrightarrow>
    wi_active c' = Some k \<or> wi_active c' = wi_active c \<and> flying a = Some k"
  by (cases a) (auto simp: after_call_members split: wasm_splits)

lemma others_idle:
  assumes "wasm_reach su (c, ths)" "t < length ths" "ths ! t = a # rest" "holds_guest a = 1"
    and "th \<in> set (ths[t := rest])" "b \<in> set th"
  shows "holds_guest b = 0"
  using total_update [OF assms(2), of holds_guest rest] one_holder [OF assms(1)] total_pos [OF assms(5,6), of holds_guest] assms(3,4)
  by simp

lemma pending_step:
  assumes "b \<in> set th" "th \<in> set (ths[t := acts @ rest])"
  shows "b \<in> set acts \<or> (\<exists>th\<in>set (ths[t := rest]). b \<in> set th)"
proof -
  from assms(2) obtain j where j: "j < length ths" "th = ths[t := acts @ rest] ! j" by (auto simp: in_set_conv_nth)
  show ?thesis
  proof (cases "j = t")
    case True
    then have "b \<in> set acts \<or> b \<in> set rest" using j assms(1) by auto
    moreover have "rest \<in> set (ths[t := rest])" using True j(1) by (auto simp: set_update_memI)
    ultimately show ?thesis by blast
  next
    case False
    then have "th = ths[t := rest] ! j" "j < length (ths[t := rest])" using j by auto
    then show ?thesis using assms(1) nth_mem by blast
  qed
qed

lemma pending_before:
  assumes "t < length ths" "ths ! t = a # rest" "th \<in> set (ths[t := rest])" "b \<in> set th"
  shows "\<exists>th\<in>set ths. b \<in> set th"
proof -
  have "th = rest \<or> th \<in> set ths" using assms(3) set_update_subset_insert [of ths t rest] by auto
  moreover have "ths ! t \<in> set ths" using assms(1) by (rule nth_mem)
  moreover have "set rest \<subseteq> set (ths ! t)" using assms(2) by auto
  ultimately show ?thesis using assms(4) by blast
qed

lemma flying_active: "wasm_reach su (c, ths) \<Longrightarrow> \<forall>th\<in>set ths. \<forall>a\<in>set th. \<forall>k. flying a = Some k \<longrightarrow> wi_active c = Some k"
proof (induction rule: wasm_induct)
  case (arrive c ths a)
  have "flying b = None" if "b \<in> set (arrival_acts su (next_call c) a)" for b
    using that by (cases a) (auto split: sum.splits)
  then show ?case using arrive by fastforce
next
  case (act c ths t i c' ths')
  obtain a rest acts spawned where a: "t < length ths" "ths ! t = a # rest" "wasm_effect su i a c = Some (acts, spawned, c')"
    and ths': "ths' = ths[t := acts @ rest] @ spawned"
    using act(2) by (rule thread_step_cases)
  from head_pending [OF a(1,2)] obtain th0 where th0: "th0 \<in> set ths" "a \<in> set th0" by blast
  show ?case
  proof (intro ballI allI impI)
    fix th b k assume b: "th \<in> set ths'" "b \<in> set th" "flying b = Some k"
    then have "th \<in> set (ths[t := acts @ rest])" using ths' spawns_none [OF a(3)] by simp
    from pending_step [OF b(2) this] show "wi_active c' = Some k"
    proof
      assume "b \<in> set acts"
      from flying_acts [OF a(3) this b(3)] act(3) th0 show ?thesis by auto
    next
      assume "\<exists>th\<in>set (ths[t := rest]). b \<in> set th"
      then obtain th1 where th1: "th1 \<in> set (ths[t := rest])" "b \<in> set th1" by blast
      have "wi_active c' = wi_active c"
        using others_idle [OF act(1) a(1,2) _ th1] flying_holds [OF b(3)] active_changes [OF a(3)] by auto
      moreover have "wi_active c = Some k" using pending_before [OF a(1,2) th1] act(3) b(3) by blast
      ultimately show ?thesis by simp
    qed
  qed
qed simp

text \<open>C38: Whatever the interleaving of a call and a stop: once the instance accepts no more calls and no
  cancellation is still on its way, every call that is in the guest has been cancelled.
\<close>

theorem stop_cancels_running_call:
  assumes "wasm_reach su (c, ths)" and "\<not> wi_accepting c" and "\<forall>th\<in>set ths. \<forall>a\<in>set th. \<not> cancelling a"
    and "th \<in> set ths" and "GuestLeave t e q \<in> set th" and "e \<noteq> StopExport"
  shows "t \<in> set (wi_cancelled c)"
proof (rule ccontr)
  assume "t \<notin> set (wi_cancelled c)"
  moreover have "wi_active c = Some t" using flying_active [OF assms(1)] assms(4-6) by fastforce
  ultimately have "1 \<le> total (comes_to_cancel t) ths + total backs_out ths"
    using uncancelled_pending [OF assms(1)] assms(2) by (simp add: uncancelled_def)
  moreover have "comes_to_cancel t a = 0" if "\<not> cancelling a" for a using that by (cases a) auto
  then have "total (comes_to_cancel t) ths = 0" using assms(3) by (simp add: total_zero)
  moreover have "1 \<le> total in_guest ths" using total_pos [OF assms(4,5), of in_guest] by simp
  moreover have "backs_out a + in_guest a \<le> holds_guest a" for a by (cases a) auto
  then have "total backs_out ths + total in_guest ths \<le> total holds_guest ths"
    unfolding total_plus [symmetric] by (rule total_mono)
  ultimately show False using one_holder [OF assms(1)] by linarith
qed

theorem stop_cancels_running_call_witness:
  "\<exists>c. wasm_reach wasm_setup_sample (c, [[GuestLeave 0 CallExport (request_of wasm_setup_sample 0 JNull JNull)],
      [StopWoken 1 (request_of wasm_setup_sample 1 JNull JNull)]]) \<and> 0 \<in> set (wi_cancelled c)"
proof -
  obtain c where r: "wasm_reach wasm_setup_sample (c, [[GuestLeave 0 CallExport (request_of wasm_setup_sample 0 JNull JNull)],
      [StopWoken 1 (request_of wasm_setup_sample 1 JNull JNull)]])" "\<not> wi_accepting c"
    using stop_during_call_state by blast
  have "0 \<in> set (wi_cancelled c)"
    by (rule stop_cancels_running_call [OF r, of "[GuestLeave 0 CallExport (request_of wasm_setup_sample 0 JNull JNull)]"]) auto
  with r show ?thesis by blast
qed

subsection \<open>Nobody waits for ever\<close>

fun wakes :: "wasm_act \<Rightarrow> nat" where
  "wakes KillAlive = 1"
| "wakes NotifyAll = 1"
| "wakes _ = 0"

definition guest_out :: "wasm_instance \<Rightarrow> nat" where
  "guest_out c = of_bool (\<not> guest_here c \<and> \<not> guest_dropped c)"

fun wait_ok :: "wasm_instance \<Rightarrow> wasm_act \<Rightarrow> bool" where
  "wait_ok c (Acquire _ _ _) = (guest_dropped c \<longrightarrow> wi_stopped c)"
| "wait_ok c (StopAcquire _ _) = (\<not> guest_dropped c)"
| "wait_ok c _ = True"

definition somebody_waits :: "wasm_instance \<Rightarrow> bool" where
  "somebody_waits c \<longleftrightarrow> wi_waiting c \<noteq> {}"

interpretation waking: thread_guard "wasm_effect su" somebody_waits guest_out wakes wait_ok
  for su
proof unfold_locales
  show "somebody_waits c \<and> guest_out c + wakes a \<le> guest_out c' + weigh wakes acts + total wakes spawned
      \<or> 1 \<le> guest_out c' + weigh wakes acts + total wakes spawned"
    if "wait_ok c a" "wasm_effect su i a c = Some (acts, spawned, c')" "somebody_waits c'" for c a i acts spawned c'
    using that by (cases a) (auto simp: somebody_waits_def guest_out_def weigh_after_call split: wasm_splits)
qed

lemma waits_ok: "wasm_reach su (c, ths) \<Longrightarrow> all_acts (wait_ok c) ths"
  unfolding all_acts_def
proof (intro ballI)
  fix th a assume r: "wasm_reach su (c, ths)" and a: "th \<in> set ths" "a \<in> set th"
  show "wait_ok c a"
    using properly [OF r] one_stop [OF r] total_pos [OF a, of stops]
    by (cases a) (auto simp: stop_settled_def stop_left_def)
qed

lemma waiting_woken: "wasm_reach su (c, ths) \<Longrightarrow> somebody_waits c \<longrightarrow> 1 \<le> guest_out c + total wakes ths"
proof (induction rule: wasm_induct)
  case (act c ths t i c' ths')
  then show ?case using waking.step_guard [OF waits_ok [OF act(1)] act(2)] by blast
qed (simp_all add: instance_new_def somebody_waits_def guest_out_def arrival_weight)

lemma waiting_pending:
  assumes "wasm_reach su (c, ths)" "wi_waiting c \<noteq> {}"
  shows "\<exists>th\<in>set ths. \<exists>a\<in>set th. holds_guest a = 1 \<or> wakes a = 1"
proof -
  have "1 \<le> total (\<lambda>a. holds_guest a + wakes a) ths"
    using waiting_woken [OF assms(1)] one_holder [OF assms(1)] assms(2)
    by (auto simp: total_plus somebody_waits_def guest_out_def guest_kept_def of_bool_def split: if_splits)
  from total_exists [OF this] obtain th a where a: "th \<in> set ths" "a \<in> set th" "1 \<le> holds_guest a + wakes a" by blast
  moreover have "holds_guest a = 1 \<or> wakes a = 1" using a(3) by (cases a) auto
  ultimately show ?thesis by blast
qed

text \<open>What follows the head of a thread never waits.\<close>

fun light :: "wasm_act \<Rightarrow> bool" where
  "light (Finish _ _) = True"
| "light (Publish _ _) = True"
| "light (StopNumber _) = True"
| "light RevokeAlive = True"
| "light _ = False"

lemma light_acts: "wasm_effect su i a c = Some (acts, spawned, c') \<Longrightarrow> \<forall>b\<in>set (tl acts). light b"
  by (cases a) (auto simp: after_call_def split: wasm_splits)

lemma light_tails: "wasm_reach su (c, ths) \<Longrightarrow> \<forall>th\<in>set ths. \<forall>a\<in>set (tl th). light a"
proof (induction rule: wasm_induct)
  case (arrive c ths a)
  have "\<forall>b\<in>set (tl (arrival_acts su (next_call c) a)). light b" by (cases a) (auto split: sum.splits)
  then show ?case using arrive by simp
next
  case (act c ths t i c' ths')
  obtain a rest acts spawned where a: "t < length ths" "ths ! t = a # rest" "wasm_effect su i a c = Some (acts, spawned, c')"
    and ths': "ths' = ths[t := acts @ rest] @ spawned"
    using act(2) by (rule thread_step_cases)
  have rest: "\<forall>b\<in>set rest. light b" using act(3) nth_mem [OF a(1)] a(2) by fastforce
  have "\<forall>b\<in>set (tl (acts @ rest)). light b"
    using light_acts [OF a(3)] rest by (cases acts; cases rest) auto
  then show ?case
    using act(3) ths' spawns_none [OF a(3)] set_update_subset_insert [of ths t "acts @ rest"] by auto
qed simp

lemma heavy_head:
  assumes "wasm_reach su (c, ths)" "th \<in> set ths" "a \<in> set th" "\<not> light a"
  shows "\<exists>j rest. j < length ths \<and> ths ! j = a # rest"
proof -
  have "hd th = a" "th \<noteq> []"
    using light_tails [OF assms(1)] assms(2-4) by (cases th; auto)+
  then have "th = a # tl th" by (metis list.collapse)
  then show ?thesis using assms(2) by (metis in_set_conv_nth)
qed

fun ready_input :: "wasm_act \<Rightarrow> wasm_input" where
  "ready_input (GuestLeave _ _ _) = Answer (Inl cancelled_error)"
| "ready_input (Judge _ _ _ _) = Elapsed 0"
| "ready_input _ = Quiet"

fun blocked :: "wasm_instance \<Rightarrow> wasm_act \<Rightarrow> bool" where
  "blocked c (Woken t e q) = (t \<in> wi_waiting c)"
| "blocked c (StopWoken t q) = (t \<in> wi_waiting c)"
| "blocked c _ = False"

lemma runs_unlocked: "\<not> wi_locked c \<Longrightarrow> \<not> wi_active_locked c \<Longrightarrow> \<not> blocked c a \<Longrightarrow> wasm_effect su (ready_input a) a c \<noteq> None"
  by (cases a) (auto split: wasm_splits)

fun lock_holds :: "wasm_act \<Rightarrow> nat" where
  "lock_holds (SetActive _ _ _) = 1"
| "lock_holds (Recheck _ _ _) = 1"
| "lock_holds RollbackActive = 1"
| "lock_holds PutBack = 1"
| "lock_holds _ = 0"

interpretation locking: thread_guard "wasm_effect su" wi_locked "\<lambda>_. 0" lock_holds "\<lambda>_ _. True"
  for su
proof unfold_locales
  show "wi_locked c \<and> 0 + lock_holds a \<le> 0 + weigh lock_holds acts + total lock_holds spawned
      \<or> 1 \<le> 0 + weigh lock_holds acts + total lock_holds spawned"
    if "wasm_effect su i a c = Some (acts, spawned, c')" "wi_locked c'" for c a i acts spawned c'
    using that by (cases a) (auto simp: weigh_after_call split: wasm_splits)
qed

lemma locked_held: "wasm_reach su (c, ths) \<Longrightarrow> wi_locked c \<longrightarrow> 1 \<le> total lock_holds ths"
proof (induction rule: wasm_induct)
  case (act c ths t i c' ths')
  then show ?case using locking.step_guard [OF all_acts_True act(2)] by auto
qed (simp_all add: instance_new_def arrival_weight)

lemma runs_locked: "\<not> wi_active_locked c \<Longrightarrow> lock_holds a = 1 \<Longrightarrow> wasm_effect su (ready_input a) a c \<noteq> None"
  by (cases a) (auto split: wasm_splits)

text \<open>The lock of \<open>active\<close> is held by a cancellation, which waits for nothing.\<close>

fun cancels :: "wasm_act \<Rightarrow> nat" where
  "cancels (CancelCall _) = 1"
| "cancels (CancelGuest _) = 1"
| "cancels _ = 0"

interpretation active_locking: thread_guard "wasm_effect su" wi_active_locked "\<lambda>_. 0" cancels "\<lambda>_ _. True"
  for su
proof unfold_locales
  show "wi_active_locked c \<and> 0 + cancels a \<le> 0 + weigh cancels acts + total cancels spawned
      \<or> 1 \<le> 0 + weigh cancels acts + total cancels spawned"
    if "wasm_effect su i a c = Some (acts, spawned, c')" "wi_active_locked c'" for c a i acts spawned c'
    using that by (cases a) (auto simp: weigh_after_call split: wasm_splits)
qed

lemma active_held: "wasm_reach su (c, ths) \<Longrightarrow> wi_active_locked c \<longrightarrow> 1 \<le> total cancels ths"
proof (induction rule: wasm_induct)
  case (act c ths t i c' ths')
  then show ?case using active_locking.step_guard [OF all_acts_True act(2)] by auto
qed (simp_all add: instance_new_def arrival_weight)

lemma runs_cancel: "cancels a = 1 \<Longrightarrow> wasm_effect su i a c \<noteq> None"
  by (cases a) (auto split: wasm_splits)

text \<open>C39: No interleaving of calls, updates, cancellations and stops deadlocks: as long as some thread has
  work left, some thread can take its next step, given only that guests answer. A thread that waits
  for the guest is woken, and the lock of the state is never held for good.
\<close>

theorem instance_never_stuck:
  assumes "wasm_reach su (c, ths)" and "th \<in> set ths" and "th \<noteq> []"
  shows "\<exists>t i s. wasm_exec su (Runs t i) (c, ths) = Some s"
proof -
  have step: ?thesis if "j < length ths" "ths ! j = b # rest" "wasm_effect su (ready_input b) b c \<noteq> None" for j b rest
    using that by (intro exI [of _ j] exI [of _ "ready_input b"]) (auto simp: thread_step_def)
  show ?thesis
  proof (cases "wi_active_locked c")
    case True
    with active_held [OF assms(1)] have "1 \<le> total cancels ths" by blast
    from total_exists [OF this] obtain th1 b where b: "th1 \<in> set ths" "b \<in> set th1" "1 \<le> cancels b" by blast
    then have "cancels b = 1" "\<not> light b" by (cases b; simp)+
    with heavy_head [OF assms(1) b(1,2)] runs_cancel step show ?thesis by blast
  next
    case free: False
    show ?thesis
    proof (cases "wi_locked c")
      case True
      with locked_held [OF assms(1)] have "1 \<le> total lock_holds ths" by blast
      from total_exists [OF this] obtain th1 b where b: "th1 \<in> set ths" "b \<in> set th1" "1 \<le> lock_holds b" by blast
      then have "lock_holds b = 1" "\<not> light b" by (cases b; simp)+
      with heavy_head [OF assms(1) b(1,2)] runs_locked [OF free] step show ?thesis by blast
    next
      case False
      obtain j a rest where a: "j < length ths" "ths ! j = a # rest"
        using assms(2,3) by (metis in_set_conv_nth neq_Nil_conv)
      show ?thesis
      proof (cases "blocked c a")
        case True
        then have "wi_waiting c \<noteq> {}" by (cases a) auto
        from waiting_pending [OF assms(1) this] obtain th1 b
          where b: "th1 \<in> set ths" "b \<in> set th1" "holds_guest b = 1 \<or> wakes b = 1" by blast
        then have "\<not> blocked c b" "\<not> light b" by (cases b; auto)+
        with heavy_head [OF assms(1) b(1,2)] runs_unlocked [OF False free] step show ?thesis by blast
      next
        case not: False
        from step [OF a runs_unlocked [OF False free not]] show ?thesis .
      qed
    qed
  qed
qed

theorem instance_never_stuck_witness:
  "\<exists>c t i s. wasm_exec wasm_setup_sample (Runs t i) (c, [[GuestLeave 0 CallExport (request_of wasm_setup_sample 0 JNull JNull)],
      [StopWoken 1 (request_of wasm_setup_sample 1 JNull JNull)]]) = Some s"
proof -
  obtain c where r: "wasm_reach wasm_setup_sample (c, [[GuestLeave 0 CallExport (request_of wasm_setup_sample 0 JNull JNull)],
      [StopWoken 1 (request_of wasm_setup_sample 1 JNull JNull)]])"
    using stop_during_call_state by blast
  from instance_never_stuck [OF r, of "[StopWoken 1 (request_of wasm_setup_sample 1 JNull JNull)]"]
  have "\<exists>t i s. wasm_exec wasm_setup_sample (Runs t i) (c, [[GuestLeave 0 CallExport (request_of wasm_setup_sample 0 JNull JNull)],
      [StopWoken 1 (request_of wasm_setup_sample 1 JNull JNull)]]) = Some s"
    by simp
  then show ?thesis by blast
qed

subsection \<open>What the code does not keep\<close>

lemma updates_cross:
  "see (Arrives (UpdateArrives JNull (JStr ''a'')) # to_guest 0 @ from_guest 0 ''w:0''
    @ Arrives (UpdateArrives JNull (JStr ''b'')) # to_guest 1 @ from_guest 1 ''w:1'' @ [Runs 1 Quiet, Runs 0 Quiet])
    (\<lambda>c. (wi_config c, wi_calls c, wi_outcome c 0, wi_outcome c 1)) =
    Some ((JStr ''a'', [(UpdateExport, JStr ''a''), (UpdateExport, JStr ''b'')], Some (Inr JNull), Some (Inr JNull)), [[], []])"
  by code_simp

text \<open>\<open>update\<close> publishes the configuration after it has given the guest back: of two updates that both
  succeed, the guest keeps the second while the instance reports the first.
\<close>

theorem concurrent_updates_publish_old_config:
  "\<exists>c. wasm_reach wasm_setup_sample (c, [[], []]) \<and> wi_outcome c 0 = Some (Inr JNull) \<and> wi_outcome c 1 = Some (Inr JNull)
    \<and> wi_calls c = [(UpdateExport, JStr ''a''), (UpdateExport, JStr ''b'')] \<and> wi_config c = JStr ''a''"
  using see_reach [OF updates_cross] by (elim exE conjE) (intro exI conjI, assumption, simp_all only: prod.inject)

lemma late_cancel:
  "see (Arrives (CallArrives JNull JNull) # to_guest 0 @ [Runs 0 (Answer (Inr ''w:0''))] @ [Arrives CancelArrives, Runs 1 Quiet, Runs 1 Quiet, Runs 1 Quiet]
     @ map (\<lambda>_. Runs 0 (Elapsed 0)) [0,0,0,0,0::nat] @ Arrives StopArrives # map (\<lambda>_. Runs 2 (Elapsed 0)) [0,0,0,0,0,0,0,0,0,0,0::nat])
    (\<lambda>c. (wi_calls c, wi_cancelled c, wi_outcome c 2, guest_dropped c)) =
    Some (([(CallExport, JNull)], [0], Some (Inl cancelled_error), True), [[], [], []])"
  by code_simp

text \<open>With the in-memory engine, a cancellation of a call that is already past the guest stays set in the
  guest: the stop that follows reports that it was cancelled, which nobody asked for, and drops the
  guest without having called its stop export.
\<close>

theorem late_cancel_skips_stop:
  "\<exists>c. wasm_reach wasm_setup_sample (c, [[], [], []]) \<and> guest_dropped c \<and> wi_cancelled c = [0]
    \<and> wi_calls c = [(CallExport, JNull)] \<and> wi_outcome c 2 = Some (Inl cancelled_error)"
  using see_reach [OF late_cancel] by (elim exE conjE) (intro exI conjI, assumption, simp_all only: prod.inject simp_thms)

end
