(* ===== verification/Spec2Isabelle.thy ===== *)
theory Spec2Isabelle
  imports Config EntryTree Waiters Nesting Registry Context EventProps Protocol Watcher BridgeProps SupervisorProps Legacy PluginProps Gate ManagedProps
    WasmProps SchemaProps HostProps WasmRuntime WasmLive
begin

text \<open>
  Tessivum core: a verification development.

  The program. Tessivum is a plugin runtime in Rust. \<open>crates/tessivum-core\<close> has the ownership tree of
  scopes, effects and fibers (lifecycle.rs), the service registry with realms and staged replacements
  (service.rs), contexts that combine the two (context.rs), the event bus (events.rs), the declarative
  loader with its entry trees, patches, transactions and file watcher (loader.rs), configuration
  expressions (config.rs), native plugins (native.rs), errors and identifiers (error.rs, ids.rs).
  \<open>crates/tessivum-node-bridge\<close> runs plugins in a Node process: the framed protocol (protocol.rs), the
  client, the supervisor of host processes and the loader's runtime on top of them (supervisor.rs).
  \<open>crates/tessivum-extism\<close> runs plugins as WebAssembly guests (lib.rs). A loader drives runtimes through
  their handles; runtimes give plugins a context; contexts own services, listeners and effects, which
  the disposal of their scope takes back.

  Conventions.
  A Rust \<open>String\<close> is the list of its UTF-8 bytes. A \<open>BTreeMap\<close> is its sorted association list, behind the
  locale \<open>ordered_map\<close>. \<open>Result\<close> is a sum, with \<open>Inl\<close> the error; \<open>None\<close> of an operation that returns an
  option is a panic, a wait that does not end, or a step that is not enabled, as its theory says. The
  arguments of \<open>format!\<close> are kept as a list, \<open>{:?}\<close> symbolically. Integers are words of their width where
  they can wrap or be read from bytes; identifiers that a counter hands out are words whose exhaustion
  is the code's panic. Closures, futures, wakers and fibers are numbers or values that the operations
  pass on; what code behind a trait or outside the repository answers (plugins, hooks, resolvers,
  handlers, guests, the operating system, serde's text forms) is a parameter or an input of a step.
  Sequential code is a function on an explicit state. Concurrent code is an executable machine
  (\<open>exec_rel\<close>, \<open>reach\<close> of Prelude) with one step per lock section, atomic access or channel operation, so
  that every interleaving is a run; code on several threads uses the machine of Threads, in which a
  thread is the list of the actions it still has to perform.

  Theories and code.
  Prelude, Json, Threads: shared vocabulary, the values of serde_json, threads over a shared state.
  Ids (ids.rs, realms of service.rs), Errors (error.rs): identifiers and error values.
  Config (config.rs): \<open>config_expr\<close>, \<open>parse_expr\<close>, \<open>evaluate\<close>, \<open>evaluate_config\<close>, \<open>validate_config\<close>.
  EntryTree (loader.rs): \<open>entry_tree\<close>, \<open>validate_tree\<close>, \<open>apply_to\<close>, \<open>parse_entry_tree\<close>, \<open>persist_entry_tree\<close>.
  Waiters (lifecycle.rs): \<open>CancellationToken\<close> and \<open>DisposeCompletion\<close>.
  Lifecycle, LifecycleInv (lifecycle.rs): scopes, effects, cleanup tasks and fibers, and their invariants.
  Nesting (lifecycle.rs): effects that call \<open>dispose\<close> and wait for it, and the waits between cleanups.
  Registry (service.rs): provision, replacement, listeners, staging and \<open>reg_commit\<close>.
  Context (context.rs): providing, intercepting, publishing and disposing through a context.
  Events, EventsInv, EventProps (events.rs): registration and the five modes of dispatch.
  Settle, Loader, LoaderInv, LoaderProps, Watcher (loader.rs): \<open>all_settle\<close>, \<open>Loader::replace\<close> and the
  operations around it, sessions of a loader, \<open>EntryTreeWatcher\<close>.
  Protocol (protocol.rs): frames, validation, the length-prefixed codec.
  Bridge, BridgeInv, BridgeRuns, BridgeProps (supervisor.rs): \<open>ClientInner\<close>, \<open>BridgeClient\<close>, \<open>BridgeRequest\<close>.
  Stderr (supervisor.rs): \<open>StartupStderr\<close>. Supervisor, SupervisorProps: \<open>NodeSupervisor\<close>. Legacy:
  \<open>LegacyNodeRuntime\<close> and its handle.
  NativeConfig, NativeProps (native.rs): schemas, descriptors, configurations, the factory registry.
  NativePlugin, PluginProps (native.rs): \<open>NativePluginInstance\<close>. Gate: \<open>DependencyGate\<close>. Managed,
  ManagedProps: \<open>ManagedControl\<close>, \<open>run_managed_native\<close>, \<open>NativeRuntimeHandle\<close>.
  WasmModule, WasmProps (tessivum-extism): \<open>WasmReader\<close>, \<open>validate_wasm_exports\<close>. WasmSchema, SchemaProps:
  \<open>validate_schema\<close>, \<open>validate_config\<close>. WasmHost, WasmGuest, HostProps: \<open>PluginManifest\<close>, \<open>ResourceLimits\<close>,
  \<open>WasmPackage\<close>, \<open>CapabilityRegistry\<close>, \<open>HostBindings\<close>, \<open>call_guest\<close>, instance identities. WasmInstance,
  WasmRuns, WasmLive: \<open>WasmPluginInstance\<close> and the in-memory engine. WasmRuntime: \<open>WasmPluginRuntime\<close>
  and its handle.

  What is shown.
  Trees and patches: validation accepts exactly the trees that are well formed; a patch refines an edit
  of the flat list of sections; persistence leaves the old or the new bytes in the target, never a mixture, and a temporary file only
  where that cannot be removed; a value
  that was validated fails to evaluate only on a missing input.
  Ownership: effects run once, in reverse order, after the children, and none is lost; cleanups that dispose one another go on unless they wait in a
  ring, and a ring has at least four scopes (one of four is a finding); waiters lose no wake-up; a registry commits as a whole or not at all.
  Events: once listeners run once; the sequential modes return the first decisive value.
  Loader: a replacement is a transaction, on success and on every failure; each handle is disposed at
  most once and every error is reported; a replacement whose futures end returns; the watcher takes up each
  observed change of its source once, in order and with its own contents, and shows what came of it.
  Bridge and supervisor: the codec round trip; a request is replied to once and none waits after a
  disconnection; the threads' work ends; every host process has an owner or has been terminated; a lost
  host is released.
  Native plugins: the validator decides a conformance relation; hooks see only configurations that
  conform; starts and stops match; an update replaces the instance or keeps it; the gate misses neither
  readiness nor cancellation; what an activation reports is true, and a stop reaches the worker, but
  not the hooks of an update in progress, which run in the fiber of its candidate.
  WebAssembly: the reader accepts the encoding of a module exactly when it has the exports of the ABI;
  a host handler runs exactly when the whole gate is open; a guest call succeeds on one kind of
  response only; a failed instantiation leaves neither an identity nor a guard; calls of an instance
  are serialized, the stop is the last of them and cancels the call it finds, and nothing deadlocks.
  The findings of the manifest are theorems where a run or a value shows them.

  Locales. \<open>ordered_map\<close>, \<open>transition_invariant\<close> and \<open>transition_monotone\<close> of Prelude, the locales of
  Threads (bounds, conservation, guards, progress, invariants of actions), \<open>id_source\<close> of Ids,
  \<open>targeted_edit\<close> of EntryTree and those of Settle state the laws that the components rely on; each is
  interpreted on the model's own operations in the theory that defines them.

  Bounds and fuel. The waits of the loader (\<open>all_settle\<close> of Settle and what calls it) are partial functions
  into an option, \<open>None\<close> being a wait that never ends; LoaderProps shows that a replacement returns on
  every boundary whose pending futures need a delay that time uses up, with identifiers left for two
  scopes. An effect of Nesting awaits one
  disposal at a time, and its call of \<open>dispose\<close> is one action: the source can interleave between the
  check of \<open>is_disposing\<close> and the inheritance of the callers, but every poll repeats the check. Of what
  an effect waits for, only disposals of scopes are seen; every other running effect can return.
  A ring of waits is bounded from below for every number of scopes. The work left to the bridge's threads is a measure that every action lowers.
  \<open>allocate_instance_id\<close> takes fuel: as many attempts as there are identities and two more, which is
  enough while that is at most 2 to the 64. Request identifiers of the bridge stop at 2 to the 53 less
  one. All other recursions terminate by a measure: sizes of values and schemas, the bytes left to read.

  Not modelled.
  The guest development kit (crates/tessivum-pdk) runs inside the WebAssembly engine: its bodies are
  conversions by serde and calls of the host functions whose other side WasmHost models. The conformance
  runner (bin/conformance.rs) and the benchmark (crates/tessivum-bench) are drivers that run scripted
  scenarios against the library and print reports. The examples and the re-exporting lib.rs files have
  no logic of their own. The Node host and its oracle are TypeScript; the bridge takes their frames as
  inputs. Of the modelled files the spawning of threads and processes, process groups and job objects,
  the WebAssembly engine itself, the texts that serde writes and reads, and elapsed time (a timeout is
  an input that may or may not come) are left out. Memory orders are read as sequential consistency.
\<close>

end
